(* ===== verification/Prelude.thy ===== *)
theory Prelude
  imports Main "HOL-Library.Word"
begin

text \<open>
  Shared vocabulary of the development: names for the C integer types, the collections of
  simplification rules, and the generic facts about lists and words that the component
  theories use.  Nothing here models code.
\<close>

unbundle bit_operations_syntax

section \<open>C integer types\<close>

type_synonym u8 = "8 word"
type_synonym u16 = "16 word"
type_synonym u32 = "32 word"

section \<open>Rule collections\<close>

named_theorems fifo_defs "definitions of the byte FIFO"
named_theorems mem_defs "definitions of the block allocator"
named_theorems l1_defs "definitions of transport layer 1"
named_theorems l2_defs "definitions of transport layer 2"
named_theorems l3_defs "definitions of transport layer 3"
named_theorems rf_defs "definitions of the ring file"

section \<open>Words\<close>

lemma unat_Suc_word:
  assumes "unat (w :: 'a::len word) < 2 ^ LENGTH('a) - 1"
  shows "unat (w + 1) = Suc (unat w)"
  using assms by (simp add: unat_word_ariths)

lemma unat_Suc_below:
  assumes "unat (w :: 'a::len word) < unat (v :: 'a word)"
  shows "unat (w + 1) = Suc (unat w)"
proof -
  have "unat v < 2 ^ LENGTH('a)" by simp
  then show ?thesis using assms by (intro unat_Suc_word) linarith
qed

lemma unat_pred_word:
  assumes "(w :: 'a::len word) \<noteq> 0"
  shows "unat (w - 1) = unat w - 1"
  using assms by (simp add: unat_minus_one)

lemma unat_u8_less [simp]: "unat (w :: u8) < 256"
  using unsigned_less [of w] by simp

lemma unat_u8_le [simp]: "unat (w :: u8) \<le> 255"
  using unat_u8_less [of w] by linarith

lemma unat_u16_less [simp]: "unat (w :: u16) < 65536"
  using unsigned_less [of w] by simp

lemma word_xor_right_cancel: "((a :: 'a::len word) XOR c = b XOR c) = (a = b)"
  by (metis xor.assoc xor.right_neutral xor_self_eq)

lemma word_xor_left_cancel: "((c :: 'a::len word) XOR a = c XOR b) = (a = b)"
  by (metis word_xor_right_cancel xor.commute)

lemma unat_ucast_16_32 [simp]: "unat (ucast (w :: u16) :: u32) = unat w"
  unfolding unsigned_ucast_eq by (rule take_bit_nat_eq_self) (rule less_trans [OF unat_u16_less], simp)

lemma unat_ucast_8_16 [simp]: "unat (ucast (w :: u8) :: u16) = unat w"
  unfolding unsigned_ucast_eq by (rule take_bit_nat_eq_self) (rule less_trans [OF unat_u8_less], simp)

lemma ucast_8_16_eq_0 [simp]: "((ucast (w :: u8) :: u16) = 0) = (w = 0)"
  by (metis unat_eq_0 unat_ucast_8_16)

section \<open>Lists\<close>

lemma nth_eq_conv_distinct:
  "distinct xs \<Longrightarrow> i < length xs \<Longrightarrow> j < length xs \<Longrightarrow> (xs ! i = xs ! j) = (i = j)"
  by (rule nth_eq_iff_index_eq)

lemma mod_ring_neq:
  assumes "k < s" "s < k + m"
  shows "(h + k) mod m \<noteq> (h + s) mod (m :: nat)"
proof
  assume "(h + k) mod m = (h + s) mod m"
  then have "m dvd (h + s) - (h + k)"
    using assms(1) by (metis add_le_cancel_left less_imp_le mod_eq_dvd_iff_nat)
  then have "m \<le> s - k" using assms(1) by (auto dest: dvd_imp_le)
  with assms show False by simp
qed

lemma take_Suc_nth: "n < length xs \<Longrightarrow> take (Suc n) xs = take n xs @ [xs ! n]"
  by (rule take_Suc_conv_app_nth)

section \<open>Linked lists\<close>

text \<open>The first \<open>n\<close> nodes of the chain that starts at a pointer; \<open>l\<close> gives the link of a node.\<close>

fun walk :: "nat \<Rightarrow> ('a \<Rightarrow> 'a option) \<Rightarrow> 'a option \<Rightarrow> 'a list" where
  "walk 0 l p = []"
| "walk (Suc n) l None = []"
| "walk (Suc n) l (Some b) = b # walk n l (l b)"

lemma walk_None [simp]: "walk n l None = []"
  by (cases n) simp_all

lemma walk_cong:
  "(\<And>b. b \<in> set (walk n l p) \<Longrightarrow> l' b = l b) \<Longrightarrow> walk n l' p = walk n l p"
  by (induction n l p rule: walk.induct) auto

lemma walk_upd [simp]: "b \<notin> set (walk n l p) \<Longrightarrow> walk n (l(b := x)) p = walk n l p"
  by (rule walk_cong) auto

lemma length_walk: "length (walk n l p) \<le> n"
  by (induction n l p rule: walk.induct) auto

lemma distinct_below: "distinct xs \<Longrightarrow> \<forall>x\<in>set xs. x < n \<Longrightarrow> length xs \<le> (n :: nat)"
  using card_mono [of "{..<n}" "set xs"] by (auto simp: distinct_card)

end
