(* ===== verification/Checksum.thy ===== *)
theory Checksum
  imports Prelude
begin

text \<open>
  The checksums of \<^verbatim>\<open>library/crc8.c\<close> and \<^verbatim>\<open>library/crc16.c\<close>: the table-driven CRC-8 of the
  serial frames, the CRC-16 of the retry records and the Modbus CRC, with the lazily built
  16-bit table as explicit state.  Lemmas: both tables equal the bitwise definition of their
  polynomial, both checksums detect any corruption of a single byte, and a frame followed by
  its Modbus CRC has residue zero.
\<close>

section \<open>CRC-8 (crc8.c)\<close>

definition CRC_START_8 :: u8 where "CRC_START_8 = 0x00"

definition sht75_crc_table :: "u8 list" where
  "sht75_crc_table = [
    0, 49, 98, 83, 196, 245, 166, 151, 185, 136, 219, 234, 125, 76, 31, 46,
    67, 114, 33, 16, 135, 182, 229, 212, 250, 203, 152, 169, 62, 15, 92, 109,
    134, 183, 228, 213, 66, 115, 32, 17, 63, 14, 93, 108, 251, 202, 153, 168,
    197, 244, 167, 150, 1, 48, 99, 82, 124, 77, 30, 47, 184, 137, 218, 235,
    61, 12, 95, 110, 249, 200, 155, 170, 132, 181, 230, 215, 64, 113, 34, 19,
    126, 79, 28, 45, 186, 139, 216, 233, 199, 246, 165, 148, 3, 50, 97, 80,
    187, 138, 217, 232, 127, 78, 29, 44, 2, 51, 96, 81, 198, 247, 164, 149,
    248, 201, 154, 171, 60, 13, 94, 111, 65, 112, 35, 18, 133, 180, 231, 214,
    122, 75, 24, 41, 190, 143, 220, 237, 195, 242, 161, 144, 7, 54, 101, 84,
    57, 8, 91, 106, 253, 204, 159, 174, 128, 177, 226, 211, 68, 117, 38, 23,
    252, 205, 158, 175, 56, 9, 90, 107, 69, 116, 39, 22, 129, 176, 227, 210,
    191, 142, 221, 236, 123, 74, 25, 40, 6, 55, 100, 85, 194, 243, 160, 145,
    71, 118, 37, 20, 131, 178, 225, 208, 254, 207, 156, 173, 58, 11, 88, 105,
    4, 53, 102, 87, 192, 241, 162, 147, 189, 140, 223, 238, 121, 72, 27, 42,
    193, 240, 163, 146, 5, 52, 103, 86, 120, 73, 26, 43, 188, 141, 222, 239,
    130, 179, 224, 209, 70, 119, 36, 21, 59, 10, 89, 104, 255, 206, 157, 172
  ]"

fun crc_8_loop :: "u8 \<Rightarrow> u8 list \<Rightarrow> u8" where
  "crc_8_loop crc [] = crc"
| "crc_8_loop crc (b # bs) = crc_8_loop (sht75_crc_table ! unat (b XOR crc)) bs"

text \<open>
  The pointer argument is the memory it can read, \<open>None\<close> for \<^verbatim>\<open>NULL\<close>; a read of more bytes than
  that memory holds is \<open>None\<close>.
\<close>

definition crc_8 :: "u8 list option \<Rightarrow> nat \<Rightarrow> u8 option" where
  "crc_8 input_str num_bytes =
     (case input_str of
        None \<Rightarrow> Some CRC_START_8
      | Some mem \<Rightarrow>
          if num_bytes \<le> length mem then Some (crc_8_loop CRC_START_8 (take num_bytes mem))
          else None)"

definition update_crc_8 :: "u8 \<Rightarrow> u8 \<Rightarrow> u8" where
  "update_crc_8 crc val = sht75_crc_table ! unat (val XOR crc)"

text \<open>The reference: shift left, subtract the polynomial \<open>x\<^sup>8 + x\<^sup>5 + x\<^sup>4 + 1\<close> on carry.\<close>

definition crc8_bit :: "u8 \<Rightarrow> u8" where
  "crc8_bit c = (if bit c 7 then push_bit 1 c XOR 0x31 else push_bit 1 c)"

definition crc8_byte :: "u8 \<Rightarrow> u8" where
  "crc8_byte c = (crc8_bit ^^ 8) c"


lemma crc8_bit_num [simp]:
  "crc8_bit (numeral n) =
     (if bit (numeral n :: u8) 7 then push_bit 1 (numeral n) XOR 0x31 else push_bit 1 (numeral n))"
  "crc8_bit 0 = 0" "crc8_bit 1 = 2"
  by (simp_all add: crc8_bit_def)

lemma crc8_byte_unfold: "crc8_byte c =
  crc8_bit (crc8_bit (crc8_bit (crc8_bit (crc8_bit (crc8_bit (crc8_bit (crc8_bit c)))))))"
  by (simp add: crc8_byte_def numeral_eq_Suc)

text \<open>The unfolding at numerals only, so that each round is evaluated before the next.\<close>

lemma crc8_byte_num:
  "crc8_byte (numeral n) =
     crc8_bit (crc8_bit (crc8_bit (crc8_bit (crc8_bit (crc8_bit (crc8_bit (crc8_bit (numeral n))))))))"
  "crc8_byte 0 = 0" "crc8_byte 1 = 0x31"
  by (simp_all add: crc8_byte_unfold)

lemma sht75_crc_table_eq: "sht75_crc_table = map (\<lambda>i. crc8_byte (of_nat i)) [0..<256]"
  by (simp add: sht75_crc_table_def crc8_byte_num upt_conv_Cons)

lemma sht75_crc_table_nth: "sht75_crc_table ! unat x = crc8_byte x"
  by (simp add: sht75_crc_table_eq)

text \<open>One step of the loop is one byte of polynomial division.\<close>

definition crc8_upd :: "u8 \<Rightarrow> u8 \<Rightarrow> u8" where
  "crc8_upd c b = crc8_byte (c XOR b)"

lemma crc_8_loop_fold: "crc_8_loop c bs = fold (\<lambda>b c. crc8_upd c b) bs c"
  by (induction bs arbitrary: c) (simp_all add: crc8_upd_def sht75_crc_table_nth xor.commute)

section \<open>CRC-16 and Modbus CRC (crc16.c)\<close>

definition CRC_POLY_16 :: u16 where "CRC_POLY_16 = 0xA001"
definition CRC_START_16 :: u16 where "CRC_START_16 = 0x0000"
definition CRC_START_MODBUS :: u16 where "CRC_START_MODBUS = 0xFFFF"

text \<open>The two static variables of the file.\<close>

record crc16_state =
  crc_tab16_init :: bool
  crc_tab16 :: "u16 list"

definition crc16_state0 :: crc16_state where
  "crc16_state0 = \<lparr>crc_tab16_init = False, crc_tab16 = replicate 256 0\<rparr>"

text \<open>The inner loop of the table construction, \<open>j\<close> rounds over \<open>(crc, c)\<close>.\<close>

fun crc16_tab_loop :: "nat \<Rightarrow> u16 \<Rightarrow> u16 \<Rightarrow> u16" where
  "crc16_tab_loop 0 crc c = crc"
| "crc16_tab_loop (Suc j) crc c =
     crc16_tab_loop j
       (if (crc XOR c) AND 0x0001 \<noteq> 0 then drop_bit 1 crc XOR CRC_POLY_16 else drop_bit 1 crc)
       (drop_bit 1 c)"

definition init_crc16_tab :: "crc16_state \<Rightarrow> crc16_state" where
  "init_crc16_tab st =
     st\<lparr>crc_tab16 := map (\<lambda>i. crc16_tab_loop 8 0 (of_nat i)) [0..<256], crc_tab16_init := True\<rparr>"

definition ensure_crc16_tab :: "crc16_state \<Rightarrow> crc16_state" where
  "ensure_crc16_tab st = (if \<not> crc_tab16_init st then init_crc16_tab st else st)"

fun crc16_loop :: "u16 list \<Rightarrow> u16 \<Rightarrow> u8 list \<Rightarrow> u16" where
  "crc16_loop tab crc [] = crc"
| "crc16_loop tab crc (b # bs) =
     crc16_loop tab (drop_bit 8 crc XOR tab ! unat ((crc XOR ucast b) AND 0x00FF)) bs"

definition crc_16 :: "crc16_state \<Rightarrow> u8 list option \<Rightarrow> nat \<Rightarrow> u16 option \<times> crc16_state" where
  "crc_16 st input_str num_bytes =
     (let st = ensure_crc16_tab st in
      (case input_str of
         None \<Rightarrow> Some CRC_START_16
       | Some mem \<Rightarrow>
           if num_bytes \<le> length mem
           then Some (crc16_loop (crc_tab16 st) CRC_START_16 (take num_bytes mem))
           else None, st))"

definition crc_modbus :: "crc16_state \<Rightarrow> u8 list option \<Rightarrow> nat \<Rightarrow> u16 option \<times> crc16_state" where
  "crc_modbus st input_str num_bytes =
     (let st = ensure_crc16_tab st in
      (case input_str of
         None \<Rightarrow> Some CRC_START_MODBUS
       | Some mem \<Rightarrow>
           if num_bytes \<le> length mem
           then Some (crc16_loop (crc_tab16 st) CRC_START_MODBUS (take num_bytes mem))
           else None, st))"

definition update_crc_16 :: "crc16_state \<Rightarrow> u16 \<Rightarrow> u8 \<Rightarrow> u16 \<times> crc16_state" where
  "update_crc_16 st crc c =
     (let st = ensure_crc16_tab st in
      (drop_bit 8 crc XOR crc_tab16 st ! unat ((crc XOR ucast c) AND 0x00FF), st))"

subsection \<open>The reference division and its algebra\<close>

definition crc16_bit :: "u16 \<Rightarrow> u16" where
  "crc16_bit c = (if bit c 0 then drop_bit 1 c XOR 0xA001 else drop_bit 1 c)"

definition crc16_byte :: "u16 \<Rightarrow> u16" where
  "crc16_byte c = (crc16_bit ^^ 8) c"

definition crc16_upd :: "u16 \<Rightarrow> u8 \<Rightarrow> u16" where
  "crc16_upd c b = crc16_byte (c XOR ucast b)"

lemma and_1_bit: "((w :: u16) AND 1 \<noteq> 0) = bit w 0"
  by (simp add: and_one_eq odd_iff_mod_2_eq_one bit_0 flip: mod_2_eq_odd)

lemma crc16_bit_xor: "crc16_bit (a XOR b) = crc16_bit a XOR crc16_bit b"
  by (auto simp: crc16_bit_def bit_xor_iff ac_simps)

lemma crc16_byte_xor: "crc16_byte (a XOR b) = crc16_byte a XOR crc16_byte b"
proof -
  have "(crc16_bit ^^ n) (a XOR b) = (crc16_bit ^^ n) a XOR (crc16_bit ^^ n) b" for n
    by (induction n) (simp_all add: crc16_bit_xor)
  then show ?thesis by (simp add: crc16_byte_def)
qed

subsection \<open>Both byte steps are injective\<close>

lemma crc8_bit_bit0: "bit (crc8_bit c) 0 = bit c 7"
  unfolding crc8_bit_def by (cases "bit c 7") (simp_all only: if_True if_False bit_xor_iff bit_push_bit_iff, simp_all)

lemma inj_push_bit_1:
  assumes "push_bit 1 (c :: u8) = push_bit 1 d" and "bit c 7 = bit d 7"
  shows "c = d"
proof (rule bit_word_eqI)
  fix n assume n: "n < LENGTH(8)"
  show "bit c n = bit d n"
  proof (cases "n = 7")
    case True
    with assms show ?thesis by simp
  next
    case False
    have "bit (push_bit 1 c) (Suc n) = bit (push_bit 1 d) (Suc n)"
      by (simp only: assms)
    with False n show ?thesis unfolding bit_push_bit_iff by simp
  qed
qed

lemma inj_crc8_byte: "inj crc8_byte"
proof -
  have "inj crc8_bit"
  proof (rule injI)
    fix c d assume h: "crc8_bit c = crc8_bit d"
    then have b: "bit c 7 = bit d 7" by (metis crc8_bit_bit0)
    with h have "push_bit 1 c = push_bit 1 d"
      unfolding crc8_bit_def by (cases "bit d 7") (simp_all only: word_xor_right_cancel if_True if_False)
    with b show "c = d" by (simp only: inj_push_bit_1)
  qed
  then have "inj (crc8_bit ^^ 8)" by (rule inj_fn)
  then show ?thesis by (simp add: crc8_byte_def[abs_def])
qed

lemma crc16_bit_bit15: "bit (crc16_bit c) 15 = bit c 0"
proof -
  have "\<not> bit c 16" using bit_imp_le_length [of c 16] by auto
  then show ?thesis by (simp add: crc16_bit_def bit_xor_iff bit_drop_bit_eq)
qed

lemma inj_crc16_byte: "inj crc16_byte"
proof -
  have "inj crc16_bit"
  proof (rule injI)
    fix c d assume h: "crc16_bit c = crc16_bit d"
    then have b: "bit c 0 = bit d 0" by (metis crc16_bit_bit15)
    with h have e: "drop_bit 1 c = drop_bit 1 d"
      unfolding crc16_bit_def by (cases "bit d 0") (simp_all only: word_xor_right_cancel if_True if_False)
    show "c = d"
    proof (rule bit_word_eqI)
      fix n
      show "bit c n = bit d n"
      proof (cases n)
        case 0 with b show ?thesis by simp
      next
        case (Suc m)
        have "bit (drop_bit 1 c) m = bit (drop_bit 1 d) m" by (simp only: e)
        with Suc show ?thesis unfolding bit_drop_bit_eq by simp
      qed
    qed
  qed
  then have "inj (crc16_bit ^^ 8)" by (rule inj_fn)
  then show ?thesis by (simp add: crc16_byte_def[abs_def])
qed

declare bit_numeral_word_iff [simp del]

lemma bit_low_mask: "bit (0xFF :: u16) n = (n < 8)"
proof -
  have "(0xFF :: u16) = mask 8" by (simp add: mask_numeral)
  then have "bit (0xFF :: u16) n = bit (mask 8 :: u16) n" by (rule arg_cong)
  then show ?thesis unfolding bit_mask_iff by auto
qed

lemma bit_high_mask: "bit (0xFF00 :: u16) n = (8 \<le> n \<and> n < 16)"
proof -
  have "(0xFF00 :: u16) = push_bit 8 0xFF" by simp
  then have "bit (0xFF00 :: u16) n = bit (push_bit 8 0xFF :: u16) n" by (rule arg_cong)
  then show ?thesis unfolding bit_push_bit_iff bit_low_mask by auto
qed

text \<open>Rounds over a value whose low bits are zero only shift.\<close>

lemma crc16_bit_shift:
  assumes "n \<le> 8" and "\<forall>k < n. \<not> bit c k"
  shows "(crc16_bit ^^ n) c = drop_bit n c"
  using assms
proof (induction n arbitrary: c)
  case 0
  then show ?case by simp
next
  case (Suc n)
  have "crc16_bit c = drop_bit 1 c" using Suc.prems by (simp add: crc16_bit_def)
  moreover have "\<forall>k < n. \<not> bit (drop_bit 1 c) k"
    using Suc.prems by (simp add: bit_drop_bit_eq)
  ultimately have "(crc16_bit ^^ n) (crc16_bit c) = drop_bit n (drop_bit 1 c)"
    using Suc by simp
  then show ?case by (simp add: funpow_swap1 drop_bit_drop_bit)
qed

lemma crc16_byte_high: "crc16_byte (c AND 0xFF00) = drop_bit 8 c"
proof -
  have "\<forall>k < 8. \<not> bit (c AND 0xFF00 :: u16) k"
    by (simp add: bit_and_iff bit_high_mask)
  then have "crc16_byte (c AND 0xFF00) = drop_bit 8 (c AND 0xFF00)"
    by (simp add: crc16_byte_def crc16_bit_shift)
  also have "\<dots> = drop_bit 8 c"
    by (rule bit_word_eqI) (auto simp: bit_and_iff bit_drop_bit_eq bit_high_mask bit_low_mask dest: bit_imp_le_length)
  finally show ?thesis .
qed

lemma split_low_high: "(c :: u16) = (c AND 0xFF) XOR (c AND 0xFF00)"
  by (rule bit_word_eqI) (auto simp: bit_and_iff bit_xor_iff bit_low_mask bit_high_mask)



lemma low_byte_ucast: "ucast (ucast (c :: u16) :: u8) = c AND 0xFF"
proof -
  have "(0xFF :: u16) = mask 8" by (simp add: mask_numeral)
  then show ?thesis by (simp only: take_bit_eq_mask [symmetric]) (simp add: unsigned_ucast_eq)
qed

lemma ucast_u8_low: "(ucast (b :: u8) :: u16) AND 0xFF = ucast b"
proof (rule bit_word_eqI)
  fix n
  show "bit ((ucast b :: u16) AND 0xFF) n = bit (ucast b :: u16) n"
    unfolding bit_and_iff bit_low_mask by (auto simp: bit_simps dest: bit_imp_le_length)
qed

declare bit_numeral_word_iff [simp]

lemma crc16_byte_split: "crc16_byte c = drop_bit 8 c XOR crc16_byte (c AND 0xFF)"
proof -
  have "crc16_byte c = crc16_byte (c AND 0xFF) XOR crc16_byte (c AND 0xFF00)"
    by (subst split_low_high) (rule crc16_byte_xor)
  then show ?thesis by (simp add: crc16_byte_high xor.commute)
qed

subsection \<open>The table is the reference division\<close>

lemma crc16_tab_loop_eq: "crc16_tab_loop j crc c = (crc16_bit ^^ j) (crc XOR c) XOR drop_bit j c"
proof (induction j arbitrary: crc c)
  case 0
  then show ?case by (simp add: xor.assoc)
next
  case (Suc j)
  let ?r = "if (crc XOR c) AND 1 \<noteq> 0 then drop_bit 1 crc XOR CRC_POLY_16 else drop_bit 1 crc"
  have "?r XOR drop_bit 1 c = crc16_bit (crc XOR c)"
    unfolding and_1_bit by (auto simp: crc16_bit_def CRC_POLY_16_def ac_simps)
  then show ?case
    by (simp add: Suc funpow_swap1 drop_bit_drop_bit)
qed

definition crc16_table :: "u16 list" where
  "crc16_table = map (\<lambda>i. crc16_byte (of_nat i)) [0..<256]"

lemma init_crc16_tab_table: "crc_tab16 (init_crc16_tab st) = crc16_table"
proof -
  have "crc16_tab_loop 8 0 (of_nat i) = crc16_byte (of_nat i)" if "i < 256" for i
  proof -
    have "drop_bit 8 (of_nat i :: u16) = 0"
      using that by (simp add: drop_bit_eq_div word_div_def uint_nat unat_of_nat)
    then show ?thesis by (simp add: crc16_tab_loop_eq crc16_byte_def)
  qed
  then show ?thesis by (simp add: init_crc16_tab_def crc16_table_def)
qed

definition crc16_ok :: "crc16_state \<Rightarrow> bool" where
  "crc16_ok st \<longleftrightarrow> (crc_tab16_init st \<longrightarrow> crc_tab16 st = crc16_table)"

lemma crc16_ok_state0: "crc16_ok crc16_state0"
  by (simp add: crc16_ok_def crc16_state0_def)

lemma ensure_crc16_tab_ok:
  assumes "crc16_ok st"
  shows "crc_tab16 (ensure_crc16_tab st) = crc16_table" "crc16_ok (ensure_crc16_tab st)"
  using assms by (auto simp: ensure_crc16_tab_def crc16_ok_def init_crc16_tab_table)

lemma crc16_table_step:
  "drop_bit 8 c XOR crc16_table ! unat ((c XOR ucast (b :: u8)) AND 0xFF) = crc16_upd c b"
proof -
  let ?x = "c XOR ucast b"
  have "unat (?x AND 0xFF) \<le> unat (0xFF :: u16)"
    by (rule word_le_nat_alt [THEN iffD1]) (rule word_and_le1)
  then have "unat (?x AND 0xFF) < 256" by simp
  then have tab: "crc16_table ! unat (?x AND 0xFF) = crc16_byte (?x AND 0xFF)"
    by (simp add: crc16_table_def)
  have "drop_bit 8 ?x = drop_bit 8 c"
    by (rule bit_word_eqI) (auto simp: bit_simps dest: bit_imp_le_length)
  then have "crc16_byte ?x = drop_bit 8 c XOR crc16_byte (?x AND 0xFF)"
    using crc16_byte_split [of ?x] by simp
  then show ?thesis by (simp add: tab crc16_upd_def)
qed

lemma crc16_loop_fold: "crc16_loop crc16_table c bs = fold (\<lambda>b c. crc16_upd c b) bs c"
  by (induction bs arbitrary: c) (simp_all add: crc16_table_step)

section \<open>The interface of a byte-wise checksum\<close>

text \<open>
  A checksum that absorbs one byte per step by an injective division step detects every
  corruption of one byte: the state after the byte differs, and each later step keeps two
  different states different.
\<close>

locale byte_checksum =
  fixes division :: "'w::len word \<Rightarrow> 'w word"
    and embed :: "u8 \<Rightarrow> 'w word"
  assumes inj_division: "inj division"
    and inj_embed: "inj embed"
begin

lemma upd_state: "division (c XOR embed b) = division (d XOR embed b) \<longleftrightarrow> c = d"
  by (simp add: inj_eq [OF inj_division] word_xor_right_cancel)

lemma upd_byte: "division (c XOR embed a) = division (c XOR embed b) \<longleftrightarrow> a = b"
  by (simp add: inj_eq [OF inj_division] inj_eq [OF inj_embed] word_xor_left_cancel)

lemma fold_state:
  "fold (\<lambda>b c. division (c XOR embed b)) bs c = fold (\<lambda>b c. division (c XOR embed b)) bs d
     \<longleftrightarrow> c = d"
  by (induction bs arbitrary: c d) (simp_all add: upd_state)

lemma detects_byte:
  assumes "i < length bs" "bs ! i \<noteq> v"
  shows "fold (\<lambda>b c. division (c XOR embed b)) (bs[i := v]) c
       \<noteq> fold (\<lambda>b c. division (c XOR embed b)) bs c"
proof -
  let ?f = "fold (\<lambda>b c. division (c XOR embed b))"
  have e: "bs = take i bs @ bs ! i # drop (Suc i) bs"
    using assms(1) by (rule id_take_nth_drop)
  have "?f (bs[i := v]) c = ?f (v # drop (Suc i) bs) (?f (take i bs) c)"
    by (simp add: upd_conv_take_nth_drop assms(1))
  moreover have "?f bs c = ?f (bs ! i # drop (Suc i) bs) (?f (take i bs) c)"
    by (subst e) simp
  ultimately show ?thesis
    using assms(2) by (simp add: fold_state upd_byte)
qed

end

interpretation c8: byte_checksum crc8_byte "\<lambda>b. b"
  by unfold_locales (simp_all add: inj_crc8_byte)

interpretation c16: byte_checksum crc16_byte "ucast :: u8 \<Rightarrow> u16"
proof unfold_locales
  have "(ucast (ucast b :: u16) :: u8) = b" for b :: u8
    by (rule bit_word_eqI) (simp add: bit_simps)
  then show "inj (ucast :: u8 \<Rightarrow> u16)" by (rule inj_on_inverseI)
qed (rule inj_crc16_byte)

section \<open>Closed forms of the four operations\<close>

definition crc8_of :: "u8 list \<Rightarrow> u8" where
  "crc8_of bs = fold (\<lambda>b c. crc8_byte (c XOR b)) bs 0"

definition modbus_of :: "u8 list \<Rightarrow> u16" where
  "modbus_of bs = fold (\<lambda>b c. crc16_byte (c XOR ucast b)) bs 0xFFFF"

definition crc16_of :: "u8 list \<Rightarrow> u16" where
  "crc16_of bs = fold (\<lambda>b c. crc16_byte (c XOR ucast b)) bs 0"

lemma crc_8_loop_of: "crc_8_loop 0 bs = crc8_of bs"
  by (simp add: crc_8_loop_fold crc8_of_def crc8_upd_def)

lemma crc_8_of: "n \<le> length mem \<Longrightarrow> crc_8 (Some mem) n = Some (crc8_of (take n mem))"
  by (simp add: crc_8_def CRC_START_8_def crc_8_loop_of)

lemma crc_8_overrun: "length mem < n \<Longrightarrow> crc_8 (Some mem) n = None"
  by (simp add: crc_8_def)

lemma crc_modbus_of:
  "crc16_ok st \<Longrightarrow> n \<le> length mem \<Longrightarrow>
     crc_modbus st (Some mem) n = (Some (modbus_of (take n mem)), ensure_crc16_tab st)"
  by (simp add: crc_modbus_def Let_def ensure_crc16_tab_ok crc16_loop_fold modbus_of_def
      CRC_START_MODBUS_def crc16_upd_def)

lemma crc_16_of:
  "crc16_ok st \<Longrightarrow> n \<le> length mem \<Longrightarrow>
     crc_16 st (Some mem) n = (Some (crc16_of (take n mem)), ensure_crc16_tab st)"
  by (simp add: crc_16_def Let_def ensure_crc16_tab_ok crc16_loop_fold crc16_of_def
      CRC_START_16_def crc16_upd_def)

lemma modbus_of_append: "modbus_of (bs @ [b]) = crc16_byte (modbus_of bs XOR ucast b)"
  by (simp add: modbus_of_def)

lemma crc16_byte_0: "crc16_byte 0 = 0"
  using crc16_byte_high [of 0] by simp

lemma crc16_byte_eq_0: "crc16_byte c = 0 \<longleftrightarrow> c = 0"
  using inj_eq [OF inj_crc16_byte, of c 0] by (simp add: crc16_byte_0)

lemma word_xor_eq_0: "(a :: 'a::len word) XOR b = 0 \<longleftrightarrow> a = b"
  using word_xor_right_cancel [of a b b] by simp

lemma crc16_byte_push: "crc16_byte (push_bit 8 (ucast (b :: u8))) = ucast b"
proof -
  let ?w = "push_bit 8 (ucast b :: u16)"
  have "?w AND 0xFF00 = ?w"
    by (rule bit_word_eqI)
      (auto simp: bit_and_iff bit_push_bit_iff bit_high_mask simp del: bit_numeral_word_iff)
  moreover have "drop_bit 8 ?w = ucast b"
    by (rule bit_word_eqI) (auto simp: bit_simps dest: bit_imp_le_length)
  ultimately show ?thesis using crc16_byte_high [of ?w] by simp
qed

lemma split_bytes:
  "(c :: u16) XOR ucast (lo :: u8) = push_bit 8 (ucast (hi :: u8))
     \<longleftrightarrow> lo = ucast c \<and> hi = ucast (drop_bit 8 c)"
proof
  assume e: "c XOR ucast lo = push_bit 8 (ucast hi)"
  have b: "(bit c n \<noteq> bit lo n) = (8 \<le> n \<and> bit hi (n - 8))" if "n < 16" for n
    using arg_cong [OF e, of "\<lambda>w. bit w n"] that by (auto simp: bit_simps dest: bit_imp_le_length)
  have "bit lo n = bit c n" if "n < 8" for n
    using b [of n] that by auto
  moreover have "bit hi n = bit c (n + 8)" if "n < 8" for n
    using b [of "n + 8"] that by (auto dest: bit_imp_le_length)
  ultimately show "lo = ucast c \<and> hi = ucast (drop_bit 8 c)"
    by (auto intro!: bit_word_eqI simp: bit_simps add.commute)
next
  assume "lo = ucast c \<and> hi = ucast (drop_bit 8 c)"
  then show "c XOR ucast lo = push_bit 8 (ucast hi)"
    by (auto intro!: bit_word_eqI simp: bit_simps dest: bit_imp_le_length)
qed

lemma modbus_residue:
  "modbus_of (bs @ [lo, hi]) = 0 \<longleftrightarrow>
     lo = ucast (modbus_of bs) \<and> hi = ucast (drop_bit 8 (modbus_of bs))"
proof -
  let ?c = "modbus_of bs"
  have "modbus_of (bs @ [lo, hi]) = crc16_byte (crc16_byte (?c XOR ucast lo) XOR ucast hi)"
    using modbus_of_append [of "bs @ [lo]" hi] modbus_of_append [of bs lo] by simp
  then have "modbus_of (bs @ [lo, hi]) = 0 \<longleftrightarrow>
      crc16_byte (?c XOR ucast lo) = crc16_byte (push_bit 8 (ucast hi))"
    by (simp only: crc16_byte_eq_0 word_xor_eq_0 crc16_byte_push)
  also have "\<dots> \<longleftrightarrow> ?c XOR ucast lo = push_bit 8 (ucast hi)"
    by (rule inj_eq [OF inj_crc16_byte])
  finally show ?thesis by (simp only: split_bytes)
qed

section \<open>Properties\<close>

text \<open>The table-driven CRC-8 is polynomial division: the checksum of \<open>n\<close> readable bytes is the
  result of eight shift-and-subtract rounds per byte, with no carry lost.\<close>

theorem crc_8_is_division:
  assumes "n \<le> length mem"
  shows "crc_8 (Some mem) n = Some (fold (\<lambda>b c. (crc8_bit ^^ 8) (c XOR b)) (take n mem) 0)"
  using crc_8_of [OF assms] by (simp add: crc8_of_def crc8_byte_def)

theorem crc_8_is_division_witness:
  "crc_8 (Some [1, 2, 3]) 2 = Some (fold (\<lambda>b c. (crc8_bit ^^ 8) (c XOR b)) (take 2 [1, 2, 3]) 0)"
  by (rule crc_8_is_division) simp

text \<open>CRC-8 detects the corruption of any single byte of a message, whatever the new value.\<close>

theorem crc_8_detects_byte:
  assumes "n \<le> length mem" "i < n" "v \<noteq> mem ! i"
  shows "crc_8 (Some (mem[i := v])) n \<noteq> crc_8 (Some mem) n"
proof -
  have "crc8_of ((take n mem)[i := v]) \<noteq> crc8_of (take n mem)"
    using c8.detects_byte [of i "take n mem" v 0] assms by (simp add: crc8_of_def)
  then show ?thesis using assms by (simp add: crc_8_of take_update_swap)
qed

theorem crc_8_detects_byte_witness:
  "crc_8 (Some ([7, 8, 9][1 := 200])) 3 \<noteq> crc_8 (Some [7, 8, 9]) 3"
  by (rule crc_8_detects_byte) simp_all

text \<open>C16: the Modbus CRC computed from any state of the lazily built table is the bitwise division
  by the reflected polynomial, and the call leaves the table built and correct.\<close>

theorem crc_modbus_is_division:
  assumes "crc16_ok st" "n \<le> length mem"
  shows "fst (crc_modbus st (Some mem) n)
           = Some (fold (\<lambda>b c. (crc16_bit ^^ 8) (c XOR ucast b)) (take n mem) 0xFFFF)
       \<and> crc_tab16_init (snd (crc_modbus st (Some mem) n))
       \<and> crc16_ok (snd (crc_modbus st (Some mem) n))"
  using crc_modbus_of [OF assms] ensure_crc16_tab_ok [OF assms(1)]
  by (simp add: modbus_of_def crc16_byte_def ensure_crc16_tab_def init_crc16_tab_def)

theorem crc_modbus_is_division_witness:
  "fst (crc_modbus crc16_state0 (Some [1, 3]) 2)
     = Some (fold (\<lambda>b c. (crc16_bit ^^ 8) (c XOR ucast b)) (take 2 [1, 3 :: u8]) 0xFFFF)"
  using crc_modbus_is_division [OF crc16_ok_state0, of 2 "[1, 3]"] by simp

text \<open>A message followed by two bytes passes the residue test (CRC zero over the whole) exactly
  when the two bytes are the low and then the high byte of the message's Modbus CRC, the order in
  which the master writes and compares them.\<close>

theorem crc_modbus_residue:
  assumes "crc16_ok st"
  shows "fst (crc_modbus st (Some (bs @ [lo, hi])) (length bs + 2)) = Some 0
    \<longleftrightarrow> (\<exists>c. fst (crc_modbus st (Some bs) (length bs)) = Some c
          \<and> lo = ucast c \<and> hi = ucast (drop_bit 8 c))"
  using crc_modbus_of [OF assms, of "length bs + 2" "bs @ [lo, hi]"]
    crc_modbus_of [OF assms, of "length bs" bs] by (simp add: modbus_residue)

theorem crc_modbus_residue_witness:
  "fst (crc_modbus crc16_state0 (Some ([1, 2] @ [0, 0])) (length [1, 2 :: u8] + 2)) = Some 0
    \<longleftrightarrow> (\<exists>c. fst (crc_modbus crc16_state0 (Some [1, 2]) (length [1, 2 :: u8])) = Some c
          \<and> (0 :: u8) = ucast c \<and> (0 :: u8) = ucast (drop_bit 8 c))"
  by (rule crc_modbus_residue) (rule crc16_ok_state0)

text \<open>The CRC-16 of a retry record changes when any one of its bytes changes.\<close>

theorem crc_16_detects_byte:
  assumes "crc16_ok st" "n \<le> length mem" "i < n" "v \<noteq> mem ! i"
  shows "fst (crc_16 st (Some (mem[i := v])) n) \<noteq> fst (crc_16 st (Some mem) n)"
proof -
  have "crc16_of ((take n mem)[i := v]) \<noteq> crc16_of (take n mem)"
    using c16.detects_byte [of i "take n mem" v 0] assms by (simp add: crc16_of_def)
  then show ?thesis using assms by (simp add: crc_16_of take_update_swap)
qed

theorem crc_16_detects_byte_witness:
  "fst (crc_16 crc16_state0 (Some ([7, 8, 9][0 := 200])) 3) \<noteq> fst (crc_16 crc16_state0 (Some [7, 8, 9]) 3)"
  by (rule crc_16_detects_byte [OF crc16_ok_state0]) simp_all


end
