(* ===== verification/Fifo.thy ===== *)
theory Fifo
  imports Prelude
begin

text \<open>
  The byte FIFO of \<^verbatim>\<open>library/fifo.c\<close>, which the three UART receivers fill from their interrupt
  handlers and the tasks drain.  The model is one definition per function over the record of
  the C struct.  Lemmas: every operation refines the list of queued bytes, the protect/rewind
  pair is characterised on every state, and the interface \<open>byte_fifo\<close> carries the drain loop
  that the three clients share.
\<close>

section \<open>The struct and the operations (fifo.c, fifo.h)\<close>

record SFIFO =
  arrBuff :: "u8 list"
  u16MaxSize :: u16
  u16Size :: u16
  u16Head :: u16
  u16Tail :: u16
  bEnProtect :: bool
  u16ProtectPtr :: u16

definition FIFO_Create :: "u8 list \<Rightarrow> u16 \<Rightarrow> SFIFO" where
  "FIFO_Create buff sz =
     \<lparr>arrBuff = buff, u16MaxSize = sz, u16Size = 0, u16Head = 0, u16Tail = 0,
      bEnProtect = False, u16ProtectPtr = 0\<rparr>"

definition FIFO_Push :: "SFIFO \<Rightarrow> u8 \<Rightarrow> bool \<times> SFIFO" where
  "FIFO_Push ff b =
     (if u16Size ff < u16MaxSize ff then
        (let ff = ff\<lparr>arrBuff := (arrBuff ff)[unat (u16Tail ff) := b]\<rparr>;
             ff = ff\<lparr>u16Tail := u16Tail ff + 1\<rparr>;
             ff = (if u16Tail ff \<ge> u16MaxSize ff then ff\<lparr>u16Tail := 0\<rparr> else ff)
         in (True, ff\<lparr>u16Size := u16Size ff + 1\<rparr>))
      else (False, ff))"

text \<open>The result, the byte stored through the out-parameter, and the FIFO.\<close>

definition FIFO_Pop :: "SFIFO \<Rightarrow> bool \<times> u8 \<times> SFIFO" where
  "FIFO_Pop ff =
     (if u16Size ff \<noteq> 0 then
        (let b = arrBuff ff ! unat (u16Head ff);
             ff = ff\<lparr>u16Head := u16Head ff + 1\<rparr>;
             ff = (if u16Head ff \<ge> u16MaxSize ff then ff\<lparr>u16Head := 0\<rparr> else ff)
         in (True, b, ff\<lparr>u16Size := u16Size ff - 1\<rparr>))
      else (False, 0xFF, ff))"

definition FIFO_EnableProtect :: "SFIFO \<Rightarrow> SFIFO" where
  "FIFO_EnableProtect ff = ff\<lparr>bEnProtect := True, u16ProtectPtr := u16Head ff\<rparr>"

definition FIFO_DisableProtect :: "SFIFO \<Rightarrow> SFIFO" where
  "FIFO_DisableProtect ff = ff\<lparr>bEnProtect := False\<rparr>"

text \<open>One round of the rewind loop: step the head back, with the wrap of the ring.\<close>

definition rewind_step :: "SFIFO \<Rightarrow> SFIFO" where
  "rewind_step ff =
     (let ff = (if u16Head ff = 0 then ff\<lparr>u16Head := u16MaxSize ff - 1\<rparr>
                else ff\<lparr>u16Head := u16Head ff - 1\<rparr>)
      in ff\<lparr>u16Size := u16Size ff + 1\<rparr>)"

text \<open>The loop itself, \<open>None\<close> when it does not end.\<close>

partial_function (option) rewind_loop :: "SFIFO \<Rightarrow> SFIFO option" where
  "rewind_loop ff =
     (if u16Head ff \<noteq> u16ProtectPtr ff then
        (let ff = rewind_step ff in
         if u16Head ff = u16Tail ff then Some ff else rewind_loop ff)
      else Some ff)"

definition FIFO_RewindHead :: "SFIFO \<Rightarrow> SFIFO option" where
  "FIFO_RewindHead ff = (if bEnProtect ff then rewind_loop ff else Some ff)"

definition FIFO_IsEnablePush :: "SFIFO \<Rightarrow> bool" where
  "FIFO_IsEnablePush ff =
     (if u16Size ff = u16MaxSize ff
         \<or> bEnProtect ff \<and> u16Size ff \<noteq> 0 \<and> u16Tail ff = u16ProtectPtr ff
      then False else True)"

definition FIFO_IsEmpty :: "SFIFO \<Rightarrow> bool" where
  "FIFO_IsEmpty ff = (u16Size ff = 0)"

definition FIFO_IsFull :: "SFIFO \<Rightarrow> bool" where
  "FIFO_IsFull ff = (if FIFO_IsEnablePush ff then False else True)"

definition FIFO_GetCount :: "SFIFO \<Rightarrow> u16" where
  "FIFO_GetCount ff = u16Size ff"

definition FIFO_Reset :: "SFIFO \<Rightarrow> bool \<times> SFIFO" where
  "FIFO_Reset ff =
     (True, ff\<lparr>u16Size := 0, u16Head := 0, u16Tail := 0, bEnProtect := False, u16ProtectPtr := 0\<rparr>)"

lemmas fifo_op_defs = FIFO_Create_def FIFO_Push_def FIFO_Pop_def FIFO_EnableProtect_def
  FIFO_DisableProtect_def FIFO_IsEnablePush_def FIFO_IsEmpty_def FIFO_IsFull_def
  FIFO_GetCount_def FIFO_Reset_def

declare fifo_op_defs [fifo_defs]

section \<open>The abstraction: the list of queued bytes\<close>

definition fifo_wf :: "SFIFO \<Rightarrow> bool" where
  "fifo_wf ff \<longleftrightarrow>
     unat (u16MaxSize ff) \<le> length (arrBuff ff)
     \<and> unat (u16Head ff) < unat (u16MaxSize ff)
     \<and> unat (u16Size ff) \<le> unat (u16MaxSize ff)
     \<and> unat (u16Tail ff) = (unat (u16Head ff) + unat (u16Size ff)) mod unat (u16MaxSize ff)"

text \<open>\<open>ring_slice a m h n\<close> reads \<open>n\<close> bytes of a ring of size \<open>m\<close> from index \<open>h\<close> on.\<close>

definition ring_slice :: "u8 list \<Rightarrow> nat \<Rightarrow> nat \<Rightarrow> nat \<Rightarrow> u8 list" where
  "ring_slice a m h n = map (\<lambda>k. a ! ((h + k) mod m)) [0..<n]"

definition fifo_list :: "SFIFO \<Rightarrow> u8 list" where
  "fifo_list ff =
     ring_slice (arrBuff ff) (unat (u16MaxSize ff)) (unat (u16Head ff)) (unat (u16Size ff))"

lemma length_ring_slice [simp]: "length (ring_slice a m h n) = n"
  by (simp add: ring_slice_def)

lemma length_fifo_list: "length (fifo_list ff) = unat (u16Size ff)"
  by (simp add: fifo_list_def)

lemma fifo_wf_tail: "fifo_wf ff \<Longrightarrow> unat (u16Tail ff) < unat (u16MaxSize ff)"
  by (metis fifo_wf_def mod_less_divisor gr_zeroI not_less0)

lemma ring_slice_Suc:
  "ring_slice a m h (Suc n) = ring_slice a m h n @ [a ! ((h + n) mod m)]"
  by (simp add: ring_slice_def)

lemma ring_slice_Cons:
  "ring_slice a m h (Suc n) = a ! (h mod m) # ring_slice a m (Suc h mod m) n"
proof -
  have "[0..<Suc n] = 0 # map Suc [0..<n]" by (simp add: upt_conv_Cons map_Suc_upt)
  then show ?thesis by (simp add: ring_slice_def mod_add_left_eq [of "Suc h", symmetric] mod_simps)
qed

lemma ring_slice_append:
  "ring_slice a m h (n + k) = ring_slice a m h n @ ring_slice a m ((h + n) mod m) k"
  by (induction k) (simp_all add: ring_slice_Suc add.assoc mod_simps ring_slice_def)

lemma ring_slice_update:
  assumes "n < m" "i = (h + n) mod m"
  shows "ring_slice (a[i := b]) m h n = ring_slice a m h n"
proof -
  have "a[i := b] ! ((h + k) mod m) = a ! ((h + k) mod m)" if "k < n" for k
  proof -
    have "(h + k) mod m \<noteq> i" using mod_ring_neq [of k n m h] that assms by simp
    then show ?thesis by (simp add: nth_list_update_neq [OF not_sym])
  qed
  then show ?thesis by (simp add: ring_slice_def)
qed

section \<open>Every operation refines the list\<close>

text \<open>Stepping an index of the ring: the code's increment with its wrap.\<close>

lemma ring_next:
  assumes "unat (i :: u16) < unat (m :: u16)"
  shows "unat (if i + 1 \<ge> m then 0 else i + 1) = Suc (unat i) mod unat m"
proof -
  have "unat (i + 1) = Suc (unat i)" using assms by (rule unat_Suc_below)
  then show ?thesis using assms by (auto simp: word_le_nat_alt mod_if)
qed

lemma FIFO_Push_full: "u16Size ff \<ge> u16MaxSize ff \<Longrightarrow> FIFO_Push ff b = (False, ff)"
  by (auto simp: FIFO_Push_def)

lemma FIFO_Push_space:
  assumes "fifo_wf ff" "u16Size ff < u16MaxSize ff"
  obtains ff' where "FIFO_Push ff b = (True, ff')" "fifo_wf ff'"
    "fifo_list ff' = fifo_list ff @ [b]" "u16MaxSize ff' = u16MaxSize ff"
    "u16Head ff' = u16Head ff" "bEnProtect ff' = bEnProtect ff" "u16ProtectPtr ff' = u16ProtectPtr ff"
    "length (arrBuff ff') = length (arrBuff ff)"
proof -
  obtain ff' where push: "FIFO_Push ff b = (True, ff')"
    using assms(2) by (auto simp: FIFO_Push_def Let_def)
  let ?m = "unat (u16MaxSize ff)"
  have sz: "unat (u16Size ff) < ?m" using assms(2) by (simp add: word_less_nat_alt)
  then have m: "0 < ?m" by simp
  from assms(1) have tl: "unat (u16Tail ff) = (unat (u16Head ff) + unat (u16Size ff)) mod ?m"
    by (simp add: fifo_wf_def)
  then have tlm: "unat (u16Tail ff) < ?m" using m by simp
  have s1: "unat (u16Size ff + 1) = Suc (unat (u16Size ff))"
    using sz by (rule unat_Suc_below)
  have ff': "ff' = ff\<lparr>arrBuff := (arrBuff ff)[unat (u16Tail ff) := b],
       u16Tail := (if u16Tail ff + 1 \<ge> u16MaxSize ff then 0 else u16Tail ff + 1),
       u16Size := u16Size ff + 1\<rparr>"
    using push assms(2) by (auto simp: FIFO_Push_def Let_def)
  have wf: "fifo_wf ff'"
    using assms(1) sz ring_next [OF tlm] tl s1 by (simp add: ff' fifo_wf_def mod_simps)
  have "fifo_list ff' = fifo_list ff @ [b]"
    using assms(1) sz m tl s1 ring_slice_update [OF sz tl]
    by (simp add: ff' fifo_list_def ring_slice_Suc fifo_wf_def less_le_trans [OF mod_less_divisor])
  with that push wf show ?thesis by (simp add: ff')
qed

lemma FIFO_Pop_empty: "u16Size ff = 0 \<Longrightarrow> FIFO_Pop ff = (False, 0xFF, ff)"
  by (simp add: FIFO_Pop_def)

lemma FIFO_Pop_some:
  assumes "fifo_wf ff" "u16Size ff \<noteq> 0"
  obtains ff' where "FIFO_Pop ff = (True, hd (fifo_list ff), ff')" "fifo_wf ff'"
    "fifo_list ff' = tl (fifo_list ff)" "u16MaxSize ff' = u16MaxSize ff"
    "u16Tail ff' = u16Tail ff" "arrBuff ff' = arrBuff ff"
    "bEnProtect ff' = bEnProtect ff" "u16ProtectPtr ff' = u16ProtectPtr ff"
    "unat (u16Head ff') = Suc (unat (u16Head ff)) mod unat (u16MaxSize ff)"
    "unat (u16Size ff') = unat (u16Size ff) - 1"
proof -
  obtain b ff' where pop: "FIFO_Pop ff = (True, b, ff')"
    using assms(2) by (auto simp: FIFO_Pop_def Let_def)
  let ?m = "unat (u16MaxSize ff)"
  obtain n where n: "unat (u16Size ff) = Suc n"
    using assms(2) by (cases "unat (u16Size ff)") (auto simp: unat_eq_0)
  have h: "unat (u16Head ff) < ?m" and sz: "Suc n \<le> ?m"
    using assms(1) n by (simp_all add: fifo_wf_def)
  have s1: "unat (u16Size ff - 1) = n" using unat_pred_word [OF assms(2)] n by simp
  have b: "b = arrBuff ff ! unat (u16Head ff)"
    and ff': "ff' = ff\<lparr>u16Head := (if u16Head ff + 1 \<ge> u16MaxSize ff then 0 else u16Head ff + 1),
       u16Size := u16Size ff - 1\<rparr>"
    using pop assms(2) by (auto simp: FIFO_Pop_def Let_def)
  have wf: "fifo_wf ff'"
    using assms(1) sz ring_next [OF h] n s1 h by (simp add: ff' fifo_wf_def mod_simps)
  have l: "fifo_list ff = b # fifo_list ff'"
    using h ring_next [OF h] by (simp add: ff' fifo_list_def n s1 ring_slice_Cons b)
  show ?thesis
    using that [of ff'] pop wf l ring_next [OF h] n s1 by (simp add: ff')
qed

lemma FIFO_Reset_wf: "fifo_wf ff \<Longrightarrow> fifo_wf (snd (FIFO_Reset ff)) \<and> fifo_list (snd (FIFO_Reset ff)) = []"
  by (auto simp: FIFO_Reset_def fifo_wf_def fifo_list_def ring_slice_def)

lemma FIFO_Create_wf:
  "0 < sz \<Longrightarrow> unat sz \<le> length buff \<Longrightarrow>
     fifo_wf (FIFO_Create buff sz) \<and> fifo_list (FIFO_Create buff sz) = []"
  by (simp add: FIFO_Create_def fifo_wf_def fifo_list_def ring_slice_def word_less_nat_alt)

section \<open>The interface of a byte queue, and the drain loop its clients share\<close>

text \<open>
  The receive routines of the three serial drivers all run the same loop: \<open>n\<close> times, pop one byte
  and store it.  The receive interrupt may push bytes between two pops, because the critical-section
  macros around them are empty; \<open>arr\<close> lists the bytes that arrive before each pop.
\<close>

fun push_all :: "('f \<Rightarrow> u8 \<Rightarrow> bool \<times> 'f) \<Rightarrow> u8 list \<Rightarrow> 'f \<Rightarrow> 'f" where
  "push_all push [] f = f"
| "push_all push (b # bs) f = push_all push bs (snd (push f b))"

fun pop_n :: "('f \<Rightarrow> u8 \<Rightarrow> bool \<times> 'f) \<Rightarrow> ('f \<Rightarrow> bool \<times> u8 \<times> 'f) \<Rightarrow> nat \<Rightarrow> u8 list list \<Rightarrow> 'f \<Rightarrow> u8 list \<times> 'f" where
  "pop_n push pop 0 arr f = ([], f)"
| "pop_n push pop (Suc n) arr f =
     (let f = push_all push (concat (take 1 arr)) f;
          (ok, b, f) = pop f;
          (bs, f) = pop_n push pop n (drop 1 arr) f
      in (b # bs, f))"

locale byte_fifo =
  fixes push :: "'f \<Rightarrow> u8 \<Rightarrow> bool \<times> 'f"
    and pop :: "'f \<Rightarrow> bool \<times> u8 \<times> 'f"
    and inv :: "'f \<Rightarrow> bool"
    and abs :: "'f \<Rightarrow> u8 list"
    and cap :: "'f \<Rightarrow> nat"
  assumes push_space: "inv f \<Longrightarrow> length (abs f) < cap f \<Longrightarrow>
      \<exists>f'. push f b = (True, f') \<and> inv f' \<and> abs f' = abs f @ [b] \<and> cap f' = cap f"
    and push_full: "inv f \<Longrightarrow> \<not> length (abs f) < cap f \<Longrightarrow> push f b = (False, f)"
    and pop_some: "inv f \<Longrightarrow> abs f = b # bs \<Longrightarrow>
      \<exists>f'. pop f = (True, b, f') \<and> inv f' \<and> abs f' = bs \<and> cap f' = cap f"
    and pop_none: "inv f \<Longrightarrow> abs f = [] \<Longrightarrow> pop f = (False, 0xFF, f)"
    and inv_cap: "inv f \<Longrightarrow> length (abs f) \<le> cap f"
begin

lemma push_all_abs:
  "inv f \<Longrightarrow> inv (push_all push bs f) \<and> cap (push_all push bs f) = cap f
     \<and> abs (push_all push bs f) = abs f @ take (cap f - length (abs f)) bs"
proof (induction bs arbitrary: f)
  case (Cons b bs)
  show ?case
  proof (cases "length (abs f) < cap f")
    case True
    then obtain f' where f': "push f b = (True, f')" "inv f'" "abs f' = abs f @ [b]" "cap f' = cap f"
      using push_space Cons.prems by blast
    have "take (cap f - length (abs f)) (b # bs) = b # take (cap f - Suc (length (abs f))) bs"
      using True by (simp add: take_Cons')
    then show ?thesis using Cons.IH [OF f'(2)] f' by simp
  qed (use Cons push_full in simp)
qed simp

lemma pop_n_abs:
  "inv f \<Longrightarrow> n \<le> length (abs f) \<Longrightarrow> pop_n push pop n arr f = (bs, f') \<Longrightarrow>
     bs = take n (abs f) \<and> inv f' \<and> cap f' = cap f
     \<and> (\<exists>ys. abs f' = drop n (abs f) @ ys \<and> (concat (take n arr) = [] \<longrightarrow> ys = []))"
proof (induction n arbitrary: arr f bs)
  case (Suc n)
  define xs where "xs = concat (take 1 arr)"
  define f1 where "f1 = push_all push xs f"
  obtain k where f1: "inv f1" "cap f1 = cap f" "abs f1 = abs f @ take k xs"
    using push_all_abs [OF Suc.prems(1)] by (auto simp: f1_def)
  obtain b r where l: "abs f = b # r" using Suc.prems(2) by (cases "abs f") auto
  then obtain f2 where f2: "pop f1 = (True, b, f2)" "inv f2" "abs f2 = r @ take k xs" "cap f2 = cap f"
    using pop_some [OF f1(1)] f1 by fastforce
  obtain bs2 where n: "pop_n push pop n (drop 1 arr) f2 = (bs2, f')" and bs: "bs = b # bs2"
    using Suc.prems(3) f2(1) [unfolded f1_def xs_def] by (auto simp: Let_def split: prod.splits)
  have nr: "n \<le> length r" using Suc.prems(2) l by simp
  from Suc.IH [OF f2(2) _ n] nr f2 obtain ys where
    "bs2 = take n (abs f2)" "inv f'" "cap f' = cap f"
    "abs f' = drop n (abs f2) @ ys" "concat (take n (drop 1 arr)) = [] \<longrightarrow> ys = []" by auto
  moreover have "concat (take (Suc n) arr) = xs @ concat (take n (drop 1 arr))"
    by (cases arr) (simp_all add: xs_def)
  ultimately show ?case using bs l nr f2(3) by auto
qed simp

end

interpretation ff: byte_fifo FIFO_Push FIFO_Pop fifo_wf fifo_list "\<lambda>ff. unat (u16MaxSize ff)"
proof unfold_locales
  fix f :: SFIFO and b b' :: u8 and bs :: "u8 list"
  assume wf: "fifo_wf f"
  show "\<exists>f'. FIFO_Push f b = (True, f') \<and> fifo_wf f' \<and> fifo_list f' = fifo_list f @ [b]
      \<and> unat (u16MaxSize f') = unat (u16MaxSize f)" if "length (fifo_list f) < unat (u16MaxSize f)"
    using that FIFO_Push_space [OF wf, of b] by (metis length_fifo_list word_less_nat_alt)
  show "FIFO_Push f b = (False, f)" if "\<not> length (fifo_list f) < unat (u16MaxSize f)"
    using that by (auto intro: FIFO_Push_full simp: length_fifo_list word_le_nat_alt)
  show "\<exists>f'. FIFO_Pop f = (True, b, f') \<and> fifo_wf f' \<and> fifo_list f' = bs
      \<and> unat (u16MaxSize f') = unat (u16MaxSize f)" if "fifo_list f = b # bs"
  proof -
    have "u16Size f \<noteq> 0" using that length_fifo_list [of f] by auto
    from FIFO_Pop_some [OF wf this] that show ?thesis by (metis list.sel(1,3))
  qed
  show "FIFO_Pop f = (False, 0xFF, f)" if "fifo_list f = []"
    using that length_fifo_list [of f] by (intro FIFO_Pop_empty) (simp add: unat_eq_0)
  show "length (fifo_list f) \<le> unat (u16MaxSize f)"
    using wf by (simp add: length_fifo_list fifo_wf_def)
qed

section \<open>Protect and rewind\<close>

text \<open>
  The FIFO with \<open>d\<close> popped bytes given back: what a rewind is meant to produce.
\<close>

definition fifo_unpop :: "nat \<Rightarrow> SFIFO \<Rightarrow> SFIFO" where
  "fifo_unpop d ff = ff\<lparr>u16Head := u16ProtectPtr ff, u16Size := u16Size ff + of_nat d\<rparr>"

text \<open>The FIFO between \<open>FIFO_EnableProtect\<close> and the rewind, \<open>d\<close> bytes having been popped.\<close>

definition protected_by :: "nat \<Rightarrow> SFIFO \<Rightarrow> bool" where
  "protected_by d ff \<longleftrightarrow> fifo_wf ff \<and> bEnProtect ff
     \<and> unat (u16ProtectPtr ff) < unat (u16MaxSize ff) \<and> d < unat (u16MaxSize ff)
     \<and> unat (u16Size ff) + d \<le> unat (u16MaxSize ff)
     \<and> unat (u16Head ff) = (unat (u16ProtectPtr ff) + d) mod unat (u16MaxSize ff)"

lemma ring_prev:
  assumes "unat (h :: u16) = (p + Suc d) mod unat (m :: u16)" "p < unat m"
  shows "unat (if h = 0 then m - 1 else h - 1) = (p + d) mod unat m"
proof -
  have "m \<noteq> 0" using assms(2) by auto
  define x where "x = (p + d) mod unat m"
  have h: "unat h = (if Suc x = unat m then 0 else Suc x)"
    using assms(1) by (simp add: x_def mod_Suc)
  have "unat (if h = 0 then m - 1 else h - 1) = x"
  proof (cases "Suc x = unat m")
    case True
    then have "h = 0" using h by (simp add: unat_eq_0)
    then show ?thesis using True unat_pred_word [OF \<open>m \<noteq> 0\<close>] by simp
  next
    case False
    then have "h \<noteq> 0" using h by (metis nat.distinct(1) unat_0)
    then show ?thesis using False h by (simp add: unat_pred_word)
  qed
  then show ?thesis by (simp add: x_def)
qed

lemma mod_shift: "((p + Suc d) mod m + s) mod m = ((p + d) mod m + Suc s) mod (m :: nat)"
  unfolding mod_add_left_eq by simp

lemma rewind_step_protected:
  assumes "protected_by (Suc d) ff"
  shows "protected_by d (rewind_step ff)" and "fifo_unpop d (rewind_step ff) = fifo_unpop (Suc d) ff"
    and "u16Head (rewind_step ff) = u16Tail (rewind_step ff) \<Longrightarrow> d = 0"
    and "u16Head ff \<noteq> u16ProtectPtr ff"
proof -
  let ?m = "unat (u16MaxSize ff)" and ?p = "unat (u16ProtectPtr ff)" and ?s = "unat (u16Size ff)"
  have a: "fifo_wf ff" "bEnProtect ff" "?p < ?m" "Suc d < ?m" "?s + Suc d \<le> ?m"
    "unat (u16Head ff) = (?p + Suc d) mod ?m"
    using assms by (simp_all add: protected_by_def)
  have st: "rewind_step ff = ff\<lparr>u16Head := (if u16Head ff = 0 then u16MaxSize ff - 1 else u16Head ff - 1),
      u16Size := u16Size ff + 1\<rparr>"
    by (simp add: rewind_step_def Let_def)
  have s1: "unat (u16Size ff + 1) = Suc ?s" using a(5) by (intro unat_Suc_below [of _ "u16MaxSize ff"]) simp
  note h = ring_prev [OF a(6) a(3)]
  have t: "unat (u16Tail ff) = ((?p + d) mod ?m + Suc ?s) mod ?m"
    using a(1) unfolding a(6) fifo_wf_def mod_shift [symmetric] by simp
  show p: "protected_by d (rewind_step ff)"
    using a h s1 t by (simp add: st protected_by_def fifo_wf_def less_le_trans [OF mod_less_divisor])
  show "fifo_unpop d (rewind_step ff) = fifo_unpop (Suc d) ff"
    by (simp add: st fifo_unpop_def)
  show "d = 0" if "u16Head (rewind_step ff) = u16Tail (rewind_step ff)"
  proof (rule ccontr)
    assume "d \<noteq> 0"
    then have "Suc ?s < ?m" using a(5) by simp
    moreover have "unat (u16Head (rewind_step ff)) = unat (u16Tail (rewind_step ff))" using that by simp
    then have "(?p + d) mod ?m = ((?p + d) mod ?m + Suc ?s) mod ?m" using h t by (simp add: st)
    ultimately show False
      using mod_ring_neq [of 0 "Suc ?s" ?m "(?p + d) mod ?m"] by simp
  qed
  show "u16Head ff \<noteq> u16ProtectPtr ff"
    using mod_ring_neq [of 0 "Suc d" ?m ?p] a(3,4,6) by auto
qed

lemma rewind_loop_done: "u16Head ff = u16ProtectPtr ff \<Longrightarrow> rewind_loop ff = Some ff"
  by (simp add: rewind_loop.simps)

lemma rewind_loop_more:
  "u16Head ff \<noteq> u16ProtectPtr ff \<Longrightarrow>
     rewind_loop ff = (if u16Head (rewind_step ff) = u16Tail (rewind_step ff) then Some (rewind_step ff)
                       else rewind_loop (rewind_step ff))"
  by (subst rewind_loop.simps) (simp add: Let_def)

lemma rewind_loop_protected:
  "protected_by d ff \<Longrightarrow> rewind_loop ff = Some (fifo_unpop d ff)"
proof (induction d arbitrary: ff)
  case 0
  then have "u16Head ff = u16ProtectPtr ff" by (simp add: protected_by_def word_unat_eq_iff)
  then show ?case by (simp add: fifo_unpop_def rewind_loop_done)
next
  case (Suc d)
  note st = rewind_step_protected [OF Suc.prems]
  have "rewind_step ff = fifo_unpop 0 (rewind_step ff)" if "d = 0"
    using st(1) that by (simp add: fifo_unpop_def protected_by_def word_unat_eq_iff)
  then show ?case using st Suc.IH [OF st(1)] by (auto simp: rewind_loop_more)
qed

lemma fifo_unpop_wf:
  assumes "protected_by d ff"
  shows "fifo_wf (fifo_unpop d ff)" "length (fifo_list (fifo_unpop d ff)) = unat (u16Size ff) + d"
proof -
  have "unat (u16Size ff + of_nat d) = unat (u16Size ff) + d"
  proof -
    have "unat (u16Size ff) + d < 65536"
      using assms unat_u16_less [of "u16MaxSize ff"] unfolding protected_by_def by linarith
    then show ?thesis by (simp add: unat_word_ariths unat_of_nat mod_simps)
  qed
  then show "fifo_wf (fifo_unpop d ff)" "length (fifo_list (fifo_unpop d ff)) = unat (u16Size ff) + d"
    using assms by (simp_all add: protected_by_def fifo_wf_def fifo_unpop_def length_fifo_list mod_simps ac_simps)
qed

section \<open>Interleavings between protect and rewind\<close>

text \<open>
  Between \<open>FIFO_EnableProtect\<close> and \<open>FIFO_RewindHead\<close> the task pops and the receive interrupt
  pushes, in any order.
\<close>

datatype fifo_ev = EvPop | EvPush u8

fun fifo_run :: "fifo_ev list \<Rightarrow> SFIFO \<Rightarrow> SFIFO" where
  "fifo_run [] ff = ff"
| "fifo_run (EvPop # es) ff = fifo_run es (snd (snd (FIFO_Pop ff)))"
| "fifo_run (EvPush b # es) ff = fifo_run es (snd (FIFO_Push ff b))"

fun ev_pops :: "fifo_ev list \<Rightarrow> nat" where
  "ev_pops [] = 0"
| "ev_pops (EvPop # es) = Suc (ev_pops es)"
| "ev_pops (EvPush b # es) = ev_pops es"

fun ev_pushed :: "fifo_ev list \<Rightarrow> u8 list" where
  "ev_pushed [] = []"
| "ev_pushed (EvPop # es) = ev_pushed es"
| "ev_pushed (EvPush b # es) = b # ev_pushed es"

lemma unpop_push:
  assumes "protected_by d ff" "unat (u16Size ff) + d < unat (u16MaxSize ff)"
  shows "protected_by d (snd (FIFO_Push ff b))"
    and "fifo_unpop d (snd (FIFO_Push ff b)) = snd (FIFO_Push (fifo_unpop d ff) b)"
proof -
  have lt: "u16Size ff < u16MaxSize ff" using assms(2) by (simp add: word_less_nat_alt)
  have wf: "fifo_wf ff" using assms(1) by (simp add: protected_by_def)
  from FIFO_Push_space [OF wf lt, of b] obtain ff' where
    "FIFO_Push ff b = (True, ff')" "fifo_wf ff'" "fifo_list ff' = fifo_list ff @ [b]"
    "u16MaxSize ff' = u16MaxSize ff" "u16Head ff' = u16Head ff" "bEnProtect ff' = bEnProtect ff"
    "u16ProtectPtr ff' = u16ProtectPtr ff" by metis
  moreover have "unat (u16Size ff') = Suc (unat (u16Size ff))"
    using calculation(3) length_fifo_list [of ff'] length_fifo_list [of ff] by simp
  ultimately show "protected_by d (snd (FIFO_Push ff b))"
    using assms by (simp add: protected_by_def)
  have "u16Size (fifo_unpop d ff) < u16MaxSize ff"
    using fifo_unpop_wf(2) [OF assms(1)] assms(2) by (simp add: length_fifo_list word_less_nat_alt)
  then show "fifo_unpop d (snd (FIFO_Push ff b)) = snd (FIFO_Push (fifo_unpop d ff) b)"
    using lt by (simp add: FIFO_Push_def fifo_unpop_def Let_def)
qed

lemma unpop_pop:
  assumes "protected_by d ff" "Suc d < unat (u16MaxSize ff)" "u16Size ff \<noteq> 0"
  shows "protected_by (Suc d) (snd (snd (FIFO_Pop ff)))"
    and "fifo_unpop (Suc d) (snd (snd (FIFO_Pop ff))) = fifo_unpop d ff"
proof -
  have wf: "fifo_wf ff" using assms(1) by (simp add: protected_by_def)
  have nz: "unat (u16Size ff) \<noteq> 0" using assms(3) by (simp add: unat_eq_0)
  from FIFO_Pop_some [OF wf assms(3)] obtain ff' where
    "FIFO_Pop ff = (True, hd (fifo_list ff), ff')" "fifo_wf ff'"
    "u16MaxSize ff' = u16MaxSize ff" "bEnProtect ff' = bEnProtect ff"
    "u16ProtectPtr ff' = u16ProtectPtr ff"
    "unat (u16Head ff') = Suc (unat (u16Head ff)) mod unat (u16MaxSize ff)"
    "unat (u16Size ff') = unat (u16Size ff) - 1" by metis
  then show "protected_by (Suc d) (snd (snd (FIFO_Pop ff)))"
    using assms nz by (simp add: protected_by_def mod_simps)
  show "fifo_unpop (Suc d) (snd (snd (FIFO_Pop ff))) = fifo_unpop d ff"
    using assms(3) by (simp add: FIFO_Pop_def fifo_unpop_def Let_def)
qed

lemma fifo_run_unpop:
  "protected_by d ff \<Longrightarrow> d + ev_pops es < unat (u16MaxSize ff) \<Longrightarrow> ev_pops es \<le> unat (u16Size ff) \<Longrightarrow>
   unat (u16Size ff) + d + length (ev_pushed es) \<le> unat (u16MaxSize ff) \<Longrightarrow>
     protected_by (d + ev_pops es) (fifo_run es ff)
     \<and> fifo_unpop (d + ev_pops es) (fifo_run es ff) = push_all FIFO_Push (ev_pushed es) (fifo_unpop d ff)"
proof (induction es ff arbitrary: d rule: fifo_run.induct)
  case (2 es ff)
  have nz: "u16Size ff \<noteq> 0" using 2(4) by (auto simp: unat_eq_0)
  have wf: "fifo_wf ff" using 2(2) by (simp add: protected_by_def)
  obtain ff' where p: "FIFO_Pop ff = (True, hd (fifo_list ff), ff')" "u16MaxSize ff' = u16MaxSize ff"
    "unat (u16Size ff') = unat (u16Size ff) - 1" using FIFO_Pop_some [OF wf nz] by metis
  show ?case
    using 2(1) [of "Suc d"] unpop_pop [OF 2(2) _ nz] 2(3,4,5) p nz by (simp add: unat_eq_0)
next
  case (3 b es ff)
  have lt: "unat (u16Size ff) + d < unat (u16MaxSize ff)" using 3(5) by simp
  have wf: "fifo_wf ff" using 3(2) by (simp add: protected_by_def)
  have lt': "u16Size ff < u16MaxSize ff" using lt by (simp add: word_less_nat_alt)
  obtain ff' where p: "FIFO_Push ff b = (True, ff')" "fifo_list ff' = fifo_list ff @ [b]"
    "u16MaxSize ff' = u16MaxSize ff" using FIFO_Push_space [OF wf lt', of b] by metis
  then have "unat (u16Size ff') = Suc (unat (u16Size ff))"
    using length_fifo_list [of ff'] length_fifo_list [of ff] by simp
  then show ?case using 3(1) [of d] unpop_push [OF 3(2) lt, of b] 3(3,4,5) p by simp
qed simp_all

lemma protected_start:
  assumes "fifo_wf ff"
  shows "protected_by 0 (FIFO_EnableProtect ff)" and "fifo_unpop 0 (FIFO_EnableProtect ff) = FIFO_EnableProtect ff"
    and "fifo_list (FIFO_EnableProtect ff) = fifo_list ff" and "fifo_wf (FIFO_EnableProtect ff)"
  using assms by (auto simp: protected_by_def FIFO_EnableProtect_def fifo_unpop_def fifo_wf_def fifo_list_def)

lemma FIFO_rewind_run:
  assumes "fifo_wf ff" "ev_pops es \<le> length (fifo_list ff)" "ev_pops es < unat (u16MaxSize ff)"
    and "length (fifo_list ff) + length (ev_pushed es) \<le> unat (u16MaxSize ff)"
  shows "\<exists>ff'. FIFO_RewindHead (fifo_run es (FIFO_EnableProtect ff)) = Some ff' \<and> fifo_wf ff'
           \<and> fifo_list ff' = fifo_list ff @ ev_pushed es \<and> u16MaxSize ff' = u16MaxSize ff"
proof -
  let ?p = "FIFO_EnableProtect ff" and ?r = "fifo_run es (FIFO_EnableProtect ff)"
  note st = protected_start [OF assms(1)]
  have eq: "u16Size ?p = u16Size ff" "u16MaxSize ?p = u16MaxSize ff" by (simp_all add: FIFO_EnableProtect_def)
  have run: "protected_by (ev_pops es) ?r"
    "fifo_unpop (ev_pops es) ?r = push_all FIFO_Push (ev_pushed es) ?p"
    using fifo_run_unpop [OF st(1), of es] assms st(2) eq by (simp_all add: length_fifo_list)
  have "FIFO_RewindHead ?r = Some (fifo_unpop (ev_pops es) ?r)"
    using rewind_loop_protected [OF run(1)] run(1) by (simp add: FIFO_RewindHead_def protected_by_def)
  then show ?thesis
    using ff.push_all_abs [OF st(4), of "ev_pushed es"] st(3) assms(4) eq run(2) by (simp add: word_unat_eq_iff)
qed


lemma pop_n_run: "snd (pop_n FIFO_Push FIFO_Pop n [] ff) = fifo_run (replicate n EvPop) ff"
proof (induction n arbitrary: ff)
  case (Suc n)
  then show ?case by (auto simp: Let_def split: prod.splits) (metis snd_conv)+
qed simp

lemma ev_replicate [simp]: "ev_pops (replicate n EvPop) = n" "ev_pushed (replicate n EvPop) = []"
  by (induction n) simp_all

section \<open>The pop at the granularity of the processor\<close>

text \<open>
  \<open>FIFO_Pop\<close> decrements \<open>u16Size\<close> by a load and a store; the receive interrupt is not masked
  between them.  The first half returns the loaded size next to the popped byte.
\<close>

definition FIFO_Pop_load :: "SFIFO \<Rightarrow> u16 \<times> u8 \<times> SFIFO" where
  "FIFO_Pop_load ff =
     (let b = arrBuff ff ! unat (u16Head ff);
          ff = ff\<lparr>u16Head := u16Head ff + 1\<rparr>;
          ff = (if u16Head ff \<ge> u16MaxSize ff then ff\<lparr>u16Head := 0\<rparr> else ff)
      in (u16Size ff, b, ff))"

definition FIFO_Pop_store :: "u16 \<Rightarrow> SFIFO \<Rightarrow> SFIFO" where
  "FIFO_Pop_store reg ff = ff\<lparr>u16Size := reg - 1\<rparr>"

lemma FIFO_Pop_split:
  "u16Size ff \<noteq> 0 \<Longrightarrow>
     FIFO_Pop ff = (let (reg, b, ff') = FIFO_Pop_load ff in (True, b, FIFO_Pop_store reg ff'))"
  by (simp add: FIFO_Pop_def FIFO_Pop_load_def FIFO_Pop_store_def Let_def)

section \<open>Properties\<close>

text \<open>C15: the FIFO is a bounded queue: on every state, push appends exactly when there is room and
  otherwise changes nothing; pop returns the oldest byte, or 0xFF and the unchanged FIFO when it is
  empty; both keep the ring well formed.\<close>

theorem FIFO_is_bounded_queue:
  assumes "fifo_wf ff"
  shows "(let (ok, ff') = FIFO_Push ff b in
            ok = (length (fifo_list ff) < unat (u16MaxSize ff)) \<and> fifo_wf ff'
            \<and> fifo_list ff' = (if ok then fifo_list ff @ [b] else fifo_list ff))
       \<and> (let (ok, b', ff') = FIFO_Pop ff in
            ok = (fifo_list ff \<noteq> []) \<and> fifo_wf ff'
            \<and> (if ok then b' # fifo_list ff' = fifo_list ff else b' = 0xFF \<and> ff' = ff))"
    (is "?push \<and> ?pop")
proof
  show ?push
    using ff.push_space [OF assms, of b] ff.push_full [OF assms, of b] assms
    by (cases "length (fifo_list ff) < unat (u16MaxSize ff)") auto
  show ?pop
    using ff.pop_some [OF assms] ff.pop_none [OF assms] assms by (cases "fifo_list ff") fastforce+
qed

lemma FIFO_is_bounded_queue_witness:
  "fst (FIFO_Push (FIFO_Create [0, 0] 2) 7)"
  using FIFO_is_bounded_queue [of "FIFO_Create [0, 0] 2" 7] FIFO_Create_wf [of 2 "[0, 0]"]
  by (simp add: Let_def split: prod.splits) (simp add: FIFO_Create_def)

text \<open>However pops and received bytes interleave after \<open>FIFO_EnableProtect\<close>, as long as fewer bytes
  than the capacity are popped and the bytes popped and held never exceed the capacity,
  \<open>FIFO_RewindHead\<close> ends and gives back every popped byte, in order, before those still queued.\<close>

theorem FIFO_rewind_restores:
  assumes "fifo_wf ff" "ev_pops es \<le> length (fifo_list ff)" "ev_pops es < unat (u16MaxSize ff)"
    and "length (fifo_list ff) + length (ev_pushed es) \<le> unat (u16MaxSize ff)"
  shows "\<exists>ff'. FIFO_RewindHead (fifo_run es (FIFO_EnableProtect ff)) = Some ff' \<and> fifo_wf ff'
           \<and> fifo_list ff' = fifo_list ff @ ev_pushed es"
  using FIFO_rewind_run [OF assms] by blast

lemma FIFO_rewind_restores_witness:
  "\<exists>ff'. FIFO_RewindHead (fifo_run [EvPop, EvPush 9]
            (FIFO_EnableProtect (push_all FIFO_Push [5, 6] (FIFO_Create [0, 0, 0] 3)))) = Some ff'
         \<and> fifo_wf ff' \<and> fifo_list ff' = [5, 6] @ [9]"
proof -
  have "fifo_wf (push_all FIFO_Push [5, 6] (FIFO_Create [0, 0, 0] 3))
      \<and> fifo_list (push_all FIFO_Push [5, 6] (FIFO_Create [0, 0, 0] 3)) = [5, 6]
      \<and> u16MaxSize (push_all FIFO_Push [5, 6] (FIFO_Create [0, 0, 0] 3)) = 3"
    using FIFO_Create_wf [of 3 "[0, 0, 0]"]
      ff.push_all_abs [of "FIFO_Create [0, 0, 0] 3" "[5, 6]"]
    by (simp add: FIFO_Create_def word_unat_eq_iff)
  then show ?thesis
    using FIFO_rewind_restores [of "push_all FIFO_Push [5, 6] (FIFO_Create [0, 0, 0] 3)" "[EvPop, EvPush 9]"]
    by simp
qed

text \<open>\<open>FIFO_Push\<close> does not honour the protected region: on a full FIFO, one pop and one push
  after \<open>FIFO_EnableProtect\<close> overwrite the popped byte although \<open>FIFO_IsEnablePush\<close> refuses, and the
  rewind then ends with a size one above the capacity.\<close>

theorem FIFO_rewind_overflow:
  assumes "fifo_wf ff" "u16Size ff = u16MaxSize ff" "1 < u16MaxSize ff" "u16MaxSize ff < 0xFFFF"
  shows "\<not> FIFO_IsEnablePush (snd (snd (FIFO_Pop (FIFO_EnableProtect ff))))
         \<and> (\<exists>ff'. FIFO_RewindHead (fifo_run [EvPop, EvPush b] (FIFO_EnableProtect ff)) = Some ff'
           \<and> u16Size ff' = u16MaxSize ff + 1 \<and> u16MaxSize ff' = u16MaxSize ff \<and> arrBuff ff' ! unat (u16Head ff') = b \<and> \<not> fifo_wf ff')"
proof -
  let ?m = "u16MaxSize ff" and ?h = "u16Head ff" and ?p = "FIFO_EnableProtect ff"
  define n where "n = (if ?h + 1 \<ge> ?m then 0 else ?h + 1)"
  have h: "unat ?h < unat ?m" and m: "unat (1 :: u16) < unat ?m" "unat ?m < unat (0xFFFF :: u16)"
    using assms by (simp_all only: fifo_wf_def word_less_nat_alt)
  have t: "u16Tail ff = ?h" using assms h by (simp add: fifo_wf_def word_unat_eq_iff)
  have un: "unat n = Suc (unat ?h) mod unat ?m" unfolding n_def by (rule ring_next [OF h])
  have prev: "(if n = 0 then ?m - 1 else n - 1) = ?h"
    using ring_prev [of n "unat ?h" 0 ?m] un h by (simp add: word_unat_eq_iff)
  have nh: "n \<noteq> ?h"
    using mod_ring_neq [of 0 1 "unat ?m" "unat ?h"] m(1) un h by (auto simp: word_unat_eq_iff)
  have nz: "?m \<noteq> 0" "0 < ?m" using h by (auto simp: word_less_nat_alt)
  have pop: "snd (snd (FIFO_Pop ?p)) = ?p\<lparr>u16Head := n, u16Size := ?m - 1\<rparr>"
    using nz assms(2) by (simp add: FIFO_Pop_def FIFO_EnableProtect_def n_def Let_def)
  have m1: "?m - 1 \<noteq> 0" "?m - 1 < ?m"
    using assms(3) nz by (auto simp: word_less_nat_alt unat_pred_word)
  have no: "\<not> FIFO_IsEnablePush (snd (snd (FIFO_Pop ?p)))"
    using m1 t unfolding pop by (simp add: FIFO_IsEnablePush_def FIFO_EnableProtect_def)
  have run: "fifo_run [EvPop, EvPush b] ?p =
      ?p\<lparr>u16Head := n, u16Tail := n, u16Size := ?m, arrBuff := (arrBuff ff)[unat ?h := b]\<rparr>"
    using m1 t unfolding fifo_run.simps pop
    by (simp add: FIFO_Push_def FIFO_EnableProtect_def Let_def n_def)
  let ?q = "?p\<lparr>u16Head := ?h, u16Tail := n, u16Size := ?m + 1, arrBuff := (arrBuff ff)[unat ?h := b]\<rparr>"
  have "rewind_loop (fifo_run [EvPop, EvPush b] ?p) = Some ?q"
    unfolding run using nh prev
    by (subst rewind_loop_more)
      (auto simp: rewind_step_def Let_def FIFO_EnableProtect_def rewind_loop_done split: if_splits)
  then have "FIFO_RewindHead (fifo_run [EvPop, EvPush b] ?p) = Some ?q"
    unfolding run by (simp add: FIFO_RewindHead_def FIFO_EnableProtect_def)
  moreover have "unat (?m + 1) = Suc (unat ?m)" using m(2) by (rule unat_Suc_below)
  ultimately show ?thesis
    using no h assms(1) by (auto simp: fifo_wf_def FIFO_EnableProtect_def)
qed

lemma FIFO_rewind_overflow_witness:
  "\<exists>ff'. FIFO_RewindHead (fifo_run [EvPop, EvPush 9]
            (FIFO_EnableProtect (push_all FIFO_Push [5, 6] (FIFO_Create [0, 0] 2)))) = Some ff'
         \<and> u16Size ff' = 3"
proof -
  let ?f = "push_all FIFO_Push [5, 6] (FIFO_Create [0, 0] 2)"
  have f: "fifo_wf ?f" "u16Size ?f = 2" "u16MaxSize ?f = 2"
    using FIFO_Create_wf [of 2 "[0, 0]"] ff.push_all_abs [of "FIFO_Create [0, 0] 2" "[5, 6]"]
    by (simp_all add: FIFO_Create_def FIFO_Push_def Let_def)
  have *: "\<exists>ff'. FIFO_RewindHead (fifo_run [EvPop, EvPush 9] (FIFO_EnableProtect ?f)) = Some ff'
      \<and> u16Size ff' = u16MaxSize ?f + 1 \<and> u16MaxSize ff' = u16MaxSize ?f \<and> arrBuff ff' ! unat (u16Head ff') = 9 \<and> \<not> fifo_wf ff'"
    by (rule conjunct2 [OF FIFO_rewind_overflow]) (use f in simp_all)
  show ?thesis using * f by auto
qed

text \<open>\<open>FIFO_Pop\<close> is not safe against the receive interrupt: when a byte is pushed between the load
  and the store of \<open>u16Size\<close>, the store drops the increment, so the byte just pushed is not counted
  and the ring is no longer well formed.\<close>

theorem FIFO_pop_race:
  assumes "fifo_wf ff" "u16Size ff \<noteq> 0" "u16Size ff < u16MaxSize ff"
    and "FIFO_Pop_load ff = (reg, b, ff1)" "FIFO_Push ff1 c = (ok, ff2)"
  shows "ok \<and> fifo_list (FIFO_Pop_store reg ff2) = tl (fifo_list ff)
         \<and> \<not> fifo_wf (FIFO_Pop_store reg ff2)"
proof -
  let ?m = "unat (u16MaxSize ff)" and ?s = "unat (u16Size ff)"
  define n where "n = (if u16Head ff + 1 \<ge> u16MaxSize ff then 0 else u16Head ff + 1)"
  define t where "t = (if u16Tail ff + 1 \<ge> u16MaxSize ff then 0 else u16Tail ff + 1)"
  have a: "unat (u16Head ff) < ?m" "unat (u16Tail ff) = (unat (u16Head ff) + ?s) mod ?m"
    "unat (u16Tail ff) < ?m" "?s < ?m" "0 < ?s"
    using assms(1,2,3) fifo_wf_tail [OF assms(1)] by (auto simp: fifo_wf_def word_less_nat_alt unat_gt_0)
  then have un: "unat n = Suc (unat (u16Head ff)) mod ?m" "unat t = Suc (unat (u16Tail ff)) mod ?m"
    unfolding n_def t_def by (simp_all only: ring_next)
  have pop: "FIFO_Pop ff = (True, b, ff\<lparr>u16Head := n, u16Size := u16Size ff - 1\<rparr>)"
    and l: "reg = u16Size ff" "ff1 = ff\<lparr>u16Head := n\<rparr>"
    using assms(2,4) by (auto simp: FIFO_Pop_load_def FIFO_Pop_def Let_def n_def)
  have ok: "ok" and ff2: "FIFO_Pop_store reg ff2 = ff\<lparr>arrBuff := (arrBuff ff)[unat (u16Tail ff) := c],
      u16Head := n, u16Size := u16Size ff - 1, u16Tail := t\<rparr>"
    using assms(3,5) l by (auto simp: FIFO_Push_def FIFO_Pop_store_def Let_def t_def)
  have s1: "unat (u16Size ff - 1) = ?s - 1" using assms(2) by (rule unat_pred_word)
  have tl: "unat (u16Tail ff) = (unat n + (?s - 1)) mod ?m"
    unfolding un(1) mod_add_left_eq using a by simp
  have "fifo_list (FIFO_Pop_store reg ff2) = fifo_list (ff\<lparr>u16Head := n, u16Size := u16Size ff - 1\<rparr>)"
    unfolding ff2 using a s1 ring_slice_update [OF _ tl] by (simp add: fifo_list_def)
  moreover have "\<dots> = tl (fifo_list ff)"
    using FIFO_Pop_some [OF assms(1,2)] pop by (metis prod.inject)
  moreover have "unat t \<noteq> unat (u16Tail ff)"
    using mod_ring_neq [of 0 1 ?m "unat (u16Tail ff)"] a(3,4,5) un(2) by simp
  then have "unat t \<noteq> (unat n + (?s - 1)) mod ?m" unfolding tl .
  ultimately show ?thesis using ok unfolding ff2 by (simp add: fifo_wf_def s1)
qed


lemma FIFO_pop_race_witness:
  "fifo_list (FIFO_Pop_store 1 (snd (FIFO_Push (snd (snd (FIFO_Pop_load
      (snd (FIFO_Push (FIFO_Create [0, 0] 2) 5))))) 6))) = []"
proof -
  let ?f = "snd (FIFO_Push (FIFO_Create [0, 0] 2) 5)"
  have f: "fifo_wf ?f \<and> fifo_list ?f = [5]" "u16Size ?f = 1" "u16MaxSize ?f = 2"
    using FIFO_Create_wf [of 2 "[0, 0]"] ff.push_all_abs [of "FIFO_Create [0, 0] 2" "[5]"]
    by (simp_all add: FIFO_Create_def FIFO_Push_def Let_def)
  show ?thesis
    using FIFO_pop_race [of ?f 1 "fst (snd (FIFO_Pop_load ?f))" "snd (snd (FIFO_Pop_load ?f))" 6] f
    by (cases "FIFO_Push (snd (snd (FIFO_Pop_load ?f))) 6") (simp add: FIFO_Pop_load_def Let_def)
qed

end
