(* ===== verification/FixedMem.thy ===== *)
theory FixedMem
  imports Prelude
begin

text \<open>
  The fixed-size block allocator of \<^verbatim>\<open>uC-Helper/os_helper.c\<close> over the memory partitions of
  \<^verbatim>\<open>os_mem.c\<close>, and the frame buffers of \<^verbatim>\<open>library/mem.c\<close> that are taken from it.

  A block is named by its partition and its index in the partition's storage.  A free block holds
  the link to the next free one in its first word; an allocated block holds the identifier of its
  partition in its first two bytes, which is all \<open>OSA_FixedMemFree\<close> has to find the partition again.
  Lemmas: the allocator invariant and its preservation, and the interface \<open>block_pool\<close>, through
  which the transport layers use the allocator.
\<close>

section \<open>State\<close>

datatype part_id = P8 | P16 | P32 | P64 | P128 | P272 | P512

fun psize :: "part_id \<Rightarrow> u32" where
  "psize P8 = 8" | "psize P16 = 16" | "psize P32 = 32" | "psize P64 = 64"
| "psize P128 = 128" | "psize P272 = 272" | "psize P512 = 512"

fun pcount :: "part_id \<Rightarrow> u16" where
  "pcount P8 = 20" | "pcount P16 = 30" | "pcount P32 = 10" | "pcount P64 = 15"
| "pcount P128 = 20" | "pcount P272 = 15" | "pcount P512 = 6"

type_synonym blk = "part_id \<times> nat"

record OS_MEM =
  FreeListPtr :: "nat option"
  NbrFree :: u16
  NbrMax :: u16

text \<open>
  A frame buffer: \<open>SMem\<close>, the \<open>SFrameInfo\<close> after it and the frame bytes after that.  The pointers
  \<open>u8Body\<close>, \<open>pFrame\<close> and \<open>pu8Data\<close> always hold the addresses of those parts of the same block.
\<close>

record smem =
  pNext :: "blk option"
  i16TimeOut :: u16
  u8NumSend :: u8
  u8Ctrl :: u8
  u8Seq :: u8
  u16DLen :: u16
  frame :: "u8 list"

text \<open>
  \<open>blkId\<close> is the pair of bytes at the start of a block; \<open>linkId\<close> gives what these bytes are while the
  block holds a link (the low half of an address, fixed by the placement of the storage).
\<close>

record mem_state =
  parts :: "part_id \<Rightarrow> OS_MEM"
  blkLink :: "blk \<Rightarrow> nat option"
  blkId :: "blk \<Rightarrow> u8 \<times> u8"
  linkId :: "part_id \<Rightarrow> nat option \<Rightarrow> u8 \<times> u8"
  mallocCount :: u32
  smems :: "blk \<Rightarrow> smem"

text \<open>The state before initialisation: the globals are zero.\<close>

definition mem_bss :: mem_state where
  "mem_bss = \<lparr>parts = (\<lambda>p. \<lparr>FreeListPtr = None, NbrFree = 0, NbrMax = 0\<rparr>), blkLink = (\<lambda>b. None),
     blkId = (\<lambda>b. (0, 0)), linkId = (\<lambda>p l. (0, 0)), mallocCount = 0,
     smems = (\<lambda>b. \<lparr>pNext = None, i16TimeOut = 0, u8NumSend = 0, u8Ctrl = 0, u8Seq = 0, u16DLen = 0,
                     frame = replicate (unat (psize (fst b)) - 24) 0\<rparr>)\<rparr>"

section \<open>The partitions (os\_mem.c)\<close>

definition OSMemCreate :: "part_id \<Rightarrow> u16 \<Rightarrow> mem_state \<Rightarrow> mem_state" where
  "OSMemCreate p n ms =
     ms\<lparr>blkLink := (\<lambda>b. if fst b = p \<and> snd b < unat n
                        then (if snd b < unat n - 1 then Some (Suc (snd b)) else None) else blkLink ms b),
        parts := (parts ms)(p := \<lparr>FreeListPtr = Some 0, NbrFree = n, NbrMax = n\<rparr>)\<rparr>"

definition OSMemGet :: "part_id \<Rightarrow> mem_state \<Rightarrow> nat option \<times> mem_state" where
  "OSMemGet p ms =
     (let m = parts ms p in
      if NbrFree m = 0 then (None, ms)
      else (case FreeListPtr m of
              None \<Rightarrow> (None, ms)
            | Some b \<Rightarrow>
                (Some b, ms\<lparr>parts := (parts ms)(p := m\<lparr>FreeListPtr := blkLink ms (p, b),
                                                       NbrFree := NbrFree m - 1\<rparr>)\<rparr>)))"

text \<open>\<open>False\<close> is \<open>OS_ERR_MEM_FULL\<close>.\<close>

definition OSMemPut :: "part_id \<Rightarrow> nat \<Rightarrow> mem_state \<Rightarrow> bool \<times> mem_state" where
  "OSMemPut p b ms =
     (let m = parts ms p in
      if NbrFree m \<ge> NbrMax m then (False, ms)
      else (True,
        ms\<lparr>blkLink := (blkLink ms)((p, b) := FreeListPtr m),
           blkId := (blkId ms)((p, b) := linkId ms p (FreeListPtr m)),
           parts := (parts ms)(p := m\<lparr>FreeListPtr := Some b, NbrFree := NbrFree m + 1\<rparr>)\<rparr>))"

section \<open>The allocator (os\_helper.c)\<close>

definition select_part :: "u32 \<Rightarrow> part_id option" where
  "select_part sz =
     (if sz \<le> 8 then Some P8
      else if sz > 8 \<and> sz \<le> 16 then Some P16
      else if sz > 16 \<and> sz \<le> 32 then Some P32
      else if sz > 32 \<and> sz \<le> 64 then Some P64
      else if sz > 64 \<and> sz \<le> 128 then Some P128
      else if sz > 128 \<and> sz \<le> 272 then Some P272
      else if sz > 272 \<and> sz \<le> 512 then Some P512
      else None)"

definition OSA_FixedMemMalloc :: "u32 \<Rightarrow> mem_state \<Rightarrow> blk option \<times> mem_state" where
  "OSA_FixedMemMalloc reqSise ms =
     (case select_part reqSise of
        None \<Rightarrow> (None, ms)
      | Some p \<Rightarrow>
          (case OSMemGet p ms of
             (None, ms) \<Rightarrow> (None, ms)
           | (Some b, ms) \<Rightarrow>
               (let uiSize = psize p;
                    ms = ms\<lparr>mallocCount := mallocCount ms + 1\<rparr>;
                    ms = ms\<lparr>blkId := (blkId ms)((p, b) :=
                              (ucast (drop_bit 8 uiSize AND 0xFF), ucast (uiSize AND 0xFF)))\<rparr>
                in (Some (p, b), ms))))"

definition read_id :: "u8 \<times> u8 \<Rightarrow> u16" where
  "read_id bb = ((push_bit 8 (ucast (fst bb)) AND 0xFF00) OR ucast (snd bb))"

definition part_of_id :: "u16 \<Rightarrow> part_id option" where
  "part_of_id i =
     (if i = 8 then Some P8 else if i = 16 then Some P16 else if i = 32 then Some P32
      else if i = 64 then Some P64 else if i = 128 then Some P128 else if i = 272 then Some P272
      else if i = 512 then Some P512 else None)"

text \<open>
  The block is returned to the partition its identifier names; its index there is the index it has in
  its own storage when the identifier is intact.
\<close>

definition OSA_FixedMemFree :: "blk \<Rightarrow> mem_state \<Rightarrow> mem_state" where
  "OSA_FixedMemFree b ms =
     (case part_of_id (read_id (blkId ms b)) of
        None \<Rightarrow> ms
      | Some p \<Rightarrow>
          (let ms = snd (OSMemPut p (snd b) ms)
           in ms\<lparr>mallocCount := mallocCount ms - 1\<rparr>))"

definition OSA_FixedMemInit :: "mem_state \<Rightarrow> mem_state" where
  "OSA_FixedMemInit ms =
     OSMemCreate P512 6 (OSMemCreate P272 15 (OSMemCreate P128 20 (OSMemCreate P64 15
       (OSMemCreate P32 10 (OSMemCreate P16 30 (OSMemCreate P8 20 ms))))))"

section \<open>Frame buffers (mem.c)\<close>

definition upd_smem :: "blk \<Rightarrow> (smem \<Rightarrow> smem) \<Rightarrow> mem_state \<Rightarrow> mem_state" where
  "upd_smem b f ms = ms\<lparr>smems := (smems ms)(b := f (smems ms b))\<rparr>"

definition Mem_Alloc :: "u16 \<Rightarrow> mem_state \<Rightarrow> blk option \<times> mem_state" where
  "Mem_Alloc sz ms =
     (case OSA_FixedMemMalloc (ucast sz) ms of
        (None, ms) \<Rightarrow> (None, ms)
      | (Some b, ms) \<Rightarrow> (Some b, upd_smem b (\<lambda>m. m\<lparr>pNext := None\<rparr>) ms))"

definition Mem_Free :: "blk \<Rightarrow> mem_state \<Rightarrow> mem_state" where
  "Mem_Free b ms = OSA_FixedMemFree b ms"

section \<open>The invariant\<close>

definition id_bytes :: "part_id \<Rightarrow> u8 \<times> u8" where
  "id_bytes p = (ucast (drop_bit 8 (psize p) AND 0xFF), ucast (psize p AND 0xFF))"

definition free_list :: "part_id \<Rightarrow> mem_state \<Rightarrow> nat list" where
  "free_list p ms =
     walk (unat (NbrFree (parts ms p))) (\<lambda>i. blkLink ms (p, i)) (FreeListPtr (parts ms p))"

definition used_blocks :: "mem_state \<Rightarrow> blk set" where
  "used_blocks ms = {(p, i). i < unat (pcount p) \<and> i \<notin> set (free_list p ms)}"

definition part_ok :: "part_id \<Rightarrow> mem_state \<Rightarrow> bool" where
  "part_ok p ms \<longleftrightarrow>
     NbrMax (parts ms p) = pcount p
     \<and> length (free_list p ms) = unat (NbrFree (parts ms p))
     \<and> distinct (free_list p ms)
     \<and> (\<forall>i \<in> set (free_list p ms). i < unat (pcount p))
     \<and> (\<forall>i < unat (pcount p). i \<notin> set (free_list p ms) \<longrightarrow> blkId ms (p, i) = id_bytes p)"

definition mem_ok :: "mem_state \<Rightarrow> bool" where
  "mem_ok ms \<longleftrightarrow> (\<forall>p. part_ok p ms)"

lemma read_id_bytes: "part_of_id (read_id (id_bytes p)) = Some p"
  by (cases p) (simp_all add: id_bytes_def read_id_def part_of_id_def)

lemma mem_ok_upd_smem [simp]: "mem_ok (upd_smem b f ms) = mem_ok ms"
  by (simp add: mem_ok_def part_ok_def free_list_def upd_smem_def)

lemma used_upd_smem [simp]: "used_blocks (upd_smem b f ms) = used_blocks ms"
  by (simp add: used_blocks_def free_list_def upd_smem_def)

lemma smems_upd_smem [simp]: "smems (upd_smem b f ms) = (smems ms)(b := f (smems ms b))"
  by (simp add: upd_smem_def)

lemma OSMemGet_ok:
  assumes "part_ok p ms"
  shows "(NbrFree (parts ms p) = 0 \<and> OSMemGet p ms = (None, ms)) \<or>
     (\<exists>b ms' r. OSMemGet p ms = (Some b, ms') \<and> free_list p ms = b # r \<and> free_list p ms' = r
        \<and> unat (NbrFree (parts ms' p)) = length r \<and> NbrMax (parts ms' p) = NbrMax (parts ms p)
        \<and> blkId ms' = blkId ms \<and> smems ms' = smems ms
        \<and> (\<forall>q. q \<noteq> p \<longrightarrow> parts ms' q = parts ms q) \<and> blkLink ms' = blkLink ms)"
proof (cases "NbrFree (parts ms p) = 0")
  case False
  then obtain n where n: "unat (NbrFree (parts ms p)) = Suc n"
    by (metis not0_implies_Suc unat_eq_0)
  moreover have "length (free_list p ms) = Suc n" using assms n by (simp add: part_ok_def)
  ultimately obtain b where b: "FreeListPtr (parts ms p) = Some b"
    by (cases "FreeListPtr (parts ms p)") (auto simp: free_list_def)
  have "unat (NbrFree (parts ms p) - 1) = n" using False n by (simp add: unat_pred_word)
  then show ?thesis
    using False n b \<open>length (free_list p ms) = Suc n\<close>
    by (auto simp: OSMemGet_def Let_def free_list_def)
qed (simp add: OSMemGet_def)

lemma free_list_other:
  "parts ms' q = parts ms q \<Longrightarrow> (\<And>i. blkLink ms' (q, i) = blkLink ms (q, i)) \<Longrightarrow>
     free_list q ms' = free_list q ms"
  by (simp add: free_list_def)

lemma Malloc_ok:
  assumes "mem_ok ms" "OSA_FixedMemMalloc sz ms = (r, ms')"
  shows "mem_ok ms' \<and> smems ms' = smems ms \<and>
     (case r of
        Some (p, i) \<Rightarrow> select_part sz = Some p \<and> (p, i) \<notin> used_blocks ms \<and> i < unat (pcount p)
                       \<and> used_blocks ms' = insert (p, i) (used_blocks ms)
      | None \<Rightarrow> ms' = ms \<and> (case select_part sz of None \<Rightarrow> True | Some p \<Rightarrow> free_list p ms = []))"
proof (cases "select_part sz")
  case None
  then show ?thesis using assms by (auto simp: OSA_FixedMemMalloc_def)
next
  case (Some p)
  have p: "part_ok p ms" using assms(1) by (simp add: mem_ok_def)
  from OSMemGet_ok [OF this] show ?thesis
  proof (elim disjE exE conjE)
    assume "NbrFree (parts ms p) = 0" "OSMemGet p ms = (None, ms)"
    then show ?thesis using assms Some by (auto simp: OSA_FixedMemMalloc_def free_list_def)
  next
    fix b ms1 rs
    assume g: "OSMemGet p ms = (Some b, ms1)" "free_list p ms = b # rs" "free_list p ms1 = rs"
      "unat (NbrFree (parts ms1 p)) = length rs" "NbrMax (parts ms1 p) = NbrMax (parts ms p)"
      "blkId ms1 = blkId ms" "smems ms1 = smems ms" "\<forall>q. q \<noteq> p \<longrightarrow> parts ms1 q = parts ms q"
      "blkLink ms1 = blkLink ms"
    have r: "r = Some (p, b)" and ms': "blkId ms' = (blkId ms1)((p, b) := id_bytes p)"
      "parts ms' = parts ms1" "blkLink ms' = blkLink ms1" "smems ms' = smems ms1"
      using assms(2) Some g(1) by (auto simp: OSA_FixedMemMalloc_def Let_def id_bytes_def)
    have fl: "free_list q ms' = (if q = p then rs else free_list q ms)" for q
      using g ms' by (simp add: free_list_def)
    have "part_ok q ms'" for q
      using assms(1) g ms' p by (cases "q = p") (auto simp: part_ok_def fl mem_ok_def)
    moreover have "used_blocks ms' = insert (p, b) (used_blocks ms)"
      using p g(2) by (auto simp: used_blocks_def fl part_ok_def split: if_splits)
    ultimately show ?thesis using r g p Some ms' by (auto simp: mem_ok_def part_ok_def used_blocks_def)
  qed
qed

lemma Free_ok:
  assumes "mem_ok ms" "b \<in> used_blocks ms"
  shows "mem_ok (OSA_FixedMemFree b ms) \<and> used_blocks (OSA_FixedMemFree b ms) = used_blocks ms - {b}
         \<and> smems (OSA_FixedMemFree b ms) = smems ms"
proof -
  obtain p i where b: "b = (p, i)" by (cases b)
  have p: "part_ok p ms" using assms(1) by (simp add: mem_ok_def)
  let ?fl = "free_list p ms" and ?m = "parts ms p"
  have i: "i < unat (pcount p)" "i \<notin> set ?fl" using assms(2) b by (simp_all add: used_blocks_def)
  have id: "part_of_id (read_id (blkId ms (p, i))) = Some p"
    using p i by (simp add: part_ok_def read_id_bytes)
  have "length (i # ?fl) \<le> unat (pcount p)"
    using p i by (intro distinct_below) (auto simp: part_ok_def)
  then have lt: "unat (NbrFree ?m) < unat (NbrMax ?m)" using p by (simp add: part_ok_def)
  then have s1: "unat (NbrFree ?m + 1) = Suc (unat (NbrFree ?m))" by (rule unat_Suc_below)
  define ms' where "ms' = OSA_FixedMemFree b ms"
  have ms': "blkLink ms' = (blkLink ms)((p, i) := FreeListPtr ?m)" "smems ms' = smems ms"
    "parts ms' = (parts ms)(p := ?m\<lparr>FreeListPtr := Some i, NbrFree := NbrFree ?m + 1\<rparr>)"
    "\<And>q j. (q, j) \<noteq> (p, i) \<Longrightarrow> blkId ms' (q, j) = blkId ms (q, j)"
    using lt id by (auto simp: ms'_def b OSA_FixedMemFree_def OSMemPut_def Let_def not_le
        word_less_nat_alt word_le_nat_alt)
  have w: "walk (unat (NbrFree ?m)) (\<lambda>x. if x = i then y else blkLink ms (p, x)) (FreeListPtr ?m) = ?fl" for y
    unfolding free_list_def by (rule walk_cong) (use i(2) in \<open>auto simp: free_list_def\<close>)
  have fl: "free_list q ms' = (if q = p then i # ?fl else free_list q ms)" for q
    using s1 w by (auto simp: free_list_def [of _ ms'] ms') (auto simp: free_list_def)
  have "part_ok q ms'" for q
    using assms(1) p i s1 ms' by (cases "q = p") (auto simp: part_ok_def fl mem_ok_def)
  moreover have "used_blocks ms' = used_blocks ms - {b}"
    using b by (auto simp: used_blocks_def fl split: if_splits)
  ultimately show ?thesis using ms' by (simp add: ms'_def mem_ok_def)
qed

section \<open>Initialisation\<close>

lemma walk_upt:
  assumes "\<And>i. i < n \<Longrightarrow> l i = (if i < n - 1 then Some (Suc i) else None)"
  shows "j + k = n \<Longrightarrow> walk k l (if k = 0 then None else Some j) = [j..<n]"
proof (induction k arbitrary: j)
  case (Suc k)
  then have "l j = (if k = 0 then None else Some (Suc j))" using assms [of j] by auto
  then show ?case using Suc.IH [of "Suc j"] Suc.prems by (simp add: upt_conv_Cons)
qed simp

lemma OSA_FixedMemInit_parts:
  "parts (OSA_FixedMemInit ms) p = \<lparr>FreeListPtr = Some 0, NbrFree = pcount p, NbrMax = pcount p\<rparr>"
  by (cases p) (simp_all add: OSA_FixedMemInit_def OSMemCreate_def)

lemma OSA_FixedMemInit_link:
  "i < unat (pcount p) \<Longrightarrow>
     blkLink (OSA_FixedMemInit ms) (p, i) = (if i < unat (pcount p) - 1 then Some (Suc i) else None)"
  by (cases p) (simp_all add: OSA_FixedMemInit_def OSMemCreate_def)

lemma OSA_FixedMemInit_free: "free_list p (OSA_FixedMemInit ms) = [0..<unat (pcount p)]"
proof -
  have "0 < unat (pcount p)" by (cases p) simp_all
  then show ?thesis
    using walk_upt [of "unat (pcount p)" "\<lambda>i. blkLink (OSA_FixedMemInit ms) (p, i)" 0 "unat (pcount p)"]
    by (simp add: free_list_def OSA_FixedMemInit_parts OSA_FixedMemInit_link)
qed

lemma OSA_FixedMemInit_ok: "mem_ok (OSA_FixedMemInit ms)" "used_blocks (OSA_FixedMemInit ms) = {}"
  by (simp_all add: mem_ok_def part_ok_def used_blocks_def OSA_FixedMemInit_free OSA_FixedMemInit_parts)

section \<open>The interface of a block pool\<close>

fun alloc_all :: "('n \<Rightarrow> 's \<Rightarrow> 'b option \<times> 's) \<Rightarrow> 'n list \<Rightarrow> 's \<Rightarrow> 'b list \<times> 's" where
  "alloc_all alloc [] s = ([], s)"
| "alloc_all alloc (n # ns) s =
     (let (r, s) = alloc n s;
          (bs, s) = alloc_all alloc ns s
      in (case r of None \<Rightarrow> bs | Some b \<Rightarrow> b # bs, s))"

locale block_pool =
  fixes alloc :: "'n \<Rightarrow> 's \<Rightarrow> 'b option \<times> 's"
    and dealloc :: "'b \<Rightarrow> 's \<Rightarrow> 's"
    and ok :: "'s \<Rightarrow> bool"
    and used :: "'s \<Rightarrow> 'b set"
  assumes alloc_some: "ok s \<Longrightarrow> alloc n s = (Some b, s') \<Longrightarrow>
      ok s' \<and> b \<notin> used s \<and> used s' = insert b (used s)"
    and alloc_none: "ok s \<Longrightarrow> alloc n s = (None, s') \<Longrightarrow> s' = s"
    and dealloc_used: "ok s \<Longrightarrow> b \<in> used s \<Longrightarrow> ok (dealloc b s) \<and> used (dealloc b s) = used s - {b}"
begin

lemma alloc_ok: "ok s \<Longrightarrow> alloc n s = (r, s') \<Longrightarrow> ok s' \<and> used s \<subseteq> used s'"
  using alloc_some alloc_none by (cases r) blast+

lemma alloc_dealloc:
  "ok s \<Longrightarrow> alloc n s = (Some b, s') \<Longrightarrow> ok (dealloc b s') \<and> used (dealloc b s') = used s"
  using alloc_some dealloc_used by fastforce

lemma alloc_all_ok:
  "ok s \<Longrightarrow> alloc_all alloc ns s = (bs, s') \<Longrightarrow>
     ok s' \<and> distinct bs \<and> set bs \<inter> used s = {} \<and> used s' = used s \<union> set bs"
proof (induction ns arbitrary: s bs)
  case (Cons n ns)
  obtain r s1 where a: "alloc n s = (r, s1)" by fastforce
  obtain bs1 where b: "alloc_all alloc ns s1 = (bs1, s')" using Cons.prems a by (auto split: prod.splits)
  have s1: "ok s1" using alloc_ok [OF Cons.prems(1) a] by simp
  note ih = Cons.IH [OF s1 b]
  show ?case
  proof (cases r)
    case None
    then show ?thesis using Cons.prems a b ih alloc_none by auto
  next
    case (Some x)
    then have "bs = x # bs1" using Cons.prems a b by simp
    then show ?thesis using alloc_some [OF Cons.prems(1) a [unfolded Some]] ih by auto
  qed
qed simp

lemma dealloc_all_ok:
  "ok s \<Longrightarrow> distinct bs \<Longrightarrow> set bs \<subseteq> used s \<Longrightarrow>
     ok (fold dealloc bs s) \<and> used (fold dealloc bs s) = used s - set bs"
proof (induction bs arbitrary: s)
  case (Cons b bs)
  then show ?case using dealloc_used [of s b] Cons.IH [of "dealloc b s"] by auto
qed simp

end

lemma Mem_Alloc_some:
  assumes "mem_ok ms" "Mem_Alloc sz ms = (Some (p, i), ms')"
  shows "mem_ok ms' \<and> select_part (ucast sz) = Some p \<and> i < unat (pcount p) \<and> (p, i) \<notin> used_blocks ms
     \<and> used_blocks ms' = insert (p, i) (used_blocks ms)
     \<and> smems ms' = (smems ms)((p, i) := (smems ms (p, i))\<lparr>pNext := None\<rparr>)"
proof -
  obtain r ms1 where m: "OSA_FixedMemMalloc (ucast sz) ms = (r, ms1)" by fastforce
  have "r = Some (p, i)" "ms' = upd_smem (p, i) (\<lambda>m. m\<lparr>pNext := None\<rparr>) ms1"
    using assms(2) m by (auto simp: Mem_Alloc_def split: option.splits)
  then show ?thesis using Malloc_ok [OF assms(1) m] by simp
qed

lemma Mem_Alloc_none:
  assumes "mem_ok ms" "Mem_Alloc sz ms = (None, ms')"
  shows "ms' = ms \<and> (case select_part (ucast sz) of None \<Rightarrow> True | Some p \<Rightarrow> free_list p ms = [])"
proof -
  obtain r ms1 where m: "OSA_FixedMemMalloc (ucast sz) ms = (r, ms1)" by fastforce
  have "r = None" "ms' = ms1" using assms(2) m by (auto simp: Mem_Alloc_def split: option.splits)
  then show ?thesis using Malloc_ok [OF assms(1) m] by simp
qed

interpretation mp: block_pool Mem_Alloc Mem_Free mem_ok used_blocks
proof unfold_locales
  fix ms ms' :: mem_state and n :: u16 and b :: blk
  assume ok: "mem_ok ms"
  show "mem_ok ms' \<and> b \<notin> used_blocks ms \<and> used_blocks ms' = insert b (used_blocks ms)"
    if "Mem_Alloc n ms = (Some b, ms')"
    using Mem_Alloc_some [OF ok] that by (cases b) auto
  show "ms' = ms" if "Mem_Alloc n ms = (None, ms')" using Mem_Alloc_none [OF ok that] by simp
  show "mem_ok (Mem_Free b ms) \<and> used_blocks (Mem_Free b ms) = used_blocks ms - {b}"
    if "b \<in> used_blocks ms" using Free_ok [OF ok that] by (simp add: Mem_Free_def)
qed

interpretation fm: block_pool OSA_FixedMemMalloc OSA_FixedMemFree mem_ok used_blocks
proof unfold_locales
  fix ms ms' :: mem_state and n :: u32 and b :: blk
  assume ok: "mem_ok ms"
  show "mem_ok ms' \<and> b \<notin> used_blocks ms \<and> used_blocks ms' = insert b (used_blocks ms)"
    if "OSA_FixedMemMalloc n ms = (Some b, ms')"
    using Malloc_ok [OF ok that] by (cases b) auto
  show "ms' = ms" if "OSA_FixedMemMalloc n ms = (None, ms')" using Malloc_ok [OF ok that] by simp
  show "mem_ok (OSA_FixedMemFree b ms) \<and> used_blocks (OSA_FixedMemFree b ms) = used_blocks ms - {b}"
    if "b \<in> used_blocks ms" using Free_ok [OF ok that] by simp
qed

section \<open>Properties\<close>

definition best_fit :: "u32 \<Rightarrow> part_id \<Rightarrow> bool" where
  "best_fit sz p \<longleftrightarrow> sz \<le> psize p \<and> (\<forall>q. sz \<le> psize q \<longrightarrow> psize p \<le> psize q)"

lemma part_id_all: "(\<forall>q. P q) = (P P8 \<and> P P16 \<and> P P32 \<and> P P64 \<and> P P128 \<and> P P272 \<and> P P512)"
  by (metis part_id.exhaust)

lemma select_part_nat:
  "select_part sz =
     (let n = unat sz in
      if n \<le> 8 then Some P8 else if n \<le> 16 then Some P16 else if n \<le> 32 then Some P32
      else if n \<le> 64 then Some P64 else if n \<le> 128 then Some P128 else if n \<le> 272 then Some P272
      else if n \<le> 512 then Some P512 else None)"
  by (simp add: select_part_def word_le_nat_alt word_less_nat_alt Let_def)

lemma best_fit_nat:
  "best_fit sz p \<longleftrightarrow> unat sz \<le> unat (psize p) \<and> (\<forall>q. unat sz \<le> unat (psize q) \<longrightarrow> unat (psize p) \<le> unat (psize q))"
  by (simp add: best_fit_def word_le_nat_alt)

lemma select_part_best: "select_part sz = Some p \<Longrightarrow> best_fit sz p"
  unfolding select_part_nat best_fit_nat part_id_all Let_def
  by (simp split: if_splits)

lemma select_part_none: "select_part sz = None \<longleftrightarrow> 512 < sz"
  by (auto simp: select_part_nat word_less_nat_alt Let_def split: if_splits)

text \<open>The allocator serves a request of at most 512 bytes with a fresh block of the smallest partition
  that fits, and fails, changing nothing, only for a larger request or when that partition is used up;
  it never falls back on a larger partition.\<close>

theorem FixedMem_alloc_spec:
  assumes "mem_ok ms" "OSA_FixedMemMalloc sz ms = (r, ms')"
  shows "mem_ok ms' \<and>
     (case r of
        Some (p, i) \<Rightarrow> best_fit sz p \<and> i < unat (pcount p) \<and> (p, i) \<notin> used_blocks ms
                       \<and> used_blocks ms' = insert (p, i) (used_blocks ms)
      | None \<Rightarrow> ms' = ms \<and>
          (512 < sz \<or> (\<exists>p. best_fit sz p \<and> (\<forall>i < unat (pcount p). (p, i) \<in> used_blocks ms))))"
proof (cases "select_part sz")
  case None
  then show ?thesis
    using Malloc_ok [OF assms] select_part_none [of sz] by (auto split: option.splits)
next
  case (Some p)
  then show ?thesis
    using Malloc_ok [OF assms] select_part_best [OF Some] by (fastforce simp: used_blocks_def split: option.splits)
qed

lemma FixedMem_alloc_spec_witness:
  "mem_ok (snd (OSA_FixedMemMalloc 32 (OSA_FixedMemInit mem_bss)))"
  using FixedMem_alloc_spec [OF OSA_FixedMemInit_ok(1) [of mem_bss],
      of 32 "fst (OSA_FixedMemMalloc 32 (OSA_FixedMemInit mem_bss))"
        "snd (OSA_FixedMemMalloc 32 (OSA_FixedMemInit mem_bss))"]
  by simp

text \<open>C14: whatever sequence of allocations is made, the blocks handed out are pairwise distinct and were
  not in use, and freeing them in any order brings the pool back to the set of blocks in use before:
  the pool does not fragment or leak.\<close>

theorem FixedMem_no_fragmentation:
  assumes "mem_ok ms" "alloc_all Mem_Alloc sizes ms = (bs, ms')" "distinct bs'" "set bs' = set bs"
  shows "distinct bs \<and> set bs \<inter> used_blocks ms = {}
         \<and> mem_ok (fold Mem_Free bs' ms') \<and> used_blocks (fold Mem_Free bs' ms') = used_blocks ms"
  using mp.alloc_all_ok [OF assms(1,2)] mp.dealloc_all_ok [of ms' bs'] assms(3,4) by auto

lemma FixedMem_no_fragmentation_witness:
  "used_blocks (fold Mem_Free (rev (fst (alloc_all Mem_Alloc [32, 272, 32] (OSA_FixedMemInit mem_bss))))
      (snd (alloc_all Mem_Alloc [32, 272, 32] (OSA_FixedMemInit mem_bss)))) = {}"
proof -
  let ?a = "alloc_all Mem_Alloc [32, 272, 32] (OSA_FixedMemInit mem_bss)"
  have "distinct (fst ?a)"
    using mp.alloc_all_ok [OF OSA_FixedMemInit_ok(1) [of mem_bss], of "[32, 272, 32]" "fst ?a" "snd ?a"] by simp
  then show ?thesis
    using FixedMem_no_fragmentation [OF OSA_FixedMemInit_ok(1) [of mem_bss],
        of "[32, 272, 32]" "fst ?a" "snd ?a" "rev (fst ?a)"]
    by (simp add: OSA_FixedMemInit_ok(2))
qed

end
