(* ===== verification/MemQueue.thy ===== *)
theory MemQueue
  imports FixedMem "HOL-Library.Monad_Syntax"
begin

text \<open>
  The queue of frame buffers of \<^verbatim>\<open>library/queue.c\<close>: a singly linked list threaded through the \<open>pNext\<close>
  fields of the buffers, with head and tail pointers and an 8-bit count.  The pointer code is modelled
  on the store of buffers; \<open>None\<close> is a NULL dereference (or a search that never ends).  Lemmas: every
  operation refines an operation on the list of queued buffers and leaves all other buffers alone.
\<close>

section \<open>The operations (queue.c)\<close>

text \<open>
  \<open>mtx\<close> is the outcome of \<open>OSA_MutexLock\<close> in the current step: \<open>False\<close> when another task holds the
  mutex past the timeout.
\<close>

record SQueue =
  pHead :: "blk option"
  pTail :: "blk option"
  mtx :: bool
  u8Size :: u8

definition Queue_Init :: "bool \<Rightarrow> SQueue \<Rightarrow> bool \<times> SQueue" where
  "Queue_Init created q = (created, q\<lparr>pHead := None, pTail := None, u8Size := 0\<rparr>)"

definition set_next :: "blk \<Rightarrow> blk option \<Rightarrow> mem_state \<Rightarrow> mem_state" where
  "set_next b n ms = upd_smem b (\<lambda>m. m\<lparr>pNext := n\<rparr>) ms"

definition Queue_Append :: "SQueue \<Rightarrow> blk option \<Rightarrow> mem_state \<Rightarrow> (SQueue \<times> mem_state) option" where
  "Queue_Append q buf ms =
     (if mtx q then do {
        (q, ms) \<leftarrow> (if u8Size q = 0 then Some (q\<lparr>pHead := buf\<rparr>, ms)
                    else do { t \<leftarrow> pTail q; Some (q, set_next t buf ms) });
        let q = q\<lparr>pTail := buf\<rparr>;
        b \<leftarrow> buf;
        let ms = set_next b None ms;
        Some (q\<lparr>u8Size := u8Size q + 1\<rparr>, ms)
      }
      else Some (q, ms))"

text \<open>The search loop: the pair of the previous and the matching buffer, \<open>None\<close> for no match.\<close>

partial_function (option) search_loop ::
  "(smem \<Rightarrow> bool) \<Rightarrow> mem_state \<Rightarrow> blk option \<Rightarrow> blk option \<Rightarrow> (blk option \<times> blk option) option" where
  "search_loop crit ms prev cur =
     (case cur of
        None \<Rightarrow> Some (prev, None)
      | Some b \<Rightarrow> if crit (smems ms b) then Some (prev, cur)
                  else search_loop crit ms cur (pNext (smems ms b)))"

definition Queue_Read_Or_Remove ::
  "SQueue \<Rightarrow> bool \<Rightarrow> (smem \<Rightarrow> bool) option \<Rightarrow> mem_state \<Rightarrow> (blk option \<times> SQueue \<times> mem_state) option" where
  "Queue_Read_Or_Remove q remove_mode search ms =
     (if \<not> mtx q then Some (None, q, ms)
      else if u8Size q \<noteq> 0 then do {
        (prev, cur) \<leftarrow> (case search of
                          None \<Rightarrow> Some (pHead q, pHead q)
                        | Some crit \<Rightarrow> search_loop crit ms (pHead q) (pHead q));
        (case cur of
           None \<Rightarrow> Some (None, q, ms)
         | Some c \<Rightarrow>
             if remove_mode then do {
               (q, ms) \<leftarrow> (if cur = pHead q then Some (q\<lparr>pHead := pNext (smems ms c)\<rparr>, ms)
                           else do { p \<leftarrow> prev; Some (q, set_next p (pNext (smems ms c)) ms) });
               let q = (if cur = pTail q then q\<lparr>pTail := prev\<rparr> else q);
               let q = q\<lparr>u8Size := u8Size q - 1\<rparr>;
               let q = (if pHead q = None then q\<lparr>pTail := None\<rparr> else q);
               Some (cur, q, ms)
             }
             else Some (cur, q, ms))
      }
      else Some (None, q, ms))"

definition Queue_Remove :: "SQueue \<Rightarrow> (smem \<Rightarrow> bool) option \<Rightarrow> mem_state \<Rightarrow> (blk option \<times> SQueue \<times> mem_state) option" where
  "Queue_Remove q search ms = Queue_Read_Or_Remove q True search ms"

definition Queue_Read :: "SQueue \<Rightarrow> (smem \<Rightarrow> bool) option \<Rightarrow> mem_state \<Rightarrow> (blk option \<times> SQueue \<times> mem_state) option" where
  "Queue_Read q search ms = Queue_Read_Or_Remove q False search ms"

partial_function (option) Queue_Flush :: "SQueue \<Rightarrow> mem_state \<Rightarrow> (SQueue \<times> mem_state) option" where
  "Queue_Flush q ms =
     (if u8Size q > 0 then
        Option.bind (Queue_Remove q None ms) (\<lambda>(r, q, ms).
          case r of None \<Rightarrow> Some (q\<lparr>u8Size := 0\<rparr>, ms)
                  | Some b \<Rightarrow> Queue_Flush q (Mem_Free b ms))
      else Some (q, ms))"

definition Queue_GetSize :: "SQueue \<Rightarrow> u8" where
  "Queue_GetSize q = u8Size q"

section \<open>The abstraction: the list of queued buffers\<close>

fun chain :: "('a \<Rightarrow> 'a option) \<Rightarrow> 'a option \<Rightarrow> 'a list \<Rightarrow> bool" where
  "chain l p [] = (p = None)"
| "chain l p (x # xs) = (p = Some x \<and> chain l (l x) xs)"

abbreviation links :: "mem_state \<Rightarrow> blk \<Rightarrow> blk option" where
  "links ms b \<equiv> pNext (smems ms b)"

definition queue_rel :: "SQueue \<Rightarrow> mem_state \<Rightarrow> blk list \<Rightarrow> bool" where
  "queue_rel q ms xs \<longleftrightarrow>
     chain (links ms) (pHead q) xs \<and> distinct xs \<and> unat (u8Size q) = length xs
     \<and> pTail q = (if xs = [] then None else Some (last xs))"

text \<open>What a queue operation leaves alone: everything but the links of the buffers in \<open>S\<close>.\<close>

definition links_only :: "blk set \<Rightarrow> mem_state \<Rightarrow> mem_state \<Rightarrow> bool" where
  "links_only S ms ms' \<longleftrightarrow>
     ms' = ms\<lparr>smems := smems ms'\<rparr>
     \<and> (\<forall>b. smems ms' b = (smems ms b)\<lparr>pNext := links ms' b\<rparr>)
     \<and> (\<forall>b. b \<notin> S \<longrightarrow> smems ms' b = smems ms b)"

lemma links_only_refl [simp]: "links_only S ms ms"
  by (simp add: links_only_def)

lemma links_only_mono: "links_only S ms ms' \<Longrightarrow> S \<subseteq> T \<Longrightarrow> links_only T ms ms'"
  unfolding links_only_def by blast

lemma links_only_mem:
  assumes "links_only S ms ms'"
  shows "mem_ok ms' = mem_ok ms" and "used_blocks ms' = used_blocks ms"
proof -
  have "ms' = ms\<lparr>smems := smems ms'\<rparr>" using assms by (simp add: links_only_def)
  then obtain f where ms': "ms' = ms\<lparr>smems := f\<rparr>" by blast
  show "mem_ok ms' = mem_ok ms" "used_blocks ms' = used_blocks ms"
    by (simp_all add: ms' mem_ok_def part_ok_def free_list_def used_blocks_def)
qed

lemma links_set_next: "links (set_next b n ms) = (links ms)(b := n)"
  by (auto simp: set_next_def upd_smem_def)

lemma chain_cong: "(\<And>x. x \<in> set xs \<Longrightarrow> l' x = l x) \<Longrightarrow> chain l' p xs = chain l p xs"
  by (induction xs arbitrary: p) auto

lemma chain_upd [simp]: "b \<notin> set xs \<Longrightarrow> chain (l(b := y)) p xs = chain l p xs"
  by (rule chain_cong) auto

lemma chain_snoc:
  "chain l p xs \<Longrightarrow> distinct xs \<Longrightarrow> b \<notin> set xs \<Longrightarrow> xs \<noteq> [] \<Longrightarrow>
     chain (l(last xs := Some b, b := None)) p (xs @ [b])"
proof (induction xs arbitrary: p)
  case (Cons x xs)
  then show ?case
  proof (cases "xs = []")
    case False
    then have "x \<noteq> last xs" using Cons.prems(2) by auto
    then show ?thesis using Cons False by auto
  qed auto
qed simp

lemma chain_delete:
  "chain l p (ys @ z # zs) \<Longrightarrow> distinct (ys @ z # zs) \<Longrightarrow> ys \<noteq> [] \<Longrightarrow>
     chain (l(last ys := l z)) p (ys @ zs)"
proof (induction ys arbitrary: p)
  case (Cons y ys)
  then show ?case
  proof (cases "ys = []")
    case False
    then have "y \<noteq> last ys" using Cons.prems(2) by auto
    then show ?thesis using Cons False by auto
  next
    case True
    then show ?thesis using Cons.prems by (simp del: fun_upd_apply) simp
  qed
qed simp

lemma chain_mid: "chain l p (ys @ z # zs) \<Longrightarrow> chain l (l z) zs"
  by (induction ys arbitrary: p) auto

lemma search_loop_found:
  "chain (links ms) cur (ys @ z # zs) \<Longrightarrow> \<forall>y\<in>set ys. \<not> crit (smems ms y) \<Longrightarrow> crit (smems ms z) \<Longrightarrow>
     search_loop crit ms prev cur = Some (if ys = [] then prev else Some (last ys), Some z)"
proof (induction ys arbitrary: prev cur)
  case Nil
  then show ?case by (simp add: search_loop.simps)
next
  case (Cons y ys)
  then show ?case by (subst search_loop.simps) auto
qed

lemma search_loop_none:
  "chain (links ms) cur xs \<Longrightarrow> \<forall>y\<in>set xs. \<not> crit (smems ms y) \<Longrightarrow>
     \<exists>pr. search_loop crit ms prev cur = Some (pr, None)"
proof (induction xs arbitrary: prev cur)
  case Nil
  then show ?case by (simp add: search_loop.simps)
next
  case (Cons y ys)
  then show ?case by (subst search_loop.simps) auto
qed

section \<open>Every operation refines the list\<close>

lemma queue_rel_pHead: "queue_rel q ms xs \<Longrightarrow> pHead q = (if xs = [] then None else Some (hd xs))"
  by (cases xs) (auto simp: queue_rel_def)

lemma queue_rel_size: "queue_rel q ms xs \<Longrightarrow> (u8Size q = 0) = (xs = [])"
  by (metis length_0_conv queue_rel_def unat_eq_0)

lemma queue_rel_frame:
  assumes "queue_rel q ms xs" "links_only S ms ms'" "set xs \<inter> S = {}"
  shows "queue_rel q ms' xs"
  using assms chain_cong [of xs "links ms'" "links ms" "pHead q"]
  by (auto simp: queue_rel_def links_only_def disjoint_iff)

lemma links_only_set_next: "links_only {b} ms (set_next b n ms)"
  by (auto simp: links_only_def set_next_def upd_smem_def)

lemma links_only_trans:
  "links_only S ms ms1 \<Longrightarrow> links_only T ms1 ms2 \<Longrightarrow> links_only (S \<union> T) ms ms2"
  (is "?a \<Longrightarrow> ?b \<Longrightarrow> ?c")
proof -
  assume a: ?a and b: ?b
  have e: "ms1 = ms\<lparr>smems := smems ms1\<rparr>" "ms2 = ms1\<lparr>smems := smems ms2\<rparr>"
    using a b unfolding links_only_def by blast+
  have "ms2 = ms\<lparr>smems := smems ms1\<rparr>\<lparr>smems := smems ms2\<rparr>" using e by metis
  then have "ms2 = ms\<lparr>smems := smems ms2\<rparr>" by simp
  moreover have "smems ms2 x = (smems ms x)\<lparr>pNext := links ms2 x\<rparr>" for x
  proof -
    have "smems ms2 x = (smems ms1 x)\<lparr>pNext := links ms2 x\<rparr>"
      and "smems ms1 x = (smems ms x)\<lparr>pNext := links ms1 x\<rparr>"
      using a b unfolding links_only_def by blast+
    then show ?thesis by (metis smem.update_convs(1) smem.surjective)
  qed
  ultimately show ?c using a b unfolding links_only_def by simp
qed

lemma Queue_Append_locked: "\<not> mtx q \<Longrightarrow> Queue_Append q b ms = Some (q, ms)"
  by (simp add: Queue_Append_def)

lemma Queue_Append_rel:
  assumes "queue_rel q ms xs" "mtx q" "b \<notin> set xs" "length xs < 255"
  obtains q' ms' where "Queue_Append q (Some b) ms = Some (q', ms')" "queue_rel q' ms' (xs @ [b])"
    "links_only (insert b (set xs)) ms ms'" "mtx q'"
proof (cases "xs = []")
  case True
  let ?q = "q\<lparr>pHead := Some b, pTail := Some b, u8Size := u8Size q + 1\<rparr>"
  have z: "u8Size q = 0" using queue_rel_size [OF assms(1)] True by simp
  then have "Queue_Append q (Some b) ms = Some (?q, set_next b None ms)"
    using assms(2) by (simp add: Queue_Append_def)
  moreover have "queue_rel ?q (set_next b None ms) (xs @ [b])"
    using True z by (simp add: queue_rel_def links_set_next)
  moreover have "links_only (insert b (set xs)) ms (set_next b None ms)"
    using links_only_set_next links_only_mono by blast
  ultimately show ?thesis using that assms(2) by simp
next
  case False
  let ?q = "q\<lparr>pTail := Some b, u8Size := u8Size q + 1\<rparr>"
  let ?ms = "set_next b None (set_next (last xs) (Some b) ms)"
  have "u8Size q \<noteq> 0" using queue_rel_size [OF assms(1)] False by simp
  moreover have "pTail q = Some (last xs)" using assms(1) False by (simp add: queue_rel_def)
  ultimately have "Queue_Append q (Some b) ms = Some (?q, ?ms)"
    using assms(2) by (simp add: Queue_Append_def)
  moreover have "unat (u8Size q + 1) = Suc (unat (u8Size q))"
    using assms(1,4) by (intro unat_Suc_word) (simp add: queue_rel_def)
  then have "queue_rel ?q ?ms (xs @ [b])"
    using assms(1,3) False chain_snoc [of "links ms" "pHead q" xs b]
    by (simp add: queue_rel_def links_set_next)
  moreover have "links_only (insert b (set xs)) ms ?ms"
    by (rule links_only_mono [OF links_only_trans [OF links_only_set_next links_only_set_next]])
      (use False in auto)
  ultimately show ?thesis using that assms(2) by simp
qed

lemma Queue_Remove_empty:
  "queue_rel q ms [] \<Longrightarrow> Queue_Read_Or_Remove q rm s ms = Some (None, q, ms)"
  using queue_rel_size [of q ms "[]"] by (simp add: Queue_Read_Or_Remove_def)

lemma queue_remove_mid:
  assumes "queue_rel q ms (ys @ z # zs)" "mtx q"
    and "case s of None \<Rightarrow> ys = [] | Some crit \<Rightarrow> crit (smems ms z) \<and> (\<forall>y\<in>set ys. \<not> crit (smems ms y))"
  obtains q' ms' where "Queue_Remove q s ms = Some (Some z, q', ms')" "queue_rel q' ms' (ys @ zs)"
    "links_only (set ys) ms ms'" "mtx q'"
proof -
  let ?xs = "ys @ z # zs"
  have rel: "chain (links ms) (pHead q) ?xs" "distinct ?xs" "unat (u8Size q) = length ?xs"
    "pTail q = Some (last ?xs)" using assms(1) by (simp_all add: queue_rel_def)
  have nz: "u8Size q \<noteq> 0" using queue_rel_size [OF assms(1)] by simp
  define prev where "prev = (if ys = [] then pHead q else Some (last ys))"
  have hd: "pHead q = Some (hd ?xs)" using queue_rel_pHead [OF assms(1)] by simp
  have find: "(case s of None \<Rightarrow> Some (pHead q, pHead q)
      | Some crit \<Rightarrow> search_loop crit ms (pHead q) (pHead q)) = Some (prev, Some z)"
  proof (cases s)
    case None
    then show ?thesis using assms(3) hd by (simp add: prev_def)
  next
    case (Some crit)
    then show ?thesis using assms(3) search_loop_found [OF rel(1)] by (simp add: prev_def)
  qed
  have one: "unat (u8Size q - 1) = length (ys @ zs)" using rel(3) nz by (simp add: unat_pred_word)
  have tl: "(Some z = pTail q) = (zs = [])" using rel(2,4) by (auto split: if_splits)
  show ?thesis
  proof (cases "ys = []")
    case True
    define q' where "q' = q\<lparr>pHead := links ms z, u8Size := u8Size q - 1,
      pTail := (if zs = [] then None else pTail q)\<rparr>"
    have "links ms z = (if zs = [] then None else Some (hd zs))"
      using chain_mid [OF rel(1)] by (cases zs) auto
    then have "Queue_Remove q s ms = Some (Some z, q', ms)"
      using assms(2) nz find tl True hd
      by (simp add: Queue_Remove_def Queue_Read_Or_Remove_def q'_def Let_def)
    moreover have "queue_rel q' ms (ys @ zs)"
      using rel one True chain_mid [OF rel(1)] by (simp add: queue_rel_def q'_def)
    ultimately show ?thesis using that assms(2) by (simp add: q'_def)
  next
    case False
    define q' where "q' = q\<lparr>u8Size := u8Size q - 1, pTail := (if zs = [] then prev else pTail q)\<rparr>"
    let ?ms = "set_next (last ys) (links ms z) ms"
    have "Some z \<noteq> pHead q" using hd rel(2) False by (cases ys) auto
    then have "Queue_Remove q s ms = Some (Some z, q', ?ms)"
      using assms(2) nz find tl False hd
      by (simp add: Queue_Remove_def Queue_Read_Or_Remove_def q'_def Let_def prev_def)
    moreover have "queue_rel q' ?ms (ys @ zs)"
      using rel one False chain_delete [OF rel(1,2) False]
      by (simp add: queue_rel_def q'_def links_set_next prev_def)
    moreover have "links_only (set ys) ms ?ms"
      by (rule links_only_mono [OF links_only_set_next]) (use False in auto)
    ultimately show ?thesis using that assms(2) by (simp add: q'_def)
  qed
qed

lemma queue_remove_none:
  assumes "queue_rel q ms xs" "\<forall>x\<in>set xs. \<not> crit (smems ms x)"
  shows "Queue_Remove q (Some crit) ms = Some (None, q, ms)"
  using search_loop_none [of ms "pHead q" xs crit "pHead q"] assms
  by (auto simp: Queue_Remove_def Queue_Read_Or_Remove_def queue_rel_def)

lemma queue_read_head:
  assumes "queue_rel q ms (x # xs)" "mtx q"
  shows "Queue_Read q None ms = Some (Some x, q, ms)"
  using assms queue_rel_size [OF assms(1)] queue_rel_pHead [OF assms(1)]
  by (simp add: Queue_Read_def Queue_Read_Or_Remove_def)

lemma queue_unlocked: "\<not> mtx q \<Longrightarrow> Queue_Remove q s ms = Some (None, q, ms)"
  by (simp add: Queue_Remove_def Queue_Read_Or_Remove_def)

text \<open>The list operation that \<open>Queue_Remove\<close> refines.\<close>

definition list_remove :: "(smem \<Rightarrow> bool) option \<Rightarrow> mem_state \<Rightarrow> blk list \<Rightarrow> blk option \<times> blk list" where
  "list_remove s ms xs =
     (case List.extract (\<lambda>b. case s of None \<Rightarrow> True | Some crit \<Rightarrow> crit (smems ms b)) xs of
        None \<Rightarrow> (None, xs)
      | Some (ys, z, zs) \<Rightarrow> (Some z, ys @ zs))"

lemma Queue_Remove_list:
  assumes "queue_rel q ms xs" "mtx q" "list_remove s ms xs = (r, xs')"
  obtains q' ms' where "Queue_Remove q s ms = Some (r, q', ms')" "queue_rel q' ms' xs'"
    "links_only (set xs - set_option r) ms ms'" "mtx q'"
proof -
  let ?P = "\<lambda>b. case s of None \<Rightarrow> True | Some crit \<Rightarrow> crit (smems ms b)"
  show ?thesis
  proof (cases "List.extract ?P xs")
    case None
    have none: "\<forall>x\<in>set xs. \<not> ?P x" using None by (simp add: extract_None_iff)
    have r: "r = None" "xs' = xs" using assms(3) None by (simp_all add: list_remove_def)
    show ?thesis
    proof (cases s)
      case None
      then have "xs = []" using none by (cases xs) auto
      then show ?thesis using that [of q ms] r assms Queue_Remove_empty [of q ms True s]
        by (simp add: Queue_Remove_def)
    next
      case (Some crit)
      then show ?thesis using that [of q ms] r assms none queue_remove_none [OF assms(1), of crit] by simp
    qed
  next
    case (Some t)
    then obtain ys z zs where t: "List.extract ?P xs = Some (ys, z, zs)" by (cases t) auto
    then have x: "xs = ys @ z # zs" "?P z" "\<forall>y\<in>set ys. \<not> ?P y" by (simp_all add: extract_Some_iff)
    have r: "r = Some z" "xs' = ys @ zs" using assms(3) t by (simp_all add: list_remove_def)
    have "case s of None \<Rightarrow> ys = [] | Some crit \<Rightarrow> crit (smems ms z) \<and> (\<forall>y\<in>set ys. \<not> crit (smems ms y))"
      using x by (cases s; cases ys) auto
    from queue_remove_mid [OF assms(1) [unfolded x(1)] assms(2) this] obtain q' ms' where
      l: "Queue_Remove q s ms = Some (Some z, q', ms')" "queue_rel q' ms' (ys @ zs)"
      "links_only (set ys) ms ms'" "mtx q'" by metis
    have "set ys \<subseteq> set xs - {z}" using x(1) assms(1) by (auto simp: queue_rel_def)
    from links_only_mono [OF l(3) this] show ?thesis using that [of q' ms'] r l by simp
  qed
qed

section \<open>The interface of a queue of buffers\<close>

text \<open>
  What the transport layer relies on: appending and removing act on the list of queued buffers and
  keep every other list whose buffers they do not touch.
\<close>

locale linked_queue =
  fixes append :: "'q \<Rightarrow> 'b option \<Rightarrow> 'm \<Rightarrow> ('q \<times> 'm) option"
    and remove :: "'q \<Rightarrow> 'm \<Rightarrow> ('b option \<times> 'q \<times> 'm) option"
    and rel :: "'q \<Rightarrow> 'm \<Rightarrow> 'b list \<Rightarrow> bool"
    and frame :: "'b set \<Rightarrow> 'm \<Rightarrow> 'm \<Rightarrow> bool"
    and cap :: nat
  assumes append_rel: "rel q m xs \<Longrightarrow> b \<notin> set xs \<Longrightarrow> length xs < cap \<Longrightarrow>
      \<exists>q' m'. append q (Some b) m = Some (q', m') \<and> rel q' m' (xs @ [b]) \<and> frame (insert b (set xs)) m m'"
    and remove_rel: "rel q m (b # xs) \<Longrightarrow>
      \<exists>q' m'. remove q m = Some (Some b, q', m') \<and> rel q' m' xs \<and> frame (insert b (set xs)) m m'"
    and rel_frame: "rel q m xs \<Longrightarrow> frame S m m' \<Longrightarrow> set xs \<inter> S = {} \<Longrightarrow> rel q m' xs"
    and rel_distinct: "rel q m xs \<Longrightarrow> distinct xs"
begin

text \<open>Moving the head of one queue to the end of another, as a retransmission does.\<close>

lemma move_rel:
  assumes "rel q m (b # xs)" "rel r m ys" "set (b # xs) \<inter> set ys = {}" "length ys < cap"
  shows "\<exists>q' m' r' m''. remove q m = Some (Some b, q', m') \<and> append r (Some b) m' = Some (r', m'')
           \<and> rel q' m'' xs \<and> rel r' m'' (ys @ [b])"
proof -
  obtain q' m' where q: "remove q m = Some (Some b, q', m')" "rel q' m' xs" "frame (insert b (set xs)) m m'"
    using remove_rel [OF assms(1)] by blast
  have r: "rel r m' ys" using rel_frame [OF assms(2) q(3)] assms(3) by auto
  have b: "b \<notin> set ys" "b \<notin> set xs" using assms(3) rel_distinct [OF assms(1)] by auto
  obtain r' m'' where a: "append r (Some b) m' = Some (r', m'')" "rel r' m'' (ys @ [b])"
    "frame (insert b (set ys)) m' m''" using append_rel [OF r b(1) assms(4)] by blast
  have "set xs \<inter> insert b (set ys) = {}" using assms(3) b(2) by auto
  then show ?thesis using q a rel_frame [OF q(2) a(3)] by blast
qed

end

interpretation mq: linked_queue Queue_Append "\<lambda>q ms. Queue_Remove q None ms"
  "\<lambda>q ms xs. queue_rel q ms xs \<and> mtx q" links_only 255
proof unfold_locales
  fix q ms xs b S ms'
  show "\<exists>q' ms'. Queue_Append q (Some b) ms = Some (q', ms') \<and> (queue_rel q' ms' (xs @ [b]) \<and> mtx q')
      \<and> links_only (insert b (set xs)) ms ms'"
    if "queue_rel q ms xs \<and> mtx q" "b \<notin> set xs" "length xs < 255"
    using Queue_Append_rel [of q ms xs b] that by metis
  show "\<exists>q' ms'. Queue_Remove q None ms = Some (Some b, q', ms') \<and> (queue_rel q' ms' xs \<and> mtx q')
      \<and> links_only (insert b (set xs)) ms ms'"
    if "queue_rel q ms (b # xs) \<and> mtx q"
  proof -
    have "list_remove None ms (b # xs) = (Some b, xs)" by (simp add: list_remove_def extract_Cons_code)
    from Queue_Remove_list [OF _ _ this] that obtain q' ms' where
      r: "Queue_Remove q None ms = Some (Some b, q', ms')" "queue_rel q' ms' xs" "mtx q'"
      "links_only (set (b # xs) - set_option (Some b)) ms ms'" by metis
    have "links_only (insert b (set xs)) ms ms'" by (rule links_only_mono [OF r(4)]) auto
    then show ?thesis using r by blast
  qed
  show "queue_rel q ms' xs \<and> mtx q"
    if "queue_rel q ms xs \<and> mtx q" "links_only S ms ms'" "set xs \<inter> S = {}"
    using queue_rel_frame that by blast
  show "distinct xs" if "queue_rel q ms xs \<and> mtx q" using that by (simp add: queue_rel_def)
qed

section \<open>Flushing\<close>

lemma queue_rel_smems: "smems ms' = smems ms \<Longrightarrow> queue_rel q ms' xs = queue_rel q ms xs"
  by (simp add: queue_rel_def)

lemma Queue_Flush_rel:
  "queue_rel q ms xs \<Longrightarrow> mtx q \<Longrightarrow> mem_ok ms \<Longrightarrow> set xs \<subseteq> used_blocks ms \<Longrightarrow>
     \<exists>q' ms'. Queue_Flush q ms = Some (q', ms') \<and> queue_rel q' ms' [] \<and> mem_ok ms'
       \<and> used_blocks ms' = used_blocks ms - set xs"
proof (induction xs arbitrary: q ms)
  case Nil
  then show ?case using queue_rel_size [OF Nil(1)] by (simp add: Queue_Flush.simps)
next
  case (Cons x xs)
  from mq.remove_rel [of q ms x xs] Cons.prems obtain q1 ms1 where
    r: "Queue_Remove q None ms = Some (Some x, q1, ms1)" "queue_rel q1 ms1 xs" "mtx q1"
    "links_only (insert x (set xs)) ms ms1" by auto
  have ok: "mem_ok ms1" "used_blocks ms1 = used_blocks ms" using links_only_mem [OF r(4)] Cons.prems by simp_all
  have "x \<in> used_blocks ms1" using ok Cons.prems by simp
  then have f: "mem_ok (Mem_Free x ms1)" "used_blocks (Mem_Free x ms1) = used_blocks ms - {x}"
    "smems (Mem_Free x ms1) = smems ms1"
    using Free_ok [OF ok(1), of x] ok(2) by (simp_all add: Mem_Free_def)
  have "x \<notin> set xs" using Cons.prems(1) by (simp add: queue_rel_def)
  then have "set xs \<subseteq> used_blocks (Mem_Free x ms1)" using f(2) Cons.prems(4) by auto
  note ih = Cons.IH [OF queue_rel_smems [OF f(3), THEN iffD2, OF r(2)] r(3) f(1) this, unfolded f(2)]
  have "u8Size q > 0" using queue_rel_size [OF Cons.prems(1)] by (simp add: word_greater_zero_iff)
  then have "Queue_Flush q ms = Queue_Flush q1 (Mem_Free x ms1)"
    using r(1) by (subst Queue_Flush.simps) simp
  moreover have "used_blocks ms - set (x # xs) = used_blocks ms - {x} - set xs" by auto
  ultimately show ?case using ih by simp
qed

section \<open>Properties\<close>

text \<open>C12: on a queue that represents the list xs, with its mutex free, appending a buffer that is not
  queued gives the list xs with the buffer at its end, removing (with or without a search criterion)
  gives the first buffer that matches and the list without it, or NULL and the same list, and reading
  gives the head; only links of queued buffers change.  The pointer code never dereferences NULL.\<close>

theorem Queue_refines_list:
  assumes "queue_rel q ms xs" "mtx q"
  shows "(\<forall>b. b \<notin> set xs \<and> length xs < 255 \<longrightarrow>
            (\<exists>q' ms'. Queue_Append q (Some b) ms = Some (q', ms') \<and> queue_rel q' ms' (xs @ [b])
               \<and> links_only (insert b (set xs)) ms ms'))
       \<and> (\<forall>s. \<exists>q' ms'. Queue_Remove q s ms = Some (fst (list_remove s ms xs), q', ms')
               \<and> queue_rel q' ms' (snd (list_remove s ms xs)) \<and> links_only (set xs) ms ms')
       \<and> (xs \<noteq> [] \<longrightarrow> Queue_Read q None ms = Some (Some (hd xs), q, ms))
       \<and> unat (Queue_GetSize q) = length xs"
proof (intro conjI allI impI)
  fix b assume "b \<notin> set xs \<and> length xs < 255"
  then show "\<exists>q' ms'. Queue_Append q (Some b) ms = Some (q', ms') \<and> queue_rel q' ms' (xs @ [b])
      \<and> links_only (insert b (set xs)) ms ms'"
    using Queue_Append_rel [OF assms, of b] by metis
next
  fix s
  show "\<exists>q' ms'. Queue_Remove q s ms = Some (fst (list_remove s ms xs), q', ms')
      \<and> queue_rel q' ms' (snd (list_remove s ms xs)) \<and> links_only (set xs) ms ms'"
  proof -
    from Queue_Remove_list [OF assms prod.collapse [symmetric], of s] obtain q' ms' where
      r: "Queue_Remove q s ms = Some (fst (list_remove s ms xs), q', ms')" "queue_rel q' ms' (snd (list_remove s ms xs))"
      "links_only (set xs - set_option (fst (list_remove s ms xs))) ms ms'" by metis
    have "links_only (set xs) ms ms'" by (rule links_only_mono [OF r(3)]) auto
    then show ?thesis using r by blast
  qed
next
  assume "xs \<noteq> []"
  then show "Queue_Read q None ms = Some (Some (hd xs), q, ms)"
    using queue_read_head [of q ms "hd xs" "tl xs"] assms by simp
next
  show "unat (Queue_GetSize q) = length xs" using assms by (simp add: Queue_GetSize_def queue_rel_def)
qed

lemma Queue_refines_list_witness:
  "\<exists>q' ms'. Queue_Append \<lparr>pHead = Some (P32, 0), pTail = Some (P32, 1), mtx = True, u8Size = 2\<rparr>
        (Some (P64, 0)) (set_next (P32, 0) (Some (P32, 1)) mem_bss)
      = Some (q', ms') \<and> queue_rel q' ms' [(P32, 0), (P32, 1), (P64, 0)]"
proof -
  let ?q = "\<lparr>pHead = Some (P32, 0), pTail = Some (P32, 1), mtx = True, u8Size = 2\<rparr>"
  have "queue_rel ?q (set_next (P32, 0) (Some (P32, 1)) mem_bss) [(P32, 0), (P32, 1)]"
    by (simp add: queue_rel_def links_set_next) (simp add: mem_bss_def)
  from Queue_refines_list [OF this] show ?thesis by fastforce
qed



end
