(* ===== verification/TransL1.thy ===== *)
theory TransL1
  imports Fifo
begin

text \<open>
  Transport layer 1, \<^verbatim>\<open>serialcomm/TransL1V1.c\<close>: the UART port of one transceiver, with the part of
  the UART driver it leans on (the non-blocking transmit of \<^verbatim>\<open>fsl_uart_driver.c\<close>).  The two interrupt
  handlers are steps that return the callback they fire; the layer above runs it.  Lemmas: what a
  send puts on the wire, every refusal of a send, and what a receive returns while bytes arrive.

  Pointers to the layer's own struct are never NULL, so the struct is passed by value.
\<close>

section \<open>Return codes (TransDefS.h)\<close>

datatype ETransErrorCode =
    TRANS_SUCCESS | TRANS_FAILURE | TRANS_ERR_MEM | TRANS_ERR_BUSY | TRANS_ERR_NOT_STARTED
  | TRANS_ERR_L1_TIMEOUT | TRANS_ERR_L2_TIMEOUT | TRANS_ERR_INVALID_PTR | TRANS_ERR_INVALID_DATA
  | TRANS_ERR_CRCH | TRANS_ERR_CRCD | TRANS_ERR_PARAM | TRANS_ERR_REMOTE | TRANS_ERR_REMOTE_DLEN
  | TRANS_ERR_REMOTE_CRCH | TRANS_ERR_REMOTE_CRCD | TRANS_ERR_UNKNOWN

datatype EL1Event = TRANSL1_EVT_NONE | TRANSL1_EVT_SEND_DONE | TRANSL1_EVT_RECV_BYTE | TRANSL1_EVT_ERROR

section \<open>State\<close>

text \<open>The driver's transmit state; \<open>txBuff\<close> is what the C pointer points at, the bytes still to send.\<close>

record uart_state =
  txBuff :: "u8 list"
  txSize :: u32
  isTxBusy :: bool

text \<open>
  A callback with its parameter is a value of type \<open>'c\<close>.  \<open>l1Registered\<close> says that the entry of
  \<open>pUartPtr\<close> for this port points at this struct.
\<close>

record 'c STransL1 =
  l1Started :: bool
  l1Sending :: bool
  l1NewByte :: bool
  u32UartPort :: u32
  u32BaudRate :: u32
  pSendBuff :: "u8 list"
  u16SendSize :: u16
  u16SendPtr :: u16
  sRecvFIFO :: SFIFO
  fClbL1SendDone :: "'c option"
  fClbL1RecvData :: "'c option"
  fClbL1Error :: "'c option"
  trans_uart_state :: uart_state
  l1Registered :: bool

definition SIZE_FIFO_RECV :: u16 where "SIZE_FIFO_RECV = 512"

section \<open>The transmit side of the driver (fsl\_uart\_driver.c)\<close>

datatype uart_status = kStatus_UART_Success | kStatus_UART_TxBusy | kStatus_UART_NoDataToDeal

definition UART_DRV_StartSendData :: "u8 list \<Rightarrow> u32 \<Rightarrow> uart_state \<Rightarrow> uart_status \<times> uart_state" where
  "UART_DRV_StartSendData buf sz us =
     (if isTxBusy us then (kStatus_UART_TxBusy, us)
      else if sz = 0 then (kStatus_UART_NoDataToDeal, us)
      else (kStatus_UART_Success, us\<lparr>txBuff := buf, txSize := sz, isTxBusy := True\<rparr>))"

section \<open>The operations (TransL1V1.c)\<close>

definition TransL1_UARTInit :: "'c STransL1 \<Rightarrow> 'c STransL1" where
  "TransL1_UARTInit p =
     p\<lparr>trans_uart_state := \<lparr>txBuff = [], txSize = 0, isTxBusy = False\<rparr>, l1Registered := True\<rparr>"

definition TransL1_Init :: "'c STransL1 \<Rightarrow> u32 \<Rightarrow> u32 \<Rightarrow> ETransErrorCode \<times> 'c STransL1" where
  "TransL1_Init p port baud =
     (let p = p\<lparr>sRecvFIFO := FIFO_Create (arrBuff (sRecvFIFO p)) SIZE_FIFO_RECV\<rparr>;
          p = p\<lparr>u32UartPort := port, u32BaudRate := baud\<rparr>;
          p = p\<lparr>fClbL1SendDone := None, fClbL1RecvData := None, fClbL1Error := None\<rparr>;
          p = p\<lparr>l1Started := False, l1Sending := False, l1NewByte := False\<rparr>;
          p = TransL1_UARTInit p
      in (TRANS_SUCCESS, p\<lparr>l1Started := True\<rparr>))"

definition TransL1_RegisterClbEvent :: "'c STransL1 \<Rightarrow> EL1Event \<Rightarrow> 'c option \<Rightarrow> 'c STransL1" where
  "TransL1_RegisterClbEvent p event pFunction =
     (case event of
        TRANSL1_EVT_NONE \<Rightarrow> p
      | TRANSL1_EVT_SEND_DONE \<Rightarrow> p\<lparr>fClbL1SendDone := pFunction\<rparr>
      | TRANSL1_EVT_RECV_BYTE \<Rightarrow> p\<lparr>fClbL1RecvData := pFunction\<rparr>
      | TRANSL1_EVT_ERROR \<Rightarrow> p\<lparr>fClbL1Error := pFunction\<rparr>)"

definition TransL1_Stop :: "'c STransL1 \<Rightarrow> 'c STransL1" where
  "TransL1_Stop p = p\<lparr>l1Started := False\<rparr>"

definition TransL1_IsSendReady :: "'c STransL1 \<Rightarrow> bool" where
  "TransL1_IsSendReady p = (l1Started p = True \<and> l1Sending p = False)"

definition TransL1_IsReceiving :: "'c STransL1 \<Rightarrow> bool" where
  "TransL1_IsReceiving p = l1NewByte p"

definition TransL1_ClearNewByteFlag :: "'c STransL1 \<Rightarrow> 'c STransL1" where
  "TransL1_ClearNewByteFlag p = p\<lparr>l1NewByte := False\<rparr>"

text \<open>\<open>pData\<close> is \<open>None\<close> for NULL.\<close>

definition TransL1_Send :: "'c STransL1 \<Rightarrow> u8 list option \<Rightarrow> u16 \<Rightarrow> ETransErrorCode \<times> 'c STransL1" where
  "TransL1_Send p pData sz =
     (if \<not> l1Started p then (TRANS_ERR_NOT_STARTED, p)
      else if l1Sending p then (TRANS_ERR_BUSY, p)
      else (case pData of
              None \<Rightarrow> (TRANS_ERR_PARAM, p)
            | Some d \<Rightarrow>
                (let p = p\<lparr>pSendBuff := d, u16SendSize := sz, u16SendPtr := 0\<rparr>;
                     p = p\<lparr>l1Sending := True\<rparr>;
                     (st, us) = UART_DRV_StartSendData (pSendBuff p) (ucast (u16SendSize p)) (trans_uart_state p);
                     p = p\<lparr>trans_uart_state := us\<rparr>
                 in if st = kStatus_UART_Success then (TRANS_SUCCESS, p)
                    else (TRANS_FAILURE, p\<lparr>l1Sending := False\<rparr>))))"

text \<open>The bytes that arrive before each pop of the loop are given by \<open>arr\<close>.\<close>

definition TransL1_Recv :: "'c STransL1 \<Rightarrow> u16 \<Rightarrow> u8 list list \<Rightarrow> u8 list \<times> u16 \<times> 'c STransL1" where
  "TransL1_Recv p sz arr =
     (let sz = (if sz > FIFO_GetCount (sRecvFIFO p) then FIFO_GetCount (sRecvFIFO p) else sz);
          (bs, ff) = pop_n FIFO_Push FIFO_Pop (unat sz) arr (sRecvFIFO p)
      in (bs, sz, p\<lparr>sRecvFIFO := ff\<rparr>))"

definition TransL1_RecvFF_EnProtect :: "'c STransL1 \<Rightarrow> bool \<Rightarrow> 'c STransL1" where
  "TransL1_RecvFF_EnProtect p bEn =
     (if bEn then p\<lparr>sRecvFIFO := FIFO_EnableProtect (sRecvFIFO p)\<rparr>
      else p\<lparr>sRecvFIFO := FIFO_DisableProtect (sRecvFIFO p)\<rparr>)"

definition TransL1_RecvFF_RewindHead :: "'c STransL1 \<Rightarrow> 'c STransL1 option" where
  "TransL1_RecvFF_RewindHead p =
     map_option (\<lambda>ff. p\<lparr>sRecvFIFO := ff\<rparr>) (FIFO_RewindHead (sRecvFIFO p))"

definition TransL1_RecvFF_Pop :: "'c STransL1 \<Rightarrow> u8 \<times> 'c STransL1" where
  "TransL1_RecvFF_Pop p =
     (let (ok, b, ff) = FIFO_Pop (sRecvFIFO p) in (b, p\<lparr>sRecvFIFO := ff\<rparr>))"

definition TransL1_GetRecvCount :: "'c STransL1 \<Rightarrow> u16" where
  "TransL1_GetRecvCount p = FIFO_GetCount (sRecvFIFO p)"

definition TransL1_RecvFF_Reset :: "'c STransL1 \<Rightarrow> 'c STransL1" where
  "TransL1_RecvFF_Reset p = p\<lparr>sRecvFIFO := snd (FIFO_Reset (sRecvFIFO p))\<rparr>"

definition TransL1_RX_Interrupt_Handle :: "u8 \<Rightarrow> 'c STransL1 \<Rightarrow> 'c option \<times> 'c STransL1" where
  "TransL1_RX_Interrupt_Handle b p =
     (if \<not> l1Registered p then (None, p)
      else (let (ok, ff) = FIFO_Push (sRecvFIFO p) b
            in (fClbL1RecvData p, p\<lparr>sRecvFIFO := ff\<rparr>)))"

definition TransL1_TX_Interrupt_Handle :: "'c STransL1 \<Rightarrow> 'c option \<times> 'c STransL1" where
  "TransL1_TX_Interrupt_Handle p =
     (if \<not> l1Registered p then (None, p)
      else if txSize (trans_uart_state p) > 0 then
        (let us = trans_uart_state p;
             us = us\<lparr>txBuff := tl (txBuff us), txSize := txSize us - 1\<rparr>;
             p = p\<lparr>trans_uart_state := us\<rparr>
         in if txSize us = 0 then (fClbL1SendDone p, p\<lparr>l1Sending := False\<rparr>)
            else (None, p))
      else (None, p))"

text \<open>
  One transmit interrupt of the driver: put the next byte on the wire, run the handler above, and
  complete the transfer when the count is zero.
\<close>

definition UART_DRV_tx_irq :: "'c STransL1 \<Rightarrow> u8 list \<times> 'c option \<times> 'c STransL1" where
  "UART_DRV_tx_irq p =
     (if txSize (trans_uart_state p) \<noteq> 0 then
        (let b = hd (txBuff (trans_uart_state p));
             (clb, p) = TransL1_TX_Interrupt_Handle p;
             p = (if txSize (trans_uart_state p) = 0
                  then p\<lparr>trans_uart_state := (trans_uart_state p)\<lparr>isTxBusy := False\<rparr>\<rparr> else p)
         in ([b], clb, p))
      else ([], None, p))"

fun tx_irqs :: "nat \<Rightarrow> 'c STransL1 \<Rightarrow> u8 list \<times> 'c list \<times> 'c STransL1" where
  "tx_irqs 0 p = ([], [], p)"
| "tx_irqs (Suc n) p =
     (let (w, c, p) = UART_DRV_tx_irq p;
          (ws, cs, p) = tx_irqs n p
      in (w @ ws, (case c of None \<Rightarrow> cs | Some x \<Rightarrow> x # cs), p))"

declare TransL1_UARTInit_def [l1_defs] TransL1_Init_def [l1_defs] TransL1_RegisterClbEvent_def [l1_defs]
  TransL1_IsSendReady_def [l1_defs] TransL1_GetRecvCount_def [l1_defs] TransL1_RecvFF_Pop_def [l1_defs]
  TransL1_RecvFF_EnProtect_def [l1_defs] TransL1_RecvFF_Reset_def [l1_defs]

section \<open>Transmission\<close>

text \<open>The flags of a port that its transfers leave alone.\<close>

definition l1_env :: "'c STransL1 \<Rightarrow> bool \<times> bool \<times> 'c option \<times> 'c option \<times> SFIFO" where
  "l1_env p = (l1Registered p, l1Started p, fClbL1SendDone p, fClbL1RecvData p, sRecvFIFO p)"

lemma TransL1_Send_env: "TransL1_Send p d n = (e, p') \<Longrightarrow> l1_env p' = l1_env p"
  by (auto simp: TransL1_Send_def l1_env_def Let_def split: if_splits option.splits prod.splits)

lemma tx_irq_env: "UART_DRV_tx_irq p = (b, c, p') \<Longrightarrow> l1_env p' = l1_env p"
  by (auto simp: UART_DRV_tx_irq_def TransL1_TX_Interrupt_Handle_def l1_env_def Let_def split: if_splits)

lemma tx_irqs_env: "tx_irqs n p = (bs, cs, p') \<Longrightarrow> l1_env p' = l1_env p"
  by (induction n arbitrary: p bs cs p') (auto simp: Let_def dest!: tx_irq_env split: prod.splits)

text \<open>A transfer in progress: \<open>d\<close> are the bytes still to send.\<close>

definition sending :: "u8 list \<Rightarrow> 'c STransL1 \<Rightarrow> bool" where
  "sending d p \<longleftrightarrow> l1Registered p \<and> l1Sending p \<and> isTxBusy (trans_uart_state p) \<and> d \<noteq> []
     \<and> unat (txSize (trans_uart_state p)) = length d
     \<and> take (length d) (txBuff (trans_uart_state p)) = d"

lemma tx_irq_sending:
  assumes "sending (b # d) p"
  shows "\<exists>p'. UART_DRV_tx_irq p = ([b], if d = [] then fClbL1SendDone p else None, p')
     \<and> (if d = [] then \<not> l1Sending p' \<and> \<not> isTxBusy (trans_uart_state p') else sending d p')
     \<and> fClbL1SendDone p' = fClbL1SendDone p \<and> l1Started p' = l1Started p
     \<and> sRecvFIFO p' = sRecvFIFO p"
proof -
  let ?us = "trans_uart_state p"
  have a: "l1Registered p" "l1Sending p" "isTxBusy ?us" "unat (txSize ?us) = Suc (length d)"
    "take (Suc (length d)) (txBuff ?us) = b # d" using assms by (simp_all add: sending_def)
  then have nz: "txSize ?us \<noteq> 0" by auto
  then have one: "unat (txSize ?us - 1) = length d" using a(4) by (simp add: unat_pred_word)
  then have z: "(txSize ?us - 1 = 0) = (d = [])" by (metis length_0_conv unat_eq_0)
  obtain x xs where x: "txBuff ?us = x # xs" using a(5) by (cases "txBuff ?us") auto
  then show ?thesis
    using a nz one z by (auto simp: UART_DRV_tx_irq_def TransL1_TX_Interrupt_Handle_def Let_def sending_def
        word_greater_zero_iff)
qed

lemma tx_irqs_sending:
  assumes "sending d p" "k \<le> length d"
  shows "\<exists>p'. tx_irqs k p = (take k d, if k = length d then (case fClbL1SendDone p of None \<Rightarrow> [] | Some c \<Rightarrow> [c]) else [], p')
     \<and> (if k = length d then \<not> l1Sending p' \<and> \<not> isTxBusy (trans_uart_state p') else sending (drop k d) p')
     \<and> l1Started p' = l1Started p \<and> sRecvFIFO p' = sRecvFIFO p"
  using assms
proof (induction k arbitrary: d p)
  case 0
  then show ?case by (auto simp: sending_def)
next
  case (Suc k)
  then obtain b e where d: "d = b # e" by (cases d) auto
  obtain p1 where p1: "UART_DRV_tx_irq p = ([b], if e = [] then fClbL1SendDone p else None, p1)"
    "if e = [] then \<not> l1Sending p1 \<and> \<not> isTxBusy (trans_uart_state p1) else sending e p1"
    "fClbL1SendDone p1 = fClbL1SendDone p" "l1Started p1 = l1Started p" "sRecvFIFO p1 = sRecvFIFO p"
    using tx_irq_sending [OF Suc.prems(1) [unfolded d]] by blast
  show ?case
  proof (cases "e = []")
    case True
    then have "k = 0" using Suc.prems(2) d by simp
    then show ?thesis using p1 True d by (auto split: option.splits)
  next
    case False
    then have "sending e p1" using p1(2) by simp
    from Suc.IH [OF this] Suc.prems(2) d obtain p' where
      "tx_irqs k p1 = (take k e, if k = length e then (case fClbL1SendDone p1 of None \<Rightarrow> [] | Some c \<Rightarrow> [c]) else [], p')"
      "if k = length e then \<not> l1Sending p' \<and> \<not> isTxBusy (trans_uart_state p') else sending (drop k e) p'"
      "l1Started p' = l1Started p1" "sRecvFIFO p' = sRecvFIFO p1" by auto
    then show ?thesis using p1 False d by auto
  qed
qed

lemma TransL1_Send_ok:
  assumes "l1Started p" "\<not> l1Sending p" "\<not> isTxBusy (trans_uart_state p)" "l1Registered p"
    and "0 < sz" "unat sz \<le> length d"
  shows "\<exists>p'. TransL1_Send p (Some d) sz = (TRANS_SUCCESS, p') \<and> sending (take (unat sz) d) p'
     \<and> l1Started p' \<and> fClbL1SendDone p' = fClbL1SendDone p \<and> sRecvFIFO p' = sRecvFIFO p"
proof -
  have "unat (ucast sz :: u32) = unat sz" by simp
  moreover from this have "(ucast sz :: u32) \<noteq> 0" using assms(5) by (metis unat_eq_0 word_greater_zero_iff)
  ultimately show ?thesis
    using assms by (auto simp: TransL1_Send_def UART_DRV_StartSendData_def Let_def sending_def unat_eq_0)
qed

lemma TransL1_Send_refused:
  assumes "l1Started p" "\<not> l1Sending p" "isTxBusy (trans_uart_state p) \<or> sz = 0"
  shows "\<exists>p'. TransL1_Send p (Some d) sz = (TRANS_FAILURE, p') \<and> l1Started p' \<and> \<not> l1Sending p'
     \<and> sRecvFIFO p' = sRecvFIFO p \<and> trans_uart_state p' = trans_uart_state p"
  using assms by (auto simp: TransL1_Send_def UART_DRV_StartSendData_def Let_def)

section \<open>Reception\<close>

text \<open>The struct before \<open>TransL1_Init\<close>: zero, with its array of 512 bytes.\<close>

definition l1_bss :: "'c STransL1" where
  "l1_bss = \<lparr>l1Started = False, l1Sending = False, l1NewByte = False, u32UartPort = 0, u32BaudRate = 0,
     pSendBuff = [], u16SendSize = 0, u16SendPtr = 0, sRecvFIFO = FIFO_Create (replicate 512 0) 0,
     fClbL1SendDone = None, fClbL1RecvData = None, fClbL1Error = None,
     trans_uart_state = \<lparr>txBuff = [], txSize = 0, isTxBusy = False\<rparr>, l1Registered = False\<rparr>"

lemma TransL1_Init_bss:
  "let p = snd (TransL1_Init l1_bss port baud) in
     l1Started p \<and> \<not> l1Sending p \<and> \<not> isTxBusy (trans_uart_state p) \<and> l1Registered p
     \<and> fifo_wf (sRecvFIFO p) \<and> fifo_list (sRecvFIFO p) = [] \<and> u16MaxSize (sRecvFIFO p) = 512"
  using FIFO_Create_wf [of 512 "replicate 512 0"]
  by (simp add: TransL1_Init_def l1_bss_def TransL1_UARTInit_def SIZE_FIFO_RECV_def FIFO_Create_def Let_def)

lemma TransL1_Recv_fifo:
  assumes "fifo_wf (sRecvFIFO p)" "TransL1_Recv p sz arr = (bs, n, p')"
  shows "bs = take (unat sz) (fifo_list (sRecvFIFO p)) \<and> unat n = length bs
     \<and> fifo_wf (sRecvFIFO p') \<and> p' = p\<lparr>sRecvFIFO := sRecvFIFO p'\<rparr>
     \<and> u16MaxSize (sRecvFIFO p') = u16MaxSize (sRecvFIFO p)
     \<and> (\<exists>ys. fifo_list (sRecvFIFO p') = drop (unat sz) (fifo_list (sRecvFIFO p)) @ ys
          \<and> (concat (take (unat sz) arr) = [] \<longrightarrow> ys = []))"
proof -
  let ?ff = "sRecvFIFO p"
  define m where "m = (if sz > FIFO_GetCount ?ff then FIFO_GetCount ?ff else sz)"
  have m: "unat m = min (unat sz) (length (fifo_list ?ff))"
    by (auto simp: m_def FIFO_GetCount_def length_fifo_list word_less_nat_alt min_def)
  obtain ff where r: "pop_n FIFO_Push FIFO_Pop (unat m) arr ?ff = (bs, ff)" "n = m" "p' = p\<lparr>sRecvFIFO := ff\<rparr>"
    using assms(2) by (auto simp: TransL1_Recv_def m_def Let_def split: prod.splits)
  from ff.pop_n_abs [OF assms(1) _ r(1)] m obtain ys where
    "bs = take (unat m) (fifo_list ?ff)" "fifo_wf ff" "unat (u16MaxSize ff) = unat (u16MaxSize ?ff)"
    "fifo_list ff = drop (unat m) (fifo_list ?ff) @ ys" "concat (take (unat m) arr) = [] \<longrightarrow> ys = []" by auto
  moreover have "take (unat m) (fifo_list ?ff) = take (unat sz) (fifo_list ?ff)"
    "drop (unat m) (fifo_list ?ff) = drop (unat sz) (fifo_list ?ff)"
    by (simp_all add: m min_def)
  moreover have "take (unat m) arr = take (unat m) (take (unat sz) arr)" by (simp add: m min_def)
  then have "concat (take (unat sz) arr) = [] \<Longrightarrow> concat (take (unat m) arr) = []"
    by (metis concat_eq_Nil_conv in_set_takeD)
  ultimately show ?thesis using r m by (auto simp: word_unat_eq_iff)
qed

section \<open>Properties\<close>

text \<open>A send on a started, idle port succeeds, and the transmit interrupts then put exactly the bytes
  of the frame on the wire, in order; the send-done callback fires once, after the last byte and not
  before, and the port is ready for the next frame from then on and not earlier.\<close>

theorem TransL1_Send_transmits:
  assumes "TransL1_IsSendReady p" "l1Registered p" "\<not> isTxBusy (trans_uart_state p)"
    and "0 < sz" "unat sz \<le> length d" "k \<le> unat sz" "fClbL1SendDone p = Some c"
  shows "\<exists>p1 p2. TransL1_Send p (Some d) sz = (TRANS_SUCCESS, p1) \<and> \<not> TransL1_IsSendReady p1
     \<and> tx_irqs k p1 = (take k d, if k = unat sz then [c] else [], p2)
     \<and> TransL1_IsSendReady p2 = (k = unat sz) \<and> sRecvFIFO p2 = sRecvFIFO p"
proof -
  have p: "l1Started p" "\<not> l1Sending p" using assms(1) by (simp_all add: TransL1_IsSendReady_def)
  obtain p1 where p1: "TransL1_Send p (Some d) sz = (TRANS_SUCCESS, p1)" "sending (take (unat sz) d) p1"
    "l1Started p1" "fClbL1SendDone p1 = fClbL1SendDone p" "sRecvFIFO p1 = sRecvFIFO p"
    using TransL1_Send_ok [OF p assms(3,2,4,5)] by blast
  have len: "length (take (unat sz) d) = unat sz" "take k (take (unat sz) d) = take k d"
    using assms(5,6) by (simp_all add: min_def)
  from tx_irqs_sending [OF p1(2), of k, unfolded len, OF assms(6)] obtain p2 where
    "tx_irqs k p1 = (take k d, if k = unat sz then [c] else [], p2)"
    "if k = unat sz then \<not> l1Sending p2 else sending (drop k (take (unat sz) d)) p2"
    "l1Started p2" "sRecvFIFO p2 = sRecvFIFO p"
    using assms(7) p1(3-5) by (auto split: if_splits)
  then show ?thesis using p1 by (auto simp: TransL1_IsSendReady_def sending_def split: if_splits)
qed

lemma TransL1_Send_transmits_witness:
  "\<exists>p1 p2. TransL1_Send ((snd (TransL1_Init l1_bss 1 115200))\<lparr>fClbL1SendDone := Some (7 :: nat)\<rparr>)
       (Some [0x21, 2, 3]) 3 = (TRANS_SUCCESS, p1) \<and> tx_irqs 3 p1 = ([0x21, 2, 3], [7], p2)"
  using TransL1_Send_transmits [of "(snd (TransL1_Init l1_bss 1 115200))\<lparr>fClbL1SendDone := Some (7 :: nat)\<rparr>"
      3 "[0x21, 2, 3]" 3 7] TransL1_Init_bss [of 1 115200, where 'a = nat]
  by (auto simp: TransL1_IsSendReady_def Let_def)

text \<open>Every refused send reports its cause and leaves the port as it was: a port that is not started,
  one that is still sending, a NULL buffer; when the driver refuses the transfer the send fails and the
  port is ready again.\<close>

theorem TransL1_Send_refusals:
  "(\<not> l1Started p \<longrightarrow> TransL1_Send p dp sz = (TRANS_ERR_NOT_STARTED, p))
   \<and> (l1Started p \<and> l1Sending p \<longrightarrow> TransL1_Send p dp sz = (TRANS_ERR_BUSY, p))
   \<and> (TransL1_IsSendReady p \<longrightarrow> TransL1_Send p None sz = (TRANS_ERR_PARAM, p))
   \<and> (TransL1_IsSendReady p \<and> (isTxBusy (trans_uart_state p) \<or> sz = 0) \<longrightarrow>
        (\<exists>p'. TransL1_Send p (Some d) sz = (TRANS_FAILURE, p') \<and> TransL1_IsSendReady p'
           \<and> sRecvFIFO p' = sRecvFIFO p \<and> trans_uart_state p' = trans_uart_state p))"
  using TransL1_Send_refused [of p sz d]
  by (auto simp: TransL1_Send_def TransL1_IsSendReady_def)

lemma TransL1_Send_refusals_witness:
  "TransL1_Send (l1_bss :: nat STransL1) None 3 = (TRANS_ERR_NOT_STARTED, l1_bss)"
  using TransL1_Send_refusals [of "l1_bss :: nat STransL1" None 3 "[]"] by (simp add: l1_bss_def)

text \<open>While the receive interrupt keeps pushing bytes between the pops, a receive returns exactly the
  oldest bytes of the FIFO, as many as asked for or as were there at the start, and what it leaves is the
  rest of the FIFO followed only by bytes that arrived meanwhile.\<close>

theorem TransL1_Recv_in_order:
  assumes "fifo_wf (sRecvFIFO p)" "TransL1_Recv p sz arr = (bs, n, p')"
  shows "bs = take (unat sz) (fifo_list (sRecvFIFO p)) \<and> unat n = length bs \<and> fifo_wf (sRecvFIFO p')
     \<and> (\<exists>ys. fifo_list (sRecvFIFO p') = drop (unat sz) (fifo_list (sRecvFIFO p)) @ ys
          \<and> (concat arr = [] \<longrightarrow> ys = []))"
proof -
  have "concat arr = [] \<Longrightarrow> concat (take (unat sz) arr) = []"
    by (metis append_is_Nil_conv append_take_drop_id concat_append)
  then show ?thesis using TransL1_Recv_fifo [OF assms] by blast
qed

lemma TransL1_Recv_in_order_witness:
  "fst (TransL1_Recv (snd (TransL1_RX_Interrupt_Handle 9 (snd (TransL1_Init (l1_bss :: nat STransL1) 1 115200))))
     4 [[5, 6]]) = [9]"
proof -
  let ?p = "snd (TransL1_Init (l1_bss :: nat STransL1) 1 115200)"
  let ?q = "snd (TransL1_RX_Interrupt_Handle 9 ?p)"
  have p: "fifo_wf (sRecvFIFO ?p)" "fifo_list (sRecvFIFO ?p) = []" "u16MaxSize (sRecvFIFO ?p) = 512" "l1Registered ?p"
    using TransL1_Init_bss [of 1 115200, where 'a = nat] by (simp_all add: Let_def)
  have "fifo_wf (sRecvFIFO ?q) \<and> fifo_list (sRecvFIFO ?q) = [9]"
    using ff.push_space [OF p(1), of 9] p by (auto simp: TransL1_RX_Interrupt_Handle_def)
  then show ?thesis
    using TransL1_Recv_in_order [of ?q 4 "[[5, 6]]"]
    by (cases "TransL1_Recv ?q 4 [[5, 6]]") simp
qed

end
