(* ===== verification/TransL2.thy ===== *)
theory TransL2
  imports TransL1 MemQueue Checksum
begin

text \<open>
  Transport layer 2, \<^verbatim>\<open>serialcomm/TransL2S.c\<close>: framing, header and data checksums, duplicate
  suppression and the send state machine over layer 1.  A result \<open>None\<close> is a NULL dereference or an
  access outside a frame buffer.
\<close>

section \<open>Constants (TransDefS.h)\<close>

datatype EL2RecvAction =
  TRANSL2_ACT_NO | TRANSL2_RCV_ACK | TRANSL2_RCV_NACK | TRANSL2_REQ_ACK | TRANSL2_REQ_NACK

datatype EL2Event = TRANSL2_EVT_NONE | TRANSL2_EVT_SEND_DONE | TRANSL2_EVT_RECV_DATA | TRANSL2_EVT_ERROR

definition CST_PREAMBLE :: u8 where "CST_PREAMBLE = 0x21"
definition ADDR_BROADCAST :: u8 where "ADDR_BROADCAST = 0xFF"
definition CMD_NONE :: u8 where "CMD_NONE = 0"
definition CMD_ACK :: u8 where "CMD_ACK = 1"
definition CMD_NACK :: u8 where "CMD_NACK = 2"

definition IS_ACK_REQ :: "u8 \<Rightarrow> bool" where "IS_ACK_REQ ctrl = (ctrl AND 0x80 \<noteq> 0)"
definition IS_DATA_FRM :: "u8 \<Rightarrow> bool" where "IS_DATA_FRM fk = (fk AND 0x20 \<noteq> 0)"
definition GET_FRM_TYPE :: "u8 \<Rightarrow> u8" where "GET_FRM_TYPE ctrl = ctrl AND 0x1F"

text \<open>\<open>SFRM_HDR_SIZE\<close> is 8, \<open>SFRM_MAX_DLEN\<close> is 240 and \<open>LARGE_MEM_SIZE\<close> is 8 + 16 + 248.\<close>

definition LARGE_MEM_SIZE :: u16 where "LARGE_MEM_SIZE = 8 + 16 + 248"

section \<open>State (TransL2S.h)\<close>

text \<open>The callbacks this layer registers with layer 1.\<close>

datatype l1_clb = L1SendDone | L1RecvData

text \<open>
  \<open>frmRecv\<close> and \<open>frmSend\<close> name the block whose frame bytes the C pointer points at.  The store of frame
  buffers, the function-static \<open>u16DLen\<close> of \<open>ProcessRecvData\<close> (one variable for all instances of the
  layer), the timer and the count of semaphore posts are part of the state the layer works on.
\<close>

record STransL2S =
  l2Started :: bool
  l2Sending :: bool
  bL1Sending :: bool
  bWaitingL1Send :: bool
  bCheckSeqNum :: bool
  sMemRecv :: "blk option"
  sMemSend :: "blk option"
  frmRecv :: "blk option"
  frmSend :: "blk option"
  sTransL1 :: "l1_clb STransL1"
  u8NodeID :: u8
  u16RecvCount :: u16
  u8SeqRemote :: u8
  u8SeqLocal :: u8
  u8SeqCMDFrm :: u8
  u8ErrorCode :: ETransErrorCode
  u32L1SendTimeout :: u32
  fClbL2RecvData :: bool
  fClbL2SendDone :: bool
  fClbL2Error :: bool
  hL1TimeOutTimer :: bool
  semPosts :: nat
  statDLen :: u16
  mem :: mem_state

text \<open>The functions behind the registered callbacks, supplied by the layer above.\<close>

record 'w l2_clbs =
  onRecvData :: "ETransErrorCode \<Rightarrow> blk option \<Rightarrow> 'w \<Rightarrow> 'w option"
  onSendDone :: "ETransErrorCode \<Rightarrow> blk option \<Rightarrow> 'w \<Rightarrow> 'w option"
  onError :: "ETransErrorCode \<Rightarrow> blk option \<Rightarrow> 'w \<Rightarrow> 'w option"

definition upd_l1 :: "(l1_clb STransL1 \<Rightarrow> l1_clb STransL1) \<Rightarrow> 'a STransL2S_scheme \<Rightarrow> 'a STransL2S_scheme" where
  "upd_l1 f w = w\<lparr>sTransL1 := f (sTransL1 w)\<rparr>"

definition frm :: "blk \<Rightarrow> 'a STransL2S_scheme \<Rightarrow> u8 list" where
  "frm b w = frame (smems (mem w) b)"

definition frm_get :: "blk \<Rightarrow> nat \<Rightarrow> 'a STransL2S_scheme \<Rightarrow> u8 option" where
  "frm_get b i w = (if i < length (frm b w) then Some (frm b w ! i) else None)"

definition upd_mem :: "blk \<Rightarrow> (smem \<Rightarrow> smem) \<Rightarrow> 'a STransL2S_scheme \<Rightarrow> 'a STransL2S_scheme" where
  "upd_mem b f w = w\<lparr>mem := upd_smem b f (mem w)\<rparr>"

definition frm_set :: "blk \<Rightarrow> nat \<Rightarrow> u8 \<Rightarrow> 'a STransL2S_scheme \<Rightarrow> 'a STransL2S_scheme option" where
  "frm_set b i x w =
     (if i < length (frm b w) then Some (upd_mem b (\<lambda>m. m\<lparr>frame := (frame m)[i := x]\<rparr>) w) else None)"

fun frm_store :: "blk \<Rightarrow> nat \<Rightarrow> u8 list \<Rightarrow> 'a STransL2S_scheme \<Rightarrow> 'a STransL2S_scheme option" where
  "frm_store b i [] w = Some w"
| "frm_store b i (x # xs) w = do { w \<leftarrow> frm_set b i x w; frm_store b (Suc i) xs w }"

section \<open>Events and buffers\<close>

definition fire_error :: "('a STransL2S_scheme) l2_clbs \<Rightarrow> 'a STransL2S_scheme \<Rightarrow> 'a STransL2S_scheme option" where
  "fire_error cb w = (if fClbL2Error w then onError cb (u8ErrorCode w) (sMemSend w) w else Some w)"

definition fire_send_done :: "('a STransL2S_scheme) l2_clbs \<Rightarrow> 'a STransL2S_scheme \<Rightarrow> 'a STransL2S_scheme option" where
  "fire_send_done cb w =
     (if fClbL2SendDone w then
        (let w = w\<lparr>u8ErrorCode := TRANS_SUCCESS\<rparr> in onSendDone cb (u8ErrorCode w) (sMemSend w) w)
      else Some w)"

definition TransL2S_MemAlloc :: "('a STransL2S_scheme) l2_clbs \<Rightarrow> 'a STransL2S_scheme \<Rightarrow> (bool \<times> 'a STransL2S_scheme) option" where
  "TransL2S_MemAlloc cb w =
     (let (r, ms) = Mem_Alloc LARGE_MEM_SIZE (mem w);
          w = w\<lparr>sMemRecv := r, mem := ms\<rparr>
      in (case r of
            None \<Rightarrow> do { w \<leftarrow> fire_error cb (w\<lparr>u8ErrorCode := TRANS_ERR_MEM, frmRecv := None\<rparr>); Some (False, w) }
          | Some b \<Rightarrow> Some (True, w\<lparr>frmRecv := Some b\<rparr>)))"

definition fire_recv_data :: "('a STransL2S_scheme) l2_clbs \<Rightarrow> 'a STransL2S_scheme \<Rightarrow> 'a STransL2S_scheme option" where
  "fire_recv_data cb w =
     (if fClbL2RecvData w then do {
        b \<leftarrow> sMemRecv w;
        dl \<leftarrow> frm_get b 5 w;
        let w = upd_mem b (\<lambda>m. m\<lparr>u16DLen := ucast dl\<rparr>) w;
        ct \<leftarrow> frm_get b 4 w;
        let w = upd_mem b (\<lambda>m. m\<lparr>u8Ctrl := ct\<rparr>) w;
        let w = w\<lparr>u8ErrorCode := TRANS_SUCCESS\<rparr>;
        w \<leftarrow> onRecvData cb (u8ErrorCode w) (sMemRecv w) w;
        (ok, w) \<leftarrow> TransL2S_MemAlloc cb w;
        Some w
      }
      else Some w)"

definition L2FireEvent :: "('a STransL2S_scheme) l2_clbs \<Rightarrow> EL2Event \<Rightarrow> 'a STransL2S_scheme \<Rightarrow> 'a STransL2S_scheme option" where
  "L2FireEvent cb event w =
     (case event of
        TRANSL2_EVT_RECV_DATA \<Rightarrow> fire_recv_data cb w
      | TRANSL2_EVT_SEND_DONE \<Rightarrow> fire_send_done cb w
      | TRANSL2_EVT_ERROR \<Rightarrow> fire_error cb w
      | TRANSL2_EVT_NONE \<Rightarrow> Some w)"

section \<open>Callbacks from layer 1, and the timer\<close>

definition StartL1TimeOutTimer :: "'a STransL2S_scheme \<Rightarrow> 'a STransL2S_scheme" where
  "StartL1TimeOutTimer w = w\<lparr>hL1TimeOutTimer := True\<rparr>"

definition StopL1TimeOutTimer :: "'a STransL2S_scheme \<Rightarrow> 'a STransL2S_scheme" where
  "StopL1TimeOutTimer w = w\<lparr>hL1TimeOutTimer := False\<rparr>"

definition Clb_L1SendDone :: "'a STransL2S_scheme \<Rightarrow> 'a STransL2S_scheme" where
  "Clb_L1SendDone w =
     (let w = w\<lparr>bL1Sending := False\<rparr>;
          w = StopL1TimeOutTimer w
      in w\<lparr>semPosts := semPosts w + 1\<rparr>)"

definition Clb_L1RecvData :: "'a STransL2S_scheme \<Rightarrow> 'a STransL2S_scheme" where
  "Clb_L1RecvData w = w"

fun run_l1_clb :: "l1_clb option \<Rightarrow> 'a STransL2S_scheme \<Rightarrow> 'a STransL2S_scheme" where
  "run_l1_clb None w = w"
| "run_l1_clb (Some L1SendDone) w = Clb_L1SendDone w"
| "run_l1_clb (Some L1RecvData) w = Clb_L1RecvData w"

text \<open>The two interrupts, as they act on this layer.\<close>

definition l2_rx_irq :: "u8 \<Rightarrow> 'a STransL2S_scheme \<Rightarrow> 'a STransL2S_scheme" where
  "l2_rx_irq x w =
     (let (c, l1) = TransL1_RX_Interrupt_Handle x (sTransL1 w) in run_l1_clb c (w\<lparr>sTransL1 := l1\<rparr>))"

definition l2_tx_irq :: "'a STransL2S_scheme \<Rightarrow> u8 list \<times> 'a STransL2S_scheme" where
  "l2_tx_irq w =
     (let (bs, c, l1) = UART_DRV_tx_irq (sTransL1 w) in (bs, run_l1_clb c (w\<lparr>sTransL1 := l1\<rparr>)))"

definition Clb_L1TimeOutTimer :: "('a STransL2S_scheme) l2_clbs \<Rightarrow> 'a STransL2S_scheme \<Rightarrow> 'a STransL2S_scheme option" where
  "Clb_L1TimeOutTimer cb w =
     (let w = StopL1TimeOutTimer w in
      if bL1Sending w then do {
        let w = w\<lparr>bL1Sending := False, bWaitingL1Send := False, l2Sending := False,
                  u8ErrorCode := TRANS_ERR_L1_TIMEOUT\<rparr>;
        b \<leftarrow> frmSend w;
        ct \<leftarrow> frm_get b 4 w;
        (if IS_DATA_FRM ct then L2FireEvent cb TRANSL2_EVT_ERROR w
         else do { m \<leftarrow> sMemSend w; Some (w\<lparr>mem := Mem_Free m (mem w)\<rparr>) })
      }
      else Some w)"

section \<open>Initialisation and small operations\<close>

definition TransL2S_SetL1Para :: "'a STransL2S_scheme \<Rightarrow> u32 \<Rightarrow> u32 \<Rightarrow> 'a STransL2S_scheme" where
  "TransL2S_SetL1Para w port baud = upd_l1 (\<lambda>l1. l1\<lparr>u32UartPort := port, u32BaudRate := baud\<rparr>) w"

definition TransL2S_Init ::
  "('a STransL2S_scheme) l2_clbs \<Rightarrow> 'a STransL2S_scheme \<Rightarrow> u8 \<Rightarrow> (ETransErrorCode \<times> 'a STransL2S_scheme) option" where
  "TransL2S_Init cb w nodeId = do {
     let w = w\<lparr>u8NodeID := nodeId, u16RecvCount := 0, u8SeqRemote := 0xFF, u8SeqLocal := 0,
               u8ErrorCode := TRANS_SUCCESS\<rparr>;
     let w = w\<lparr>l2Started := False, l2Sending := False, bL1Sending := False, bWaitingL1Send := False,
               bCheckSeqNum := True\<rparr>;
     let w = w\<lparr>fClbL2SendDone := False, fClbL2RecvData := False, fClbL2Error := False\<rparr>;
     (ok, w) \<leftarrow> TransL2S_MemAlloc cb w;
     let (e, l1) = TransL1_Init (sTransL1 w) (u32UartPort (sTransL1 w)) (u32BaudRate (sTransL1 w));
     let w = w\<lparr>sTransL1 := l1\<rparr>;
     (if e \<noteq> TRANS_SUCCESS then Some (TRANS_FAILURE, w\<lparr>u8ErrorCode := e\<rparr>)
      else do {
        let w = upd_l1 (\<lambda>l1. TransL1_RegisterClbEvent l1 TRANSL1_EVT_SEND_DONE (Some L1SendDone)) w;
        let w = upd_l1 (\<lambda>l1. TransL1_RegisterClbEvent l1 TRANSL1_EVT_RECV_BYTE (Some L1RecvData)) w;
        let w = w\<lparr>hL1TimeOutTimer := False\<rparr>;
        Some (e, w\<lparr>l2Started := True\<rparr>)
      })
   }"

definition TransL2S_Stop :: "'a STransL2S_scheme \<Rightarrow> bool \<times> 'a STransL2S_scheme" where
  "TransL2S_Stop w =
     (if \<not> l2Started w then (False, w\<lparr>u8ErrorCode := TRANS_ERR_NOT_STARTED\<rparr>)
      else (True, w\<lparr>l2Started := False\<rparr>))"

definition TransL2S_GetLastError :: "'a STransL2S_scheme \<Rightarrow> ETransErrorCode" where
  "TransL2S_GetLastError w = u8ErrorCode w"

definition TransL2S_IsSendReady :: "'a STransL2S_scheme \<Rightarrow> bool" where
  "TransL2S_IsSendReady w = (l2Started w = True \<and> l2Sending w = False)"

definition TransL2S_SetCheckSeqNum :: "'a STransL2S_scheme \<Rightarrow> bool \<Rightarrow> 'a STransL2S_scheme" where
  "TransL2S_SetCheckSeqNum w bSet = w\<lparr>bCheckSeqNum := bSet\<rparr>"

text \<open>Source address, the data bytes at the returned pointer, and the length.\<close>

definition TransL2S_GetRecvFrame :: "'a STransL2S_scheme \<Rightarrow> (u8 \<times> u8 list \<times> u16) option" where
  "TransL2S_GetRecvFrame w = do {
     b \<leftarrow> frmRecv w;
     src \<leftarrow> frm_get b 1 w;
     dl \<leftarrow> frm_get b 5 w;
     Some (src, drop 8 (frm b w), ucast dl)
   }"

definition TransL2S_RegisterClbEvent :: "'a STransL2S_scheme \<Rightarrow> EL2Event \<Rightarrow> bool \<Rightarrow> 'a STransL2S_scheme" where
  "TransL2S_RegisterClbEvent w event pFunction =
     (case event of
        TRANSL2_EVT_NONE \<Rightarrow> w
      | TRANSL2_EVT_RECV_DATA \<Rightarrow> w\<lparr>fClbL2RecvData := pFunction\<rparr>
      | TRANSL2_EVT_SEND_DONE \<Rightarrow> w\<lparr>fClbL2SendDone := pFunction\<rparr>
      | TRANSL2_EVT_ERROR \<Rightarrow> w\<lparr>fClbL2Error := pFunction\<rparr>)"

section \<open>Sending\<close>

definition TransL2S_Send :: "'a STransL2S_scheme \<Rightarrow> u8 \<Rightarrow> blk \<Rightarrow> (ETransErrorCode \<times> 'a STransL2S_scheme) option" where
  "TransL2S_Send w dst b =
     (if \<not> l2Started w then
        Some (TRANS_ERR_NOT_STARTED, w\<lparr>u8ErrorCode := TRANS_ERR_NOT_STARTED\<rparr>)
      else if l2Sending w then
        Some (TRANS_ERR_BUSY, w\<lparr>u8ErrorCode := TRANS_ERR_BUSY\<rparr>)
      else do {
        let w = upd_mem b (\<lambda>m. m\<lparr>u8NumSend := u8NumSend m - 1\<rparr>) w;
        let w = w\<lparr>sMemSend := Some b\<rparr>;
        let w = w\<lparr>frmSend := Some b\<rparr>;
        w \<leftarrow> frm_set b 0 CST_PREAMBLE w;
        w \<leftarrow> frm_set b 1 (u8NodeID w) w;
        w \<leftarrow> frm_set b 2 dst w;
        w \<leftarrow> frm_set b 3 (u8Seq (smems (mem w) b)) w;
        w \<leftarrow> frm_set b 4 (u8Ctrl (smems (mem w) b)) w;
        w \<leftarrow> frm_set b 5 (ucast (u16DLen (smems (mem w) b))) w;
        dl \<leftarrow> frm_get b 5 w;
        (if dl > 240 then Some (TRANS_ERR_PARAM, w\<lparr>u8ErrorCode := TRANS_ERR_PARAM\<rparr>)
         else do {
           w \<leftarrow> (if dl \<noteq> 0 then do { c \<leftarrow> crc_8 (Some (drop 8 (frm b w))) (unat dl); frm_set b 6 c w }
                 else frm_set b 6 0 w);
           c \<leftarrow> crc_8 (Some (drop 1 (frm b w))) (8 - 2);
           w \<leftarrow> frm_set b 7 c w;
           let w = w\<lparr>l2Sending := True, bWaitingL1Send := False, bL1Sending := False\<rparr>;
           let w = w\<lparr>u8ErrorCode := TRANS_SUCCESS\<rparr>;
           Some (u8ErrorCode w, w)
         })
      })"

definition RunSendFrame :: "('a STransL2S_scheme) l2_clbs \<Rightarrow> 'a STransL2S_scheme \<Rightarrow> 'a STransL2S_scheme option" where
  "RunSendFrame cb w = do {
     b \<leftarrow> frmSend w;
     dl \<leftarrow> frm_get b 5 w;
     let u16SendSize = (ucast dl + 8 :: u16);
     (if bWaitingL1Send w then
        (if bL1Sending w then Some w
         else L2FireEvent cb TRANSL2_EVT_SEND_DONE (w\<lparr>l2Sending := False, bWaitingL1Send := False\<rparr>))
      else if TransL1_IsSendReady (sTransL1 w) then do {
        let w = w\<lparr>bL1Sending := True, bWaitingL1Send := True\<rparr>;
        let (e, l1) = TransL1_Send (sTransL1 w) (Some (frm b w)) u16SendSize;
        let w = w\<lparr>sTransL1 := l1\<rparr>;
        (if e = TRANS_SUCCESS then
           (let w = w\<lparr>u8ErrorCode := e\<rparr>;
                w = w\<lparr>u32L1SendTimeout := 40\<rparr>
            in Some (StartL1TimeOutTimer w))
         else
           (let w = w\<lparr>u8ErrorCode := e\<rparr>;
                w = w\<lparr>l2Sending := False\<rparr>
            in L2FireEvent cb TRANSL2_EVT_ERROR w))
      }
      else Some w)
   }"

definition TransL2S_SendTask :: "('a STransL2S_scheme) l2_clbs \<Rightarrow> 'a STransL2S_scheme \<Rightarrow> 'a STransL2S_scheme option" where
  "TransL2S_SendTask cb w = (if l2Sending w then RunSendFrame cb w else Some w)"

section \<open>Receiving\<close>

text \<open>
  One round of the receive loop on the frame buffer \<open>b\<close>: \<open>Inl\<close> is a \<^verbatim>\<open>return\<close> (or the \<^verbatim>\<open>break\<close>, which
  returns \<^verbatim>\<open>FALSE\<close>), \<open>Inr\<close> a \<^verbatim>\<open>continue\<close>.
\<close>

definition recv_round :: "blk \<Rightarrow> 'a STransL2S_scheme \<Rightarrow> ((bool \<times> 'a STransL2S_scheme) + 'a STransL2S_scheme) option" where
  "recv_round b w =
     (if TransL1_GetRecvCount (sTransL1 w) = 0 then Some (Inl (False, w))
      else if u16RecvCount w = 0 then
        (if TransL1_GetRecvCount (sTransL1 w) < 8 then Some (Inl (False, w))
         else do {
           let (x, l1) = TransL1_RecvFF_Pop (sTransL1 w);
           let w = w\<lparr>sTransL1 := l1\<rparr>;
           (if x \<noteq> CST_PREAMBLE then Some (Inr w)
            else do {
              let w = upd_l1 (\<lambda>l1. TransL1_RecvFF_EnProtect l1 True) w;
              let (bs, u16Recv, l1) = TransL1_Recv (sTransL1 w) (8 - 1) [];
              let w = w\<lparr>sTransL1 := l1\<rparr>;
              w \<leftarrow> frm_store b 1 bs w;
              (if u16Recv \<noteq> 8 - 1 then Some (Inl (False, w))
               else do {
                 bCRCH \<leftarrow> crc_8 (Some (drop 1 (frm b w))) (8 - 2);
                 h \<leftarrow> frm_get b 7 w;
                 (if bCRCH \<noteq> h then do {
                    l1 \<leftarrow> TransL1_RecvFF_RewindHead (sTransL1 w);
                    let w = w\<lparr>sTransL1 := TransL1_RecvFF_EnProtect l1 False\<rparr>;
                    Some (Inr w)
                  }
                  else do {
                    let w = upd_l1 (\<lambda>l1. TransL1_RecvFF_EnProtect l1 False) w;
                    dl \<leftarrow> frm_get b 5 w;
                    let w = w\<lparr>statDLen := ucast dl\<rparr>;
                    (if statDLen w \<noteq> 0 then Some (Inr (w\<lparr>u16RecvCount := 8\<rparr>))
                     else Some (Inl (True, w)))
                  })
               })
            })
         })
      else do {
        let nDataCount = uint (u16RecvCount w) - 8;
        let (x, l1) = TransL1_RecvFF_Pop (sTransL1 w);
        let w = w\<lparr>sTransL1 := l1\<rparr>;
        w \<leftarrow> (if nDataCount < 240
              then (if nDataCount < 0 then None else frm_set b (8 + nat nDataCount) x w)
              else Some w);
        let w = w\<lparr>u16RecvCount := u16RecvCount w + 1\<rparr>;
        let nDataCount = nDataCount + 1;
        (if nDataCount < uint (statDLen w) then Some (Inr w)
         else Some (Inl (True, w\<lparr>u16RecvCount := 0\<rparr>)))
      })"

partial_function (option) recv_loop :: "blk \<Rightarrow> 'a STransL2S_scheme \<Rightarrow> (bool \<times> 'a STransL2S_scheme) option" where
  "recv_loop b w =
     Option.bind (recv_round b w) (\<lambda>r. case r of Inl res \<Rightarrow> Some res | Inr w \<Rightarrow> recv_loop b w)"

text \<open>
  The local pointer \<open>pRecvFrm\<close> is read before the buffer is allocated, so it stays NULL when the
  allocation happens here.
\<close>

definition ProcessRecvData :: "('a STransL2S_scheme) l2_clbs \<Rightarrow> 'a STransL2S_scheme \<Rightarrow> (bool \<times> 'a STransL2S_scheme) option" where
  "ProcessRecvData cb w = do {
     let pRecvFrm = frmRecv w;
     (ok, w) \<leftarrow> (if frmRecv w = None then TransL2S_MemAlloc cb w else Some (True, w));
     (if \<not> ok then Some (False, w)
      else do {
        b \<leftarrow> pRecvFrm;
        w \<leftarrow> frm_set b 0 CST_PREAMBLE w;
        recv_loop b w
      })
   }"

definition OnRecvFrame :: "('a STransL2S_scheme) l2_clbs \<Rightarrow> 'a STransL2S_scheme \<Rightarrow> (EL2RecvAction \<times> 'a STransL2S_scheme) option" where
  "OnRecvFrame cb w = do {
     b \<leftarrow> frmRecv w;
     dl \<leftarrow> frm_get b 5 w;
     dst \<leftarrow> frm_get b 2 w;
     (if dst \<noteq> u8NodeID w \<and> dst \<noteq> ADDR_BROADCAST then Some (TRANSL2_ACT_NO, w)
      else if dl > 240 \<and> dst \<noteq> ADDR_BROADCAST then Some (TRANSL2_REQ_NACK, w)
      else do {
        crcd \<leftarrow> frm_get b 6 w;
        ct \<leftarrow> frm_get b 4 w;
        bad \<leftarrow> (if dl \<noteq> 0 then do { c \<leftarrow> crc_8 (Some (drop 8 (frm b w))) (unat dl); Some (crcd \<noteq> c) }
                else Some False);
        (if bad then
           Some (if IS_ACK_REQ ct \<and> dst \<noteq> ADDR_BROADCAST then TRANSL2_REQ_NACK else TRANSL2_ACT_NO,
                 upd_l1 TransL1_RecvFF_Reset w)
         else do {
           sq \<leftarrow> frm_get b 3 w;
           let (bRecvFrame, act, w) =
             (if IS_DATA_FRM ct then
                (if \<not> bCheckSeqNum w \<or> sq \<noteq> u8SeqRemote w then (True, TRANSL2_ACT_NO, w\<lparr>u8SeqRemote := sq\<rparr>)
                 else (False, TRANSL2_ACT_NO, w))
              else if GET_FRM_TYPE ct = CMD_ACK then (False, TRANSL2_RCV_ACK, w\<lparr>u8SeqCMDFrm := sq\<rparr>)
              else if GET_FRM_TYPE ct = CMD_NACK then (False, TRANSL2_RCV_NACK, w\<lparr>u8SeqCMDFrm := sq\<rparr>)
              else (False, TRANSL2_ACT_NO, w));
           let act = (if IS_ACK_REQ ct \<and> dst \<noteq> ADDR_BROADCAST then TRANSL2_REQ_ACK else act);
           w \<leftarrow> (if bRecvFrame then L2FireEvent cb TRANSL2_EVT_RECV_DATA w else Some w);
           Some (act, w)
         })
      })
   }"

definition TransL2S_RecvTask :: "('a STransL2S_scheme) l2_clbs \<Rightarrow> 'a STransL2S_scheme \<Rightarrow> (EL2RecvAction \<times> 'a STransL2S_scheme) option" where
  "TransL2S_RecvTask cb w = do {
     (got, w) \<leftarrow> ProcessRecvData cb w;
     (if got then OnRecvFrame cb w else Some (TRANSL2_ACT_NO, w))
   }"

end
