(* ===== verification/TransL2Recv.thy ===== *)
theory TransL2Recv
  imports TransL2
begin

text \<open>
  Lemmas on the receive side of layer 2.  The receive loop is refined to a scanner on the list of
  queued bytes; from it follow termination, the round trip with \<open>TransL2S_Send\<close> and
  resynchronisation after noise.
\<close>

section \<open>Frame buffers in the state\<close>

definition with_frm :: "blk \<Rightarrow> u8 list \<Rightarrow> 'a STransL2S_scheme \<Rightarrow> 'a STransL2S_scheme" where
  "with_frm b f w = upd_mem b (\<lambda>m. m\<lparr>frame := f\<rparr>) w"

lemma frm_with_frm [simp]: "frm b (with_frm b f w) = f"
  by (simp add: frm_def with_frm_def upd_mem_def)

lemma with_frm_with_frm [simp]: "with_frm b f (with_frm b g w) = with_frm b f w"
  by (simp add: with_frm_def upd_mem_def upd_smem_def)

lemma with_frm_same [simp]: "with_frm b (frm b w) w = w"
  by (simp add: with_frm_def upd_mem_def upd_smem_def frm_def)

lemma frm_set_some: "i < length (frm b w) \<Longrightarrow> frm_set b i x w = Some (with_frm b ((frm b w)[i := x]) w)"
  by (simp add: frm_set_def with_frm_def frm_def upd_mem_def upd_smem_def)

lemma frm_get_some: "i < length (frm b w) \<Longrightarrow> frm_get b i w = Some (frm b w ! i)"
  by (simp add: frm_get_def)

lemma frm_get_with_frm [simp]:
  "frm_get b i (with_frm b f w) = (if i < length f then Some (f ! i) else None)"
  by (simp add: frm_get_def)

lemma frm_simps [simp]:
  "frm b (w\<lparr>sTransL1 := a\<rparr>) = frm b w" "frm b (w\<lparr>statDLen := s\<rparr>) = frm b w"
  "frm b (w\<lparr>u16RecvCount := c\<rparr>) = frm b w" "frm b (w\<lparr>u8SeqRemote := q\<rparr>) = frm b w"
  "frm b (w\<lparr>u8SeqCMDFrm := q\<rparr>) = frm b w"
  by (simp_all add: frm_def)

lemma with_frm_sel [simp]:
  "sTransL1 (with_frm b f w) = sTransL1 w" "statDLen (with_frm b f w) = statDLen w"
  "u16RecvCount (with_frm b f w) = u16RecvCount w" "frmRecv (with_frm b f w) = frmRecv w"
  "u8NodeID (with_frm b f w) = u8NodeID w" "u8SeqRemote (with_frm b f w) = u8SeqRemote w"
  "bCheckSeqNum (with_frm b f w) = bCheckSeqNum w" "sMemRecv (with_frm b f w) = sMemRecv w"
  by (simp_all add: with_frm_def upd_mem_def)

lemma with_frm_upd:
  "(with_frm b f w)\<lparr>sTransL1 := a\<rparr> = with_frm b f (w\<lparr>sTransL1 := a\<rparr>)"
  "(with_frm b f w)\<lparr>statDLen := s\<rparr> = with_frm b f (w\<lparr>statDLen := s\<rparr>)"
  "(with_frm b f w)\<lparr>u16RecvCount := c\<rparr> = with_frm b f (w\<lparr>u16RecvCount := c\<rparr>)"
  by (simp_all add: with_frm_def upd_mem_def)

lemma frm_store_some:
  "i + length xs \<le> length (frm b w) \<Longrightarrow>
     frm_store b i xs w = Some (with_frm b (take i (frm b w) @ xs @ drop (i + length xs) (frm b w)) w)"
proof (induction xs arbitrary: i w)
  case (Cons x xs)
  have "take (Suc i) ((frm b w)[i := x]) = take i (frm b w) @ [x]"
    using Cons.prems by (simp add: take_Suc_conv_app_nth)
  then show ?case using Cons by (simp add: frm_set_some)
qed simp

section \<open>Layer 1 on the list of queued bytes\<close>

definition l1_bytes :: "l1_clb STransL1 \<Rightarrow> u8 list" where
  "l1_bytes l1 = fifo_list (sRecvFIFO l1)"

text \<open>A receive FIFO in order, large enough for a frame header.\<close>

definition l1_ok :: "l1_clb STransL1 \<Rightarrow> bool" where
  "l1_ok l1 \<longleftrightarrow> fifo_wf (sRecvFIFO l1) \<and> 8 \<le> unat (u16MaxSize (sRecvFIFO l1))"

lemma l1_count: "l1_ok l1 \<Longrightarrow> unat (TransL1_GetRecvCount l1) = length (l1_bytes l1)"
  by (simp add: TransL1_GetRecvCount_def FIFO_GetCount_def l1_bytes_def length_fifo_list)

lemma l1_pop:
  assumes "l1_ok l1" "l1_bytes l1 = x # xs"
  obtains ff where "TransL1_RecvFF_Pop l1 = (x, l1\<lparr>sRecvFIFO := ff\<rparr>)" "l1_ok (l1\<lparr>sRecvFIFO := ff\<rparr>)"
    "l1_bytes (l1\<lparr>sRecvFIFO := ff\<rparr>) = xs"
  using ff.pop_some [of "sRecvFIFO l1" x xs] assms that
  by (auto simp: TransL1_RecvFF_Pop_def l1_ok_def l1_bytes_def)

text \<open>The protected read of a header, and its two ends.\<close>

lemma l1_header:
  assumes "l1_ok l1" "7 \<le> length (l1_bytes l1)"
  obtains ff ff1 lr ff2 where
    "TransL1_Recv (TransL1_RecvFF_EnProtect l1 True) 7 [] = (take 7 (l1_bytes l1), 7, l1\<lparr>sRecvFIFO := ff\<rparr>)"
    "TransL1_RecvFF_EnProtect (l1\<lparr>sRecvFIFO := ff\<rparr>) False = l1\<lparr>sRecvFIFO := ff1\<rparr>"
    "l1_ok (l1\<lparr>sRecvFIFO := ff1\<rparr>)" "l1_bytes (l1\<lparr>sRecvFIFO := ff1\<rparr>) = drop 7 (l1_bytes l1)"
    "TransL1_RecvFF_RewindHead (l1\<lparr>sRecvFIFO := ff\<rparr>) = Some lr"
    "TransL1_RecvFF_EnProtect lr False = l1\<lparr>sRecvFIFO := ff2\<rparr>"
    "l1_ok (l1\<lparr>sRecvFIFO := ff2\<rparr>)" "l1_bytes (l1\<lparr>sRecvFIFO := ff2\<rparr>) = l1_bytes l1"
proof -
  let ?l = "TransL1_RecvFF_EnProtect l1 True" and ?f = "sRecvFIFO l1"
  have wf: "fifo_wf ?f" "8 \<le> unat (u16MaxSize ?f)" using assms(1) by (simp_all add: l1_ok_def)
  have l: "?l = l1\<lparr>sRecvFIFO := FIFO_EnableProtect ?f\<rparr>" by (simp add: TransL1_RecvFF_EnProtect_def)
  have p: "fifo_wf (sRecvFIFO ?l)" "fifo_list (sRecvFIFO ?l) = l1_bytes l1"
    using protected_start [OF wf(1)] by (simp_all add: l l1_bytes_def)
  obtain bs n l2 where r: "TransL1_Recv ?l 7 [] = (bs, n, l2)" by (cases "TransL1_Recv ?l 7 []") auto
  from TransL1_Recv_fifo [OF p(1) r] have rr: "bs = take 7 (l1_bytes l1)" "unat n = length bs"
    "fifo_wf (sRecvFIFO l2)" "l2 = ?l\<lparr>sRecvFIFO := sRecvFIFO l2\<rparr>"
    "u16MaxSize (sRecvFIFO l2) = u16MaxSize (sRecvFIFO ?l)"
    "fifo_list (sRecvFIFO l2) = drop 7 (l1_bytes l1)" using p(2) by auto
  have n: "n = 7" using rr(1,2) assms(2) by (simp add: word_unat_eq_iff)
  have "sRecvFIFO l2 = fifo_run (replicate 7 EvPop) (FIFO_EnableProtect ?f)"
  proof -
    have "\<not> FIFO_GetCount (sRecvFIFO ?l) < 7"
      using assms(2) p(2) length_fifo_list [of "sRecvFIFO ?l"] by (simp add: FIFO_GetCount_def word_less_nat_alt)
    then have "sRecvFIFO l2 = snd (pop_n FIFO_Push FIFO_Pop 7 [] (sRecvFIFO ?l))"
      using r by (auto simp: TransL1_Recv_def Let_def split: prod.splits)
    then show ?thesis by (simp add: l pop_n_run)
  qed
  then obtain fr where fr: "FIFO_RewindHead (sRecvFIFO l2) = Some fr" "fifo_wf fr" "fifo_list fr = l1_bytes l1"
    "u16MaxSize fr = u16MaxSize ?f"
    using FIFO_rewind_run [OF wf(1), of "replicate 7 EvPop"] wf(2) assms(2) ff.inv_cap [OF wf(1)]
    by (auto simp: l1_bytes_def)
  have dis: "fifo_wf (FIFO_DisableProtect f) = fifo_wf f" "fifo_list (FIFO_DisableProtect f) = fifo_list f"
    "u16MaxSize (FIFO_DisableProtect f) = u16MaxSize f" for f
    by (simp_all add: FIFO_DisableProtect_def fifo_wf_def fifo_list_def)
  obtain f2 where l2: "l2 = l1\<lparr>sRecvFIFO := f2\<rparr>" using rr(4) l that by simp
  have mx: "u16MaxSize (sRecvFIFO l2) = u16MaxSize ?f" using rr(5) by (simp add: l FIFO_EnableProtect_def)
  have "TransL1_Recv ?l 7 [] = (take 7 (l1_bytes l1), 7, l1\<lparr>sRecvFIFO := f2\<rparr>)"
    using r rr(1) n l2 by simp
  then show ?thesis
    by (rule that [of f2 "FIFO_DisableProtect f2" "l1\<lparr>sRecvFIFO := fr\<rparr>" "FIFO_DisableProtect fr"])
      (use rr(3,6) fr wf mx in \<open>simp_all add: TransL1_RecvFF_EnProtect_def TransL1_RecvFF_RewindHead_def
        l1_ok_def l1_bytes_def dis l2\<close>)
qed

section \<open>The scanner\<close>

text \<open>
  The part of the state the receive loop works on: the frame buffer, the queued bytes, the count of
  received bytes and the expected data length.
\<close>

type_synonym rx = "u8 list \<times> u8 list \<times> nat \<times> nat"

definition rx_of :: "blk \<Rightarrow> 'a STransL2S_scheme \<Rightarrow> rx" where
  "rx_of b w = (frm b w, l1_bytes (sTransL1 w), unat (u16RecvCount w), unat (statDLen w))"

definition rx_inv :: "blk \<Rightarrow> 'a STransL2S_scheme \<Rightarrow> bool" where
  "rx_inv b w \<longleftrightarrow> 248 \<le> length (frm b w) \<and> l1_ok (sTransL1 w)
     \<and> (unat (u16RecvCount w) = 0 \<or> 8 \<le> unat (u16RecvCount w) \<and> unat (u16RecvCount w) \<le> 263)
     \<and> unat (statDLen w) \<le> 255"

text \<open>Nothing else changes.\<close>

definition rx_same :: "blk \<Rightarrow> 'a STransL2S_scheme \<Rightarrow> 'a STransL2S_scheme \<Rightarrow> bool" where
  "rx_same b w w' \<longleftrightarrow> (\<exists>f ff c s. w' = with_frm b f
     (w\<lparr>sTransL1 := (sTransL1 w)\<lparr>sRecvFIFO := ff\<rparr>, u16RecvCount := c, statDLen := s\<rparr>))"

definition put_header :: "u8 list \<Rightarrow> u8 list \<Rightarrow> u8 list" where
  "put_header f l = take 1 f @ take 7 l @ drop 8 f"

definition header_ok :: "u8 list \<Rightarrow> bool" where
  "header_ok l \<longleftrightarrow> crc8_of (take 6 l) = l ! 6"

definition rx_round :: "rx \<Rightarrow> (bool \<times> rx) + rx" where
  "rx_round = (\<lambda>(f, l, c, s).
     if l = [] then Inl (False, f, l, c, s)
     else if c = 0 then
       (if length l < 8 then Inl (False, f, l, c, s)
        else if hd l \<noteq> CST_PREAMBLE then Inr (f, tl l, 0, s)
        else if \<not> header_ok (tl l) then Inr (put_header f (tl l), tl l, 0, s)
        else if l ! 5 = 0 then Inl (True, put_header f (tl l), drop 8 l, 0, 0)
        else Inr (put_header f (tl l), drop 8 l, 8, unat (l ! 5)))
     else (let f = (if c < 248 then f[c := hd l] else f) in
       if c + 1 < s + 8 then Inr (f, tl l, c + 1, s) else Inl (True, f, tl l, 0, s)))"

definition rx_res :: "blk \<Rightarrow> (bool \<times> 'a STransL2S_scheme) + 'a STransL2S_scheme \<Rightarrow> (bool \<times> rx) + rx" where
  "rx_res b r = (case r of Inl (t, w) \<Rightarrow> Inl (t, rx_of b w) | Inr w \<Rightarrow> Inr (rx_of b w))"

definition res_state :: "(bool \<times> 'a) + 'a \<Rightarrow> 'a" where
  "res_state r = (case r of Inl (t, w) \<Rightarrow> w | Inr w \<Rightarrow> w)"

lemma res_state_simps [simp]: "res_state (Inl (t, w)) = w" "res_state (Inr w) = w"
  by (simp_all add: res_state_def)

lemma rx_res_simps [simp]: "rx_res b (Inl (t, w)) = Inl (t, rx_of b w)" "rx_res b (Inr w) = Inr (rx_of b w)"
  by (simp_all add: rx_res_def)

lemma rx_same_refl [simp]: "rx_same b w w"
proof -
  have "w = with_frm b (frm b w) (w\<lparr>sTransL1 := (sTransL1 w)\<lparr>sRecvFIFO := sRecvFIFO (sTransL1 w)\<rparr>,
      u16RecvCount := u16RecvCount w, statDLen := statDLen w\<rparr>)"
    using with_frm_same [of b w] by simp
  then show ?thesis unfolding rx_same_def by blast
qed

lemma rx_sameI:
  "rx_same b w (with_frm b f (w\<lparr>sTransL1 := (sTransL1 w)\<lparr>sRecvFIFO := ff\<rparr>, u16RecvCount := c, statDLen := s\<rparr>))"
  unfolding rx_same_def by blast

lemma rx_sameI2:
  "rx_same b w (with_frm b f (w\<lparr>sTransL1 := (sTransL1 w)\<lparr>sRecvFIFO := ff\<rparr>, statDLen := s, u16RecvCount := c\<rparr>))"
proof -
  have "w\<lparr>sTransL1 := l, statDLen := s, u16RecvCount := c\<rparr> = w\<lparr>sTransL1 := l, u16RecvCount := c, statDLen := s\<rparr>" for l
    by (cases w) simp
  then show ?thesis using rx_sameI by metis
qed

lemma rx_same_trans: "rx_same b w w1 \<Longrightarrow> rx_same b w1 w2 \<Longrightarrow> rx_same b w w2"
proof -
  assume "rx_same b w w1" "rx_same b w1 w2"
  then obtain f ff c s f' ff' c' s' where
    "w1 = with_frm b f (w\<lparr>sTransL1 := (sTransL1 w)\<lparr>sRecvFIFO := ff\<rparr>, u16RecvCount := c, statDLen := s\<rparr>)"
    "w2 = with_frm b f' (w1\<lparr>sTransL1 := (sTransL1 w1)\<lparr>sRecvFIFO := ff'\<rparr>, u16RecvCount := c', statDLen := s'\<rparr>)"
    unfolding rx_same_def by blast
  then have "w2 = with_frm b f' (w\<lparr>sTransL1 := (sTransL1 w)\<lparr>sRecvFIFO := ff'\<rparr>, u16RecvCount := c', statDLen := s'\<rparr>)"
    by (simp add: with_frm_upd)
  then show ?thesis unfolding rx_same_def by blast
qed

definition rx_refines :: "blk \<Rightarrow> 'a STransL2S_scheme \<Rightarrow> ((bool \<times> 'a STransL2S_scheme) + 'a STransL2S_scheme) \<Rightarrow> bool" where
  "rx_refines b w r \<longleftrightarrow>
     rx_round (rx_of b w) = rx_res b r \<and> rx_inv b (res_state r) \<and> rx_same b w (res_state r)"

lemma count_zero: "l1_ok l1 \<Longrightarrow> (TransL1_GetRecvCount l1 = 0) = (l1_bytes l1 = [])"
  using l1_count [of l1] by (metis length_0_conv unat_eq_0)

lemma recv_round_empty:
  "rx_inv b w \<Longrightarrow> l1_bytes (sTransL1 w) = [] \<Longrightarrow>
     recv_round b w = Some (Inl (False, w)) \<and> rx_refines b w (Inl (False, w))"
  by (simp add: recv_round_def rx_refines_def rx_inv_def count_zero rx_round_def rx_of_def)

lemma recv_round_data:
  assumes inv: "rx_inv b w" and l: "l1_bytes (sTransL1 w) = x # xs" and c: "u16RecvCount w \<noteq> 0"
  shows "\<exists>r. recv_round b w = Some r \<and> rx_refines b w r"
proof -
  let ?l1 = "sTransL1 w" and ?c = "unat (u16RecvCount w)" and ?s = "unat (statDLen w)"
  have i: "248 \<le> length (frm b w)" "l1_ok ?l1" "8 \<le> ?c" "?c \<le> 263" "?s \<le> 255"
    using inv c by (auto simp: rx_inv_def unat_eq_0)
  have nz: "TransL1_GetRecvCount ?l1 \<noteq> 0" using i(2) l by (simp add: count_zero)
  obtain ff where pop: "TransL1_RecvFF_Pop ?l1 = (x, ?l1\<lparr>sRecvFIFO := ff\<rparr>)" "l1_ok (?l1\<lparr>sRecvFIFO := ff\<rparr>)"
    "l1_bytes (?l1\<lparr>sRecvFIFO := ff\<rparr>) = xs" using l1_pop [OF i(2) l] by blast
  have c1: "unat (u16RecvCount w + 1) = ?c + 1" using i(4) by (subst unat_Suc_word) simp_all
  define f where "f = (if ?c < 248 then (frm b w)[?c := x] else frm b w)"
  define w1 where "w1 = w\<lparr>sTransL1 := ?l1\<lparr>sRecvFIFO := ff\<rparr>\<rparr>"
  obtain k m where km: "uint (u16RecvCount w) = int k" "uint (statDLen w) = int m" "?c = k" "?s = m"
    by (simp add: uint_nat)
  have "8 \<le> k" using i(3) km(3) by simp
  then have n: "int k - 8 < 240 \<longleftrightarrow> k < 248" "\<not> int k - 8 < 0" "8 + nat (int k - 8) = k"
    "int k - 8 + 1 < int m \<longleftrightarrow> k + 1 < m + 8" by auto
  have st: "(if int k - 8 < 240 then (if int k - 8 < 0 then None else frm_set b (8 + nat (int k - 8)) x w1)
      else Some w1) = Some (with_frm b f w1)"
  proof (cases "k < 248")
    case True
    then show ?thesis using i(1) n km by (simp add: frm_set_some w1_def f_def)
  next
    case False
    then show ?thesis using n(1) km by (simp add: f_def) (metis frm_simps(1) w1_def with_frm_same)
  qed
  define w2 where "w2 = with_frm b f (w1\<lparr>u16RecvCount := u16RecvCount w + 1\<rparr>)"
  define r where "r = (if k + 1 < m + 8 then Inr w2 else Inl (True, w2\<lparr>u16RecvCount := 0\<rparr>))"
  have sel: "u16RecvCount w1 = u16RecvCount w" "statDLen w1 = statDLen w" by (simp_all add: w1_def)
  have "recv_round b w = Some r"
    unfolding recv_round_def Let_def pop(1) prod.case w1_def [symmetric] sel km(1,2) st bind.bind_lunit
    using nz c n(4) by (simp add: r_def w2_def with_frm_upd sel km)
  moreover have "rx_refines b w r"
  proof -
    have "length f = length (frm b w)" by (simp add: f_def)
    moreover have "rx_same b w w2" "rx_same b w (w2\<lparr>u16RecvCount := 0\<rparr>)"
      unfolding w2_def w1_def with_frm_upd using rx_sameI [where b = b and w = w and f = f and ff = ff and s = "statDLen w"] by simp_all
    ultimately show ?thesis using i l c1 pop
      by (auto simp: rx_refines_def r_def rx_inv_def rx_of_def rx_round_def w2_def w1_def with_frm_upd
          Let_def f_def unat_eq_0 km)
  qed
  ultimately show ?thesis by blast
qed

lemma recv_round_seek:
  assumes inv: "rx_inv b w" and c: "u16RecvCount w = 0" and l: "l1_bytes (sTransL1 w) = x # xs"
    and no: "length xs < 7 \<or> x \<noteq> CST_PREAMBLE"
  shows "\<exists>r. recv_round b w = Some r \<and> rx_refines b w r"
proof -
  let ?l1 = "sTransL1 w"
  have i: "248 \<le> length (frm b w)" "l1_ok ?l1" "unat (statDLen w) \<le> 255"
    using inv by (auto simp: rx_inv_def)
  have nz: "TransL1_GetRecvCount ?l1 \<noteq> 0" using i(2) l by (simp add: count_zero)
  have lt: "TransL1_GetRecvCount ?l1 < 8 \<longleftrightarrow> length xs < 7"
    using l1_count [OF i(2)] l by (simp add: word_less_nat_alt)
  show ?thesis
  proof (cases "length xs < 7")
    case True
    then have "recv_round b w = Some (Inl (False, w))" using nz c lt by (simp add: recv_round_def)
    moreover have "rx_refines b w (Inl (False, w))"
      using True inv l c by (simp add: rx_refines_def rx_of_def rx_round_def)
    ultimately show ?thesis by blast
  next
    case False
    obtain ff where pop: "TransL1_RecvFF_Pop ?l1 = (x, ?l1\<lparr>sRecvFIFO := ff\<rparr>)" "l1_ok (?l1\<lparr>sRecvFIFO := ff\<rparr>)"
      "l1_bytes (?l1\<lparr>sRecvFIFO := ff\<rparr>) = xs" using l1_pop [OF i(2) l] by blast
    define w1 where "w1 = w\<lparr>sTransL1 := ?l1\<lparr>sRecvFIFO := ff\<rparr>\<rparr>"
    have "recv_round b w = Some (Inr w1)"
      using nz c lt False no pop(1) by (simp add: recv_round_def w1_def)
    moreover have "rx_same b w w1"
    proof -
      have "w1 = with_frm b (frm b w1) w1" by simp
      moreover have "with_frm b (frm b w1) w1 = with_frm b (frm b w1)
          (w\<lparr>sTransL1 := ?l1\<lparr>sRecvFIFO := ff\<rparr>, u16RecvCount := u16RecvCount w, statDLen := statDLen w\<rparr>)"
        by (simp add: w1_def)
      ultimately show ?thesis unfolding rx_same_def by metis
    qed
    then have "rx_refines b w (Inr w1)"
      using False no l c pop i by (simp add: rx_refines_def rx_of_def rx_round_def w1_def rx_inv_def)
    ultimately show ?thesis by blast
  qed
qed

lemma recv_round_header:
  assumes inv: "rx_inv b w" and c: "u16RecvCount w = 0" and l: "l1_bytes (sTransL1 w) = CST_PREAMBLE # xs"
    and len: "7 \<le> length xs"
  shows "\<exists>r. recv_round b w = Some r \<and> rx_refines b w r"
proof -
  let ?l1 = "sTransL1 w"
  have i: "248 \<le> length (frm b w)" "l1_ok ?l1" "unat (statDLen w) \<le> 255"
    using inv by (auto simp: rx_inv_def)
  have nz: "TransL1_GetRecvCount ?l1 \<noteq> 0" using i(2) l by (simp add: count_zero)
  have nlt: "\<not> TransL1_GetRecvCount ?l1 < 8"
    using l1_count [OF i(2)] l len by (simp add: word_less_nat_alt)
  obtain ff where pop: "TransL1_RecvFF_Pop ?l1 = (CST_PREAMBLE, ?l1\<lparr>sRecvFIFO := ff\<rparr>)" "l1_ok (?l1\<lparr>sRecvFIFO := ff\<rparr>)"
    "l1_bytes (?l1\<lparr>sRecvFIFO := ff\<rparr>) = xs" using l1_pop [OF i(2) l] by blast
  let ?l2 = "?l1\<lparr>sRecvFIFO := ff\<rparr>"
  have "7 \<le> length (l1_bytes ?l2)" using len pop(3) by simp
  from l1_header [OF pop(2) this] obtain fa f1 lr f2 where hd:
    "TransL1_Recv (TransL1_RecvFF_EnProtect ?l2 True) 7 [] = (take 7 (l1_bytes ?l2), 7, ?l2\<lparr>sRecvFIFO := fa\<rparr>)"
    "TransL1_RecvFF_EnProtect (?l2\<lparr>sRecvFIFO := fa\<rparr>) False = ?l2\<lparr>sRecvFIFO := f1\<rparr>"
    "l1_ok (?l2\<lparr>sRecvFIFO := f1\<rparr>)" "l1_bytes (?l2\<lparr>sRecvFIFO := f1\<rparr>) = drop 7 (l1_bytes ?l2)"
    "TransL1_RecvFF_RewindHead (?l2\<lparr>sRecvFIFO := fa\<rparr>) = Some lr"
    "TransL1_RecvFF_EnProtect lr False = ?l2\<lparr>sRecvFIFO := f2\<rparr>"
    "l1_ok (?l2\<lparr>sRecvFIFO := f2\<rparr>)" "l1_bytes (?l2\<lparr>sRecvFIFO := f2\<rparr>) = l1_bytes ?l2" by blast
  note h = hd [unfolded pop(3), simplified]
  define f where "f = put_header (frm b w) xs"
  define wa where "wa = with_frm b f (w\<lparr>sTransL1 := ?l1\<lparr>sRecvFIFO := fa\<rparr>\<rparr>)"
  have store: "frm_store b 1 (take 7 xs) (w\<lparr>sTransL1 := ?l1\<lparr>sRecvFIFO := fa\<rparr>\<rparr>) = Some wa"
    using i(1) len by (subst frm_store_some) (simp_all add: wa_def f_def put_header_def)
  have f: "length f = length (frm b w)" "take 6 (drop 1 f) = take 6 xs" "f ! 7 = xs ! 6" "f ! 5 = xs ! 4"
    using i(1) len by (simp_all add: f_def put_header_def nth_append min_def)
  have crc: "crc_8 (Some (drop 1 (frm b wa))) (8 - 2) = Some (crc8_of (take 6 xs))"
    using crc_8_of [of 6 "drop 1 f"] f i(1) by (simp add: wa_def)
  have lf: "7 < length f" "5 < length f" using f(1) i(1) by simp_all
  define wr where "wr = with_frm b f (w\<lparr>sTransL1 := ?l1\<lparr>sRecvFIFO := f2\<rparr>\<rparr>)"
  define wk where "wk = with_frm b f (w\<lparr>sTransL1 := ?l1\<lparr>sRecvFIFO := f1\<rparr>, statDLen := ucast (xs ! 4)\<rparr>)"
  define r where "r = (if \<not> header_ok xs then Inr wr
     else if xs ! 4 = 0 then Inl (True, wk) else Inr (wk\<lparr>u16RecvCount := 8\<rparr>))"
  have "recv_round b w = Some r"
    unfolding recv_round_def using nz nlt c pop(1) h(1,2) store crc lf f(3,4) h(5,6)
    by (simp add: upd_l1_def Let_def r_def header_ok_def wa_def wr_def wk_def with_frm_upd)
  moreover have "rx_refines b w r"
  proof -
    have "rx_same b w wr" "rx_same b w wk" "rx_same b w (wk\<lparr>u16RecvCount := 8\<rparr>)"
      unfolding wr_def wk_def with_frm_upd
      using rx_sameI [where b = b and w = w and f = f and ff = f2 and c = "u16RecvCount w" and s = "statDLen w"]
        rx_sameI [where b = b and w = w and f = f and ff = f1 and c = "u16RecvCount w"]
        rx_sameI2 [where b = b and w = w and f = f and ff = f1] by simp_all
    then show ?thesis using i c l len h f(1)
      by (auto simp: rx_refines_def r_def rx_inv_def rx_of_def rx_round_def wr_def wk_def with_frm_upd f_def)
  qed
  ultimately show ?thesis by blast
qed

lemma recv_round_refines:
  assumes "rx_inv b w"
  shows "\<exists>r. recv_round b w = Some r \<and> rx_refines b w r"
proof (cases "l1_bytes (sTransL1 w)")
  case Nil
  then show ?thesis using recv_round_empty assms by blast
next
  case (Cons x xs)
  then show ?thesis
    using recv_round_data [OF assms Cons] recv_round_seek [OF assms _ Cons] recv_round_header [OF assms, of xs]
    by (cases "u16RecvCount w = 0"; cases "length xs < 7 \<or> x \<noteq> CST_PREAMBLE") (auto simp: not_less)
qed

lemma rx_round_less:
  "rx_round (f, l, c, s) = Inr (f', l', c', s') \<Longrightarrow> length l' < length l"
  by (auto simp: rx_round_def Let_def split: if_splits)

function rx_loop :: "rx \<Rightarrow> bool \<times> rx" where
  "rx_loop x = (case rx_round x of Inl r \<Rightarrow> r | Inr y \<Rightarrow> rx_loop y)"
  by pat_completeness auto
termination
  by (relation "measure (\<lambda>(f, l, c, s). length l)") (auto dest!: sym rx_round_less)

declare rx_loop.simps [simp del]

lemma recv_loop_refines:
  "rx_inv b w \<Longrightarrow> \<exists>t w'. recv_loop b w = Some (t, w') \<and> rx_loop (rx_of b w) = (t, rx_of b w')
     \<and> rx_inv b w' \<and> rx_same b w w'"
proof (induction "length (l1_bytes (sTransL1 w))" arbitrary: w rule: less_induct)
  case less
  obtain r where r: "recv_round b w = Some r" "rx_refines b w r"
    using recv_round_refines [OF less.prems] by blast
  show ?case
  proof (cases r)
    case (Inl tw)
    then obtain t w' where "r = Inl (t, w')" by (cases tw) auto
    then show ?thesis
      using r by (auto simp: recv_loop.simps rx_refines_def rx_loop.simps [of "rx_of b w"])
  next
    case (Inr w1)
    then have w1: "rx_round (rx_of b w) = Inr (rx_of b w1)" "rx_inv b w1" "rx_same b w w1"
      using r(2) by (simp_all add: rx_refines_def)
    have "length (l1_bytes (sTransL1 w1)) < length (l1_bytes (sTransL1 w))"
      using w1(1) rx_round_less by (simp add: rx_of_def)
    from less.hyps [OF this w1(2)] obtain t w' where
      ih: "recv_loop b w1 = Some (t, w')" "rx_loop (rx_of b w1) = (t, rx_of b w')" "rx_inv b w'" "rx_same b w1 w'"
      by blast
    have "recv_loop b w = Some (t, w')" using r(1) Inr ih(1) by (subst recv_loop.simps) simp
    moreover have "rx_loop (rx_of b w) = (t, rx_of b w')" using w1(1) ih(2) by (subst rx_loop.simps) simp
    ultimately show ?thesis using ih rx_same_trans [OF w1(3)] by blast
  qed
qed

section \<open>What the scanner finds\<close>

text \<open>A frame on the wire (the format drawn in TransDefS.h).\<close>

definition frame_header :: "u8 \<Rightarrow> u8 \<Rightarrow> u8 \<Rightarrow> u8 \<Rightarrow> u8 list \<Rightarrow> u8 list" where
  "frame_header src dst sq ctrl data =
     [src, dst, sq, ctrl, of_nat (length data), if data = [] then 0 else crc8_of data]"

definition frame_bytes :: "u8 \<Rightarrow> u8 \<Rightarrow> u8 \<Rightarrow> u8 \<Rightarrow> u8 list \<Rightarrow> u8 list" where
  "frame_bytes src dst sq ctrl data =
     CST_PREAMBLE # frame_header src dst sq ctrl data @ [crc8_of (frame_header src dst sq ctrl data)] @ data"

lemma length_frame_header [simp]: "length (frame_header src dst sq ctrl data) = 6"
  by (simp add: frame_header_def)

lemma length_frame_bytes [simp]: "length (frame_bytes src dst sq ctrl data) = 8 + length data"
  by (simp add: frame_bytes_def)

definition at_header :: "u8 list \<Rightarrow> bool" where
  "at_header l \<longleftrightarrow> l \<noteq> [] \<and> hd l = CST_PREAMBLE \<and> header_ok (tl l)"

text \<open>No position of the first \<open>n\<close> looks like the start of a frame.\<close>

definition quiet :: "u8 list \<Rightarrow> nat \<Rightarrow> bool" where
  "quiet l n \<longleftrightarrow> (\<forall>i<n. \<not> at_header (drop i l))"

lemma rx_loop_quiet:
  "quiet (ns @ l) (length ns) \<Longrightarrow> 8 \<le> length l \<Longrightarrow> 8 \<le> length f \<Longrightarrow>
     \<exists>f'. rx_loop (f, ns @ l, 0, s) = rx_loop (f', l, 0, s) \<and> take 1 f' = take 1 f \<and> length f' = length f
       \<and> drop 8 f' = drop 8 f"
proof (induction ns arbitrary: f)
  case (Cons n ns)
  have q: "quiet (ns @ l) (length ns)"
    using Cons.prems(1) unfolding quiet_def by (auto dest: spec [of _ "Suc _"])
  have "\<not> at_header (n # ns @ l)" using Cons.prems(1) by (auto simp: quiet_def dest: spec [of _ 0])
  then have "\<exists>f1. rx_round (f, (n # ns) @ l, 0, s) = Inr (f1, ns @ l, 0, s) \<and> take 1 f1 = take 1 f
      \<and> length f1 = length f \<and> drop 8 f1 = drop 8 f"
    using Cons.prems by (auto simp: rx_round_def at_header_def put_header_def min_def)
  then obtain f1 where f1: "rx_round (f, (n # ns) @ l, 0, s) = Inr (f1, ns @ l, 0, s)" "take 1 f1 = take 1 f"
    "length f1 = length f" "drop 8 f1 = drop 8 f" by blast
  then show ?case using Cons.IH [OF q Cons.prems(2), of f1] Cons.prems(3) by (subst rx_loop.simps) auto
qed auto

lemma rx_loop_data:
  "xs \<noteq> [] \<Longrightarrow> 8 \<le> c \<Longrightarrow> c + length xs = s + 8 \<Longrightarrow> s \<le> 240 \<Longrightarrow> 248 \<le> length f \<Longrightarrow>
     rx_loop (f, xs @ l, c, s) = (True, take c f @ xs @ drop (c + length xs) f, l, 0, s)"
proof (induction xs arbitrary: c f)
  case (Cons x xs)
  let ?f = "f[c := x]"
  have c: "c < 248" using Cons.prems by simp
  have tk: "take (Suc c) ?f = take c f @ [x]" using Cons.prems c by (simp add: take_Suc_conv_app_nth)
  show ?case
  proof (cases "xs = []")
    case True
    then have "rx_round (f, (x # xs) @ l, c, s) = Inl (True, ?f, l, 0, s)"
      using Cons.prems c by (simp add: rx_round_def Let_def)
    moreover have "?f = take c f @ [x] @ drop (Suc c) f" using Cons.prems c by (simp add: upd_conv_take_nth_drop)
    ultimately show ?thesis using True by (subst rx_loop.simps) simp
  next
    case False
    then have "rx_round (f, (x # xs) @ l, c, s) = Inr (?f, xs @ l, Suc c, s)"
      using Cons.prems c by (cases xs) (simp_all add: rx_round_def Let_def)
    moreover have "rx_loop (?f, xs @ l, Suc c, s)
        = (True, take (Suc c) ?f @ xs @ drop (Suc c + length xs) ?f, l, 0, s)"
      using Cons.IH [OF False, of "Suc c" ?f] Cons.prems by simp
    ultimately show ?thesis using tk by (subst rx_loop.simps) simp
  qed
qed simp

lemma rx_loop_frame:
  assumes "length data \<le> 240" "248 \<le> length f" "hd f = CST_PREAMBLE"
  shows "\<exists>f'. rx_loop (f, frame_bytes src dst sq ctrl data @ l, 0, s) = (True, f', l, 0, length data)
     \<and> take (8 + length data) f' = frame_bytes src dst sq ctrl data \<and> length f' = length f"
proof -
  let ?h = "frame_header src dst sq ctrl data" and ?b = "frame_bytes src dst sq ctrl data @ l"
  have t: "tl ?b = (?h @ [crc8_of ?h]) @ data @ l" by (simp add: frame_bytes_def)
  have ok: "header_ok (tl ?b)" by (simp add: header_ok_def t frame_header_def)
  have dl: "unat (?b ! 5) = length data"
    using assms(1) by (simp add: frame_bytes_def frame_header_def unat_of_nat)
  have dr: "drop 8 ?b = data @ l" by (simp add: frame_bytes_def frame_header_def)
  define g where "g = put_header f (tl ?b)"
  have g: "take 8 g = take 8 ?b" "length g = length f" "drop 8 g = drop 8 f"
    using assms(2,3) by (cases f, simp, simp add: g_def put_header_def t frame_bytes_def min_def)+
  have hd: "?b \<noteq> []" "\<not> length ?b < 8" "hd ?b = CST_PREAMBLE" by (simp_all add: frame_bytes_def)
  show ?thesis
  proof (cases "data = []")
    case True
    then have "?b ! 5 = 0" using dl by (simp add: unat_eq_0)
    then have "rx_round (f, ?b, 0, s) = Inl (True, g, l, 0, 0)"
      using hd ok dr True by (simp add: rx_round_def g_def)
    then show ?thesis using True g(1,2) by (subst rx_loop.simps) simp
  next
    case False
    then have "?b ! 5 \<noteq> 0" using dl by (metis length_0_conv unat_0)
    then have "rx_round (f, ?b, 0, s) = Inr (g, data @ l, 8, length data)"
      using hd ok dr dl by (simp add: rx_round_def g_def)
    moreover have "rx_loop (g, data @ l, 8, length data)
        = (True, take 8 g @ data @ drop (8 + length data) g, l, 0, length data)"
      using rx_loop_data [OF False, of 8 "length data" g l] assms g(2) by simp
    moreover have "take 8 g @ data = frame_bytes src dst sq ctrl data"
      using g(1) by (simp add: frame_bytes_def frame_header_def)
    ultimately show ?thesis using g(2) assms
      by (subst rx_loop.simps) (simp flip: append_assoc)
  qed
qed

section \<open>Resumption\<close>

lemma header_ok_append: "7 \<le> length xs \<Longrightarrow> header_ok (xs @ ys) = header_ok xs"
  by (simp add: header_ok_def nth_append)

lemma put_header_append: "7 \<le> length xs \<Longrightarrow> put_header f (xs @ ys) = put_header f xs"
  by (simp add: put_header_def)

lemma rx_round_append:
  assumes "xs \<noteq> []" "c \<noteq> 0 \<or> 8 \<le> length xs"
  shows "case rx_round (f, xs, c, s) of
      Inl (t, f', l', c', s') \<Rightarrow> t \<and> rx_round (f, xs @ ys, c, s) = Inl (t, f', l' @ ys, c', s')
    | Inr (f', l', c', s') \<Rightarrow> rx_round (f, xs @ ys, c, s) = Inr (f', l' @ ys, c', s')"
proof -
  have "7 \<le> length (tl xs)" "tl (xs @ ys) = tl xs @ ys" if "c = 0" using assms that by auto
  moreover have "(xs @ ys) ! 5 = xs ! 5" "drop 8 (xs @ ys) = drop 8 xs @ ys" if "c = 0"
    using assms that by (auto simp: nth_append)
  ultimately show ?thesis
    using assms by (auto simp: rx_round_def Let_def header_ok_append put_header_append)
qed

lemma rx_loop_append:
  "rx_loop (f, xs, c, s) = (t, f', l', c', s') \<Longrightarrow>
     rx_loop (f, xs @ ys, c, s) = (if t then (True, f', l' @ ys, c', s') else rx_loop (f', l' @ ys, c', s'))"
proof (induction "length xs" arbitrary: f xs c s rule: less_induct)
  case less
  show ?case
  proof (cases "xs = [] \<or> c = 0 \<and> length xs < 8")
    case True
    then have "rx_round (f, xs, c, s) = Inl (False, f, xs, c, s)" by (auto simp: rx_round_def)
    then show ?thesis using less.prems by (subst (asm) rx_loop.simps) auto
  next
    case False
    then have ap: "case rx_round (f, xs, c, s) of
        Inl (t, f', l', c', s') \<Rightarrow> t \<and> rx_round (f, xs @ ys, c, s) = Inl (t, f', l' @ ys, c', s')
      | Inr (f', l', c', s') \<Rightarrow> rx_round (f, xs @ ys, c, s) = Inr (f', l' @ ys, c', s')"
      by (intro rx_round_append) auto
    show ?thesis
    proof (cases "rx_round (f, xs, c, s)")
      case (Inl r)
      then have "r = (t, f', l', c', s')" using less.prems by (subst (asm) rx_loop.simps) simp
      then show ?thesis using ap Inl by (subst rx_loop.simps) simp
    next
      case (Inr y)
      obtain f1 l1 c1 s1 where y: "y = (f1, l1, c1, s1)" by (cases y) auto
      have "length l1 < length xs" using rx_round_less Inr y by blast
      moreover have "rx_loop (f1, l1, c1, s1) = (t, f', l', c', s')"
        using less.prems Inr y by (subst (asm) rx_loop.simps) simp
      ultimately have "rx_loop (f1, l1 @ ys, c1, s1)
          = (if t then (True, f', l' @ ys, c', s') else rx_loop (f', l' @ ys, c', s'))"
        using less.hyps by blast
      then show ?thesis using ap Inr y by (subst rx_loop.simps) simp
    qed
  qed
qed

text \<open>The preamble byte of the buffer is only written, never changed, by the loop.\<close>

lemma rx_round_keeps:
  "rx_round (f, l, c, s) = Inl (t, f', l', c', s') \<or> rx_round (f, l, c, s) = Inr (f', l', c', s') \<Longrightarrow>
     f \<noteq> [] \<Longrightarrow> c = 0 \<or> 8 \<le> c \<Longrightarrow> f' \<noteq> [] \<and> hd f' = hd f \<and> (c' = 0 \<or> 8 \<le> c')"
  by (cases f) (auto simp: rx_round_def Let_def put_header_def split: if_splits nat.splits)

lemma rx_loop_keeps:
  "rx_loop (f, l, c, s) = (t, f', l', c', s') \<Longrightarrow> f \<noteq> [] \<Longrightarrow> c = 0 \<or> 8 \<le> c \<Longrightarrow> f' \<noteq> [] \<and> hd f' = hd f"
proof (induction "length l" arbitrary: f l c s rule: less_induct)
  case less
  show ?case
  proof (cases "rx_round (f, l, c, s)")
    case (Inl r)
    then have "r = (t, f', l', c', s')" using less.prems(1) by (subst (asm) rx_loop.simps) simp
    then show ?thesis using rx_round_keeps Inl less.prems(2,3) by blast
  next
    case (Inr y)
    obtain f1 l1 c1 s1 where y: "y = (f1, l1, c1, s1)" by (cases y) auto
    have "length l1 < length l" using rx_round_less Inr y by blast
    moreover have "rx_loop (f1, l1, c1, s1) = (t, f', l', c', s')"
      using less.prems(1) Inr y by (subst (asm) rx_loop.simps) simp
    moreover have "f1 \<noteq> [] \<and> hd f1 = hd f \<and> (c1 = 0 \<or> 8 \<le> c1)" using rx_round_keeps Inr y less.prems by blast
    ultimately show ?thesis using less.hyps by metis
  qed
qed

lemma rx_round_length:
  "rx_round (f, l, c, s) = Inl (t, f', l', c', s') \<or> rx_round (f, l, c, s) = Inr (f', l', c', s') \<Longrightarrow>
     8 \<le> length f \<Longrightarrow> length f' = length f"
  by (auto simp: rx_round_def Let_def put_header_def min_def split: if_splits)

lemma rx_loop_length:
  "rx_loop (f, l, c, s) = (t, f', l', c', s') \<Longrightarrow> 8 \<le> length f \<Longrightarrow> length f' = length f"
proof (induction "length l" arbitrary: f l c s rule: less_induct)
  case less
  show ?case
  proof (cases "rx_round (f, l, c, s)")
    case (Inl r)
    then have "r = (t, f', l', c', s')" using less.prems(1) by (subst (asm) rx_loop.simps) simp
    then show ?thesis using rx_round_length Inl less.prems(2) by blast
  next
    case (Inr y)
    obtain f1 l1 c1 s1 where y: "y = (f1, l1, c1, s1)" by (cases y) auto
    have "length l1 < length l" using rx_round_less Inr y by blast
    moreover have "rx_loop (f1, l1, c1, s1) = (t, f', l', c', s')"
      using less.prems(1) Inr y by (subst (asm) rx_loop.simps) simp
    moreover have "length f1 = length f" using rx_round_length Inr y less.prems by blast
    ultimately show ?thesis using less.hyps less.prems(2) by metis
  qed
qed

section \<open>The receive task\<close>

lemma rx_inv_set0: "rx_inv b (with_frm b ((frm b w)[0 := CST_PREAMBLE]) w) = rx_inv b w"
  by (simp add: rx_inv_def)

lemma ProcessRecvData_refines:
  assumes "frmRecv w = Some b" "rx_inv b w"
  shows "\<exists>t w'. ProcessRecvData cb w = Some (t, w') \<and> rx_inv b w' \<and> rx_same b w w'
    \<and> rx_loop ((frm b w)[0 := CST_PREAMBLE], snd (rx_of b w)) = (t, rx_of b w')"
proof -
  let ?w = "with_frm b ((frm b w)[0 := CST_PREAMBLE]) w"
  have l: "0 < length (frm b w)" using assms(2) by (auto simp: rx_inv_def)
  have same: "rx_same b w ?w"
    using rx_sameI [where b = b and w = w and f = "(frm b w)[0 := CST_PREAMBLE]"
        and ff = "sRecvFIFO (sTransL1 w)" and c = "u16RecvCount w" and s = "statDLen w"] by simp
  obtain t w' where r: "recv_loop b ?w = Some (t, w')" "rx_loop (rx_of b ?w) = (t, rx_of b w')" "rx_inv b w'"
    "rx_same b ?w w'" using recv_loop_refines [of b ?w] assms(2) rx_inv_set0 by blast
  moreover have "ProcessRecvData cb w = Some (t, w')"
    using r(1) l assms(1) by (simp add: ProcessRecvData_def frm_set_some)
  moreover have "rx_of b ?w = ((frm b w)[0 := CST_PREAMBLE], snd (rx_of b w))" by (simp add: rx_of_def)
  ultimately show ?thesis using rx_same_trans [OF same] by metis
qed

lemma ProcessRecvData_frame:
  assumes "frmRecv w = Some b" "rx_inv b w" "u16RecvCount w = 0" "length data \<le> 240"
    and "l1_bytes (sTransL1 w) = ns @ frame_bytes src dst sq ctrl data @ l"
    and "quiet (ns @ frame_bytes src dst sq ctrl data @ l) (length ns)"
  shows "\<exists>w'. ProcessRecvData cb w = Some (True, w') \<and> rx_inv b w' \<and> rx_same b w w' \<and> u16RecvCount w' = 0
     \<and> take (8 + length data) (frm b w') = frame_bytes src dst sq ctrl data \<and> l1_bytes (sTransL1 w') = l"
proof -
  let ?f = "(frm b w)[0 := CST_PREAMBLE]" and ?fb = "frame_bytes src dst sq ctrl data @ l"
  have lf: "248 \<le> length ?f" using assms(2) by (simp add: rx_inv_def)
  obtain t w' where r: "ProcessRecvData cb w = Some (t, w')" "rx_inv b w'" "rx_same b w w'"
    "rx_loop (?f, snd (rx_of b w)) = (t, rx_of b w')" using ProcessRecvData_refines [OF assms(1,2)] by blast
  have "rx_loop (?f, ns @ ?fb, 0, unat (statDLen w)) = (t, rx_of b w')"
    using r(4) assms(3,5) by (simp add: rx_of_def)
  moreover obtain f' where f': "rx_loop (?f, ns @ ?fb, 0, unat (statDLen w)) = rx_loop (f', ?fb, 0, unat (statDLen w))"
    "take 1 f' = take 1 ?f" "length f' = length ?f"
    using rx_loop_quiet [OF assms(6), of ?f "unat (statDLen w)"] lf by auto
  moreover have "hd f' = CST_PREAMBLE" using f'(2,3) lf by (cases f'; cases "frm b w") auto
  ultimately show ?thesis
    using rx_loop_frame [OF assms(4), of f' src dst sq ctrl l "unat (statDLen w)"] lf r
    by (auto simp: rx_of_def unat_eq_0)
qed

section \<open>Accepting a frame\<close>

lemma frame_nth:
  assumes "take (8 + length data) f = frame_bytes src dst sq ctrl data"
  shows "8 + length data \<le> length f" "f ! 1 = src" "f ! 2 = dst" "f ! 3 = sq" "f ! 4 = ctrl"
    "f ! 5 = of_nat (length data)" "f ! 6 = (if data = [] then 0 else crc8_of data)"
    "take (length data) (drop 8 f) = data"
proof -
  show len: "8 + length data \<le> length f"
    using arg_cong [OF assms, of length] by (simp add: min_def split: if_splits)
  have n: "f ! i = frame_bytes src dst sq ctrl data ! i" if "i < 8" for i
    using arg_cong [OF assms, of "\<lambda>l. l ! i"] that by simp
  show "f ! 1 = src" "f ! 2 = dst" "f ! 3 = sq" "f ! 4 = ctrl" "f ! 5 = of_nat (length data)"
    "f ! 6 = (if data = [] then 0 else crc8_of data)"
    by (simp_all add: n frame_bytes_def frame_header_def)
  have "drop 8 (take (8 + length data) f) = data" by (simp add: assms frame_bytes_def frame_header_def)
  then show "take (length data) (drop 8 f) = data" by (simp add: drop_take)
qed

definition ack_wanted :: "u8 \<Rightarrow> u8 \<Rightarrow> bool" where
  "ack_wanted ctrl dst \<longleftrightarrow> IS_ACK_REQ ctrl \<and> dst \<noteq> ADDR_BROADCAST"

definition for_us :: "u8 \<Rightarrow> 'a STransL2S_scheme \<Rightarrow> bool" where
  "for_us dst w \<longleftrightarrow> dst = u8NodeID w \<or> dst = ADDR_BROADCAST"

lemma bind_Some_Pair: "Option.bind x (\<lambda>w. Some (a, w)) = map_option (Pair a) x"
  by (cases x) simp_all

lemma OnRecvFrame_good:
  assumes "frmRecv w = Some b" "take (8 + length data) (frm b w) = frame_bytes src dst sq ctrl data"
    and "length data \<le> 240"
  shows "OnRecvFrame cb w =
    (if \<not> for_us dst w then Some (TRANSL2_ACT_NO, w)
     else if IS_DATA_FRM ctrl then
       (let act = (if ack_wanted ctrl dst then TRANSL2_REQ_ACK else TRANSL2_ACT_NO) in
        if bCheckSeqNum w \<and> sq = u8SeqRemote w then Some (act, w)
        else map_option (Pair act) (L2FireEvent cb TRANSL2_EVT_RECV_DATA (w\<lparr>u8SeqRemote := sq\<rparr>)))
     else if GET_FRM_TYPE ctrl = CMD_ACK then
       Some (if ack_wanted ctrl dst then TRANSL2_REQ_ACK else TRANSL2_RCV_ACK, w\<lparr>u8SeqCMDFrm := sq\<rparr>)
     else if GET_FRM_TYPE ctrl = CMD_NACK then
       Some (if ack_wanted ctrl dst then TRANSL2_REQ_ACK else TRANSL2_RCV_NACK, w\<lparr>u8SeqCMDFrm := sq\<rparr>)
     else Some (if ack_wanted ctrl dst then TRANSL2_REQ_ACK else TRANSL2_ACT_NO, w))"
proof -
  note n = frame_nth [OF assms(2)]
  have g: "frm_get b i w = Some (frm b w ! i)" if "i < 8" for i using n(1) that by (intro frm_get_some) simp
  have dl: "unat (of_nat (length data) :: u8) = length data" using assms(3) by (simp add: unat_of_nat)
  then have le: "\<not> (of_nat (length data) :: u8) > 240" using assms(3) by (simp add: word_less_nat_alt)
  have z: "((of_nat (length data) :: u8) = 0) = (data = [])" using dl by (metis length_0_conv unat_eq_0)
  have crc: "crc_8 (Some (drop 8 (frm b w))) (length data) = Some (crc8_of data)"
    using n(1,8) by (subst crc_8_of) simp_all
  show ?thesis
    unfolding OnRecvFrame_def assms(1) using n le
    by (auto simp: g dl z crc for_us_def ack_wanted_def Let_def CMD_ACK_def CMD_NACK_def bind_Some_Pair split: if_splits)
qed

text \<open>A frame whose header is intact and whose data was altered in one byte.\<close>

lemma OnRecvFrame_bad:
  assumes "frmRecv w = Some b" "take 8 (frm b w) = take 8 (frame_bytes src dst sq ctrl data)"
    and "take (length data) (drop 8 (frm b w)) = data[i := v]" "i < length data" "v \<noteq> data ! i"
    and "length data \<le> 240" "for_us dst w"
  shows "OnRecvFrame cb w =
    Some (if ack_wanted ctrl dst then TRANSL2_REQ_NACK else TRANSL2_ACT_NO, upd_l1 TransL1_RecvFF_Reset w)"
proof -
  let ?f = "frm b w"
  have len: "length data \<le> length (drop 8 ?f)"
    using arg_cong [OF assms(3), of length] by (simp add: min_def split: if_splits)
  then have l8: "8 < length ?f" using assms(4) by (simp split: if_splits)
  have n: "?f ! k = frame_bytes src dst sq ctrl data ! k" if "k < 8" for k
    using arg_cong [OF assms(2), of "\<lambda>l. l ! k"] that l8 by simp
  have f: "?f ! 2 = dst" "?f ! 4 = ctrl" "?f ! 5 = of_nat (length data)" "?f ! 6 = crc8_of data"
    using assms(4) by (auto simp: n frame_bytes_def frame_header_def)
  have g: "frm_get b k w = Some (?f ! k)" if "k < 8" for k using l8 that by (intro frm_get_some) simp
  have dl: "unat (of_nat (length data) :: u8) = length data" using assms(6) by (simp add: unat_of_nat)
  then have le: "\<not> (of_nat (length data) :: u8) > 240" using assms(6) by (simp add: word_less_nat_alt)
  have z: "(of_nat (length data) :: u8) \<noteq> 0" using dl assms(4) by (metis less_zeroE unat_0)
  have "crc8_of (data[i := v]) \<noteq> crc8_of data"
    using c8.detects_byte [of i data v 0] assms(4,5) by (simp add: crc8_of_def)
  moreover have "crc_8 (Some (drop 8 ?f)) (length data) = Some (crc8_of (data[i := v]))"
    using len assms(3) by (subst crc_8_of) simp_all
  ultimately show ?thesis
    unfolding OnRecvFrame_def assms(1) using f le z assms(7)
    by (auto simp: g dl for_us_def ack_wanted_def)
qed

section \<open>A node after initialisation, and arriving bytes\<close>

definition no_clbs :: "'w l2_clbs" where
  "no_clbs = \<lparr>onRecvData = (\<lambda>e b w. Some w), onSendDone = (\<lambda>e b w. Some w), onError = (\<lambda>e b w. Some w)\<rparr>"

definition l2_bss :: STransL2S where
  "l2_bss = \<lparr>l2Started = False, l2Sending = False, bL1Sending = False, bWaitingL1Send = False,
     bCheckSeqNum = False, sMemRecv = None, sMemSend = None, frmRecv = None, frmSend = None,
     sTransL1 = l1_bss, u8NodeID = 0, u16RecvCount = 0, u8SeqRemote = 0, u8SeqLocal = 0, u8SeqCMDFrm = 0,
     u8ErrorCode = TRANS_SUCCESS, u32L1SendTimeout = 0, fClbL2RecvData = False, fClbL2SendDone = False,
     fClbL2Error = False, hL1TimeOutTimer = False, semPosts = 0, statDLen = 0,
     mem = OSA_FixedMemInit mem_bss\<rparr>"

definition l2_node :: "u8 \<Rightarrow> STransL2S" where
  "l2_node i = snd (the (TransL2S_Init no_clbs l2_bss i))"

lemma smems_init [simp]: "smems (OSA_FixedMemInit ms) = smems ms"
  by (simp add: OSA_FixedMemInit_def OSMemCreate_def)

lemma alloc_first:
  "\<exists>ms. Mem_Alloc LARGE_MEM_SIZE (OSA_FixedMemInit mem_bss) = (Some (P272, 0), ms)
     \<and> frame (smems ms (P272, 0)) = replicate 248 0 \<and> mem_ok ms \<and> used_blocks ms = {(P272, 0)}"
proof -
  obtain r ms where m: "Mem_Alloc LARGE_MEM_SIZE (OSA_FixedMemInit mem_bss) = (r, ms)" by fastforce
  have "fst (Mem_Alloc LARGE_MEM_SIZE (OSA_FixedMemInit mem_bss)) = Some (P272, 0)"
    by (simp add: Mem_Alloc_def OSA_FixedMemMalloc_def select_part_nat Let_def LARGE_MEM_SIZE_def OSMemGet_def
        OSA_FixedMemInit_parts)
  then have r: "r = Some (P272, 0)" using m by simp
  from Mem_Alloc_some [OF OSA_FixedMemInit_ok(1) m [unfolded r]] show ?thesis
    using m r by (simp add: mem_bss_def OSA_FixedMemInit_ok(2) [unfolded mem_bss_def])
qed

lemma l2_node_init:
  "frmRecv (l2_node i) = Some (P272, 0)" "sMemRecv (l2_node i) = Some (P272, 0)" "rx_inv (P272, 0) (l2_node i)"
  "u16RecvCount (l2_node i) = 0" "l1_bytes (sTransL1 (l2_node i)) = []" "u8NodeID (l2_node i) = i"
  "l1Registered (sTransL1 (l2_node i))" "u16MaxSize (sRecvFIFO (sTransL1 (l2_node i))) = 512"
  "bCheckSeqNum (l2_node i)" "u8SeqRemote (l2_node i) = 0xFF" "l2Started (l2_node i)" "\<not> l2Sending (l2_node i)"
  "fClbL1RecvData (sTransL1 (l2_node i)) \<noteq> Some L1SendDone"
  "TransL1_IsSendReady (sTransL1 (l2_node i))" "\<not> isTxBusy (trans_uart_state (sTransL1 (l2_node i)))"
  "fClbL1SendDone (sTransL1 (l2_node i)) = Some L1SendDone"
proof -
  obtain ms where m: "Mem_Alloc LARGE_MEM_SIZE (OSA_FixedMemInit mem_bss) = (Some (P272, 0), ms)"
    "frame (smems ms (P272, 0)) = replicate 248 0" using alloc_first by blast
  let ?l = "snd (TransL1_Init (l1_bss :: l1_clb STransL1) 0 0)"
  have p: "u32UartPort (l1_bss :: l1_clb STransL1) = 0" "u32BaudRate (l1_bss :: l1_clb STransL1) = 0"
    by (simp_all add: l1_bss_def)
  have l: "fifo_wf (sRecvFIFO ?l)" "fifo_list (sRecvFIFO ?l) = []" "u16MaxSize (sRecvFIFO ?l) = 512" "l1Registered ?l"
    "l1Started ?l" "\<not> l1Sending ?l" "\<not> isTxBusy (trans_uart_state ?l)"
    using TransL1_Init_bss [of 0 0, where 'a = l1_clb] by (simp_all add: Let_def)
  obtain l' where l': "TransL1_Init (l1_bss :: l1_clb STransL1) 0 0 = (TRANS_SUCCESS, l')"
    by (simp add: TransL1_Init_def Let_def)
  have n: "l2_node i = l2_bss\<lparr>u8NodeID := i, u16RecvCount := 0, u8SeqRemote := 0xFF, u8SeqLocal := 0,
      u8ErrorCode := TRANS_SUCCESS, l2Started := True, l2Sending := False, bL1Sending := False,
      bWaitingL1Send := False, bCheckSeqNum := True, sMemRecv := Some (P272, 0), frmRecv := Some (P272, 0),
      mem := ms, sTransL1 := l'\<lparr>fClbL1SendDone := Some L1SendDone, fClbL1RecvData := Some L1RecvData\<rparr>\<rparr>"
    using m(1) p l' by (simp add: l2_node_def TransL2S_Init_def l2_bss_def TransL2S_MemAlloc_def Let_def
        upd_l1_def TransL1_RegisterClbEvent_def)
  show "frmRecv (l2_node i) = Some (P272, 0)" "sMemRecv (l2_node i) = Some (P272, 0)" "rx_inv (P272, 0) (l2_node i)"
    "u16RecvCount (l2_node i) = 0" "l1_bytes (sTransL1 (l2_node i)) = []" "u8NodeID (l2_node i) = i"
    "l1Registered (sTransL1 (l2_node i))" "u16MaxSize (sRecvFIFO (sTransL1 (l2_node i))) = 512"
    "bCheckSeqNum (l2_node i)" "u8SeqRemote (l2_node i) = 0xFF" "l2Started (l2_node i)" "\<not> l2Sending (l2_node i)"
    "fClbL1RecvData (sTransL1 (l2_node i)) \<noteq> Some L1SendDone"
    "TransL1_IsSendReady (sTransL1 (l2_node i))" "\<not> isTxBusy (trans_uart_state (sTransL1 (l2_node i)))"
    "fClbL1SendDone (sTransL1 (l2_node i)) = Some L1SendDone"
    using l l' m(2) by (simp_all add: n TransL1_IsSendReady_def l2_bss_def rx_inv_def frm_def l1_ok_def l1_bytes_def)
qed

lemma l2_node_dlen: "u16DLen (smems (mem (l2_node i)) (P272, 0)) = 0"
proof -
  obtain ms where m: "Mem_Alloc LARGE_MEM_SIZE (OSA_FixedMemInit mem_bss) = (Some (P272, 0), ms)"
    using alloc_first by blast
  from Mem_Alloc_some [OF OSA_FixedMemInit_ok(1) m] have "u16DLen (smems ms (P272, 0)) = 0" by (simp add: mem_bss_def)
  moreover have "mem (l2_node i) = ms"
    using m by (simp add: l2_node_def TransL2S_Init_def l2_bss_def TransL2S_MemAlloc_def Let_def
        upd_l1_def TransL1_Init_def)
  ultimately show ?thesis by simp
qed

lemma rx_irq_bytes:
  assumes "rx_inv b w" "l1Registered (sTransL1 w)" "fClbL1RecvData (sTransL1 w) \<noteq> Some L1SendDone"
    and "length (l1_bytes (sTransL1 w)) + length xs \<le> unat (u16MaxSize (sRecvFIFO (sTransL1 w)))"
  shows "rx_inv b (fold l2_rx_irq xs w) \<and> l1_bytes (sTransL1 (fold l2_rx_irq xs w)) = l1_bytes (sTransL1 w) @ xs
     \<and> (\<exists>ff. fold l2_rx_irq xs w = w\<lparr>sTransL1 := (sTransL1 w)\<lparr>sRecvFIFO := ff\<rparr>\<rparr>)"
  using assms
proof (induction xs arbitrary: w)
  case Nil
  then show ?case by (auto intro: exI [of _ "sRecvFIFO (sTransL1 w)"])
next
  case (Cons x xs)
  let ?l1 = "sTransL1 w"
  have "fifo_wf (sRecvFIFO ?l1)" "length (fifo_list (sRecvFIFO ?l1)) < unat (u16MaxSize (sRecvFIFO ?l1))"
    using Cons.prems by (simp_all add: rx_inv_def l1_ok_def l1_bytes_def)
  then obtain ff where ff: "FIFO_Push (sRecvFIFO ?l1) x = (True, ff)" "fifo_wf ff"
    "fifo_list ff = fifo_list (sRecvFIFO ?l1) @ [x]" "unat (u16MaxSize ff) = unat (u16MaxSize (sRecvFIFO ?l1))"
    using ff.push_space by blast
  have run: "run_l1_clb c v = v" if "c \<noteq> Some L1SendDone" for c and v :: "'a STransL2S_scheme"
    using that by (cases "(c, v)" rule: run_l1_clb.cases) (auto simp: Clb_L1RecvData_def)
  have w1: "l2_rx_irq x w = w\<lparr>sTransL1 := ?l1\<lparr>sRecvFIFO := ff\<rparr>\<rparr>"
    using ff(1) Cons.prems(2,3) run by (simp add: l2_rx_irq_def TransL1_RX_Interrupt_Handle_def)
  have "rx_inv b (l2_rx_irq x w)" using Cons.prems(1) ff by (simp add: w1 rx_inv_def l1_ok_def)
  from Cons.IH [OF this] show ?case using Cons.prems ff by (auto simp: w1 l1_bytes_def)
qed

lemma l2_node_bytes:
  assumes "length xs \<le> 512"
  shows "rx_inv (P272, 0) (fold l2_rx_irq xs (l2_node i))" "l1_bytes (sTransL1 (fold l2_rx_irq xs (l2_node i))) = xs"
    "frmRecv (fold l2_rx_irq xs (l2_node i)) = Some (P272, 0)" "u16RecvCount (fold l2_rx_irq xs (l2_node i)) = 0"
  using rx_irq_bytes [of "(P272, 0)" "l2_node i" xs] l2_node_init [of i] assms by auto

section \<open>Properties\<close>

text \<open>C6: in every state in which a receive buffer is allocated and the receive state is in order,
  \<open>ProcessRecvData\<close> ends, writes only inside the frame buffer and preserves the invariant.  When a
  well-formed frame of at most 240 data bytes is queued behind noise in which no position looks like a
  frame start, it returns TRUE with exactly that frame in the buffer and the following bytes still
  queued.\<close>

theorem ProcessRecvData_finds_frame:
  assumes "frmRecv w = Some b" "rx_inv b w" "u16RecvCount w = 0" "length data \<le> 240"
    and "l1_bytes (sTransL1 w) = ns @ frame_bytes src dst sq ctrl data @ l"
    and "quiet (ns @ frame_bytes src dst sq ctrl data @ l) (length ns)"
  shows "\<exists>w'. ProcessRecvData cb w = Some (True, w') \<and> rx_inv b w' \<and> rx_same b w w' \<and> u16RecvCount w' = 0
     \<and> take (8 + length data) (frm b w') = frame_bytes src dst sq ctrl data \<and> l1_bytes (sTransL1 w') = l"
  using ProcessRecvData_frame [OF assms] .

lemma ProcessRecvData_finds_frame_witness:
  "\<exists>w'. ProcessRecvData no_clbs (fold l2_rx_irq ([7, 9] @ frame_bytes 1 2 3 0xA0 [10, 11] @ [0x21]) (l2_node 2))
     = Some (True, w') \<and> take 10 (frm (P272, 0) w') = frame_bytes 1 2 3 0xA0 [10, 11]"
proof -
  have q: "quiet ([7, 9] @ frame_bytes 1 2 3 0xA0 [10, 11] @ [0x21]) (length ([7, 9] :: u8 list))"
    by (simp add: quiet_def at_header_def CST_PREAMBLE_def less_Suc_eq)
  show ?thesis
    using ProcessRecvData_finds_frame [OF l2_node_bytes(3,1,4) _ l2_node_bytes(2) q, where cb = no_clbs] by auto
qed

text \<open>C8: reception can be interrupted anywhere: when a run ends without a complete frame and more bytes
  arrive, the next run gives the result, the buffer and the queue that one run over all the bytes would
  have given.\<close>

theorem ProcessRecvData_resumes:
  assumes "frmRecv w = Some b" "rx_inv b w" "ProcessRecvData cb w = Some (False, w1)"
    and "rx_inv b w2" "frmRecv w2 = Some b" "rx_of b w2 = (frm b w1, l1_bytes (sTransL1 w1) @ ys, snd (snd (rx_of b w1)))"
    and "rx_inv b w3" "frmRecv w3 = Some b" "rx_of b w3 = (frm b w, l1_bytes (sTransL1 w) @ ys, snd (snd (rx_of b w)))"
  shows "\<exists>t v2 v3. ProcessRecvData cb w2 = Some (t, v2) \<and> ProcessRecvData cb w3 = Some (t, v3)
     \<and> rx_of b v2 = rx_of b v3"
proof -
  let ?set = "\<lambda>f. f[0 := CST_PREAMBLE]"
  obtain t1 v1 where 1: "ProcessRecvData cb w = Some (t1, v1)"
    "rx_loop (?set (frm b w), snd (rx_of b w)) = (t1, rx_of b v1)"
    using ProcessRecvData_refines [OF assms(1,2)] by blast
  then have v1: "t1 = False" "v1 = w1" using assms(3) by simp_all
  obtain t2 v2 where 2: "ProcessRecvData cb w2 = Some (t2, v2)"
    "rx_loop (?set (frm b w2), snd (rx_of b w2)) = (t2, rx_of b v2)"
    using ProcessRecvData_refines [OF assms(5,4)] by blast
  obtain t3 v3 where 3: "ProcessRecvData cb w3 = Some (t3, v3)"
    "rx_loop (?set (frm b w3), snd (rx_of b w3)) = (t3, rx_of b v3)"
    using ProcessRecvData_refines [OF assms(8,7)] by blast
  have ne: "frm b w \<noteq> []" using assms(2) by (auto simp: rx_inv_def)
  have l1: "rx_loop (?set (frm b w), l1_bytes (sTransL1 w), unat (u16RecvCount w), unat (statDLen w))
      = (False, frm b w1, l1_bytes (sTransL1 w1), unat (u16RecvCount w1), unat (statDLen w1))"
    using 1(2) v1 by (simp add: rx_of_def)
  have "unat (u16RecvCount w) = 0 \<or> 8 \<le> unat (u16RecvCount w)" using assms(2) by (auto simp: rx_inv_def)
  from rx_loop_keeps [OF l1 _ this] ne have "frm b w1 \<noteq> [] \<and> hd (frm b w1) = CST_PREAMBLE"
    by (cases "frm b w") auto
  then have "?set (frm b w1) = frm b w1" by (cases "frm b w1") auto
  moreover have "rx_loop (?set (frm b w), l1_bytes (sTransL1 w) @ ys, unat (u16RecvCount w), unat (statDLen w))
      = rx_loop (frm b w1, l1_bytes (sTransL1 w1) @ ys, unat (u16RecvCount w1), unat (statDLen w1))"
    using rx_loop_append [OF l1] by simp
  ultimately have "(t2, rx_of b v2) = (t3, rx_of b v3)"
    using 2(2) 3(2) assms(6,9) by (simp add: rx_of_def)
  then show ?thesis using 2(1) 3(1) by auto
qed

lemma ProcessRecvData_resumes_witness:
  "\<exists>t w1 v2 v3. ProcessRecvData no_clbs (fold l2_rx_irq [0x21] (l2_node 2)) = Some (False, w1)
     \<and> ProcessRecvData no_clbs (with_frm (P272, 0) (frm (P272, 0) w1) (fold l2_rx_irq [0x21, 1] (l2_node 2))) = Some (t, v2)
     \<and> ProcessRecvData no_clbs (fold l2_rx_irq [0x21, 1] (l2_node 2)) = Some (t, v3)
     \<and> rx_of (P272, 0) v2 = rx_of (P272, 0) v3"
proof -
  let ?b = "(P272, 0)" and ?w = "fold l2_rx_irq [0x21] (l2_node 2)" and ?w3 = "fold l2_rx_irq [0x21, 1] (l2_node 2)"
  note w = l2_node_bytes [of "[0x21]" 2, simplified list.size, simplified]
    and w3 = l2_node_bytes [of "[0x21, 1]" 2, simplified list.size, simplified]
  obtain f where w': "?w = (l2_node 2)\<lparr>sTransL1 := f\<rparr>"
    using rx_irq_bytes [of ?b "l2_node 2" "[0x21]"] l2_node_init [of 2] by auto
  obtain f3 where w3': "?w3 = (l2_node 2)\<lparr>sTransL1 := f3\<rparr>"
    using rx_irq_bytes [of ?b "l2_node 2" "[0x21, 1]"] l2_node_init [of 2] by auto
  have eq: "frm ?b ?w3 = frm ?b ?w" "u16RecvCount ?w3 = u16RecvCount ?w" "statDLen ?w3 = statDLen ?w"
    unfolding w' w3' by simp_all
  have l: "l1_bytes (sTransL1 ?w) = [0x21]" "l1_bytes (sTransL1 ?w3) = [0x21] @ [1]"
    "u16RecvCount ?w = 0" "u16RecvCount ?w3 = 0" using w w3 by simp_all
  obtain t w1 where 1: "ProcessRecvData no_clbs ?w = Some (t, w1)" "rx_inv ?b w1"
    "rx_loop ((frm ?b ?w)[0 := CST_PREAMBLE], snd (rx_of ?b ?w)) = (t, rx_of ?b w1)"
    using ProcessRecvData_refines [of ?w ?b no_clbs] w by auto
  then have r: "t = False" "rx_of ?b w1 = ((frm ?b ?w)[0 := CST_PREAMBLE], [0x21], 0, unat (statDLen ?w))"
  proof -
    have "rx_loop (g, [0x21], 0, k) = (False, g, [0x21], 0, k)" for g k
      by (simp add: rx_loop.simps rx_round_def)
    moreover have "snd (rx_of ?b ?w) = ([0x21], 0, unat (statDLen ?w))"
      unfolding rx_of_def l by simp
    ultimately have "(t, rx_of ?b w1) = (False, (frm ?b ?w)[0 := CST_PREAMBLE], [0x21], 0, unat (statDLen ?w))"
      using 1(3) by simp
    then show "t = False" "rx_of ?b w1 = ((frm ?b ?w)[0 := CST_PREAMBLE], [0x21], 0, unat (statDLen ?w))"
      by simp_all
  qed
  let ?w2 = "with_frm ?b (frm ?b w1) ?w3"
  have "rx_inv ?b ?w2" "frmRecv ?w2 = Some ?b" using w3 1(2) by (simp_all add: rx_inv_def)
  moreover have "rx_of ?b ?w2 = (frm ?b w1, l1_bytes (sTransL1 w1) @ [1], snd (snd (rx_of ?b w1)))"
    using r(2) unfolding rx_of_def l eq frm_with_frm with_frm_sel by simp
  moreover have "rx_of ?b ?w3 = (frm ?b ?w, l1_bytes (sTransL1 ?w) @ [1], snd (snd (rx_of ?b ?w)))"
    unfolding rx_of_def l eq by simp
  ultimately show ?thesis
    using ProcessRecvData_resumes [of ?w ?b no_clbs w1 ?w2 "[1]" ?w3] w w3 1(1) r(1) by auto
qed

text \<open>A well-formed frame is accepted only by the node it is addressed to (or by broadcast); a data
  frame is handed to the layer above exactly when its sequence number differs from that of the last one
  accepted, so a retransmitted frame is not delivered twice; an acknowledge is requested for it either
  way, exactly when the sender asked for one and the frame is not a broadcast.\<close>

theorem OnRecvFrame_delivers_once:
  assumes "frmRecv w = Some b" "take (8 + length data) (frm b w) = frame_bytes src dst sq ctrl data"
    and "length data \<le> 240" "IS_DATA_FRM ctrl" "bCheckSeqNum w" "for_us dst w"
    and "act = (if ack_wanted ctrl dst then TRANSL2_REQ_ACK else TRANSL2_ACT_NO)"
  shows "(sq = u8SeqRemote w \<longrightarrow> OnRecvFrame cb w = Some (act, w))
     \<and> (sq \<noteq> u8SeqRemote w \<longrightarrow> OnRecvFrame cb w =
          map_option (Pair act) (L2FireEvent cb TRANSL2_EVT_RECV_DATA (w\<lparr>u8SeqRemote := sq\<rparr>)))"
  using OnRecvFrame_good [OF assms(1-3)] assms(4-7) by simp

lemma OnRecvFrame_delivers_once_witness:
  "OnRecvFrame no_clbs (with_frm (P272, 0) (frame_bytes 1 2 3 0xA0 [10]) (l2_node 2))
   = map_option (Pair TRANSL2_REQ_ACK) (L2FireEvent no_clbs TRANSL2_EVT_RECV_DATA
       ((with_frm (P272, 0) (frame_bytes 1 2 3 0xA0 [10]) (l2_node 2))\<lparr>u8SeqRemote := 3\<rparr>))"
  using OnRecvFrame_delivers_once [of "with_frm (P272, 0) (frame_bytes 1 2 3 0xA0 [10]) (l2_node 2)" "(P272, 0)"
      "[10]" 1 2 3 "0xA0" TRANSL2_REQ_ACK no_clbs]
  by (simp add: l2_node_init IS_DATA_FRM_def for_us_def ack_wanted_def IS_ACK_REQ_def ADDR_BROADCAST_def)

text \<open>C9: a frame whose data was altered in one byte is never delivered: the receiver asks for a negative
  acknowledge when the sender wants one, and drops what is queued.\<close>

theorem OnRecvFrame_rejects_corruption:
  assumes "frmRecv w = Some b" "take 8 (frm b w) = take 8 (frame_bytes src dst sq ctrl data)"
    and "take (length data) (drop 8 (frm b w)) = data[i := v]" "i < length data" "v \<noteq> data ! i"
    and "length data \<le> 240" "for_us dst w"
  shows "OnRecvFrame cb w =
    Some (if ack_wanted ctrl dst then TRANSL2_REQ_NACK else TRANSL2_ACT_NO, upd_l1 TransL1_RecvFF_Reset w)"
  using OnRecvFrame_bad [OF assms] .


lemma OnRecvFrame_rejects_corruption_witness:
  "fst (the (OnRecvFrame no_clbs
     (with_frm (P272, 0) (take 8 (frame_bytes 1 2 3 0xA0 [10, 11]) @ [10, 99]) (l2_node 2)))) = TRANSL2_REQ_NACK"
  using OnRecvFrame_rejects_corruption [of "with_frm (P272, 0) (take 8 (frame_bytes 1 2 3 0xA0 [10, 11]) @ [10, 99]) (l2_node 2)"
      "(P272, 0)" 1 2 3 "0xA0" "[10, 11]" 1 99 no_clbs]
  by (simp add: l2_node_init for_us_def ack_wanted_def IS_ACK_REQ_def ADDR_BROADCAST_def)

section \<open>Faults\<close>

text \<open>When a receive buffer could not be allocated earlier and is allocated at the start of this run,
  the run writes the preamble through the pointer it read before, which is NULL.\<close>

theorem ProcessRecvData_stale_pointer:
  assumes "frmRecv w = None" "Mem_Alloc LARGE_MEM_SIZE (mem w) = (Some b, ms)"
  shows "ProcessRecvData cb w = None"
  using assms by (simp add: ProcessRecvData_def TransL2S_MemAlloc_def)

lemma ProcessRecvData_stale_pointer_witness: "ProcessRecvData no_clbs l2_bss = None"
proof -
  obtain ms where "Mem_Alloc LARGE_MEM_SIZE (mem l2_bss) = (Some (P272, 0), ms)"
    using alloc_first by (auto simp: l2_bss_def)
  then show ?thesis using ProcessRecvData_stale_pointer [of l2_bss] by (simp add: l2_bss_def)
qed

text \<open>The length check exempts broadcasts, so a broadcast that claims more than 240 data bytes makes
  the checksum read past the 248-byte frame buffer.\<close>

theorem OnRecvFrame_broadcast_overread:
  assumes "frmRecv w = Some b" "length (frm b w) = 248"
    and "frm b w ! 2 = ADDR_BROADCAST" "frm b w ! 5 > 240"
  shows "OnRecvFrame cb w = None"
proof -
  have g: "frm_get b k w = Some (frm b w ! k)" if "k < 8" for k using assms(2) that by (intro frm_get_some) simp
  have gt: "240 < unat (frm b w ! 5)" using assms(4) by (simp add: word_less_nat_alt)
  then have "crc_8 (Some (drop 8 (frm b w))) (unat (frm b w ! 5)) = None"
    using assms(2) by (intro crc_8_overrun) simp
  moreover have "frm b w ! 5 \<noteq> 0" using gt by auto
  ultimately show ?thesis using assms by (simp add: OnRecvFrame_def g)
qed

lemma OnRecvFrame_broadcast_overread_witness:
  "OnRecvFrame no_clbs (with_frm (P272, 0) ((replicate 248 0)[2 := 0xFF, 5 := 250]) (l2_node 2)) = None"
  using OnRecvFrame_broadcast_overread [of "with_frm (P272, 0) ((replicate 248 0)[2 := 0xFF, 5 := 250]) (l2_node 2)"
      "(P272, 0)" no_clbs]
  by (simp add: l2_node_init ADDR_BROADCAST_def)

end
