(* ===== verification/TransL2Send.thy ===== *)
theory TransL2Send
  imports TransL2Recv
begin

text \<open>
  Lemmas on the send side of layer 2: the frame \<open>TransL2S_Send\<close> builds, and the cycle from there over
  layer 1 and its interrupts to the send-done event.
\<close>

section \<open>Building the frame\<close>

lemma list8:
  assumes "8 \<le> length f"
  obtains a0 a1 a2 a3 a4 a5 a6 a7 r where "f = a0 # a1 # a2 # a3 # a4 # a5 # a6 # a7 # r"
  using assms by (cases f rule: list.exhaust; (cases "tl f"; cases "tl (tl f)"; cases "tl (tl (tl f))";
    cases "tl (tl (tl (tl f)))"; cases "tl (tl (tl (tl (tl f))))"; cases "tl (tl (tl (tl (tl (tl f)))))";
    cases "tl (tl (tl (tl (tl (tl (tl f))))))"); auto)

text \<open>The state after a successful send of the data in block \<open>b\<close>.\<close>

definition sent_state :: "u8 \<Rightarrow> blk \<Rightarrow> u8 list \<Rightarrow> 'a STransL2S_scheme \<Rightarrow> 'a STransL2S_scheme" where
  "sent_state dst b data w =
     (let m = smems (mem w) b;
          w = upd_mem b (\<lambda>m. m\<lparr>u8NumSend := u8NumSend m - 1\<rparr>) w;
          w = with_frm b (frame_bytes (u8NodeID w) dst (u8Seq m) (u8Ctrl m) data @ drop (8 + length data) (frame m)) w
      in w\<lparr>sMemSend := Some b, frmSend := Some b, l2Sending := True, bWaitingL1Send := False,
           bL1Sending := False, u8ErrorCode := TRANS_SUCCESS\<rparr>)"

lemma smems_with_frm: "smems (mem (with_frm b f w)) c = (if c = b then (smems (mem w) b)\<lparr>frame := f\<rparr> else smems (mem w) c)"
  by (simp add: with_frm_def upd_mem_def)

lemma frm_set_chain: "i < length f \<Longrightarrow> frm_set b i x (with_frm b f w) = Some (with_frm b (f[i := x]) w)"
  by (simp add: frm_set_some)

lemma TransL2S_Send_ok:
  fixes w :: "'a STransL2S_scheme"
  assumes "TransL2S_IsSendReady w" and dl: "u16DLen (smems (mem w) b) \<le> 240"
    and len: "8 + unat (u16DLen (smems (mem w) b)) \<le> length (frm b w)"
    and data: "data = take (unat (u16DLen (smems (mem w) b))) (drop 8 (frm b w))"
  shows "TransL2S_Send w dst b = Some (TRANS_SUCCESS, sent_state dst b data w)"
proof -
  let ?m = "smems (mem w) b"
  define n where "n = unat (u16DLen ?m)"
  have n: "n \<le> 240" "n = length data" using dl len data by (auto simp: n_def word_le_nat_alt)
  obtain a0 a1 a2 a3 a4 a5 a6 a7 r where f: "frm b w = a0 # a1 # a2 # a3 # a4 # a5 # a6 # a7 # r"
  proof -
    have "8 \<le> length (frm b w)" using len by simp
    from list8 [OF this] show ?thesis using that by metis
  qed
  have r: "take n r = data" "n \<le> length r" using data len f by (simp_all add: n_def)
  have uc: "(ucast (u16DLen ?m) :: u8) = of_nat n" by (simp add: n_def)
  have un: "unat (of_nat n :: u8) = n" using n(1) by (simp add: unat_of_nat)
  then have le: "\<not> (of_nat n :: u8) > 240" and z: "((of_nat n :: u8) = 0) = (data = [])"
    using n by (auto simp: word_less_nat_alt dest: arg_cong [of _ _ unat])
  define w0 where "w0 = (upd_mem b (\<lambda>m. m\<lparr>u8NumSend := u8NumSend m - 1\<rparr>) w)\<lparr>sMemSend := Some b, frmSend := Some b\<rparr>"
  have w0: "frm b w0 = frm b w" "u8NodeID w0 = u8NodeID w" "u8Seq (smems (mem w0) b) = u8Seq ?m"
    "u8Ctrl (smems (mem w0) b) = u8Ctrl ?m" "u16DLen (smems (mem w0) b) = u16DLen ?m"
    by (simp_all add: w0_def upd_mem_def frm_def)
  let ?h = "frame_header (u8NodeID w) dst (u8Seq ?m) (u8Ctrl ?m) data"
  define F where "F = CST_PREAMBLE # ?h @ [crc8_of ?h] @ r"
  have hd: "?h = [u8NodeID w, dst, u8Seq ?m, u8Ctrl ?m, of_nat n, if data = [] then 0 else crc8_of data]"
    using n by (simp add: frame_header_def)
  have cd: "crc_8 (Some r) n = Some (crc8_of data)" using crc_8_of [of n r] r by simp
  have ch: "crc_8 (Some (a # b # c # d # e # g # k # r)) 6 = Some (crc8_of [a, b, c, d, e, g])" for a b c d e g k
    using crc_8_of [of 6 "a # b # c # d # e # g # k # r"] by simp
  define w1 where "w1 = with_frm b F w0"
  have "TransL2S_Send w dst b = Some (TRANS_SUCCESS,
      w1\<lparr>l2Sending := True, bWaitingL1Send := False, bL1Sending := False, u8ErrorCode := TRANS_SUCCESS\<rparr>)"
    using assms(1) le z unfolding TransL2S_Send_def
    by (simp add: TransL2S_IsSendReady_def w0_def [symmetric] frm_set_some w0 f smems_with_frm uc un cd ch
        w1_def F_def hd)
  moreover have "F = frame_bytes (u8NodeID w) dst (u8Seq ?m) (u8Ctrl ?m) data @ drop (8 + length data) (frame ?m)"
  proof -
    have "frame ?m = frm b w" by (simp add: frm_def)
    moreover have "data @ drop n r = r" using r(1) append_take_drop_id [of n r] by simp
    moreover have "drop (8 + n) (frm b w) = drop n r" unfolding f by (simp add: eval_nat_numeral)
    ultimately show ?thesis using n(2) by (simp add: F_def frame_bytes_def)
  qed
  ultimately show ?thesis
    by (simp add: sent_state_def Let_def w1_def w0_def with_frm_def upd_mem_def)
qed

section \<open>The transmit interrupts seen from layer 2\<close>

fun l2_tx_irqs :: "nat \<Rightarrow> 'a STransL2S_scheme \<Rightarrow> u8 list \<times> 'a STransL2S_scheme" where
  "l2_tx_irqs 0 w = ([], w)"
| "l2_tx_irqs (Suc n) w =
     (let (bs, w) = l2_tx_irq w; (bs', w) = l2_tx_irqs n w in (bs @ bs', w))"

lemma run_l1_clb_l1: "run_l1_clb c (w\<lparr>sTransL1 := l\<rparr>) = (run_l1_clb c w)\<lparr>sTransL1 := l\<rparr>"
  "sTransL1 (run_l1_clb c w) = sTransL1 w"
  by (cases "(c, w)" rule: run_l1_clb.cases;
      simp add: Clb_L1SendDone_def Clb_L1RecvData_def StopL1TimeOutTimer_def Let_def)+

lemma fold_run_l1: "fold (\<lambda>c. run_l1_clb (Some c)) cs (w\<lparr>sTransL1 := l\<rparr>) = (fold (\<lambda>c. run_l1_clb (Some c)) cs w)\<lparr>sTransL1 := l\<rparr>"
  by (induction cs arbitrary: w) (simp_all add: run_l1_clb_l1)

lemma l2_tx_irqs_l1:
  "tx_irqs n (sTransL1 w) = (ws, cs, l1) \<Longrightarrow>
     l2_tx_irqs n w = (ws, (fold (\<lambda>c. run_l1_clb (Some c)) cs w)\<lparr>sTransL1 := l1\<rparr>)"
proof (induction n arbitrary: w ws cs l1)
  case (Suc n)
  obtain w1 c l2 where 1: "UART_DRV_tx_irq (sTransL1 w) = (w1, c, l2)" by (cases "UART_DRV_tx_irq (sTransL1 w)") auto
  obtain w2 cs2 l3 where 2: "tx_irqs n l2 = (w2, cs2, l3)" by (cases "tx_irqs n l2") auto
  have r: "ws = w1 @ w2" "cs = (case c of None \<Rightarrow> cs2 | Some x \<Rightarrow> x # cs2)" "l1 = l3"
    using Suc.prems 1 2 by simp_all
  have "l2_tx_irq w = (w1, (run_l1_clb c w)\<lparr>sTransL1 := l2\<rparr>)"
    using 1 by (simp add: l2_tx_irq_def run_l1_clb_l1)
  moreover have "l2_tx_irqs n ((run_l1_clb c w)\<lparr>sTransL1 := l2\<rparr>)
      = (w2, (fold (\<lambda>c. run_l1_clb (Some c)) cs2 (run_l1_clb c w))\<lparr>sTransL1 := l3\<rparr>)"
    using Suc.IH [of "(run_l1_clb c w)\<lparr>sTransL1 := l2\<rparr>"] 2 by (simp add: fold_run_l1)
  ultimately show ?case using r by (cases c) simp_all
qed simp

section \<open>The cycle of one frame\<close>

text \<open>A port ready for layer 2: started, idle, with the layer's callback registered.\<close>

definition l1_ready :: "l1_clb STransL1 \<Rightarrow> bool" where
  "l1_ready l1 \<longleftrightarrow> TransL1_IsSendReady l1 \<and> l1Registered l1 \<and> \<not> isTxBusy (trans_uart_state l1)
     \<and> fClbL1SendDone l1 = Some L1SendDone"

lemma RunSendFrame_start:
  assumes "frmSend w = Some b" "frm b w = fb @ r" "length fb = 8 + unat (fb ! 5)" "\<not> bWaitingL1Send w"
    and "l1_ready (sTransL1 w)" "l2Sending w"
  shows "\<exists>l1. TransL2S_SendTask cb w = Some (w\<lparr>bL1Sending := True, bWaitingL1Send := True, sTransL1 := l1,
             u8ErrorCode := TRANS_SUCCESS, u32L1SendTimeout := 40, hL1TimeOutTimer := True\<rparr>)
     \<and> sending fb l1 \<and> l1Started l1 \<and> fClbL1SendDone l1 = Some L1SendDone \<and> sRecvFIFO l1 = sRecvFIFO (sTransL1 w)
     \<and> l1_env l1 = l1_env (sTransL1 w)"
proof -
  let ?l1 = "sTransL1 w" and ?sz = "ucast (fb ! 5) + 8 :: u16"
  have g: "frm_get b 5 w = Some (fb ! 5)" using assms(2,3) by (simp add: frm_get_def nth_append)
  have "unat (fb ! 5) + 8 < 65536" using unat_u8_less [of "fb ! 5"] by linarith
  then have sz: "unat ?sz = length fb" using assms(3) by (simp add: unat_word_ariths)
  then have "0 < ?sz" using assms(3) by (metis add_is_0 unat_0 word_gt_0 zero_neq_numeral)
  then obtain l1 where l1: "TransL1_Send ?l1 (Some (fb @ r)) ?sz = (TRANS_SUCCESS, l1)"
    "sending (take (unat ?sz) (fb @ r)) l1" "l1Started l1" "fClbL1SendDone l1 = fClbL1SendDone ?l1"
    "sRecvFIFO l1 = sRecvFIFO ?l1"
    using TransL1_Send_ok [of ?l1 ?sz "fb @ r"] assms(5) sz
    by (auto simp: l1_ready_def TransL1_IsSendReady_def)
  moreover have "frm b (w\<lparr>bL1Sending := True, bWaitingL1Send := True\<rparr>) = fb @ r" using assms(2) by (simp add: frm_def)
  ultimately show ?thesis
    using assms g sz TransL1_Send_env [OF l1(1)] by (intro exI [of _ l1])
      (simp add: TransL2S_SendTask_def RunSendFrame_def l1_ready_def Let_def StartL1TimeOutTimer_def)
qed

lemma SendTask_waits:
  assumes "frmSend w = Some b" "5 < length (frm b w)" "bWaitingL1Send w" "bL1Sending w" "l2Sending w"
  shows "TransL2S_SendTask cb w = Some w"
  using assms by (simp add: TransL2S_SendTask_def RunSendFrame_def frm_get_some)

lemma SendTask_done:
  assumes "frmSend w = Some b" "5 < length (frm b w)" "bWaitingL1Send w" "\<not> bL1Sending w" "l2Sending w"
    and "fClbL2SendDone w"
  shows "TransL2S_SendTask cb w = onSendDone cb TRANS_SUCCESS (sMemSend w)
     (w\<lparr>l2Sending := False, bWaitingL1Send := False, u8ErrorCode := TRANS_SUCCESS\<rparr>)"
  using assms by (simp add: TransL2S_SendTask_def RunSendFrame_def frm_get_some L2FireEvent_def fire_send_done_def)

lemma smems_sent: "smems (mem (sent_state dst b data w)) b = (smems (mem w) b)
    \<lparr>u8NumSend := u8NumSend (smems (mem w) b) - 1,
     frame := frame_bytes (u8NodeID w) dst (u8Seq (smems (mem w) b)) (u8Ctrl (smems (mem w) b)) data
              @ drop (8 + length data) (frame (smems (mem w) b))\<rparr>"
  by (simp add: sent_state_def Let_def smems_with_frm upd_mem_def)

lemma sent_sel:
  "frmSend (sent_state dst b data w) = Some b" "sMemSend (sent_state dst b data w) = Some b"
  "l2Sending (sent_state dst b data w)" "\<not> bWaitingL1Send (sent_state dst b data w)"
  "sTransL1 (sent_state dst b data w) = sTransL1 w" "fClbL2SendDone (sent_state dst b data w) = fClbL2SendDone w"
  "l2Started (sent_state dst b data w) = l2Started w"
  by (simp_all add: sent_state_def Let_def with_frm_def upd_mem_def)

lemma frm_sent: "frm b (sent_state dst b data w) =
    frame_bytes (u8NodeID w) dst (u8Seq (smems (mem w) b)) (u8Ctrl (smems (mem w) b)) data
    @ drop (8 + length data) (frm b w)"
  by (simp add: frm_def smems_sent)

lemma send_cycle:
  assumes ready: "TransL2S_IsSendReady w" "l1_ready (sTransL1 w)" "fClbL2SendDone w"
    and dl: "u16DLen (smems (mem w) b) \<le> 240" "8 + unat (u16DLen (smems (mem w) b)) \<le> length (frm b w)"
    and data: "data = take (unat (u16DLen (smems (mem w) b))) (drop 8 (frm b w))"
    and fb: "fb = frame_bytes (u8NodeID w) dst (u8Seq (smems (mem w) b)) (u8Ctrl (smems (mem w) b)) data"
    and k: "k \<le> length fb"
  shows "\<exists>w1 w2 w3. TransL2S_Send w dst b = Some (TRANS_SUCCESS, w1) \<and> TransL2S_SendTask cb w1 = Some w2
     \<and> l2_tx_irqs k w2 = (take k fb, w3) \<and> \<not> TransL2S_IsSendReady w3
     \<and> (if k < length fb then TransL2S_SendTask cb w3 = Some w3
        else TransL2S_SendTask cb w3 = onSendDone cb TRANS_SUCCESS (Some b)
               (w3\<lparr>l2Sending := False, bWaitingL1Send := False, u8ErrorCode := TRANS_SUCCESS\<rparr>)
             \<and> TransL1_IsSendReady (sTransL1 w3) \<and> \<not> hL1TimeOutTimer w3 \<and> semPosts w3 = Suc (semPosts w2))"
proof -
  let ?w1 = "sent_state dst b data w"
  have f5: "fb ! 5 = of_nat (length data)" by (simp add: fb frame_bytes_def frame_header_def)
  have ld: "length data \<le> 240" using dl data by (simp add: word_le_nat_alt)
  then have len: "length fb = 8 + unat (fb ! 5)" using f5 by (simp add: fb unat_of_nat)
  have s: "TransL2S_Send w dst b = Some (TRANS_SUCCESS, ?w1)"
    using TransL2S_Send_ok [OF ready(1) dl data] .
  have fr: "frm b ?w1 = fb @ drop (8 + length data) (frm b w)" by (simp add: frm_sent fb)
  obtain l1 where st: "TransL2S_SendTask cb ?w1 = Some (?w1\<lparr>bL1Sending := True, bWaitingL1Send := True, sTransL1 := l1,
      u8ErrorCode := TRANS_SUCCESS, u32L1SendTimeout := 40, hL1TimeOutTimer := True\<rparr>)"
    and l1: "sending fb l1" "l1Started l1" "fClbL1SendDone l1 = Some L1SendDone"
    using RunSendFrame_start [OF sent_sel(1) fr len sent_sel(4) _ sent_sel(3), of cb] ready(2) by (auto simp: sent_sel)
  define w2 where "w2 = ?w1\<lparr>bL1Sending := True, bWaitingL1Send := True, sTransL1 := l1,
      u8ErrorCode := TRANS_SUCCESS, u32L1SendTimeout := 40, hL1TimeOutTimer := True\<rparr>"
  have w2l: "sTransL1 w2 = l1" by (simp add: w2_def)
  obtain l2 where l2: "tx_irqs k l1 = (take k fb, if k = length fb then [L1SendDone] else [], l2)"
    "if k = length fb then \<not> l1Sending l2 \<and> \<not> isTxBusy (trans_uart_state l2) else sending (drop k fb) l2"
    "l1Started l2" using tx_irqs_sending [OF l1(1) k] l1 by auto
  define w3 where "w3 = (if k = length fb then Clb_L1SendDone w2 else w2)\<lparr>sTransL1 := l2\<rparr>"
  have tx: "l2_tx_irqs k w2 = (take k fb, w3)"
    using l2_tx_irqs_l1 [of k w2] l2(1) by (simp add: w2l w3_def)
  have fl: "5 < length (frm b ?w1)" using len by (simp add: fr)
  have f3: "frmSend w3 = Some b" "5 < length (frm b w3)" "bWaitingL1Send w3" "l2Sending w3" "sMemSend w3 = Some b"
    "fClbL2SendDone w3" "bL1Sending w3 = (k \<noteq> length fb)" "sTransL1 w3 = l2"
    using ready(3) fl by (simp_all add: w3_def w2_def Clb_L1SendDone_def StopL1TimeOutTimer_def Let_def frm_def sent_sel)
  have nr: "\<not> TransL2S_IsSendReady w3" using f3 by (simp add: TransL2S_IsSendReady_def)
  show ?thesis
  proof (cases "k < length fb")
    case True
    then show ?thesis using s st tx nr SendTask_waits [of w3 b cb] f3 unfolding w2_def [symmetric] by auto
  next
    case False
    then have "k = length fb" using k by simp
    moreover have "\<not> hL1TimeOutTimer (Clb_L1SendDone w2)" "semPosts (Clb_L1SendDone w2) = Suc (semPosts w2)"
      by (simp_all add: Clb_L1SendDone_def StopL1TimeOutTimer_def Let_def)
    ultimately show ?thesis
      using s st tx nr SendTask_done [of w3 b cb] f3 l2(2,3) unfolding w2_def [symmetric]
      by (intro exI [of _ ?w1] exI [of _ w2] exI [of _ w3])
        (simp add: TransL1_IsSendReady_def, simp add: w3_def)
  qed
qed

section \<open>Property\<close>

text \<open>C7: a frame handed to a ready layer 2 over an idle port is built with its header and checksums and,
  after the next run of the send task, leaves through the transmit interrupts byte by byte: after the
  first k interrupts the first k bytes of the frame are on the wire; until all are, the layer is busy
  and its task changes nothing; after the last, the task fires the send-done event exactly once, the
  port is ready again, the timeout timer is stopped and the task's semaphore was posted.\<close>

theorem TransL2S_send_cycle:
  assumes "TransL2S_IsSendReady w" "l1_ready (sTransL1 w)" "fClbL2SendDone w"
    and "u16DLen (smems (mem w) b) \<le> 240" "8 + unat (u16DLen (smems (mem w) b)) \<le> length (frm b w)"
    and "data = take (unat (u16DLen (smems (mem w) b))) (drop 8 (frm b w))"
    and "fb = frame_bytes (u8NodeID w) dst (u8Seq (smems (mem w) b)) (u8Ctrl (smems (mem w) b)) data"
    and "k \<le> length fb"
  shows "\<exists>w1 w2 w3. TransL2S_Send w dst b = Some (TRANS_SUCCESS, w1) \<and> TransL2S_SendTask cb w1 = Some w2
     \<and> l2_tx_irqs k w2 = (take k fb, w3) \<and> \<not> TransL2S_IsSendReady w3
     \<and> (if k < length fb then TransL2S_SendTask cb w3 = Some w3
        else TransL2S_SendTask cb w3 = onSendDone cb TRANS_SUCCESS (Some b)
               (w3\<lparr>l2Sending := False, bWaitingL1Send := False, u8ErrorCode := TRANS_SUCCESS\<rparr>)
             \<and> TransL1_IsSendReady (sTransL1 w3) \<and> \<not> hL1TimeOutTimer w3 \<and> semPosts w3 = Suc (semPosts w2))"
  using send_cycle [OF assms] .

lemma TransL2S_send_cycle_witness:
  "\<exists>w1 w2 w3. TransL2S_Send (TransL2S_RegisterClbEvent (l2_node 1) TRANSL2_EVT_SEND_DONE True) 2 (P272, 0) = Some (TRANS_SUCCESS, w1)
     \<and> TransL2S_SendTask no_clbs w1 = Some w2
     \<and> l2_tx_irqs 3 w2 = ([0x21, 1, 2], w3) \<and> TransL2S_SendTask no_clbs w3 = Some w3"
proof -
  let ?w = "TransL2S_RegisterClbEvent (l2_node 1) TRANSL2_EVT_SEND_DONE True" and ?b = "(P272, 0)"
  let ?m = "smems (mem ?w) ?b"
  let ?data = "take (unat (u16DLen ?m)) (drop 8 (frm ?b ?w))"
  let ?fb = "frame_bytes (u8NodeID ?w) 2 (u8Seq ?m) (u8Ctrl ?m) ?data"
  have w: "?w = (l2_node 1)\<lparr>fClbL2SendDone := True\<rparr>" by (simp add: TransL2S_RegisterClbEvent_def)
  have n: "TransL2S_IsSendReady ?w" "l1_ready (sTransL1 ?w)" "fClbL2SendDone ?w" "u8NodeID ?w = 1"
    using l2_node_init [of 1] by (simp_all add: w TransL2S_IsSendReady_def l1_ready_def)
  have d: "u16DLen ?m = 0" using l2_node_dlen by (simp add: w)
  have l: "248 \<le> length (frm ?b ?w)" using l2_node_init(3) [of 1] by (simp add: w rx_inv_def frm_def)
  have k: "3 \<le> length ?fb" by simp
  have t: "take 3 ?fb = [0x21, 1, 2]"
    using n(4) by (simp add: frame_bytes_def frame_header_def CST_PREAMBLE_def eval_nat_numeral)
  have dl: "u16DLen ?m \<le> 240" "8 + unat (u16DLen ?m) \<le> length (frm ?b ?w)" using d l by simp_all
  from TransL2S_send_cycle [OF n(1-3) dl refl refl k, where cb = no_clbs] show ?thesis
    unfolding t by auto
qed

end
