(* ===== verification/Transceiver.thy ===== *)
theory Transceiver
  imports TransL2Send
begin

text \<open>
  Transport layer 3, \<^verbatim>\<open>serialcomm/Tranceiver.c\<close>: acknowledged delivery over layer 2 with three queues of
  frame buffers (to send, commands to send, sent and waiting for the acknowledge).  The state extends
  that of layer 2; a result \<open>None\<close> is a NULL dereference or an access outside a buffer.
\<close>

section \<open>State (Transceiver.h)\<close>

definition LOGGER_DEV_ID :: u8 where "LOGGER_DEV_ID = 0x02"
definition LOGGER_PC_ID :: u8 where "LOGGER_PC_ID = 0x01"
definition FRM_DATA :: u8 where "FRM_DATA = 0x20"
definition TRANS_TIMEOUT_TICK :: u16 where "TRANS_TIMEOUT_TICK = 50"
definition TRANS_MAX_NUM_SEND :: u8 where "TRANS_MAX_NUM_SEND = 3"

datatype EL3Event = TRANS_EVT_NONE | TRANS_EVT_RECV_DATA | TRANS_EVT_SENT_DATA | TRANS_EVT_ERROR

datatype EPackageType = E_CMD_FRM | E_DATA_FRM

record STrans = STransL2S +
  bStarted :: bool
  bUpdateWaitingACKFrameState :: bool
  qSendingData :: SQueue
  qSendingCMD :: SQueue
  qSentQueue :: SQueue
  fClbRecv :: bool
  fClbSendDone :: bool
  fClbError :: bool

text \<open>The functions the application registers; \<open>fClbError\<close> is never called.\<close>

record 'w l3_clbs =
  onL3Recv :: "blk \<Rightarrow> u8 \<Rightarrow> 'w \<Rightarrow> 'w option"
  onL3Sent :: "blk \<Rightarrow> u8 \<Rightarrow> 'w \<Rightarrow> 'w option"

section \<open>The queues in the state\<close>

definition push_data :: "blk option \<Rightarrow> 'a STrans_scheme \<Rightarrow> 'a STrans_scheme option" where
  "push_data b w = do { (q, ms) \<leftarrow> Queue_Append (qSendingData w) b (mem w); Some (w\<lparr>qSendingData := q, mem := ms\<rparr>) }"

definition push_cmd :: "blk option \<Rightarrow> 'a STrans_scheme \<Rightarrow> 'a STrans_scheme option" where
  "push_cmd b w = do { (q, ms) \<leftarrow> Queue_Append (qSendingCMD w) b (mem w); Some (w\<lparr>qSendingCMD := q, mem := ms\<rparr>) }"

definition push_sent :: "blk option \<Rightarrow> 'a STrans_scheme \<Rightarrow> 'a STrans_scheme option" where
  "push_sent b w = do { (q, ms) \<leftarrow> Queue_Append (qSentQueue w) b (mem w); Some (w\<lparr>qSentQueue := q, mem := ms\<rparr>) }"

definition pop_data :: "'a STrans_scheme \<Rightarrow> (blk option \<times> 'a STrans_scheme) option" where
  "pop_data w = do { (r, q, ms) \<leftarrow> Queue_Remove (qSendingData w) None (mem w); Some (r, w\<lparr>qSendingData := q, mem := ms\<rparr>) }"

definition pop_cmd :: "'a STrans_scheme \<Rightarrow> (blk option \<times> 'a STrans_scheme) option" where
  "pop_cmd w = do { (r, q, ms) \<leftarrow> Queue_Remove (qSendingCMD w) None (mem w); Some (r, w\<lparr>qSendingCMD := q, mem := ms\<rparr>) }"

definition SearchSeqFrame :: "u8 \<Rightarrow> smem \<Rightarrow> bool" where
  "SearchSeqFrame sq m = (u8Seq m = sq)"

definition remove_sent :: "u8 \<Rightarrow> 'a STrans_scheme \<Rightarrow> (blk option \<times> 'a STrans_scheme) option" where
  "remove_sent sq w = do {
     (r, q, ms) \<leftarrow> Queue_Remove (qSentQueue w) (Some (SearchSeqFrame sq)) (mem w);
     Some (r, w\<lparr>qSentQueue := q, mem := ms\<rparr>) }"

definition free_mem :: "blk \<Rightarrow> 'a STransL2S_scheme \<Rightarrow> 'a STransL2S_scheme" where
  "free_mem b w = w\<lparr>mem := Mem_Free b (mem w)\<rparr>"

section \<open>Sending\<close>

definition Trans_send ::
  "'a STrans_scheme \<Rightarrow> u8 list option \<Rightarrow> u16 \<Rightarrow> u8 \<Rightarrow> EPackageType \<Rightarrow> (bool \<times> 'a STrans_scheme) option" where
  "Trans_send w pu8Data u16Dlen u8Ctl bFrmType =
     (if \<not> bStarted w then Some (False, w)
      else
        (let dlen = (if u16Dlen > 240 then 240 else u16Dlen);
             (r, ms) = Mem_Alloc (8 + 16 + (dlen + 8)) (mem w);
             w = w\<lparr>mem := ms\<rparr>
         in (case r of
               None \<Rightarrow> Some (False, w)
             | Some b \<Rightarrow> do {
                 let w = upd_mem b (\<lambda>m. m\<lparr>u8Ctrl := u8Ctl, u16DLen := dlen\<rparr>) w;
                 let w = (if bFrmType = E_CMD_FRM then upd_mem b (\<lambda>m. m\<lparr>u8Seq := u8SeqRemote w\<rparr>) w
                          else (upd_mem b (\<lambda>m. m\<lparr>u8Seq := u8SeqLocal w\<rparr>) w)\<lparr>u8SeqLocal := u8SeqLocal w + 1\<rparr>);
                 w \<leftarrow> (case pu8Data of
                         None \<Rightarrow> Some w
                       | Some d \<Rightarrow> if dlen > 0
                                   then (if unat dlen \<le> length d then frm_store b 8 (take (unat dlen) d) w else None)
                                   else Some w);
                 let w = upd_mem b (\<lambda>m. m\<lparr>u8NumSend := TRANS_MAX_NUM_SEND, i16TimeOut := TRANS_TIMEOUT_TICK\<rparr>) w;
                 w \<leftarrow> (if u8Ctl AND 0x3F = CMD_ACK \<or> u8Ctl AND 0x3F = CMD_NACK then push_cmd (Some b) w
                       else push_data (Some b) w);
                 Some (True, w\<lparr>semPosts := semPosts w + 1\<rparr>)
               })))"

definition Trans_Send :: "'a STrans_scheme \<Rightarrow> u16 \<Rightarrow> u8 list option \<Rightarrow> u8 \<Rightarrow> (bool \<times> 'a STrans_scheme) option" where
  "Trans_Send w u16Dlen pu8Data u8Ctl = Trans_send w pu8Data u16Dlen u8Ctl E_DATA_FRM"

definition Trans_SendCmdFrame :: "'a STrans_scheme \<Rightarrow> u8 list option \<Rightarrow> u16 \<Rightarrow> u8 \<Rightarrow> (bool \<times> 'a STrans_scheme) option" where
  "Trans_SendCmdFrame w pData dlen ctl = Trans_send w pData dlen ctl E_CMD_FRM"

definition Trans_IsSendReady :: "'a STrans_scheme \<Rightarrow> u16 \<Rightarrow> bool" where
  "Trans_IsSendReady w len16 = True"

section \<open>Callbacks from layer 2 and the timer\<close>

definition Clb_L2RecvData ::
  "('a STrans_scheme) l3_clbs \<Rightarrow> ETransErrorCode \<Rightarrow> blk option \<Rightarrow> 'a STrans_scheme \<Rightarrow> 'a STrans_scheme option" where
  "Clb_L2RecvData app eStatus pRecvMem w =
     (case pRecvMem of
        None \<Rightarrow> Some w
      | Some b \<Rightarrow> do {
          w \<leftarrow> (if fClbRecv w then onL3Recv app b (u8Ctrl (smems (mem w) b)) w else Some w);
          Some (free_mem b w)
        })"

definition Clb_L2SendDone ::
  "('a STrans_scheme) l3_clbs \<Rightarrow> ETransErrorCode \<Rightarrow> blk option \<Rightarrow> 'a STrans_scheme \<Rightarrow> 'a STrans_scheme option" where
  "Clb_L2SendDone app eStatus pSendMem w = do {
     b \<leftarrow> pSendMem;
     w \<leftarrow> (if fClbSendDone w then onL3Sent app b (u8Ctrl (smems (mem w) b)) w else Some w);
     ct \<leftarrow> frm_get b 4 w;
     (if IS_ACK_REQ ct then push_sent (Some b) w else Some (free_mem b w))
   }"

definition Clb_L2Error :: "ETransErrorCode \<Rightarrow> blk option \<Rightarrow> 'a STrans_scheme \<Rightarrow> 'a STrans_scheme option" where
  "Clb_L2Error eStatus pSendMem w =
     (if TRANS_ERR_L2_TIMEOUT = eStatus \<or> TRANS_ERR_L1_TIMEOUT = eStatus
      then do { b \<leftarrow> pSendMem; Some (free_mem b w) }
      else Some w)"

definition l3_l2_clbs :: "('a STrans_scheme) l3_clbs \<Rightarrow> ('a STrans_scheme) l2_clbs" where
  "l3_l2_clbs app = \<lparr>onRecvData = Clb_L2RecvData app, onSendDone = Clb_L2SendDone app, onError = Clb_L2Error\<rparr>"

definition Clb_UpdateTimer :: "'a STrans_scheme \<Rightarrow> 'a STrans_scheme" where
  "Clb_UpdateTimer w = w\<lparr>bUpdateWaitingACKFrameState := True, semPosts := semPosts w + 1\<rparr>"

section \<open>The aging of sent frames\<close>

text \<open>The loop of \<open>Trans_CheckTimeOutOfSendedFrame\<close>, from the frame \<open>cur\<close> on.\<close>

partial_function (option) check_loop :: "blk option \<Rightarrow> 'a STrans_scheme \<Rightarrow> 'a STrans_scheme option" where
  "check_loop cur w =
     (case cur of
        None \<Rightarrow> Some w
      | Some b \<Rightarrow>
          (let sq = u8Seq (smems (mem w) b);
               w = upd_mem b (\<lambda>m. m\<lparr>i16TimeOut := i16TimeOut m - 1\<rparr>) w
           in if i16TimeOut (smems (mem w) b) = 0 then
                (if u8NumSend (smems (mem w) b) > 0 then
                   (let w = upd_mem b (\<lambda>m. m\<lparr>i16TimeOut := TRANS_TIMEOUT_TICK\<rparr>) w in
                    Option.bind (remove_sent sq w) (\<lambda>(r, w).
                    Option.bind (push_data r w) (\<lambda>w.
                    Option.bind r (\<lambda>c. check_loop (pNext (smems (mem w) c)) w))))
                 else
                   Option.bind (remove_sent sq w) (\<lambda>(r, w).
                   Option.bind r (\<lambda>c.
                     (let nx = pNext (smems (mem w) c) in check_loop nx (free_mem c w)))))
              else check_loop (pNext (smems (mem w) b)) w))"

definition Trans_CheckTimeOutOfSendedFrame :: "'a STrans_scheme \<Rightarrow> 'a STrans_scheme option" where
  "Trans_CheckTimeOutOfSendedFrame w =
     (if Queue_GetSize (qSentQueue w) > 0 then do {
        (pMem, q, ms) \<leftarrow> Queue_Read (qSentQueue w) None (mem w);
        check_loop pMem (w\<lparr>qSentQueue := q, mem := ms\<rparr>)
      }
      else Some w)"

section \<open>The tasks\<close>

definition Trans_RecvTask :: "('a STrans_scheme) l3_clbs \<Rightarrow> 'a STrans_scheme \<Rightarrow> 'a STrans_scheme option" where
  "Trans_RecvTask app w = do {
     (eL2Action, w) \<leftarrow> TransL2S_RecvTask (l3_l2_clbs app) w;
     (case eL2Action of
        TRANSL2_ACT_NO \<Rightarrow> Some w
      | TRANSL2_RCV_ACK \<Rightarrow> do {
          (r, w) \<leftarrow> remove_sent (u8SeqCMDFrm w) w;
          (case r of None \<Rightarrow> Some w | Some b \<Rightarrow> Some (free_mem b w))
        }
      | TRANSL2_RCV_NACK \<Rightarrow> do {
          (r, w) \<leftarrow> remove_sent (u8SeqCMDFrm w) w;
          (case r of
             None \<Rightarrow> Some w
           | Some b \<Rightarrow> push_data (Some b) (upd_mem b (\<lambda>m. m\<lparr>i16TimeOut := TRANS_TIMEOUT_TICK\<rparr>) w))
        }
      | TRANSL2_REQ_ACK \<Rightarrow> map_option snd (Trans_SendCmdFrame w None 0 CMD_ACK)
      | TRANSL2_REQ_NACK \<Rightarrow> map_option snd (Trans_SendCmdFrame w None 0 CMD_NACK))
   }"

definition Trans_SendTask :: "('a STrans_scheme) l3_clbs \<Rightarrow> 'a STrans_scheme \<Rightarrow> 'a STrans_scheme option" where
  "Trans_SendTask app w = do {
     w \<leftarrow> (if bUpdateWaitingACKFrameState w
           then Trans_CheckTimeOutOfSendedFrame (w\<lparr>bUpdateWaitingACKFrameState := False\<rparr>) else Some w);
     w \<leftarrow> (if TransL2S_IsSendReady w then do {
             (pMem, w) \<leftarrow> (if Queue_GetSize (qSendingCMD w) > 0 then pop_cmd w
                            else if Queue_GetSize (qSendingData w) > 0 then pop_data w
                            else Some (None, w));
             (case pMem of None \<Rightarrow> Some w | Some b \<Rightarrow> map_option snd (TransL2S_Send w LOGGER_PC_ID b))
           }
           else Some w);
     TransL2S_SendTask (l3_l2_clbs app) w
   }"

definition Trans_Task :: "('a STrans_scheme) l3_clbs \<Rightarrow> 'a STrans_scheme \<Rightarrow> 'a STrans_scheme option" where
  "Trans_Task app w = do { w \<leftarrow> Trans_RecvTask app w; Trans_SendTask app w }"

section \<open>Initialisation\<close>

definition Trans_RegisterClbEvent :: "'a STrans_scheme \<Rightarrow> EL3Event \<Rightarrow> bool \<Rightarrow> 'a STrans_scheme" where
  "Trans_RegisterClbEvent w evt pFunction =
     (case evt of
        TRANS_EVT_RECV_DATA \<Rightarrow> w\<lparr>fClbRecv := pFunction\<rparr>
      | TRANS_EVT_SENT_DATA \<Rightarrow> w\<lparr>fClbSendDone := pFunction\<rparr>
      | TRANS_EVT_ERROR \<Rightarrow> w\<lparr>fClbError := pFunction\<rparr>
      | TRANS_EVT_NONE \<Rightarrow> w)"

text \<open>\<open>created\<close> tells whether the mutexes of the queues could be created; the code only logs it.\<close>

definition Trans_Init ::
  "('a STrans_scheme) l3_clbs \<Rightarrow> bool \<Rightarrow> 'a STrans_scheme \<Rightarrow> u32 \<Rightarrow> u32 \<Rightarrow> 'a STrans_scheme option" where
  "Trans_Init app created w port baud = do {
     let w = w\<lparr>bStarted := False, bUpdateWaitingACKFrameState := False\<rparr>;
     let w = w\<lparr>qSendingData := snd (Queue_Init created (qSendingData w))\<rparr>;
     let w = w\<lparr>qSendingCMD := snd (Queue_Init created (qSendingCMD w))\<rparr>;
     let w = w\<lparr>qSentQueue := snd (Queue_Init created (qSentQueue w))\<rparr>;
     let w = TransL2S_SetL1Para w port baud;
     (e, w) \<leftarrow> TransL2S_Init (l3_l2_clbs app) w LOGGER_DEV_ID;
     let w = TransL2S_SetCheckSeqNum w True;
     let w = TransL2S_RegisterClbEvent w TRANSL2_EVT_RECV_DATA True;
     let w = TransL2S_RegisterClbEvent w TRANSL2_EVT_SEND_DONE True;
     let w = TransL2S_RegisterClbEvent w TRANSL2_EVT_ERROR True;
     Some (w\<lparr>bStarted := True\<rparr>)
   }"

text \<open>The application's callbacks on the port of the user interface (app.c): they only log.\<close>

definition Clb_TransUI_RecvEvent :: "blk \<Rightarrow> u8 \<Rightarrow> 'a STrans_scheme \<Rightarrow> 'a STrans_scheme option" where
  "Clb_TransUI_RecvEvent pData u8Type w = Some w"

definition Clb_TransUI_SentEvent :: "blk \<Rightarrow> u8 \<Rightarrow> 'a STrans_scheme \<Rightarrow> 'a STrans_scheme option" where
  "Clb_TransUI_SentEvent pData u8Type w = Some w"

definition ui_clbs :: "('a STrans_scheme) l3_clbs" where
  "ui_clbs = \<lparr>onL3Recv = Clb_TransUI_RecvEvent, onL3Sent = Clb_TransUI_SentEvent\<rparr>"

end
