(* ===== verification/BufStore.thy ===== *)
theory BufStore
  imports MemQueue "HOL-Library.Multiset"
begin

text \<open>
  Ownership of frame buffers: a pool in which every allocated buffer that is in use belongs either to
  one of several queues or to a list of loose buffers (held by a task, being received into, being
  sent).  Each queue or pool operation moves a buffer between these owners and keeps all others; this
  is what rules out double frees, lost links and buffers on two queues.
\<close>

section \<open>Capacity\<close>

lemma all_parts: "(UNIV :: part_id set) = {P8, P16, P32, P64, P128, P272, P512}"
  by (auto intro: part_id.exhaust)

lemma used_bound:
  assumes "distinct bs" "set bs \<subseteq> used_blocks ms"
  shows "length bs \<le> 116"
proof -
  let ?A = "SIGMA p:UNIV. {..<unat (pcount p)}"
  have "used_blocks ms \<subseteq> ?A" by (auto simp: used_blocks_def)
  moreover have f: "finite ?A" by (intro finite_SigmaI) (simp_all add: all_parts)
  ultimately have "card (set bs) \<le> card ?A" using assms(2) by (meson card_mono subset_trans)
  also have "card ?A = (\<Sum>p\<in>UNIV. unat (pcount p))" by (subst card_SigmaI) (simp_all add: all_parts)
  also have "\<dots> = 116" by (simp add: all_parts)
  finally show ?thesis using assms(1) by (simp add: distinct_card)
qed

section \<open>The ownership invariant\<close>

text \<open>The frame area of a block is what the partition's size leaves after the two headers.\<close>

definition frames_ok :: "mem_state \<Rightarrow> bool" where
  "frames_ok ms \<longleftrightarrow> (\<forall>b. length (frame (smems ms b)) = unat (psize (fst b)) - 24)"

definition store_inv :: "blk list \<Rightarrow> (SQueue \<times> blk list) list \<Rightarrow> mem_state \<Rightarrow> bool" where
  "store_inv loose qs ms \<longleftrightarrow>
     mem_ok ms \<and> frames_ok ms
     \<and> (\<forall>(q, xs) \<in> set qs. queue_rel q ms xs \<and> mtx q)
     \<and> distinct (loose @ concat (map snd qs))
     \<and> set (loose @ concat (map snd qs)) \<subseteq> used_blocks ms"

lemma store_inv_perm:
  assumes "mset l = mset l'" "mset qs = mset qs'"
  shows "store_inv l qs ms = store_inv l' qs' ms"
proof -
  have "mset (concat (map snd qs)) = sum_mset (image_mset (mset \<circ> snd) (mset qs))"
    for qs :: "(SQueue \<times> blk list) list" by (induction qs) auto
  then have e: "mset (l @ concat (map snd qs)) = mset (l' @ concat (map snd qs'))" using assms by simp
  have "set qs = set qs'" using assms(2) by (rule mset_eq_setD)
  then show ?thesis
    by (simp only: store_inv_def mset_eq_imp_distinct_iff [OF e] mset_eq_setD [OF e])
qed

lemma store_rot: "store_inv l (q # qs) ms = store_inv l (qs @ [q]) ms"
  by (rule store_inv_perm) auto

lemma frames_ok_links: "links_only S ms ms' \<Longrightarrow> frames_ok ms \<Longrightarrow> frames_ok ms'"
  unfolding links_only_def frames_ok_def by (metis smem.select_convs(7) smem.surjective smem.update_convs(1))

lemma store_queue:
  assumes "store_inv l ((q, xs) # qs) ms" "links_only T ms ms'" "queue_rel q' ms' xs'" "mtx q'"
    and "mset (l' @ xs') = mset (l @ xs)" "T \<subseteq> set (l @ xs)"
  shows "store_inv l' ((q', xs') # qs) ms'"
proof -
  let ?r = "concat (map snd qs)"
  have s: "mem_ok ms" "frames_ok ms" "distinct (l @ xs @ ?r)" "set (l @ xs @ ?r) \<subseteq> used_blocks ms"
    "\<And>p ys. (p, ys) \<in> set qs \<Longrightarrow> queue_rel p ms ys \<and> mtx p"
    using assms(1) by (auto simp: store_inv_def)
  have other: "queue_rel p ms' ys \<and> mtx p" if "(p, ys) \<in> set qs" for p ys
  proof -
    have "set ys \<subseteq> set ?r" using that by force
    moreover have "set (l @ xs) \<inter> set ?r = {}" using s(3) by auto
    ultimately have "set ys \<inter> T = {}" using assms(6) by blast
    then show ?thesis using queue_rel_frame [OF _ assms(2)] s(5) [OF that] by blast
  qed
  have e: "mset (l' @ xs' @ ?r) = mset (l @ xs @ ?r)" using assms(5) by simp
  have "distinct (l' @ xs' @ ?r)" "set (l' @ xs' @ ?r) \<subseteq> used_blocks ms"
    using s(3,4) mset_eq_imp_distinct_iff [OF e] mset_eq_setD [OF e] by metis+
  then show ?thesis
    using links_only_mem [OF assms(2)] frames_ok_links [OF assms(2)] s assms(3,4) other
    by (auto simp: store_inv_def)
qed

lemma store_push:
  assumes "store_inv (b # l) ((q, xs) # qs) ms"
  obtains q' ms' where "Queue_Append q (Some b) ms = Some (q', ms')"
    "store_inv l ((q', xs @ [b]) # qs) ms'" "links_only (insert b (set xs)) ms ms'"
proof -
  have d: "distinct (b # l @ xs @ concat (map snd qs))"
    "set (b # l @ xs @ concat (map snd qs)) \<subseteq> used_blocks ms"
    using assms by (simp_all add: store_inv_def)
  have q: "queue_rel q ms xs" "mtx q" using assms by (simp_all add: store_inv_def)
  have "length (b # l @ xs @ concat (map snd qs)) \<le> 116" using used_bound [OF d] .
  then have "length xs < 255" "b \<notin> set xs" using d by simp_all
  with Queue_Append_rel [OF q] obtain q' ms' where a: "Queue_Append q (Some b) ms = Some (q', ms')"
    "queue_rel q' ms' (xs @ [b])" "links_only (insert b (set xs)) ms ms'" "mtx q'" by metis
  have "store_inv l ((q', xs @ [b]) # qs) ms'"
    by (rule store_queue [OF assms a(3,2,4)]) auto
  then show ?thesis using that a by blast
qed

lemma list_remove_some:
  assumes "list_remove s ms xs = (r, xs')"
  shows "(r = None \<and> xs' = xs) \<or> (\<exists>b ys zs. r = Some b \<and> xs = ys @ b # zs \<and> xs' = ys @ zs)"
proof (cases "List.extract (\<lambda>b. case s of None \<Rightarrow> True | Some crit \<Rightarrow> crit (smems ms b)) xs")
  case (Some t)
  then obtain ys z zs where "List.extract (\<lambda>b. case s of None \<Rightarrow> True | Some crit \<Rightarrow> crit (smems ms b)) xs = Some (ys, z, zs)"
    by (cases t) auto
  moreover from this have "xs = ys @ z # zs" by (simp add: extract_Some_iff)
  ultimately have "r = Some z \<and> xs = ys @ z # zs \<and> xs' = ys @ zs" using assms by (simp add: list_remove_def)
  then show ?thesis by blast
qed (use assms in \<open>simp add: list_remove_def\<close>)

lemma store_remove:
  assumes "store_inv l ((q, xs) # qs) ms" "list_remove s ms xs = (r, xs')"
  obtains q' ms' where "Queue_Remove q s ms = Some (r, q', ms')"
    "store_inv (case r of None \<Rightarrow> l | Some b \<Rightarrow> b # l) ((q', xs') # qs) ms'" "links_only (set xs - set_option r) ms ms'"
proof -
  have q: "queue_rel q ms xs" "mtx q" using assms by (simp_all add: store_inv_def)
  from Queue_Remove_list [OF q assms(2)] obtain q' ms' where
    a: "Queue_Remove q s ms = Some (r, q', ms')" "queue_rel q' ms' xs'" "links_only (set xs - set_option r) ms ms'" "mtx q'"
    by metis
  have "store_inv (case r of None \<Rightarrow> l | Some b \<Rightarrow> b # l) ((q', xs') # qs) ms'"
    by (rule store_queue [OF assms(1) a(3,2,4)])
      (use list_remove_some [OF assms(2)] in \<open>auto split: option.splits\<close>)
  then show ?thesis using that a by blast
qed

section \<open>Allocation and release\<close>

lemma store_smems:
  assumes "smems ms' = smems ms" "mem_ok ms'" "distinct (l' @ concat (map snd qs))"
    and "set (l' @ concat (map snd qs)) \<subseteq> used_blocks ms'" "store_inv l qs ms"
  shows "store_inv l' qs ms'"
  using assms unfolding store_inv_def frames_ok_def queue_rel_def by auto

lemma store_free:
  assumes "store_inv (b # l) qs ms"
  shows "store_inv l qs (Mem_Free b ms)" "smems (Mem_Free b ms) = smems ms"
proof -
  have s: "mem_ok ms" "distinct (b # l @ concat (map snd qs))" "set (b # l @ concat (map snd qs)) \<subseteq> used_blocks ms"
    using assms by (simp_all add: store_inv_def)
  then have f: "mem_ok (Mem_Free b ms)" "used_blocks (Mem_Free b ms) = used_blocks ms - {b}"
    "smems (Mem_Free b ms) = smems ms" using Free_ok [of ms b] by (simp_all add: Mem_Free_def)
  show "smems (Mem_Free b ms) = smems ms" using f(3) .
  show "store_inv l qs (Mem_Free b ms)" by (rule store_smems [OF f(3,1) _ _ assms]) (use s f(2) in auto)
qed

lemma store_upd:
  assumes "store_inv l qs ms" "pNext (f (smems ms b)) = pNext (smems ms b)"
    and "length (frame (f (smems ms b))) = length (frame (smems ms b))"
  shows "store_inv l qs (upd_smem b f ms)"
proof -
  have "links (upd_smem b f ms) = links ms" using assms(2) by auto
  then have "queue_rel q (upd_smem b f ms) xs = queue_rel q ms xs" for q xs by (simp add: queue_rel_def)
  moreover have "frames_ok ms \<Longrightarrow> frames_ok (upd_smem b f ms)" by (auto simp: frames_ok_def assms(3))
  ultimately show ?thesis using assms(1) by (simp add: store_inv_def)
qed

lemma store_upd_links:
  assumes "store_inv l qs ms" "\<forall>(q, xs) \<in> set qs. b \<notin> set xs"
  shows "store_inv l qs (set_next b n ms)"
proof -
  have "queue_rel q (set_next b n ms) xs" if "(q, xs) \<in> set qs" for q xs
    using queue_rel_frame [OF _ links_only_set_next [of b ms n]] assms that unfolding store_inv_def by blast
  then show ?thesis
    using assms(1) links_only_mem [OF links_only_set_next [of b ms n]] frames_ok_links [OF links_only_set_next [of b ms n]]
    by (auto simp: store_inv_def)
qed

lemma store_malloc:
  assumes "store_inv l qs ms" "OSA_FixedMemMalloc sz ms = (r, ms')"
  shows "case r of
      None \<Rightarrow> ms' = ms
    | Some b \<Rightarrow> store_inv (b # l) qs ms' \<and> select_part sz = Some (fst b)
        \<and> b \<notin> set (l @ concat (map snd qs)) \<and> smems ms' = smems ms"
proof (cases r)
  case None
  have "mem_ok ms" using assms(1) by (simp add: store_inv_def)
  from Malloc_ok [OF this assms(2)] show ?thesis using None by simp
next
  case (Some b)
  obtain p i where b: "b = (p, i)" by (cases b)
  have s: "mem_ok ms" "distinct (l @ concat (map snd qs))" "set (l @ concat (map snd qs)) \<subseteq> used_blocks ms"
    using assms(1) by (simp_all add: store_inv_def)
  have k: "select_part sz = Some (fst b)" "b \<notin> used_blocks ms"
    "used_blocks ms' = insert b (used_blocks ms)" "mem_ok ms'" "smems ms' = smems ms"
    using Malloc_ok [OF s(1) assms(2)] Some b by simp_all
  have new: "b \<notin> set (l @ concat (map snd qs))" using k(2) s(3) by blast
  have "store_inv (b # l) qs ms'"
    by (rule store_smems [OF k(5,4) _ _ assms(1)]) (use s k(3) new in auto)
  then show ?thesis using Some k new by simp
qed

lemma store_alloc:
  assumes "store_inv l qs ms" "Mem_Alloc sz ms = (r, ms')"
  shows "case r of
      None \<Rightarrow> store_inv l qs ms' \<and> smems ms' = smems ms
    | Some b \<Rightarrow> store_inv (b # l) qs ms' \<and> select_part (ucast sz) = Some (fst b)
        \<and> b \<notin> set (l @ concat (map snd qs)) \<and> smems ms' = (smems ms)(b := (smems ms b)\<lparr>pNext := None\<rparr>)"
proof -
  obtain r1 ms1 where m: "OSA_FixedMemMalloc (ucast sz) ms = (r1, ms1)" by fastforce
  note k = store_malloc [OF assms(1) m]
  show ?thesis
  proof (cases r1)
    case None
    then show ?thesis using assms m k by (simp add: Mem_Alloc_def)
  next
    case (Some b)
    have r: "r = Some b" "ms' = set_next b None ms1"
      using assms(2) m Some by (simp_all add: Mem_Alloc_def set_next_def)
    have k': "store_inv (b # l) qs ms1" "select_part (ucast sz) = Some (fst b)" "b \<notin> set (l @ concat (map snd qs))"
      "smems ms1 = smems ms" using k Some by simp_all
    have "store_inv (b # l) qs ms'" unfolding r(2) by (rule store_upd_links [OF k'(1)]) (use k'(3) in force)
    then show ?thesis using r k' by (simp add: set_next_def)
  qed
qed

end
