(* ===== verification/TransceiverInv.thy ===== *)
theory TransceiverInv
  imports Transceiver BufStore
begin

text \<open>
  The ownership invariant of transport layer 3 and its preservation by every operation of the layer:
  each frame buffer in use by the layer is in exactly one of the three queues, being received into,
  being sent, or (in the middle of an operation) loose.
\<close>

section \<open>The invariant\<close>

definition sendable :: "mem_state \<Rightarrow> blk \<Rightarrow> bool" where
  "sendable ms b \<longleftrightarrow> u16DLen (smems ms b) \<le> 240 \<and> 8 + unat (u16DLen (smems ms b)) \<le> length (frame (smems ms b))
     \<and> (u8Ctrl (smems ms b) AND 0x3F = FRM_DATA \<longrightarrow> 8 < length (frame (smems ms b)))"

definition rx_held :: "'a STransL2S_scheme \<Rightarrow> blk list" where
  "rx_held w = (case frmRecv w of None \<Rightarrow> [] | Some b \<Rightarrow> [b])"

definition tx_held :: "'a STransL2S_scheme \<Rightarrow> blk list" where
  "tx_held w = (if l2Sending w then (case sMemSend w of None \<Rightarrow> [] | Some b \<Rightarrow> [b]) else [])"

definition qs_of :: "'a STrans_scheme \<Rightarrow> blk list \<Rightarrow> blk list \<Rightarrow> blk list \<Rightarrow> (SQueue \<times> blk list) list" where
  "qs_of w D C S = [(qSendingData w, D), (qSendingCMD w, C), (qSentQueue w, S)]"

definition rx_ok :: "'a STransL2S_scheme \<Rightarrow> bool" where
  "rx_ok w \<longleftrightarrow> sMemRecv w = frmRecv w \<and> l1_ok (sTransL1 w)
     \<and> (unat (u16RecvCount w) = 0 \<or> 8 \<le> unat (u16RecvCount w) \<and> unat (u16RecvCount w) \<le> 263)
     \<and> unat (statDLen w) \<le> 255 \<and> (\<forall>b. frmRecv w = Some b \<longrightarrow> 248 \<le> length (frm b w))"

lemma rx_ok_inv: "rx_ok w \<Longrightarrow> frmRecv w = Some b \<Longrightarrow> rx_inv b w"
  by (simp add: rx_ok_def rx_inv_def)

definition tx_ok :: "'a STransL2S_scheme \<Rightarrow> bool" where
  "tx_ok w \<longleftrightarrow> (l2Sending w \<longrightarrow> sMemSend w \<noteq> None \<and> frmSend w = sMemSend w \<and> sendable (mem w) (the (sMemSend w)))
     \<and> (hL1TimeOutTimer w \<longrightarrow> l2Sending w \<and> bL1Sending w \<and> bWaitingL1Send w)"

definition clbs_on :: "'a STransL2S_scheme \<Rightarrow> bool" where
  "clbs_on w \<longleftrightarrow> fClbL2RecvData w \<and> fClbL2SendDone w \<and> fClbL2Error w"

definition tinv :: "blk list \<Rightarrow> 'a STrans_scheme \<Rightarrow> blk list \<Rightarrow> blk list \<Rightarrow> blk list \<Rightarrow> bool" where
  "tinv l w D C S \<longleftrightarrow> store_inv (l @ rx_held w @ tx_held w) (qs_of w D C S) (mem w)
     \<and> (\<forall>b \<in> set (D @ C @ S). sendable (mem w) b) \<and> rx_ok w \<and> tx_ok w \<and> clbs_on w"

section \<open>Changes of the store that keep the contents of the buffers\<close>

definition body_same :: "mem_state \<Rightarrow> mem_state \<Rightarrow> bool" where
  "body_same ms ms' \<longleftrightarrow> (\<forall>b. smems ms' b = (smems ms b)\<lparr>pNext := links ms' b\<rparr>)"

lemma body_same_links: "links_only T ms ms' \<Longrightarrow> body_same ms ms'"
  by (simp add: links_only_def body_same_def)

lemma body_same_smems: "smems ms' = smems ms \<Longrightarrow> body_same ms ms'"
  by (simp add: body_same_def)

lemma body_same_trans: "body_same ms ms1 \<Longrightarrow> body_same ms1 ms2 \<Longrightarrow> body_same ms ms2"
  unfolding body_same_def by (metis smem.surjective smem.update_convs(1))

lemma body_same_sel:
  assumes "body_same ms ms'"
  shows "frame (smems ms' b) = frame (smems ms b)" "u16DLen (smems ms' b) = u16DLen (smems ms b)"
    "u8Ctrl (smems ms' b) = u8Ctrl (smems ms b)" "u8Seq (smems ms' b) = u8Seq (smems ms b)"
    "u8NumSend (smems ms' b) = u8NumSend (smems ms b)" "i16TimeOut (smems ms' b) = i16TimeOut (smems ms b)"
  using assms unfolding body_same_def
  by (metis smem.surjective smem.update_convs(1) smem.select_convs(7), metis smem.surjective smem.update_convs(1) smem.select_convs(6),
      metis smem.surjective smem.update_convs(1) smem.select_convs(4), metis smem.surjective smem.update_convs(1) smem.select_convs(5),
      metis smem.surjective smem.update_convs(1) smem.select_convs(3), metis smem.surjective smem.update_convs(1) smem.select_convs(2))

lemma body_same_sendable: "body_same ms ms' \<Longrightarrow> sendable ms' = sendable ms"
  by (rule ext) (simp add: sendable_def body_same_sel)

lemma ok_mem:
  assumes "body_same (mem w) ms'"
  shows "rx_ok (w\<lparr>qSendingData := qd, qSendingCMD := qc, qSentQueue := qs, mem := ms'\<rparr>) = rx_ok w"
    "tx_ok (w\<lparr>qSendingData := qd, qSendingCMD := qc, qSentQueue := qs, mem := ms'\<rparr>) = tx_ok w"
    "clbs_on (w\<lparr>qSendingData := qd, qSendingCMD := qc, qSentQueue := qs, mem := ms'\<rparr>) = clbs_on w"
    "rx_held (w\<lparr>qSendingData := qd, qSendingCMD := qc, qSentQueue := qs, mem := ms'\<rparr>) = rx_held w"
    "tx_held (w\<lparr>qSendingData := qd, qSendingCMD := qc, qSentQueue := qs, mem := ms'\<rparr>) = tx_held w"
  using body_same_sel(1) [OF assms] body_same_sendable [OF assms]
  by (simp_all add: rx_ok_def tx_ok_def clbs_on_def rx_held_def tx_held_def frm_def)

lemma tinv_mem:
  assumes "tinv l w D C S" "body_same (mem w) ms'"
    and "store_inv (l' @ rx_held w @ tx_held w) [(qd, D'), (qc, C'), (qs, S')] ms'"
    and "\<forall>b \<in> set (D' @ C' @ S'). sendable (mem w) b"
  shows "tinv l' (w\<lparr>qSendingData := qd, qSendingCMD := qc, qSentQueue := qs, mem := ms'\<rparr>) D' C' S'"
  using assms unfolding tinv_def ok_mem [OF assms(2)] by (simp add: qs_of_def body_same_sendable)

lemma qs_rot: "store_inv l [d, c, s] ms \<Longrightarrow> store_inv l [c, s, d] ms"
  by (subst store_inv_perm [OF refl]) auto

lemma tinv_store: "tinv l w D C S \<Longrightarrow>
    store_inv (l @ rx_held w @ tx_held w) [(qSendingData w, D), (qSendingCMD w, C), (qSentQueue w, S)] (mem w)"
  by (simp add: tinv_def qs_of_def)

lemma tinv_sendable: "tinv l w D C S \<Longrightarrow> \<forall>b \<in> set (D @ C @ S). sendable (mem w) b"
  unfolding tinv_def by blast

lemma push_data_tinv:
  assumes "tinv (b # l) w D C S" "sendable (mem w) b"
  obtains q ms where "push_data (Some b) w = Some (w\<lparr>qSendingData := q, mem := ms\<rparr>)" "body_same (mem w) ms"
    "tinv l (w\<lparr>qSendingData := q, mem := ms\<rparr>) (D @ [b]) C S" "used_blocks ms = used_blocks (mem w)"
proof -
  from tinv_store [OF assms(1)] obtain q ms where a: "Queue_Append (qSendingData w) (Some b) (mem w) = Some (q, ms)"
    "store_inv (l @ rx_held w @ tx_held w) [(q, D @ [b]), (qSendingCMD w, C), (qSentQueue w, S)] ms"
    "links_only (insert b (set D)) (mem w) ms" by (auto elim: store_push)
  note t = tinv_mem [OF assms(1) body_same_links [OF a(3)] a(2)]
  have "tinv l (w\<lparr>qSendingData := q, mem := ms\<rparr>) (D @ [b]) C S"
    using t assms by (auto simp: tinv_def)
  then show ?thesis using that a body_same_links links_only_mem(2) by (simp add: push_data_def)
qed

lemma push_cmd_tinv:
  assumes "tinv (b # l) w D C S" "sendable (mem w) b"
  obtains q ms where "push_cmd (Some b) w = Some (w\<lparr>qSendingCMD := q, mem := ms\<rparr>)" "body_same (mem w) ms"
    "tinv l (w\<lparr>qSendingCMD := q, mem := ms\<rparr>) D (C @ [b]) S"
proof -
  from tinv_store [OF assms(1), THEN qs_rot] obtain q ms where a: "Queue_Append (qSendingCMD w) (Some b) (mem w) = Some (q, ms)"
    "store_inv (l @ rx_held w @ tx_held w) [(q, C @ [b]), (qSentQueue w, S), (qSendingData w, D)] ms"
    "links_only (insert b (set C)) (mem w) ms" by (auto elim: store_push)
  note t = tinv_mem [OF assms(1) body_same_links [OF a(3)] a(2) [THEN qs_rot, THEN qs_rot]]
  have "tinv l (w\<lparr>qSendingCMD := q, mem := ms\<rparr>) D (C @ [b]) S"
    using t assms by (auto simp: tinv_def)
  then show ?thesis using that a body_same_links by (simp add: push_cmd_def)
qed

lemma push_sent_tinv:
  assumes "tinv (b # l) w D C S" "sendable (mem w) b"
  obtains q ms where "push_sent (Some b) w = Some (w\<lparr>qSentQueue := q, mem := ms\<rparr>)" "body_same (mem w) ms"
    "tinv l (w\<lparr>qSentQueue := q, mem := ms\<rparr>) D C (S @ [b])"
proof -
  from tinv_store [OF assms(1), THEN qs_rot, THEN qs_rot] obtain q ms where a: "Queue_Append (qSentQueue w) (Some b) (mem w) = Some (q, ms)"
    "store_inv (l @ rx_held w @ tx_held w) [(q, S @ [b]), (qSendingData w, D), (qSendingCMD w, C)] ms"
    "links_only (insert b (set S)) (mem w) ms" by (auto elim: store_push)
  note t = tinv_mem [OF assms(1) body_same_links [OF a(3)] a(2) [THEN qs_rot]]
  have "tinv l (w\<lparr>qSentQueue := q, mem := ms\<rparr>) D C (S @ [b])"
    using t assms by (auto simp: tinv_def)
  then show ?thesis using that a body_same_links by (simp add: push_sent_def)
qed

lemma list_remove_head: "list_remove None ms (b # xs) = (Some b, xs)"
  by (simp add: list_remove_def extract_Cons_code)

lemma pop_data_tinv:
  assumes "tinv l w (b # D) C S"
  obtains q ms where "pop_data w = Some (Some b, w\<lparr>qSendingData := q, mem := ms\<rparr>)" "body_same (mem w) ms"
    "tinv (b # l) (w\<lparr>qSendingData := q, mem := ms\<rparr>) D C S"
proof -
  from store_remove [OF tinv_store [OF assms] list_remove_head] obtain q ms where
    a: "Queue_Remove (qSendingData w) None (mem w) = Some (Some b, q, ms)"
    "store_inv (b # l @ rx_held w @ tx_held w) [(q, D), (qSendingCMD w, C), (qSentQueue w, S)] ms"
    "links_only (set (b # D) - {b}) (mem w) ms" by auto
  note t = tinv_mem [OF assms body_same_links [OF a(3)], of "b # l"]
  have "tinv (b # l) (w\<lparr>qSendingData := q, mem := ms\<rparr>) D C S"
    using t [of q D "qSendingCMD w" C "qSentQueue w" S] a(2) assms by (auto simp: tinv_def)
  then show ?thesis using that a body_same_links by (simp add: pop_data_def)
qed

lemma pop_cmd_tinv:
  assumes "tinv l w D (b # C) S"
  obtains q ms where "pop_cmd w = Some (Some b, w\<lparr>qSendingCMD := q, mem := ms\<rparr>)" "body_same (mem w) ms"
    "tinv (b # l) (w\<lparr>qSendingCMD := q, mem := ms\<rparr>) D C S"
proof -
  from store_remove [OF tinv_store [OF assms, THEN qs_rot] list_remove_head] obtain q ms where
    a: "Queue_Remove (qSendingCMD w) None (mem w) = Some (Some b, q, ms)"
    "store_inv (b # l @ rx_held w @ tx_held w) [(q, C), (qSentQueue w, S), (qSendingData w, D)] ms"
    "links_only (set (b # C) - {b}) (mem w) ms" by auto
  note t = tinv_mem [OF assms body_same_links [OF a(3)], of "b # l"]
  have "tinv (b # l) (w\<lparr>qSendingCMD := q, mem := ms\<rparr>) D C S"
    using t [of "qSendingData w" D q C "qSentQueue w" S] qs_rot [OF qs_rot [OF a(2)]] assms by (auto simp: tinv_def)
  then show ?thesis using that a body_same_links by (simp add: pop_cmd_def)
qed

text \<open>Removing the first sent frame with a given sequence number.\<close>

definition with_seq :: "u8 \<Rightarrow> mem_state \<Rightarrow> blk list \<Rightarrow> blk option \<times> blk list" where
  "with_seq sq ms S = list_remove (Some (SearchSeqFrame sq)) ms S"

lemma remove_sent_tinv:
  assumes "tinv l w D C S" "with_seq sq (mem w) S = (r, S')"
  obtains q ms where "remove_sent sq w = Some (r, w\<lparr>qSentQueue := q, mem := ms\<rparr>)" "body_same (mem w) ms"
    "tinv (case r of None \<Rightarrow> l | Some b \<Rightarrow> b # l) (w\<lparr>qSentQueue := q, mem := ms\<rparr>) D C S'"
    "links_only (set S - set_option r) (mem w) ms"
proof -
  from store_remove [OF tinv_store [OF assms(1), THEN qs_rot, THEN qs_rot] assms(2) [unfolded with_seq_def]] obtain q ms where
    a: "Queue_Remove (qSentQueue w) (Some (SearchSeqFrame sq)) (mem w) = Some (r, q, ms)"
    "store_inv (case r of None \<Rightarrow> l @ rx_held w @ tx_held w | Some b \<Rightarrow> b # l @ rx_held w @ tx_held w)
       [(q, S'), (qSendingData w, D), (qSendingCMD w, C)] ms"
    "links_only (set S - set_option r) (mem w) ms" by auto
  have st: "store_inv ((case r of None \<Rightarrow> l | Some b \<Rightarrow> b # l) @ rx_held w @ tx_held w)
       [(qSendingData w, D), (qSendingCMD w, C), (q, S')] ms"
    using qs_rot [OF a(2)] by (cases r) simp_all
  have sub: "set S' \<subseteq> set S" using list_remove_some [OF assms(2) [unfolded with_seq_def]] by auto
  note t = tinv_mem [OF assms(1) body_same_links [OF a(3)] st]
  have "\<forall>b\<in>set (D @ C @ S'). sendable (mem w) b" using tinv_sendable [OF assms(1)] sub by auto
  from t [OF this] have "tinv (case r of None \<Rightarrow> l | Some b \<Rightarrow> b # l) (w\<lparr>qSentQueue := q, mem := ms\<rparr>) D C S'"
    by simp
  moreover have "remove_sent sq w = Some (r, w\<lparr>qSentQueue := q, mem := ms\<rparr>)" using a(1) by (simp add: remove_sent_def)
  ultimately show ?thesis using that [OF _ body_same_links [OF a(3)] _ a(3)] by blast
qed

lemma free_mem_tinv:
  assumes "tinv (b # l) w D C S"
  shows "tinv l (free_mem b w) D C S" "smems (mem (free_mem b w)) = smems (mem w)"
proof -
  have "store_inv (b # l @ rx_held w @ tx_held w) [(qSendingData w, D), (qSendingCMD w, C), (qSentQueue w, S)] (mem w)"
    using tinv_store [OF assms] by simp
  note f = store_free [OF this]
  show "smems (mem (free_mem b w)) = smems (mem w)" using f(2) by (simp add: free_mem_def)
  show "tinv l (free_mem b w) D C S"
    using tinv_mem [OF assms body_same_smems [OF f(2)] f(1)] assms by (simp add: free_mem_def tinv_def)
qed

lemma tinv_sel [simp]:
  "tinv l (w\<lparr>u8ErrorCode := e\<rparr>) D C S = tinv l w D C S"
  "tinv l (w\<lparr>semPosts := n\<rparr>) D C S = tinv l w D C S"
  "tinv l (w\<lparr>u8SeqLocal := sq\<rparr>) D C S = tinv l w D C S"
  "tinv l (w\<lparr>u8SeqRemote := sq\<rparr>) D C S = tinv l w D C S"
  "tinv l (w\<lparr>u8SeqCMDFrm := sq\<rparr>) D C S = tinv l w D C S"
  "tinv l (w\<lparr>bUpdateWaitingACKFrameState := u\<rparr>) D C S = tinv l w D C S"
  by (simp_all add: tinv_def rx_held_def tx_held_def qs_of_def rx_ok_def tx_ok_def clbs_on_def rx_inv_def frm_def)

lemma held_mem: "rx_held (w\<lparr>mem := ms\<rparr>) = rx_held w" "tx_held (w\<lparr>mem := ms\<rparr>) = tx_held w"
  by (simp_all add: rx_held_def tx_held_def)

lemma tinv_upd_mem:
  assumes "tinv l w D C S" "pNext (f (smems (mem w) b)) = pNext (smems (mem w) b)"
    and "length (frame (f (smems (mem w) b))) = length (frame (smems (mem w) b))"
    and "b \<in> set (D @ C @ S @ tx_held w) \<Longrightarrow> sendable (mem w) b \<Longrightarrow> sendable (mem (upd_mem b f w)) b"
  shows "tinv l (upd_mem b f w) D C S"
proof -
  have "store_inv (l @ rx_held w @ tx_held w) (qs_of w D C S) (upd_smem b f (mem w))"
    using store_upd [OF tinv_store [OF assms(1)], of f b] assms(2,3) by (simp add: qs_of_def)
  moreover have s: "sendable (upd_smem b f (mem w)) c"
    if "sendable (mem w) c" "c \<in> set (D @ C @ S @ tx_held w)" for c
    using that assms(4) by (cases "c = b") (simp_all add: upd_mem_def, simp add: sendable_def)
  have "\<forall>c \<in> set (D @ C @ S). sendable (upd_smem b f (mem w)) c" using s tinv_sendable [OF assms(1)] by auto
  moreover have "tx_ok (w\<lparr>mem := upd_smem b f (mem w)\<rparr>)"
  proof -
    have "tx_ok w" using assms(1) by (simp add: tinv_def)
    moreover have "sendable (upd_smem b f (mem w)) (the (sMemSend w))" if "l2Sending w"
    proof (rule s)
      show "sendable (mem w) (the (sMemSend w))" using \<open>tx_ok w\<close> that by (simp add: tx_ok_def)
      show "the (sMemSend w) \<in> set (D @ C @ S @ tx_held w)" using \<open>tx_ok w\<close> that by (auto simp: tx_ok_def tx_held_def)
    qed
    ultimately show ?thesis by (simp add: tx_ok_def)
  qed
  moreover have "length (frm c (w\<lparr>mem := upd_smem b f (mem w)\<rparr>)) = length (frm c w)" for c
    using assms(3) by (simp add: frm_def)
  ultimately show ?thesis
    using assms(1) unfolding upd_mem_def
    by (simp add: tinv_def held_mem qs_of_def rx_ok_def clbs_on_def)
qed

lemma tinv_mem_only:
  assumes "tinv l w D C S" "body_same (mem w) ms"
    and "store_inv (l' @ rx_held w @ tx_held w) [(qSendingData w, D), (qSendingCMD w, C), (qSentQueue w, S)] ms"
  shows "tinv l' (w\<lparr>mem := ms\<rparr>) D C S"
  using tinv_mem [OF assms tinv_sendable [OF assms(1)]] by simp

section \<open>Queueing a frame\<close>

lemma alloc_tinv:
  assumes "tinv l w D C S" "Mem_Alloc sz (mem w) = (r, ms)"
  shows "case r of
      None \<Rightarrow> tinv l (w\<lparr>mem := ms\<rparr>) D C S \<and> smems ms = smems (mem w)
    | Some b \<Rightarrow> tinv (b # l) (w\<lparr>mem := ms\<rparr>) D C S \<and> unat sz - 24 \<le> length (frame (smems ms b))
        \<and> b \<notin> set (l @ rx_held w @ tx_held w @ D @ C @ S) \<and> smems ms = (smems (mem w))(b := (smems (mem w) b)\<lparr>pNext := None\<rparr>)
        \<and> select_part (ucast sz) = Some (fst b)"
proof (cases r)
  case None
  then show ?thesis
    using store_alloc [OF tinv_store [OF assms(1)] assms(2)]
      tinv_mem_only [OF assms(1) body_same_smems, of ms l] by simp
next
  case (Some b)
  note a = store_alloc [OF tinv_store [OF assms(1)] assms(2), unfolded Some, simplified]
  have bs: "body_same (mem w) ms" using a by (auto simp: body_same_def)
  have "unat (ucast sz :: u32) = unat sz" by (simp add: unat_ucast_16_32)
  then have "unat sz \<le> unat (psize (fst b))"
    using a by (auto simp: select_part_def word_le_nat_alt not_le split: if_splits)
  moreover have "frames_ok (mem w)" using tinv_store [OF assms(1)] by (simp add: store_inv_def)
  ultimately have "unat sz - 24 \<le> length (frame (smems ms b))"
    using body_same_sel(1) [OF bs, of b] by (cases b) (auto simp: frames_ok_def)
  moreover have "tinv (b # l) (w\<lparr>mem := ms\<rparr>) D C S"
    using tinv_mem_only [OF assms(1) bs, of "b # l"] a by simp
  ultimately show ?thesis using a Some by auto
qed

text \<open>The contents of a frame buffer just queued.\<close>

definition new_frame :: "u8 \<Rightarrow> u16 \<Rightarrow> u8 \<Rightarrow> u8 list option \<Rightarrow> smem \<Rightarrow> bool" where
  "new_frame ctl dl sq data m \<longleftrightarrow> u8Ctrl m = ctl \<and> u16DLen m = dl \<and> u8Seq m = sq
     \<and> u8NumSend m = TRANS_MAX_NUM_SEND \<and> i16TimeOut m = TRANS_TIMEOUT_TICK
     \<and> (case data of None \<Rightarrow> True | Some d \<Rightarrow> take (unat dl) (drop 8 (frame m)) = take (unat dl) d)"

lemma new_frame_body: "body_same ms ms' \<Longrightarrow> new_frame ctl dl sq data (smems ms' b) = new_frame ctl dl sq data (smems ms b)"
  by (cases data) (simp_all add: new_frame_def body_same_sel)

definition capped :: "u16 \<Rightarrow> u16" where
  "capped n = (if n > 240 then 240 else n)"

lemma capped_pos: "0 < n \<Longrightarrow> 0 < capped n"
  by (simp add: capped_def)

lemma capped_le: "unat (capped n) \<le> 240"
  by (auto simp: capped_def word_less_nat_alt not_less)

definition is_cmd :: "u8 \<Rightarrow> bool" where
  "is_cmd ctl \<longleftrightarrow> ctl AND 0x3F = CMD_ACK \<or> ctl AND 0x3F = CMD_NACK"

text \<open>What queueing a frame in the new buffer \<open>b\<close> leaves alone: every other part of the state, and the contents of every
  other buffer.\<close>

definition posted :: "blk \<Rightarrow> 'a STrans_scheme \<Rightarrow> 'a STrans_scheme \<Rightarrow> bool" where
  "posted b w w' \<longleftrightarrow>
     (\<exists>ms sl qd qc k. w' = w\<lparr>mem := ms, u8SeqLocal := sl, qSendingData := qd, qSendingCMD := qc, semPosts := k\<rparr>)
     \<and> (\<forall>c. c \<noteq> b \<longrightarrow> (smems (mem w') c)\<lparr>pNext := None\<rparr> = (smems (mem w) c)\<lparr>pNext := None\<rparr>)"

lemma posted_intro:
  assumes "smems ms = (smems (mem w))(b := x)" "body_same (upd_smem b g ms) ms'"
    and "w' = w\<lparr>mem := ms', u8SeqLocal := sl, qSendingData := qd, qSendingCMD := qc, semPosts := k\<rparr>"
  shows "posted b w w'"
proof -
  have "(smems ms' c)\<lparr>pNext := None\<rparr> = (smems (mem w) c)\<lparr>pNext := None\<rparr>" if "c \<noteq> b" for c
  proof -
    obtain y where "smems ms' c = (smems (upd_smem b g ms) c)\<lparr>pNext := y\<rparr>" using assms(2) unfolding body_same_def by blast
    then show ?thesis using assms(1) that by simp
  qed
  then show ?thesis
    unfolding posted_def using assms(3) by (intro conjI) (blast, simp)
qed

lemma Trans_send_tinv:
  assumes inv: "tinv l w D C S" and st: "bStarted w"
    and data: "case data of None \<Rightarrow> True | Some d \<Rightarrow> unat (capped n) \<le> length d"
    and sq: "sq = (if ty = E_CMD_FRM then u8SeqRemote w else u8SeqLocal w)"
    and al: "Mem_Alloc (8 + 16 + (capped n + 8)) (mem w) = (Some b, ms)" and ne: "ctl AND 0x3F = FRM_DATA \<Longrightarrow> 0 < n"
  obtains w' where "Trans_send w data n ctl ty = Some (True, w')"
    "tinv l w' (if is_cmd ctl then D else D @ [b]) (if is_cmd ctl then C @ [b] else C) S"
    "b \<notin> set (l @ rx_held w @ tx_held w @ D @ C @ S)"
    "new_frame ctl (capped n) sq data (smems (mem w') b)"
    "u8SeqLocal w' = (if ty = E_CMD_FRM then u8SeqLocal w else u8SeqLocal w + 1)"
    "semPosts w' = semPosts w + 1" "posted b w w'"
proof -
  let ?dl = "capped n" and ?L = "if ty = E_CMD_FRM then u8SeqLocal w else u8SeqLocal w + 1"
  note a = alloc_tinv [OF inv al, simplified]
  have dl: "unat ?dl \<le> 240" by (rule capped_le)
  then have "unat (8 + 16 + (?dl + 8)) = 32 + unat ?dl" by (simp add: unat_word_ariths)
  moreover have "unat (8 + 16 + (?dl + 8)) - 24 \<le> length (frame (smems ms b))"
    using alloc_tinv [OF inv al] unfolding option.case by blast
  ultimately have len: "8 + unat ?dl \<le> length (frame (smems ms b))" by simp
  have len9: "8 < length (frame (smems ms b))" if "ctl AND 0x3F = FRM_DATA"
    using len capped_pos [of n] ne [OF that] by (simp add: word_less_nat_alt)
  define F where "F = (case data of None \<Rightarrow> frame (smems ms b)
    | Some d \<Rightarrow> take 8 (frame (smems ms b)) @ take (unat ?dl) d @ drop (8 + unat ?dl) (frame (smems ms b)))"
  have lF: "length F = length (frame (smems ms b))" using len data by (cases data) (simp_all add: F_def)
  let ?g = "\<lambda>m. m\<lparr>u8Ctrl := ctl, u16DLen := ?dl, u8Seq := sq, frame := F, u8NumSend := TRANS_MAX_NUM_SEND,
    i16TimeOut := TRANS_TIMEOUT_TICK\<rparr>"
  define w1 where "w1 = upd_mem b ?g (w\<lparr>mem := ms, u8SeqLocal := ?L\<rparr>)"
  have store: "frm_store b 8 (take (unat ?dl) d) v = Some (with_frm b F v)"
    if "data = Some d" "frm b v = frame (smems ms b)" for d and v :: "'a STrans_scheme"
    using that len data by (simp add: frm_store_some F_def min_def)
  have z: "\<not> 0 < ?dl \<Longrightarrow> data = Some d \<Longrightarrow> F = frame (smems ms b)" for d
    using len by (simp add: F_def word_gt_0)
  have i1: "tinv (b # l) w1 D C S"
  proof -
    have "tinv (b # l) (w\<lparr>mem := ms, u8SeqLocal := ?L\<rparr>) D C S" using a by simp
    then show ?thesis
      unfolding w1_def by (rule tinv_upd_mem) (use lF len len9 dl in \<open>simp_all add: sendable_def upd_mem_def word_le_nat_alt\<close>)
  qed
  have sd: "sendable (mem w1) b" "new_frame ctl ?dl sq data (smems (mem w1) b)"
    using len len9 dl data lF
    by (simp_all add: w1_def upd_mem_def sendable_def word_le_nat_alt new_frame_def F_def split: option.splits)
  have step: "Trans_send w data n ctl ty = Option.bind (if is_cmd ctl then push_cmd (Some b) w1 else push_data (Some b) w1)
      (\<lambda>w. Some (True, w\<lparr>semPosts := semPosts w + 1\<rparr>))"
  proof -
    have seq: "(if ty = E_CMD_FRM then upd_mem b (\<lambda>m. m\<lparr>u8Seq := u8SeqRemote v\<rparr>) v
       else (upd_mem b (\<lambda>m. m\<lparr>u8Seq := u8SeqLocal v\<rparr>) v)\<lparr>u8SeqLocal := u8SeqLocal v + 1\<rparr>)
      = (upd_mem b (\<lambda>m. m\<lparr>u8Seq := sq\<rparr>) v)\<lparr>u8SeqLocal := ?L\<rparr>"
      if "u8SeqRemote v = u8SeqRemote w" "u8SeqLocal v = u8SeqLocal w" for v :: "'a STrans_scheme"
      using that sq by (cases v) (auto simp: upd_mem_def)
    define v where "v = (upd_mem b (\<lambda>m. m\<lparr>u8Seq := sq\<rparr>) (upd_mem b (\<lambda>m. m\<lparr>u8Ctrl := ctl, u16DLen := ?dl\<rparr>)
      (w\<lparr>mem := ms\<rparr>)))\<lparr>u8SeqLocal := ?L\<rparr>"
    have seq_arg: "u8SeqRemote (upd_mem b f (w\<lparr>mem := ms\<rparr>)) = u8SeqRemote w"
      "u8SeqLocal (upd_mem b f (w\<lparr>mem := ms\<rparr>)) = u8SeqLocal w" for f by (simp_all add: upd_mem_def)
    have fv: "frm b v = frame (smems ms b)" by (simp add: v_def frm_def upd_mem_def)
    have st': "(case data of None \<Rightarrow> Some v | Some d \<Rightarrow> if 0 < ?dl then (if unat ?dl \<le> length d
        then frm_store b 8 (take (unat ?dl) d) v else None) else Some v) = Some (with_frm b F v)"
      using data store [OF _ fv] z fv [symmetric] by (cases data) (auto simp: F_def)
    have w1: "upd_mem b (\<lambda>m. m\<lparr>u8NumSend := TRANS_MAX_NUM_SEND, i16TimeOut := TRANS_TIMEOUT_TICK\<rparr>) (with_frm b F v) = w1"
      by (simp add: w1_def v_def with_frm_def upd_mem_def upd_smem_def comp_def)
    show ?thesis
      using st unfolding Trans_send_def capped_def [symmetric] Let_def al prod.case option.case
        seq [of "upd_mem b (\<lambda>m. m\<lparr>u8Ctrl := ctl, u16DLen := ?dl\<rparr>) (w\<lparr>mem := ms\<rparr>)", OF seq_arg, folded v_def]
      by (simp add: st' w1 is_cmd_def)
  qed
  have sel: "u8SeqLocal w1 = ?L" "semPosts w1 = semPosts w" by (simp_all add: w1_def upd_mem_def)
  have fresh: "b \<notin> set (l @ rx_held w @ tx_held w @ D @ C @ S)" using a by simp
  have sm: "smems ms = (smems (mem w))(b := (smems (mem w) b)\<lparr>pNext := None\<rparr>)" using a by simp
  have mw1: "mem w1 = upd_smem b ?g ms" by (simp add: w1_def upd_mem_def)
  show ?thesis
  proof (cases "is_cmd ctl")
    case True
    from push_cmd_tinv [OF i1 sd(1)] obtain q ms' where p: "push_cmd (Some b) w1 = Some (w1\<lparr>qSendingCMD := q, mem := ms'\<rparr>)"
      "body_same (mem w1) ms'" "tinv l (w1\<lparr>qSendingCMD := q, mem := ms'\<rparr>) D (C @ [b]) S" by metis
    have pw: "posted b w (w1\<lparr>qSendingCMD := q, mem := ms', semPosts := semPosts w1 + 1\<rparr>)"
      by (rule posted_intro [OF sm p(2) [unfolded mw1], of _ "semPosts w1 + 1" q "qSendingData w" ?L])
        (cases w; simp add: w1_def upd_mem_def)
    show ?thesis
      by (rule that [of "w1\<lparr>qSendingCMD := q, mem := ms', semPosts := semPosts w1 + 1\<rparr>"])
        (use True p(1,3) step fresh sd(2) sel pw in \<open>simp_all add: new_frame_body [OF p(2)]\<close>)
  next
    case False
    from push_data_tinv [OF i1 sd(1)] obtain q ms' where p: "push_data (Some b) w1 = Some (w1\<lparr>qSendingData := q, mem := ms'\<rparr>)"
      "body_same (mem w1) ms'" "tinv l (w1\<lparr>qSendingData := q, mem := ms'\<rparr>) (D @ [b]) C S" by metis
    have pw: "posted b w (w1\<lparr>qSendingData := q, mem := ms', semPosts := semPosts w1 + 1\<rparr>)"
      by (rule posted_intro [OF sm p(2) [unfolded mw1], of _ "semPosts w1 + 1" "qSendingCMD w" q ?L])
        (cases w; simp add: w1_def upd_mem_def)
    show ?thesis
      by (rule that [of "w1\<lparr>qSendingData := q, mem := ms', semPosts := semPosts w1 + 1\<rparr>"])
        (use False p(1,3) step fresh sd(2) sel pw in \<open>simp_all add: new_frame_body [OF p(2)]\<close>)
  qed
qed

end
