(* ===== verification/TransceiverAge.thy ===== *)
theory TransceiverAge
  imports TransceiverInv
begin

text \<open>
  The aging of the frames that wait for an acknowledge (\<open>Trans_CheckTimeOutOfSendedFrame\<close>): the loop
  ends, keeps the ownership invariant, and what it does to the queues.
\<close>

section \<open>The loop body\<close>

definition aged :: "blk \<Rightarrow> 'a STrans_scheme \<Rightarrow> 'a STrans_scheme" where
  "aged b w = upd_mem b (\<lambda>m. m\<lparr>i16TimeOut := i16TimeOut m - 1\<rparr>) w"

definition rearmed :: "blk \<Rightarrow> 'a STrans_scheme \<Rightarrow> 'a STrans_scheme" where
  "rearmed b w = upd_mem b (\<lambda>m. m\<lparr>i16TimeOut := TRANS_TIMEOUT_TICK\<rparr>) w"

definition resend :: "u8 \<Rightarrow> 'a STrans_scheme \<Rightarrow> 'a STrans_scheme option" where
  "resend sq w = Option.bind (remove_sent sq w) (\<lambda>(r, w). Option.bind (push_data r w) (\<lambda>w.
      Option.bind r (\<lambda>c. check_loop (pNext (smems (mem w) c)) w)))"

definition give_up :: "u8 \<Rightarrow> 'a STrans_scheme \<Rightarrow> 'a STrans_scheme option" where
  "give_up sq w = Option.bind (remove_sent sq w) (\<lambda>(r, w). Option.bind r (\<lambda>c.
      (let nx = pNext (smems (mem w) c) in check_loop nx (free_mem c w))))"

lemma check_loop_None [simp]: "check_loop None w = Some w"
  by (simp add: check_loop.simps)

lemma check_loop_Some:
  "check_loop (Some b) w =
     (if i16TimeOut (smems (mem w) b) \<noteq> 1 then check_loop (links (mem w) b) (aged b w)
      else if u8NumSend (smems (mem w) b) > 0 then resend (u8Seq (smems (mem w) b)) (rearmed b (aged b w))
      else give_up (u8Seq (smems (mem w) b)) (aged b w))"
  by (subst check_loop.simps) (simp add: Let_def aged_def rearmed_def resend_def give_up_def upd_mem_def)

section \<open>The loop ends and keeps the invariant\<close>

lemma chain_nth: "chain l p xs \<Longrightarrow> i < length xs \<Longrightarrow> l (xs ! i) = (if Suc i < length xs then Some (xs ! Suc i) else None)"
proof (induction xs arbitrary: p i)
  case (Cons x xs)
  then show ?case by (cases i; cases xs) auto
qed simp

lemma sent_queue: "tinv l w D C S \<Longrightarrow> queue_rel (qSentQueue w) (mem w) S"
  and data_queue: "tinv l w D C S \<Longrightarrow> queue_rel (qSendingData w) (mem w) D"
  using tinv_store [of l w D C S] by (auto simp: store_inv_def)

lemma sent_next:
  "tinv l w D C S \<Longrightarrow> i < length S \<Longrightarrow> links (mem w) (S ! i) = (if Suc i < length S then Some (S ! Suc i) else None)"
  using chain_nth sent_queue unfolding queue_rel_def by metis

lemma data_last:
  assumes "tinv l w (D @ [b]) C S"
  shows "links (mem w) b = None"
proof -
  have "chain (links (mem w)) (pHead (qSendingData w)) (D @ [b])"
    using data_queue [OF assms] by (simp add: queue_rel_def)
  from chain_nth [OF this, of "length D"] show ?thesis by simp
qed

lemma with_seq_some:
  assumes "b \<in> set S" "with_seq (u8Seq (smems ms b)) ms S = (r, S')"
  obtains ys c zs where "r = Some c" "S = ys @ c # zs" "S' = ys @ zs" "u8Seq (smems ms c) = u8Seq (smems ms b)"
    "b \<notin> set ys" "\<forall>y \<in> set ys. u8Seq (smems ms y) \<noteq> u8Seq (smems ms b)"
proof -
  let ?P = "\<lambda>x. SearchSeqFrame (u8Seq (smems ms b)) (smems ms x)"
  have "List.extract ?P S \<noteq> None" using assms(1) by (auto simp: extract_None_iff SearchSeqFrame_def)
  then obtain ys c zs where e: "List.extract ?P S = Some (ys, c, zs)" by auto
  then have "S = ys @ c # zs" "?P c" "\<forall>y\<in>set ys. \<not> ?P y" by (simp_all add: extract_Some_iff)
  moreover have "r = Some c" "S' = ys @ zs" using assms(2) e by (simp_all add: with_seq_def list_remove_def)
  ultimately show ?thesis by (intro that [of c ys zs]) (auto simp: SearchSeqFrame_def)
qed

text \<open>The three steps of the loop on the invariant.\<close>

lemma age_step:
  assumes "tinv l w D C S"
  shows "tinv l (upd_mem b (\<lambda>m. m\<lparr>i16TimeOut := f m\<rparr>) w) D C S"
  by (rule tinv_upd_mem [OF assms]) (simp_all add: sendable_def upd_mem_def)

lemma resend_step:
  assumes "tinv l w D C S" "with_seq sq (mem w) S = (Some c, S')"
  obtains w' where "resend sq w = Some w'"
    "tinv l w' (D @ [c]) C S'" "body_same (mem w) (mem w')" "\<exists>d s ms. w' = w\<lparr>qSentQueue := s, qSendingData := d, mem := ms\<rparr>"
    "used_blocks (mem w') = used_blocks (mem w)"
proof -
  from remove_sent_tinv [OF assms] obtain q ms where r: "remove_sent sq w = Some (Some c, w\<lparr>qSentQueue := q, mem := ms\<rparr>)"
    "body_same (mem w) ms" "tinv (c # l) (w\<lparr>qSentQueue := q, mem := ms\<rparr>) D C S'"
    "used_blocks ms = used_blocks (mem w)" by (metis option.case(2) links_only_mem(2))
  let ?v = "w\<lparr>qSentQueue := q, mem := ms\<rparr>"
  have "c \<in> set S" using list_remove_some [OF assms(2) [unfolded with_seq_def]] by auto
  then have "sendable (mem ?v) c"
    using tinv_sendable [OF assms(1)] body_same_sendable [OF r(2)] by simp
  from push_data_tinv [OF r(3) this] obtain d ms' where
    p: "push_data (Some c) ?v = Some (?v\<lparr>qSendingData := d, mem := ms'\<rparr>)"
    "body_same (mem ?v) ms'" "tinv l (?v\<lparr>qSendingData := d, mem := ms'\<rparr>) (D @ [c]) C S'"
    "used_blocks ms' = used_blocks (mem ?v)" by metis
  have "links ms' c = None" using data_last [OF p(3)] by simp
  then have e: "resend sq w = Some (?v\<lparr>qSendingData := d, mem := ms'\<rparr>)"
    using r(1) p(1) by (simp add: resend_def)
  have bs: "body_same (mem w) ms'" using body_same_trans [OF r(2)] p(2) by simp
  have ex: "\<exists>d' s ms''. ?v\<lparr>qSendingData := d, mem := ms'\<rparr> = w\<lparr>qSentQueue := s, qSendingData := d', mem := ms''\<rparr>"
    by (intro exI [of _ d] exI [of _ q] exI [of _ ms']) simp
  show ?thesis by (rule that [OF e p(3) _ ex]) (simp_all add: bs p(4) r(4))
qed

lemma drop_step:
  assumes "tinv l w D C S" "with_seq sq (mem w) S = (Some c, S')"
  obtains w' where "give_up sq w = check_loop (links (mem w) c) w'"
    "tinv l w' D C S'" "body_same (mem w) (mem w')" "\<exists>s ms. w' = w\<lparr>qSentQueue := s, mem := ms\<rparr>"
    "used_blocks (mem w') = used_blocks (mem w) - {c}"
proof -
  from remove_sent_tinv [OF assms] obtain q ms where r: "remove_sent sq w = Some (Some c, w\<lparr>qSentQueue := q, mem := ms\<rparr>)"
    "body_same (mem w) ms" "tinv (c # l) (w\<lparr>qSentQueue := q, mem := ms\<rparr>) D C S'" "links_only (set S - {c}) (mem w) ms"
    by (metis option.case(2) option.simps(15))
  define v where "v = w\<lparr>qSentQueue := q, mem := ms\<rparr>"
  have v: "mem v = ms" "tinv (c # l) v D C S'" using r(3) by (simp_all add: v_def)
  note f = free_mem_tinv [OF v(2), unfolded v(1)]
  have "smems ms c = smems (mem w) c" using r(4) unfolding links_only_def by blast
  then have "give_up sq w = check_loop (links (mem w) c) (free_mem c v)"
    using r(1) v(1) by (simp add: give_up_def v_def [symmetric])
  moreover have "body_same (mem w) (mem (free_mem c v))" using r(2) f(2) by (simp add: body_same_def)
  moreover have "\<exists>s ms. free_mem c v = w\<lparr>qSentQueue := s, mem := ms\<rparr>" by (auto simp: free_mem_def v_def)
  moreover have "used_blocks (mem (free_mem c v)) = used_blocks (mem w) - {c}"
    using tinv_store [OF v(2)] Free_ok [of ms c] links_only_mem [OF r(4)] v(1)
    by (simp add: store_inv_def Mem_Free_def free_mem_def)
  ultimately show ?thesis using that f(1) by blast
qed

lemma check_loop_ends:
  assumes "tinv l w D C S" "i \<le> length S" "cur = (if i < length S then Some (S ! i) else None)"
  shows "\<exists>w' D' S'. check_loop cur w = Some w' \<and> tinv l w' D' C S'"
  using assms
proof (induction "length S * Suc (length S) + (length S - i)" arbitrary: w D S i cur rule: less_induct)
  case less
  show ?case
  proof (cases "i < length S")
    case False
    then show ?thesis using less.prems by auto
  next
    case True
    let ?b = "S ! i" and ?sq = "u8Seq (smems (mem w) (S ! i))"
    have b: "?b \<in> set S" and cur: "cur = Some ?b" using True less.prems(3) by simp_all
    have i1: "tinv l (aged ?b w) D C S" unfolding aged_def using age_step [OF less.prems(1)] .
    have i2: "tinv l (rearmed ?b (aged ?b w)) D C S" unfolding rearmed_def using age_step [OF i1] .
    have sq: "u8Seq (smems (mem (aged ?b w)) ?b) = ?sq" "u8Seq (smems (mem (rearmed ?b (aged ?b w))) ?b) = ?sq"
      "links (mem (aged ?b w)) = links (mem w)"
      by (auto simp: aged_def rearmed_def upd_mem_def)
    consider (young) "i16TimeOut (smems (mem w) ?b) \<noteq> 1"
      | (again) "i16TimeOut (smems (mem w) ?b) = 1" "u8NumSend (smems (mem w) ?b) > 0"
      | (drop) "i16TimeOut (smems (mem w) ?b) = 1" "\<not> u8NumSend (smems (mem w) ?b) > 0" by blast
    then show ?thesis
    proof cases
      case young
      have nx: "links (mem w) ?b = (if Suc i < length S then Some (S ! Suc i) else None)"
        using sent_next [OF less.prems(1) True] .
      have "\<exists>w' D' S'. check_loop (links (mem w) ?b) (aged ?b w) = Some w' \<and> tinv l w' D' C S'"
        by (rule less.hyps [OF _ i1 _ nx]) (use True in auto)
      then show ?thesis using young by (simp add: cur check_loop_Some)
    next
      case again
      obtain r S' where ws: "with_seq ?sq (mem (rearmed ?b (aged ?b w))) S = (r, S')" by fastforce
      from with_seq_some [OF b ws [folded sq(2)]] obtain c where "r = Some c" by metis
      from resend_step [OF i2 ws [unfolded this]] obtain w' where
        "resend ?sq (rearmed ?b (aged ?b w)) = Some w'" "tinv l w' (D @ [c]) C S'" by metis
      then show ?thesis using again by (auto simp: cur check_loop_Some)
    next
      case drop
      obtain r S' where ws: "with_seq ?sq (mem (aged ?b w)) S = (r, S')" by fastforce
      from with_seq_some [OF b ws [folded sq(1)]] obtain ys c zs where
        s: "r = Some c" "S = ys @ c # zs" "S' = ys @ zs" by metis
      from drop_step [OF i1 ws [unfolded s(1)]] obtain w2 where
        st: "give_up ?sq (aged ?b w) = check_loop (links (mem (aged ?b w)) c) w2" "tinv l w2 D C S'" by metis
      have nx: "links (mem (aged ?b w)) c = (if length ys < length S' then Some (S' ! length ys) else None)"
        using sent_next [OF i1, of "length ys"] s by (auto simp: nth_append)
      have "\<exists>w' D' S''. check_loop (links (mem (aged ?b w)) c) w2 = Some w' \<and> tinv l w' D' C S''"
        by (rule less.hyps [OF _ st(2) _ nx]) (use s in auto)
      then show ?thesis using drop st(1) by (simp add: cur check_loop_Some)
    qed
  qed
qed

section \<open>What one pass does\<close>

text \<open>
  The pass over the waiting frames, as a function on their list: the frames that keep waiting, the one
  that is queued again, those given up, and those the pass does not reach.
\<close>

fun age_pass :: "(blk \<Rightarrow> smem) \<Rightarrow> blk list \<Rightarrow> blk list \<times> blk option \<times> blk list \<times> blk list" where
  "age_pass m [] = ([], None, [], [])"
| "age_pass m (b # zs) =
     (if i16TimeOut (m b) \<noteq> 1 then (let (kp, r, dr, un) = age_pass m zs in (b # kp, r, dr, un))
      else if u8NumSend (m b) > 0 then ([], Some b, [], zs)
      else (let (kp, r, dr, un) = age_pass m zs in (kp, r, b # dr, un)))"

lemma age_pass_sub: "age_pass m zs = (kp, r, dr, un) \<Longrightarrow> set kp \<union> set_option r \<union> set dr \<union> set un \<subseteq> set zs"
proof (induction zs arbitrary: kp dr)
  case (Cons b zs)
  obtain kp1 r1 dr1 un1 where "age_pass m zs = (kp1, r1, dr1, un1)" by (metis prod_cases4)
  then show ?case using Cons.IH [of kp1 dr1] Cons.prems by (auto split: if_splits)
qed simp

lemma age_pass_cong: "(\<And>b. b \<in> set zs \<Longrightarrow> i16TimeOut (m' b) = i16TimeOut (m b) \<and> u8NumSend (m' b) = u8NumSend (m b)) \<Longrightarrow>
    age_pass m' zs = age_pass m zs"
  by (induction zs) auto

text \<open>The buffers after the pass: only links and timers change, the timers as given.\<close>

definition timers :: "mem_state \<Rightarrow> mem_state \<Rightarrow> (blk \<Rightarrow> u16) \<Rightarrow> bool" where
  "timers ms ms' t \<longleftrightarrow> (\<forall>b. smems ms' b = (smems ms b)\<lparr>pNext := links ms' b, i16TimeOut := t b\<rparr>)"

lemma timers_body:
  assumes "body_same ms ms'"
  shows "timers ms ms' (\<lambda>b. i16TimeOut (smems ms b))"
proof -
  have "smems ms' b = (smems ms b)\<lparr>pNext := links ms' b\<rparr>" for b using assms unfolding body_same_def by blast
  then show ?thesis unfolding timers_def by (metis smem.surjective smem.update_convs(1,2))
qed

lemma timers_trans:
  assumes "timers ms ms1 t" "timers ms1 ms2 u"
  shows "timers ms ms2 u"
  unfolding timers_def
proof
  fix b
  obtain p1 where e1: "smems ms1 b = (smems ms b)\<lparr>pNext := p1, i16TimeOut := t b\<rparr>"
    using assms(1) unfolding timers_def by blast
  obtain p2 where e2: "smems ms2 b = (smems ms1 b)\<lparr>pNext := p2, i16TimeOut := u b\<rparr>"
    using assms(2) unfolding timers_def by blast
  show "smems ms2 b = (smems ms b)\<lparr>pNext := links ms2 b, i16TimeOut := u b\<rparr>" by (simp add: e2 e1)
qed

lemma timers_aged: "timers (mem w) (mem (aged b w)) ((\<lambda>c. i16TimeOut (smems (mem w) c))(b := i16TimeOut (smems (mem w) b) - 1))"
  by (auto simp: timers_def aged_def upd_mem_def)

lemma timers_rearmed: "timers (mem w) (mem (rearmed b w)) ((\<lambda>c. i16TimeOut (smems (mem w) c))(b := TRANS_TIMEOUT_TICK))"
  by (auto simp: timers_def rearmed_def upd_mem_def)

lemma timers_sel:
  assumes "timers ms ms' t"
  shows "i16TimeOut (smems ms' b) = t b" "u8Seq (smems ms' b) = u8Seq (smems ms b)"
    "u8NumSend (smems ms' b) = u8NumSend (smems ms b)"
proof -
  obtain p where "smems ms' b = (smems ms b)\<lparr>pNext := p, i16TimeOut := t b\<rparr>" using assms unfolding timers_def by blast
  then show "i16TimeOut (smems ms' b) = t b" "u8Seq (smems ms' b) = u8Seq (smems ms b)"
    "u8NumSend (smems ms' b) = u8NumSend (smems ms b)" by simp_all
qed

definition seqs :: "mem_state \<Rightarrow> blk list \<Rightarrow> u8 list" where
  "seqs ms S = map (\<lambda>x. u8Seq (smems ms x)) S"

lemma with_seq_distinct:
  assumes "S = ks @ b # zs" "distinct (seqs ms S)"
  shows "with_seq (u8Seq (smems ms b)) ms S = (Some b, ks @ zs)"
proof -
  let ?P = "\<lambda>x. SearchSeqFrame (u8Seq (smems ms b)) (smems ms x)"
  have "u8Seq (smems ms b) \<notin> (\<lambda>x. u8Seq (smems ms x)) ` set ks" using assms by (auto simp: seqs_def)
  then have "\<forall>y\<in>set ks. \<not> ?P y" unfolding SearchSeqFrame_def by (metis imageI)
  then have "List.extract ?P S = Some (ks, b, zs)" using assms(1) by (simp add: extract_Some_iff SearchSeqFrame_def)
  then show ?thesis by (simp add: with_seq_def list_remove_def)
qed

lemma seqs_timers: "timers ms ms' t \<Longrightarrow> seqs ms' S = seqs ms S"
  by (simp add: seqs_def timers_sel)

lemma seqs_body: "body_same ms ms' \<Longrightarrow> seqs ms' S = seqs ms S"
  by (simp add: seqs_def body_same_sel)

text \<open>The timer of each buffer after the pass.\<close>

definition pass_timer :: "(blk \<Rightarrow> smem) \<Rightarrow> blk list \<Rightarrow> blk option \<Rightarrow> blk list \<Rightarrow> blk \<Rightarrow> u16" where
  "pass_timer m kp r dr b = (if b \<in> set kp \<union> set dr then i16TimeOut (m b) - 1
     else if r = Some b then TRANS_TIMEOUT_TICK else i16TimeOut (m b))"

lemma age_exact:
  assumes "tinv l w D C (ks @ zs)" "distinct (seqs (mem w) (ks @ zs))"
    and "age_pass (smems (mem w)) zs = (kp, r, dr, un)"
    and "cur = (case zs of [] \<Rightarrow> None | z # _ \<Rightarrow> Some z)"
  shows "\<exists>w' s d ms. check_loop cur w = Some w' \<and> w' = w\<lparr>qSentQueue := s, qSendingData := d, mem := ms\<rparr>
     \<and> tinv l w' (D @ (case r of None \<Rightarrow> [] | Some b \<Rightarrow> [b])) C (ks @ kp @ un)
     \<and> timers (mem w) (mem w') (pass_timer (smems (mem w)) kp r dr)
     \<and> used_blocks (mem w') = used_blocks (mem w) - set dr"
  using assms
proof (induction zs arbitrary: ks w cur kp dr)
  case Nil
  have "timers (mem w) (mem w) (pass_timer (smems (mem w)) [] None [])"
    by (simp add: timers_def pass_timer_def)
  then show ?case using Nil by (intro exI [of _ w] exI [of _ "qSentQueue w"] exI [of _ "qSendingData w"] exI [of _ "mem w"]) simp
next
  case (Cons b zs)
  let ?m = "smems (mem w)" and ?w1 = "aged b w"
  have cur: "cur = Some b" using Cons.prems(4) by simp
  have dist: "distinct (ks @ b # zs)"
    using sent_queue [OF Cons.prems(1)] by (simp add: queue_rel_def)
  have i1: "tinv l ?w1 D C (ks @ b # zs)" unfolding aged_def using age_step [OF Cons.prems(1)] .
  have nx: "links (mem w) b = (case zs of [] \<Rightarrow> None | z # _ \<Rightarrow> Some z)"
    using sent_next [OF Cons.prems(1), of "length ks"] by (cases zs) (auto simp: nth_append)
  have t1: "timers (mem w) (mem ?w1) ((\<lambda>c. i16TimeOut (?m c))(b := i16TimeOut (?m b) - 1))" by (rule timers_aged)
  have sq1: "distinct (seqs (mem ?w1) (ks @ b # zs))" using Cons.prems(2) seqs_timers [OF t1] by simp
  have ap: "age_pass (smems (mem ?w1)) zs = age_pass ?m zs"
    by (rule age_pass_cong) (use dist in \<open>auto simp: timers_sel [OF t1]\<close>)
  consider (young) "i16TimeOut (?m b) \<noteq> 1"
    | (again) "i16TimeOut (?m b) = 1" "u8NumSend (?m b) > 0"
    | (drop) "i16TimeOut (?m b) = 1" "\<not> u8NumSend (?m b) > 0" by blast
  then show ?case
  proof cases
    case young
    then obtain kp1 where p: "age_pass ?m zs = (kp1, r, dr, un)" "kp = b # kp1"
      using Cons.prems(3) by (auto simp: Let_def split: prod.splits)
    have sub: "set kp1 \<union> set_option r \<union> set dr \<union> set un \<subseteq> set zs" by (rule age_pass_sub [OF p(1)])
    have e: "ks @ b # zs = (ks @ [b]) @ zs" by simp
    from Cons.IH [of ?w1 "ks @ [b]" kp1 dr "links (mem w) b"] i1 sq1 p(1) nx ap obtain w' s d ms where
      w': "check_loop (links (mem w) b) ?w1 = Some w'" "w' = ?w1\<lparr>qSentQueue := s, qSendingData := d, mem := ms\<rparr>"
      "tinv l w' (D @ (case r of None \<Rightarrow> [] | Some b \<Rightarrow> [b])) C ((ks @ [b]) @ kp1 @ un)"
      "timers (mem ?w1) (mem w') (pass_timer (smems (mem ?w1)) kp1 r dr)"
      "used_blocks (mem w') = used_blocks (mem ?w1) - set dr"
      unfolding e by metis
    have "pass_timer (smems (mem ?w1)) kp1 r dr = pass_timer ?m kp r dr"
      using sub dist by (intro ext) (auto simp: pass_timer_def timers_sel [OF t1] p(2))
    then have "timers (mem w) (mem w') (pass_timer ?m kp r dr)" using timers_trans [OF t1 w'(4)] by simp
    moreover have "used_blocks (mem ?w1) = used_blocks (mem w)" by (simp add: aged_def upd_mem_def)
    moreover have "w' = w\<lparr>qSentQueue := s, qSendingData := d, mem := ms\<rparr>" using w'(2) by (simp add: aged_def upd_mem_def)
    ultimately show ?thesis using w' young p(2) by (simp add: cur check_loop_Some) blast
  next
    case again
    then have r: "kp = []" "r = Some b" "dr = []" "un = zs" using Cons.prems(3) by simp_all
    let ?w2 = "rearmed b ?w1"
    have i2: "tinv l ?w2 D C (ks @ b # zs)" unfolding rearmed_def using age_step [OF i1] .
    note t2 = timers_trans [OF t1 timers_rearmed [where b = b]]
    have ws: "with_seq (u8Seq (smems (mem ?w2) b)) (mem ?w2) (ks @ b # zs) = (Some b, ks @ zs)"
      by (rule with_seq_distinct [OF refl]) (simp only: seqs_timers [OF t2] Cons.prems(2))
    have "u8Seq (smems (mem ?w2) b) = u8Seq (?m b)" using timers_sel(2) [OF t2] .
    with resend_step [OF i2 ws] obtain w' where w': "resend (u8Seq (?m b)) ?w2 = Some w'"
      "tinv l w' (D @ [b]) C (ks @ zs)" "body_same (mem ?w2) (mem w')"
      "\<exists>d s ms. w' = ?w2\<lparr>qSentQueue := s, qSendingData := d, mem := ms\<rparr>" "used_blocks (mem w') = used_blocks (mem ?w2)" by metis
    have "(\<lambda>c. i16TimeOut (smems (mem ?w2) c)) = pass_timer ?m [] (Some b) []"
      using t2 timers_sel(1) [OF t2] timers_sel(1) [OF t1] by (intro ext) (auto simp: pass_timer_def)
    then have "timers (mem w) (mem w') (pass_timer ?m [] (Some b) [])"
      using timers_trans [OF t2 timers_body [OF w'(3)]] by simp
    moreover have "used_blocks (mem ?w2) = used_blocks (mem w)" by (simp add: aged_def rearmed_def upd_mem_def)
    moreover have "\<exists>d s ms. w' = w\<lparr>qSentQueue := s, qSendingData := d, mem := ms\<rparr>"
      using w'(4) by (auto simp: aged_def rearmed_def upd_mem_def)
    ultimately show ?thesis using w' again r by (simp add: cur check_loop_Some) blast
  next
    case drop
    then obtain dr1 where p: "age_pass ?m zs = (kp, r, dr1, un)" "dr = b # dr1"
      using Cons.prems(3) by (auto simp: Let_def split: prod.splits)
    have sub: "set kp \<union> set_option r \<union> set dr1 \<union> set un \<subseteq> set zs" by (rule age_pass_sub [OF p(1)])
    have ws: "with_seq (u8Seq (smems (mem ?w1) b)) (mem ?w1) (ks @ b # zs) = (Some b, ks @ zs)"
      by (rule with_seq_distinct [OF refl sq1])
    have "u8Seq (smems (mem ?w1) b) = u8Seq (?m b)" using timers_sel(2) [OF t1] .
    with drop_step [OF i1 ws] obtain w2 where w2: "give_up (u8Seq (?m b)) ?w1 = check_loop (links (mem ?w1) b) w2"
      "tinv l w2 D C (ks @ zs)" "body_same (mem ?w1) (mem w2)" "\<exists>s ms. w2 = ?w1\<lparr>qSentQueue := s, mem := ms\<rparr>"
      "used_blocks (mem w2) = used_blocks (mem ?w1) - {b}" by metis
    have t2: "timers (mem w) (mem w2) ((\<lambda>c. i16TimeOut (?m c))(b := i16TimeOut (?m b) - 1))"
      using timers_trans [OF t1 timers_body [OF w2(3)]] timers_sel(1) [OF t1] by (simp add: fun_upd_def)
    have sq2: "distinct (seqs (mem w2) (ks @ zs))" using Cons.prems(2) unfolding seqs_timers [OF t2] by (auto simp: seqs_def)
    have ap2: "age_pass (smems (mem w2)) zs = age_pass ?m zs"
      by (rule age_pass_cong) (use dist in \<open>auto simp: timers_sel [OF t2]\<close>)
    have nx1: "links (mem ?w1) b = (case zs of [] \<Rightarrow> None | z # _ \<Rightarrow> Some z)" using nx by (simp add: aged_def upd_mem_def)
    from Cons.IH [OF w2(2) sq2 _ nx1, of kp dr1] p(1) ap2 obtain w' s d ms where
      w': "check_loop (links (mem ?w1) b) w2 = Some w'" "w' = w2\<lparr>qSentQueue := s, qSendingData := d, mem := ms\<rparr>"
      "tinv l w' (D @ (case r of None \<Rightarrow> [] | Some b \<Rightarrow> [b])) C (ks @ kp @ un)"
      "timers (mem w2) (mem w') (pass_timer (smems (mem w2)) kp r dr1)"
      "used_blocks (mem w') = used_blocks (mem w2) - set dr1" by metis
    have "pass_timer (smems (mem w2)) kp r dr1 = pass_timer ?m kp r dr"
      using sub dist by (intro ext) (auto simp: pass_timer_def timers_sel [OF t2] p(2))
    then have "timers (mem w) (mem w') (pass_timer ?m kp r dr)" using timers_trans [OF t2 w'(4)] by simp
    moreover have "used_blocks (mem w') = used_blocks (mem w) - set dr"
      using w'(5) w2(5) p(2) by (auto simp: aged_def upd_mem_def)
    moreover have "\<exists>s d ms. w' = w\<lparr>qSentQueue := s, qSendingData := d, mem := ms\<rparr>"
    proof -
      obtain s2 ms2 where "w2 = ?w1\<lparr>qSentQueue := s2, mem := ms2\<rparr>" using w2(4) by blast
      then have "w' = w\<lparr>qSentQueue := s, qSendingData := d, mem := ms\<rparr>" using w'(2) by (simp add: aged_def upd_mem_def)
      then show ?thesis by blast
    qed
    ultimately show ?thesis using w' w2(1) drop by (simp add: cur check_loop_Some)
  qed
qed

section \<open>The whole pass\<close>

lemma CheckTimeOut_loop:
  assumes "tinv l w D C S"
  shows "Trans_CheckTimeOutOfSendedFrame w = check_loop (case S of [] \<Rightarrow> None | z # _ \<Rightarrow> Some z) w"
proof (cases S)
  case Nil
  then have "u8Size (qSentQueue w) = 0" using queue_rel_size [OF sent_queue [OF assms]] by simp
  then show ?thesis using Nil by (simp add: Trans_CheckTimeOutOfSendedFrame_def Queue_GetSize_def)
next
  case (Cons z zs)
  have q: "queue_rel (qSentQueue w) (mem w) (z # zs)" using sent_queue [OF assms] Cons by simp
  have "mtx (qSentQueue w)" using tinv_store [OF assms] by (simp add: store_inv_def)
  then have "Queue_Read (qSentQueue w) None (mem w) = Some (Some z, qSentQueue w, mem w)" by (rule queue_read_head [OF q])
  moreover have "u8Size (qSentQueue w) > 0" using queue_rel_size [OF q] by (simp add: word_gt_0)
  ultimately show ?thesis using Cons by (simp add: Trans_CheckTimeOutOfSendedFrame_def Queue_GetSize_def)
qed

lemma CheckTimeOut_ends:
  assumes "tinv l w D C S"
  shows "\<exists>w' D' S'. Trans_CheckTimeOutOfSendedFrame w = Some w' \<and> tinv l w' D' C S'"
  unfolding CheckTimeOut_loop [OF assms]
  by (rule check_loop_ends [OF assms, of 0]) (auto split: list.splits)

end
