(* ===== verification/TransceiverRecv.thy ===== *)
theory TransceiverRecv
  imports TransceiverAge
begin

text \<open>
  The contract of the application's callbacks (locale \<open>l3_app\<close>), and the receive side of transport layer
  3 under it: receiving keeps the ownership invariant.
\<close>

section \<open>Small changes of the state\<close>

lemma held_simps [simp]:
  "rx_held (w\<lparr>sTransL1 := l1\<rparr>) = rx_held w" "tx_held (w\<lparr>sTransL1 := l1\<rparr>) = tx_held w"
  "rx_held (w\<lparr>u16RecvCount := c\<rparr>) = rx_held w" "tx_held (w\<lparr>u16RecvCount := c\<rparr>) = tx_held w"
  "rx_held (w\<lparr>statDLen := s\<rparr>) = rx_held w" "tx_held (w\<lparr>statDLen := s\<rparr>) = tx_held w"
  "rx_held (w\<lparr>mem := ms\<rparr>) = rx_held w" "tx_held (w\<lparr>mem := ms\<rparr>) = tx_held w"
  "tx_held (w\<lparr>frmRecv := r\<rparr>) = tx_held w" "tx_held (w\<lparr>sMemRecv := r\<rparr>) = tx_held w"
  "rx_held (w\<lparr>frmRecv := None\<rparr>) = []" "rx_held (w\<lparr>frmRecv := Some b\<rparr>) = [b]" "rx_held (w\<lparr>sMemRecv := r\<rparr>) = rx_held w"
  "rx_held (w\<lparr>l2Sending := u\<rparr>) = rx_held w" "tx_held (w\<lparr>l2Sending := False\<rparr>) = []"
  "rx_held (w\<lparr>sMemSend := r\<rparr>) = rx_held w" "rx_held (w\<lparr>frmSend := r\<rparr>) = rx_held w" "tx_held (w\<lparr>frmSend := r\<rparr>) = tx_held w"
  "rx_held (w\<lparr>bWaitingL1Send := u\<rparr>) = rx_held w" "tx_held (w\<lparr>bWaitingL1Send := u\<rparr>) = tx_held w"
  "rx_held (w\<lparr>bL1Sending := u\<rparr>) = rx_held w" "tx_held (w\<lparr>bL1Sending := u\<rparr>) = tx_held w"
  "rx_held (w\<lparr>u8ErrorCode := e\<rparr>) = rx_held w" "tx_held (w\<lparr>u8ErrorCode := e\<rparr>) = tx_held w"
  "rx_held (w\<lparr>u32L1SendTimeout := n\<rparr>) = rx_held w" "tx_held (w\<lparr>u32L1SendTimeout := n\<rparr>) = tx_held w"
  "rx_held (w\<lparr>hL1TimeOutTimer := u\<rparr>) = rx_held w" "tx_held (w\<lparr>hL1TimeOutTimer := u\<rparr>) = tx_held w"
  "rx_held (w\<lparr>semPosts := k\<rparr>) = rx_held w" "tx_held (w\<lparr>semPosts := k\<rparr>) = tx_held w"
  by (simp_all add: rx_held_def tx_held_def)

lemma tinv_weaken: "tinv (b # l) w D C S \<Longrightarrow> tinv l w D C S"
  by (simp add: tinv_def store_inv_def)

lemma tinv_distinct:
  "tinv l w D C S \<Longrightarrow> distinct (l @ rx_held w @ tx_held w @ D @ C @ S)"
  "tinv l w D C S \<Longrightarrow> set (l @ rx_held w @ tx_held w @ D @ C @ S) \<subseteq> used_blocks (mem w)"
  by (auto simp: tinv_def store_inv_def qs_of_def)

lemma tinv_frames: "tinv l w D C S \<Longrightarrow> length (frame (smems (mem w) b)) = unat (psize (fst b)) - 24"
  by (cases b) (simp add: tinv_def store_inv_def frames_ok_def)

lemma tinv_rx_fields:
  assumes "tinv l w D C S" "l1_ok l1" "unat c = 0 \<or> 8 \<le> unat c \<and> unat c \<le> 263" "unat s \<le> 255"
  shows "tinv l (w\<lparr>sTransL1 := l1, u16RecvCount := c, statDLen := s\<rparr>) D C S"
  using assms by (simp add: tinv_def qs_of_def rx_ok_def tx_ok_def clbs_on_def frm_def)

lemma tinv_l1: "tinv l w D C S \<Longrightarrow> l1_ok l1 \<Longrightarrow> tinv l (w\<lparr>sTransL1 := l1\<rparr>) D C S"
  using tinv_rx_fields [of l w D C S l1 "u16RecvCount w" "statDLen w"] by (simp add: tinv_def rx_ok_def)

lemma tinv_l1_ok: "tinv l w D C S \<Longrightarrow> l1_ok (sTransL1 w)"
  by (simp add: tinv_def rx_ok_def)

section \<open>Receiving\<close>

lemma rx_same_tinv:
  assumes "tinv l w D C S" "frmRecv w = Some b" "rx_same b w w'" "rx_inv b w'" "length (frm b w') = length (frm b w)"
  shows "tinv l w' D C S"
proof -
  obtain f ff c s where w': "w' = with_frm b f (w\<lparr>sTransL1 := (sTransL1 w)\<lparr>sRecvFIFO := ff\<rparr>, u16RecvCount := c, statDLen := s\<rparr>)"
    using assms(3) unfolding rx_same_def by blast
  let ?v = "w\<lparr>sTransL1 := (sTransL1 w)\<lparr>sRecvFIFO := ff\<rparr>, u16RecvCount := c, statDLen := s\<rparr>"
  have v: "tinv l ?v D C S"
    by (rule tinv_rx_fields [OF assms(1)]) (use assms(4) in \<open>simp_all add: w' rx_inv_def\<close>)
  have nb: "b \<notin> set (D @ C @ S @ tx_held ?v)"
    using tinv_distinct(1) [OF v] assms(2) by (auto simp: rx_held_def)
  show ?thesis
    unfolding w' with_frm_def by (rule tinv_upd_mem [OF v]) (use nb assms(5) w' in \<open>simp_all add: frm_def with_frm_def upd_mem_def\<close>)
qed

lemma memalloc_tinv:
  assumes "tinv l w D C S" "frmRecv w = None" "sMemRecv w = None"
  shows "\<exists>ok w'. TransL2S_MemAlloc (l3_l2_clbs app) w = Some (ok, w') \<and> tinv l w' D C S \<and> (frmRecv w' \<noteq> None) = ok"
proof -
  obtain r ms where m: "Mem_Alloc LARGE_MEM_SIZE (mem w) = (r, ms)" by fastforce
  note a = alloc_tinv [OF assms(1) m]
  show ?thesis
  proof (cases r)
    case None
    let ?v = "w\<lparr>mem := ms, u8ErrorCode := TRANS_ERR_MEM\<rparr>"
    have "?v = w\<lparr>sMemRecv := None, mem := ms, u8ErrorCode := TRANS_ERR_MEM, frmRecv := None\<rparr>"
      using assms(2,3) by (cases w) simp
    then have "TransL2S_MemAlloc (l3_l2_clbs app) w = Some (False, ?v)"
      using m None by (simp add: TransL2S_MemAlloc_def fire_error_def l3_l2_clbs_def Clb_L2Error_def Let_def)
    then show ?thesis using a None assms(2) by (intro exI [of _ False] exI [of _ ?v]) simp
  next
    case (Some b)
    let ?v = "w\<lparr>sMemRecv := Some b, mem := ms, frmRecv := Some b\<rparr>"
    have t: "tinv (b # l) (w\<lparr>mem := ms\<rparr>) D C S" and sp: "select_part (ucast LARGE_MEM_SIZE) = Some (fst b)"
      using a Some by simp_all
    have "fst b = P272" using sp by (simp add: LARGE_MEM_SIZE_def select_part_def)
    then have "length (frame (smems ms b)) = 248" using tinv_frames [OF t, of b] by simp
    moreover have "store_inv (b # l @ rx_held w @ tx_held w) (qs_of w D C S) ms"
      using t by (simp add: tinv_def qs_of_def)
    then have "store_inv (l @ [b] @ tx_held w) (qs_of w D C S) ms"
      using assms(2) by (subst store_inv_perm [OF _ refl]) (auto simp: rx_held_def)
    ultimately have "tinv l ?v D C S"
      using t by (simp add: tinv_def qs_of_def rx_ok_def tx_ok_def clbs_on_def frm_def)
    then show ?thesis using m Some by (intro exI [of _ True] exI [of _ ?v]) (simp add: TransL2S_MemAlloc_def)
  qed
qed

lemma ProcessRecvData_tinv:
  assumes "tinv l w D C S" "ProcessRecvData (l3_l2_clbs app) w = Some (got, w')"
  shows "tinv l w' D C S \<and> (got \<longrightarrow> frmRecv w' \<noteq> None)"
proof (cases "frmRecv w")
  case None
  then have "sMemRecv w = None" using assms(1) by (simp add: tinv_def rx_ok_def)
  from memalloc_tinv [OF assms(1) None this, of app] obtain ok v where
    v: "TransL2S_MemAlloc (l3_l2_clbs app) w = Some (ok, v)" "tinv l v D C S" by metis
  then show ?thesis using assms(2) None by (cases ok) (auto simp: ProcessRecvData_def)
next
  case (Some b)
  have inv: "rx_inv b w" using assms(1) by (intro rx_ok_inv [OF _ Some]) (simp add: tinv_def)
  from ProcessRecvData_refines [OF Some inv, of "l3_l2_clbs app"] assms(2) have
    r: "rx_inv b w'" "rx_same b w w'" "rx_loop ((frm b w)[0 := CST_PREAMBLE], snd (rx_of b w)) = (got, rx_of b w')"
    by auto
  have l: "248 \<le> length (frm b w)" using inv by (simp add: rx_inv_def)
  have "rx_loop ((frm b w)[0 := CST_PREAMBLE], l1_bytes (sTransL1 w), unat (u16RecvCount w), unat (statDLen w))
      = (got, frm b w', l1_bytes (sTransL1 w'), unat (u16RecvCount w'), unat (statDLen w'))"
    using r(3) by (simp add: rx_of_def)
  from rx_loop_length [OF this] l have "length (frm b w') = length (frm b w)" by simp
  moreover have "frmRecv w' = frmRecv w" using r(2) by (auto simp: rx_same_def)
  ultimately show ?thesis using rx_same_tinv [OF assms(1) Some r(2,1)] Some by simp
qed

lemma OnRecvFrame_cases:
  assumes "OnRecvFrame cb w = Some (act, w')"
  shows "w' = w \<or> w' = upd_l1 TransL1_RecvFF_Reset w \<or> (\<exists>sq. w' = w\<lparr>u8SeqCMDFrm := sq\<rparr>)
    \<or> (\<exists>sq. fire_recv_data cb (w\<lparr>u8SeqRemote := sq\<rparr>) = Some w')"
proof -
  note o = assms [unfolded OnRecvFrame_def]
  obtain b where b: "frmRecv w = Some b" using o by (cases "frmRecv w") simp_all
  note o = o [unfolded b Option.bind.bind_lunit]
  obtain dl where dl: "frm_get b 5 w = Some dl" using o by (cases "frm_get b 5 w") simp_all
  note o = o [unfolded dl Option.bind.bind_lunit]
  obtain dst where dst: "frm_get b 2 w = Some dst" using o by (cases "frm_get b 2 w") simp_all
  note o = o [unfolded dst Option.bind.bind_lunit]
  show ?thesis
  proof (cases "dst \<noteq> u8NodeID w \<and> dst \<noteq> ADDR_BROADCAST \<or> dl > 240 \<and> dst \<noteq> ADDR_BROADCAST")
    case True
    then consider "(dst \<noteq> u8NodeID w \<and> dst \<noteq> ADDR_BROADCAST) = True"
      | "(dst \<noteq> u8NodeID w \<and> dst \<noteq> ADDR_BROADCAST) = False" "(dl > 240 \<and> dst \<noteq> ADDR_BROADCAST) = True" by blast
    then show ?thesis using o by cases simp_all
  next
    case False
    then have c: "(dst \<noteq> u8NodeID w \<and> dst \<noteq> ADDR_BROADCAST) = False" "(dl > 240 \<and> dst \<noteq> ADDR_BROADCAST) = False" by blast+
    note o = o [unfolded c if_False]
    obtain crcd where h6: "frm_get b 6 w = Some crcd" using o by (cases "frm_get b 6 w") simp_all
    note o = o [unfolded h6 Option.bind.bind_lunit]
    obtain ct where h4: "frm_get b 4 w = Some ct" using o by (cases "frm_get b 4 w") simp_all
    note o = o [unfolded h4 Option.bind.bind_lunit]
    obtain bad where hb: "(if dl \<noteq> 0 then do { c \<leftarrow> crc_8 (Some (drop 8 (frm b w))) (unat dl); Some (crcd \<noteq> c) } else Some False) = Some bad"
      using o by (cases "if dl \<noteq> 0 then do { c \<leftarrow> crc_8 (Some (drop 8 (frm b w))) (unat dl); Some (crcd \<noteq> c) } else Some False") simp_all
    note o = o [unfolded hb Option.bind.bind_lunit]
    show ?thesis
    proof (cases bad)
      case True
      then show ?thesis using o by simp
    next
      case nb: False
      obtain sq where q: "frm_get b 3 w = Some sq" using o nb by (cases "frm_get b 3 w") simp_all
      have "(if IS_DATA_FRM ct then
               (if \<not> bCheckSeqNum w \<or> sq \<noteq> u8SeqRemote w then fire_recv_data cb (w\<lparr>u8SeqRemote := sq\<rparr>) else Some w)
             else if GET_FRM_TYPE ct = CMD_ACK \<or> GET_FRM_TYPE ct = CMD_NACK then Some (w\<lparr>u8SeqCMDFrm := sq\<rparr>) else Some w) = Some w'"
        using o [unfolded q Option.bind.bind_lunit] nb
        by (cases "IS_DATA_FRM ct"; cases "\<not> bCheckSeqNum w \<or> sq \<noteq> u8SeqRemote w"; cases "GET_FRM_TYPE ct = CMD_ACK";
          cases "GET_FRM_TYPE ct = CMD_NACK"; simp add: L2FireEvent_def bind_eq_Some_conv)
      then show ?thesis by (auto split: if_splits)
    qed
  qed
qed

text \<open>Giving up the receive buffer.\<close>

definition rx_none :: "'a STransL2S_scheme \<Rightarrow> 'a STransL2S_scheme" where
  "rx_none w = w\<lparr>sMemRecv := None, frmRecv := None\<rparr>"

lemma rx_none_tinv:
  assumes "tinv l w D C S" "frmRecv w = Some b"
  shows "tinv (b # l) (rx_none w) D C S"
proof -
  have "store_inv ((b # l) @ tx_held w) (qs_of w D C S) (mem w)"
    using assms by (subst store_inv_perm [OF _ refl, where l' = "l @ rx_held w @ tx_held w"])
      (auto simp: rx_held_def tinv_def)
  then show ?thesis
    using assms(1) by (simp add: rx_none_def tinv_def qs_of_def rx_ok_def tx_ok_def clbs_on_def)
qed

lemma memalloc_rx_none: "TransL2S_MemAlloc cb (rx_none w) = TransL2S_MemAlloc cb w"
proof -
  obtain r ms where m: "Mem_Alloc LARGE_MEM_SIZE (mem w) = (r, ms)" by fastforce
  have "(rx_none w)\<lparr>sMemRecv := r, mem := ms, u8ErrorCode := e, frmRecv := f\<rparr>
      = w\<lparr>sMemRecv := r, mem := ms, u8ErrorCode := e, frmRecv := f\<rparr>" for e f by (cases w) (simp add: rx_none_def)
  moreover have "(rx_none w)\<lparr>sMemRecv := r, mem := ms, frmRecv := f\<rparr> = w\<lparr>sMemRecv := r, mem := ms, frmRecv := f\<rparr>" for f
    by (cases w) (simp add: rx_none_def)
  moreover have "mem (rx_none w) = mem w" by (simp add: rx_none_def)
  ultimately show ?thesis
    using m by (cases r) (simp_all add: TransL2S_MemAlloc_def Let_def)
qed

lemma l1_ok_reset: "l1_ok l1 \<Longrightarrow> l1_ok (TransL1_RecvFF_Reset l1)"
  by (auto simp: l1_ok_def TransL1_RecvFF_Reset_def FIFO_Reset_def fifo_wf_def)

section \<open>The contract of the application's callbacks\<close>

text \<open>
  What the layer relies on when it calls the application: its callbacks keep the ownership of all
  buffers (they may queue frames of their own), leave the buffer being delivered in place, and do not
  enlarge a buffer they are shown.
\<close>

definition owned :: "blk list \<Rightarrow> 'a STrans_scheme \<Rightarrow> bool" where
  "owned l w \<longleftrightarrow> (\<exists>D C S. tinv l w D C S)"

locale l3_app =
  fixes app :: "('a STrans_scheme) l3_clbs"
  assumes recv_keeps: "owned l w \<Longrightarrow> 248 \<le> length (frm b w) \<Longrightarrow> onL3Recv app b ct w = Some w' \<Longrightarrow>
      owned l w' \<and> frmRecv w' = frmRecv w"
    and recv_total: "owned l w \<Longrightarrow> 248 \<le> length (frm b w) \<Longrightarrow> onL3Recv app b ct w \<noteq> None"
    and sent_keeps: "owned l w \<Longrightarrow> onL3Sent app b ct w = Some w' \<Longrightarrow>
      owned l w' \<and> (\<forall>c \<in> set l. sendable (mem w) c \<longrightarrow> sendable (mem w') c)"
    and sent_total: "owned l w \<Longrightarrow> sendable (mem w) b \<Longrightarrow> onL3Sent app b (u8Ctrl (smems (mem w) b)) w \<noteq> None"
begin

abbreviation "cbs \<equiv> l3_l2_clbs app"

lemma fire_recv_owned:
  assumes "owned l w" "frmRecv w = Some b"
  shows "\<exists>w'. fire_recv_data cbs w = Some w' \<and> owned l w'"
proof -
  obtain D C S where t: "tinv l w D C S" using assms(1) by (auto simp: owned_def)
  have m: "sMemRecv w = Some b" "248 \<le> length (frm b w)" "fClbL2RecvData w"
    using t assms(2) by (auto simp: tinv_def rx_ok_def clbs_on_def)
  have g: "frm_get b 5 w = Some (frm b w ! 5)" using m(2) by (simp add: frm_get_def)
  let ?w1 = "upd_mem b (\<lambda>m. m\<lparr>u16DLen := ucast (frm b w ! 5)\<rparr>) w"
  have g1: "frm_get b 4 ?w1 = Some (frm b w ! 4)" using m(2) by (simp add: frm_get_def frm_def upd_mem_def)
  let ?w2 = "(upd_mem b (\<lambda>m. m\<lparr>u8Ctrl := frm b w ! 4\<rparr>) ?w1)\<lparr>u8ErrorCode := TRANS_SUCCESS\<rparr>"
  have nb: "b \<notin> set (D @ C @ S @ tx_held w)" using tinv_distinct(1) [OF t] assms(2) by (auto simp: rx_held_def)
  have t1: "tinv l ?w1 D C S" by (rule tinv_upd_mem [OF t]) (use nb in simp_all)
  have "tx_held ?w1 = tx_held w" by (simp add: upd_mem_def)
  then have t2: "tinv l ?w2 D C S" unfolding tinv_sel by (intro tinv_upd_mem [OF t1]) (use nb in simp_all)
  have s2: "sMemRecv ?w2 = Some b" "frmRecv ?w2 = Some b" "u8ErrorCode ?w2 = TRANS_SUCCESS"
    using m(1) assms(2) by (simp_all add: upd_mem_def)
  obtain w3 where w3: "(if fClbRecv ?w2 then onL3Recv app b (u8Ctrl (smems (mem ?w2) b)) ?w2 else Some ?w2) = Some w3"
    "owned l w3" "frmRecv w3 = Some b"
  proof (cases "fClbRecv ?w2")
    case True
    have o2: "owned l ?w2" using t2 by (auto simp: owned_def)
    have len: "248 \<le> length (frm b ?w2)" using m(2) by (simp add: frm_def upd_mem_def)
    from recv_total [OF o2 len] obtain v where v: "onL3Recv app b (u8Ctrl (smems (mem ?w2) b)) ?w2 = Some v" by fast
    from recv_keeps [OF o2 len v] have "owned l v" "frmRecv v = Some b" using s2(2) by simp_all
    then show ?thesis using that [of v] v True by simp
  next
    case False
    then show ?thesis using that [of ?w2] t2 s2(2) by (auto simp: owned_def)
  qed
  obtain D3 C3 S3 where t3: "tinv l w3 D3 C3 S3" using w3(2) by (auto simp: owned_def)
  have t4: "tinv l (free_mem b (rx_none w3)) D3 C3 S3" using free_mem_tinv(1) [OF rx_none_tinv [OF t3 w3(3)]] .
  have rn: "frmRecv (free_mem b (rx_none w3)) = None" "sMemRecv (free_mem b (rx_none w3)) = None"
    by (simp_all add: free_mem_def rx_none_def)
  have eq: "rx_none (free_mem b w3) = free_mem b (rx_none w3)" by (simp add: free_mem_def rx_none_def)
  from memalloc_tinv [OF t4 rn, of app] obtain ok w5 where
    w5: "TransL2S_MemAlloc cbs (free_mem b w3) = Some (ok, w5)" "tinv l w5 D3 C3 S3"
    unfolding eq [symmetric] memalloc_rx_none by metis
  have "onRecvData cbs TRANS_SUCCESS (Some b) ?w2 = Some (free_mem b w3)"
    using w3(1) by (simp add: l3_l2_clbs_def Clb_L2RecvData_def)
  then have "fire_recv_data cbs w = Some w5"
    using m(1,3) g g1 s2(1,3) w5(1) by (simp add: fire_recv_data_def Let_def)
  then show ?thesis using w5(2) by (auto simp: owned_def)
qed

lemma RecvTask_L2_owned:
  assumes "owned l w" "TransL2S_RecvTask cbs w = Some (act, w')"
  shows "owned l w'"
proof -
  obtain D C S where t: "tinv l w D C S" using assms(1) by (auto simp: owned_def)
  obtain got v where p: "ProcessRecvData cbs w = Some (got, v)"
    using assms(2) by (auto simp: TransL2S_RecvTask_def bind_eq_Some_conv)
  have v: "tinv l v D C S" "got \<Longrightarrow> frmRecv v \<noteq> None" using ProcessRecvData_tinv [OF t p] by simp_all
  show ?thesis
  proof (cases got)
    case False
    then show ?thesis using assms(2) p v(1) by (auto simp: TransL2S_RecvTask_def owned_def)
  next
    case True
    then obtain b where b: "frmRecv v = Some b" using v(2) by auto
    have o: "OnRecvFrame cbs v = Some (act, w')" using assms(2) p True by (simp add: TransL2S_RecvTask_def)
    from OnRecvFrame_cases [OF o] show ?thesis
    proof (elim disjE exE)
      assume "w' = v"
      then show ?thesis using v(1) by (auto simp: owned_def)
    next
      assume w': "w' = upd_l1 TransL1_RecvFF_Reset v"
      have "l1_ok (TransL1_RecvFF_Reset (sTransL1 v))"
        using tinv_l1_ok [OF v(1)] by (rule l1_ok_reset)
      then show ?thesis using tinv_l1 [OF v(1)] by (auto simp: w' upd_l1_def owned_def)
    next
      fix sq assume "w' = v\<lparr>u8SeqCMDFrm := sq\<rparr>"
      then show ?thesis using v(1) by (auto simp: owned_def)
    next
      fix sq assume f: "fire_recv_data cbs (v\<lparr>u8SeqRemote := sq\<rparr>) = Some w'"
      have "owned l (v\<lparr>u8SeqRemote := sq\<rparr>)" using v(1) by (auto simp: owned_def)
      from fire_recv_owned [OF this] b f show ?thesis by auto
    qed
  qed
qed

end

end
