(* ===== verification/TransceiverSafe.thy ===== *)
theory TransceiverSafe
  imports TransceiverRecv
begin

text \<open>
  Every step of transport layer 3 keeps the ownership invariant: the two tasks, posting a frame, the
  two timers and the two interrupts; the layer as a step relation and its reachable states.
\<close>

section \<open>Taking up and releasing the frame being sent\<close>

lemma TransL1_Send_fifo: "TransL1_Send p d n = (e, p') \<Longrightarrow> sRecvFIFO p' = sRecvFIFO p"
  by (auto simp: TransL1_Send_def Let_def split: if_splits option.splits prod.splits)

lemma tx_idle: "tinv l w D C S \<Longrightarrow> \<not> l2Sending w \<Longrightarrow> tx_held w = [] \<and> \<not> hL1TimeOutTimer w"
  by (auto simp: tinv_def tx_ok_def tx_held_def)

lemma tx_busy:
  assumes "tinv l w D C S" "l2Sending w"
  obtains b where "sMemSend w = Some b" "frmSend w = Some b" "sendable (mem w) b" "tx_held w = [b]"
  using assms by (auto simp: tinv_def tx_ok_def tx_held_def)

lemma tx_start:
  assumes "tinv (b # l) w D C S" "\<not> l2Sending w" "sendable (mem w) b"
  shows "tinv l (w\<lparr>sMemSend := Some b, frmSend := Some b, l2Sending := True, bWaitingL1Send := False,
      bL1Sending := False, u8ErrorCode := e\<rparr>) D C S" (is "tinv l ?w D C S")
proof -
  have i: "tx_held w = []" "\<not> hL1TimeOutTimer w" using tx_idle [OF assms(1,2)] by simp_all
  have h: "rx_held ?w = rx_held w" "tx_held ?w = [b]" by (simp_all add: rx_held_def tx_held_def)
  have "store_inv (l @ rx_held w @ [b]) (qs_of w D C S) (mem w)"
    using assms(1) i by (subst store_inv_perm [OF _ refl, where l' = "(b # l) @ rx_held w @ tx_held w"]) (auto simp: tinv_def)
  then show ?thesis
    using assms i unfolding tinv_def h by (simp add: qs_of_def rx_ok_def tx_ok_def clbs_on_def frm_def)
qed

lemma tx_release:
  assumes "tinv l w D C S" "l2Sending w" "sMemSend w = Some b" "\<not> hL1TimeOutTimer w"
  shows "tinv (b # l) (w\<lparr>l2Sending := False, bL1Sending := u, bWaitingL1Send := v\<rparr>) D C S"
proof -
  have "tx_held w = [b]" using assms by (simp add: tx_held_def)
  then have "store_inv ((b # l) @ rx_held w) (qs_of w D C S) (mem w)"
    using assms(1) by (subst store_inv_perm [OF _ refl, where l' = "l @ rx_held w @ tx_held w"]) (auto simp: tinv_def)
  then show ?thesis
    using assms by (simp add: tinv_def qs_of_def rx_ok_def tx_ok_def clbs_on_def frm_def)
qed

lemma L2_Send_tinv:
  fixes w :: "'a STrans_scheme"
  assumes t: "tinv (b # l) w D C S" and sd: "sendable (mem w) b" and r: "TransL2S_IsSendReady w"
  shows "\<exists>w'. TransL2S_Send w dst b = Some (TRANS_SUCCESS, w') \<and> tinv l w' D C S"
proof -
  let ?m = "smems (mem w) b"
  define data where "data = take (unat (u16DLen ?m)) (drop 8 (frm b w))"
  have len: "u16DLen ?m \<le> 240" "8 + unat (u16DLen ?m) \<le> length (frm b w)" using sd by (simp_all add: sendable_def frm_def)
  let ?f = "frame_bytes (u8NodeID w) dst (u8Seq ?m) (u8Ctrl ?m) data @ drop (8 + length data) (frame ?m)"
  let ?w1 = "upd_mem b (\<lambda>m. m\<lparr>u8NumSend := u8NumSend m - 1\<rparr>) w"
  have lf: "length ?f = length (frame ?m)" using len by (simp add: data_def frm_def)
  have t1: "tinv (b # l) ?w1 D C S" by (rule tinv_upd_mem [OF t]) (simp_all add: sendable_def upd_mem_def)
  have t2: "tinv (b # l) (with_frm b ?f ?w1) D C S"
    unfolding with_frm_def by (rule tinv_upd_mem [OF t1]) (use lf in \<open>simp_all add: sendable_def upd_mem_def\<close>)
  have upd_node: "u8NodeID ?w1 = u8NodeID w" by (simp add: upd_mem_def)
  have "sendable (mem (with_frm b ?f ?w1)) b" using sd lf by (simp add: sendable_def with_frm_def upd_mem_def)
  moreover have "\<not> l2Sending (with_frm b ?f ?w1)" using r by (simp add: TransL2S_IsSendReady_def with_frm_def upd_mem_def)
  ultimately have "tinv l (sent_state dst b data w) D C S"
    unfolding sent_state_def Let_def upd_node by (intro tx_start [OF t2])
  then show ?thesis using TransL2S_Send_ok [OF r len data_def] by blast
qed

context l3_app
begin

lemma SendDone_owned:
  assumes "owned (b # l) w" "sendable (mem w) b"
  shows "\<exists>w'. Clb_L2SendDone app e (Some b) w = Some w' \<and> owned l w'"
proof -
  obtain w1 where w1: "(if fClbSendDone w then onL3Sent app b (u8Ctrl (smems (mem w) b)) w else Some w) = Some w1"
    "owned (b # l) w1" "sendable (mem w1) b"
  proof (cases "fClbSendDone w")
    case True
    from sent_total [OF assms] obtain v where v: "onL3Sent app b (u8Ctrl (smems (mem w) b)) w = Some v" by fast
    from sent_keeps [OF assms(1) v] assms(2) show ?thesis using that [of v] v True by simp
  qed (use assms that [of w] in simp)
  obtain D C S where t: "tinv (b # l) w1 D C S" using w1(2) by (auto simp: owned_def)
  have "4 < length (frm b w1)" using w1(3) by (simp add: sendable_def frm_def)
  then have g: "frm_get b 4 w1 = Some (frm b w1 ! 4)" by (simp add: frm_get_def)
  show ?thesis
  proof (cases "IS_ACK_REQ (frm b w1 ! 4)")
    case True
    from push_sent_tinv [OF t w1(3)] obtain q ms where
      "push_sent (Some b) w1 = Some (w1\<lparr>qSentQueue := q, mem := ms\<rparr>)" "tinv l (w1\<lparr>qSentQueue := q, mem := ms\<rparr>) D C (S @ [b])" by metis
    then show ?thesis using w1(1) g True by (auto simp: Clb_L2SendDone_def owned_def)
  next
    case False
    then show ?thesis using w1(1) g free_mem_tinv(1) [OF t] by (auto simp: Clb_L2SendDone_def owned_def)
  qed
qed

lemma L2_SendTask_owned:
  assumes "owned l w"
  shows "\<exists>w'. TransL2S_SendTask cbs w = Some w' \<and> owned l w'"
proof (cases "l2Sending w")
  case False
  then show ?thesis using assms by (simp add: TransL2S_SendTask_def)
next
  case True
  obtain D C S where t: "tinv l w D C S" using assms by (auto simp: owned_def)
  from tx_busy [OF t True] obtain b where b: "sMemSend w = Some b" "frmSend w = Some b" "sendable (mem w) b" by metis
  have clb: "fClbL2SendDone w" "fClbL2Error w" using t by (simp_all add: tinv_def clbs_on_def)
  have "5 < length (frm b w)" using b(3) by (simp add: sendable_def frm_def)
  then have g: "frm_get b 5 w = Some (frm b w ! 5)" by (simp add: frm_get_def)
  consider (wait) "bWaitingL1Send w" "bL1Sending w" | (fin) "bWaitingL1Send w" "\<not> bL1Sending w"
    | (port) "\<not> bWaitingL1Send w" "\<not> TransL1_IsSendReady (sTransL1 w)"
    | (send) "\<not> bWaitingL1Send w" "TransL1_IsSendReady (sTransL1 w)" by blast
  then show ?thesis
  proof cases
    case wait
    then show ?thesis using True b g assms by (simp add: TransL2S_SendTask_def RunSendFrame_def)
  next
    case port
    then show ?thesis using True b g assms by (simp add: TransL2S_SendTask_def RunSendFrame_def)
  next
    case fin
    have nt: "\<not> hL1TimeOutTimer w" using t fin(2) by (auto simp: tinv_def tx_ok_def)
    let ?v = "w\<lparr>l2Sending := False, bWaitingL1Send := False, u8ErrorCode := TRANS_SUCCESS\<rparr>"
    have "tinv (b # l) (w\<lparr>l2Sending := False, bL1Sending := bL1Sending w, bWaitingL1Send := False\<rparr>) D C S"
      by (rule tx_release [OF t True b(1) nt])
    then have "owned (b # l) ?v" by (auto simp: owned_def)
    moreover have "sendable (mem ?v) b" using b(3) by simp
    ultimately obtain w' where "Clb_L2SendDone app TRANS_SUCCESS (Some b) ?v = Some w'" "owned l w'"
      using SendDone_owned by blast
    moreover have "TransL2S_SendTask cbs w = Clb_L2SendDone app TRANS_SUCCESS (Some b) ?v"
      using True b g fin clb by (simp add: TransL2S_SendTask_def RunSendFrame_def L2FireEvent_def fire_send_done_def l3_l2_clbs_def)
    ultimately show ?thesis by simp
  next
    case send
    let ?v = "w\<lparr>bL1Sending := True, bWaitingL1Send := True\<rparr>"
    obtain e l1 where s: "TransL1_Send (sTransL1 w) (Some (frm b w)) (ucast (frm b w ! 5) + 8) = (e, l1)" by fastforce
    have l1: "l1_ok l1" using tinv_l1_ok [OF t] TransL1_Send_fifo [OF s] by (simp add: l1_ok_def)
    have fv: "frm b ?v = frm b w" by (simp add: frm_def)
    show ?thesis
    proof (cases "e = TRANS_SUCCESS")
      case ok: True
      let ?w' = "?v\<lparr>sTransL1 := l1, u8ErrorCode := TRANS_SUCCESS, u32L1SendTimeout := 40, hL1TimeOutTimer := True\<rparr>"
      have "tinv l ?w' D C S"
        using t l1 True by (simp add: tinv_def qs_of_def rx_ok_def tx_ok_def clbs_on_def frm_def)
      moreover have "TransL2S_SendTask cbs w = Some ?w'"
        using True b g send s fv ok by (simp add: TransL2S_SendTask_def RunSendFrame_def Let_def StartL1TimeOutTimer_def)
      ultimately show ?thesis by (auto simp: owned_def)
    next
      case False
      let ?w' = "?v\<lparr>sTransL1 := l1, u8ErrorCode := e, l2Sending := False\<rparr>"
      have nt: "\<not> hL1TimeOutTimer w" using t send(1) by (auto simp: tinv_def tx_ok_def)
      have "tinv l (w\<lparr>l2Sending := False, bL1Sending := True, bWaitingL1Send := True\<rparr>) D C S"
        by (rule tinv_weaken [OF tx_release [OF t True b(1) nt]])
      from tinv_l1 [OF this l1]
      have "tinv l (w\<lparr>l2Sending := False, bL1Sending := True, bWaitingL1Send := True, sTransL1 := l1, u8ErrorCode := e\<rparr>) D C S"
        by simp
      moreover have "w\<lparr>l2Sending := False, bL1Sending := True, bWaitingL1Send := True, sTransL1 := l1, u8ErrorCode := e\<rparr> = ?w'"
        by (cases w) simp
      ultimately have "tinv l ?w' D C S" by simp
      moreover have "TRANS_ERR_L1_TIMEOUT \<noteq> e" "TRANS_ERR_L2_TIMEOUT \<noteq> e"
        using s by (auto simp: TransL1_Send_def Let_def split: if_splits prod.splits)
      then have "TransL2S_SendTask cbs w = Some ?w'"
        using True b g send s fv False clb
        by (simp add: TransL2S_SendTask_def RunSendFrame_def Let_def L2FireEvent_def fire_error_def l3_l2_clbs_def Clb_L2Error_def)
      ultimately show ?thesis by (auto simp: owned_def)
    qed
  qed
qed

lemma L1TimeOut_owned:
  assumes "owned l w" "hL1TimeOutTimer w"
  shows "\<exists>w'. Clb_L1TimeOutTimer cbs w = Some w' \<and> owned l w'"
proof -
  obtain D C S where t: "tinv l w D C S" using assms(1) by (auto simp: owned_def)
  have run: "l2Sending w" "bL1Sending w" "fClbL2Error w" using t assms(2) by (simp_all add: tinv_def tx_ok_def clbs_on_def)
  from tx_busy [OF t run(1)] obtain b where b: "sMemSend w = Some b" "frmSend w = Some b" "sendable (mem w) b" by metis
  let ?w0 = "w\<lparr>hL1TimeOutTimer := False\<rparr>"
  let ?v = "?w0\<lparr>bL1Sending := False, bWaitingL1Send := False, l2Sending := False, u8ErrorCode := TRANS_ERR_L1_TIMEOUT\<rparr>"
  have "tinv l ?w0 D C S" using t by (simp add: tinv_def qs_of_def rx_ok_def tx_ok_def clbs_on_def frm_def)
  from tx_release [OF this, of b False False] have "tinv (b # l) (?w0\<lparr>l2Sending := False, bL1Sending := False, bWaitingL1Send := False\<rparr>) D C S"
    using run(1) b(1) by simp
  moreover have "(?w0\<lparr>l2Sending := False, bL1Sending := False, bWaitingL1Send := False\<rparr>)\<lparr>u8ErrorCode := TRANS_ERR_L1_TIMEOUT\<rparr> = ?v"
    by (cases w) simp
  ultimately have tv: "tinv (b # l) ?v D C S" by (metis tinv_sel(1))
  have "4 < length (frm b w)" using b(3) by (simp add: sendable_def frm_def)
  then have g: "frm_get b 4 ?v = Some (frm b w ! 4)" by (simp add: frm_get_def frm_def)
  have f: "sMemSend ?v = Some b" "frmSend ?v = Some b" "fClbL2Error ?v" "u8ErrorCode ?v = TRANS_ERR_L1_TIMEOUT"
    using b run(3) by simp_all
  have "Clb_L1TimeOutTimer cbs w = Some (free_mem b ?v)"
    unfolding Clb_L1TimeOutTimer_def StopL1TimeOutTimer_def Let_def using run(2) f g
    by (simp add: L2FireEvent_def fire_error_def l3_l2_clbs_def Clb_L2Error_def free_mem_def)
  then show ?thesis using free_mem_tinv(1) [OF tv] by (auto simp: owned_def)
qed

end

section \<open>The steps without the application\<close>

text \<open>What a post by the application leaves alone: its own part of the state, the buffer being received into, and
  the contents of the loose buffers.\<close>

definition app_same :: "blk list \<Rightarrow> 'a STrans_scheme \<Rightarrow> 'a STrans_scheme \<Rightarrow> bool" where
  "app_same l w w' \<longleftrightarrow> STrans.more w' = STrans.more w \<and> frmRecv w' = frmRecv w
     \<and> (\<forall>c \<in> set (l @ rx_held w). (smems (mem w') c)\<lparr>pNext := None\<rparr> = (smems (mem w) c)\<lparr>pNext := None\<rparr>)"

lemma app_same_refl [simp]: "app_same l w w"
  by (simp add: app_same_def)

lemma app_same_posted:
  assumes "posted b w w'" "b \<notin> set (l @ rx_held w)"
  shows "app_same l w w'"
proof -
  obtain ms sl qd qc k where "w' = w\<lparr>mem := ms, u8SeqLocal := sl, qSendingData := qd, qSendingCMD := qc, semPosts := k\<rparr>"
    using assms(1) unfolding posted_def by blast
  then have "STrans.more w' = STrans.more w" "frmRecv w' = frmRecv w" by simp_all
  moreover have "(smems (mem w') c)\<lparr>pNext := None\<rparr> = (smems (mem w) c)\<lparr>pNext := None\<rparr>" if "c \<in> set (l @ rx_held w)" for c
  proof -
    have "c \<noteq> b" using assms(2) that by auto
    then show ?thesis using assms(1) by (cases c) (simp add: posted_def)
  qed
  ultimately show ?thesis by (simp add: app_same_def)
qed

lemma Trans_send_owned:
  assumes "owned l w" "case data of None \<Rightarrow> True | Some d \<Rightarrow> unat (capped n) \<le> length d"
    and "ctl AND 0x3F = FRM_DATA \<Longrightarrow> 0 < n"
  shows "\<exists>r w'. Trans_send w data n ctl ty = Some (r, w') \<and> owned l w' \<and> app_same l w w'"
proof -
  obtain D C S where t: "tinv l w D C S" using assms(1) by (auto simp: owned_def)
  obtain r ms where m: "Mem_Alloc (8 + 16 + (capped n + 8)) (mem w) = (r, ms)" by fastforce
  show ?thesis
  proof (cases "bStarted w")
    case False
    then show ?thesis using assms(1) by (intro exI [of _ False] exI [of _ w]) (simp add: Trans_send_def)
  next
    case st: True
    show ?thesis
    proof (cases r)
      case None
      have "Trans_send w data n ctl ty = Some (False, w\<lparr>mem := ms\<rparr>)"
        using st m None unfolding Trans_send_def capped_def [symmetric] by simp
      moreover have "app_same l w (w\<lparr>mem := ms\<rparr>)" using alloc_tinv [OF t m] None by (simp add: app_same_def)
      ultimately show ?thesis using alloc_tinv [OF t m] None unfolding owned_def by auto
    next
      case (Some b)
      from Trans_send_tinv [OF t st assms(2) refl m [unfolded Some] assms(3)] obtain w' where
        "Trans_send w data n ctl ty = Some (True, w')"
        "tinv l w' (if is_cmd ctl then D else D @ [b]) (if is_cmd ctl then C @ [b] else C) S"
        "b \<notin> set (l @ rx_held w @ tx_held w @ D @ C @ S)" "posted b w w'" by metis
      moreover have "app_same l w w'" by (rule app_same_posted [OF calculation(4)]) (use calculation(3) in simp)
      ultimately show ?thesis unfolding owned_def by blast
    qed
  qed
qed

lemma Trans_send_step:
  assumes "owned l w" "Trans_send w data n ctl ty = Some (r, w')" "ctl AND 0x3F = FRM_DATA \<Longrightarrow> 0 < n"
  shows "owned l w'"
proof (cases "case data of None \<Rightarrow> True | Some d \<Rightarrow> unat (capped n) \<le> length d")
  case True
  from Trans_send_owned [OF assms(1) this assms(3), of ctl ty] assms(2) show ?thesis by auto
next
  case False
  then obtain d where d: "data = Some d" "\<not> unat (capped n) \<le> length d" by (cases data) auto
  then have pos: "0 < capped n" by (auto simp: word_gt_0)
  obtain D C S where t: "tinv l w D C S" using assms(1) by (auto simp: owned_def)
  obtain b ms where m: "Mem_Alloc (8 + 16 + (capped n + 8)) (mem w) = (b, ms)" by fastforce
  have "\<not> bStarted w \<and> w' = w \<or> b = None \<and> w' = w\<lparr>mem := ms\<rparr>"
    using assms(2) m d pos unfolding Trans_send_def capped_def [symmetric]
    by (auto simp: Let_def split: if_splits option.splits)
  moreover have "owned l (w\<lparr>mem := ms\<rparr>)" if "b = None"
    using alloc_tinv [OF t m] that unfolding owned_def by auto
  ultimately show ?thesis using assms(1) by blast
qed

lemma SendDone_irq_owned:
  assumes "owned l w"
  shows "owned l (run_l1_clb c w)"
proof -
  obtain D C S where t: "tinv l w D C S" using assms by (auto simp: owned_def)
  have "tinv l (w\<lparr>bL1Sending := False, hL1TimeOutTimer := False, semPosts := k\<rparr>) D C S" for k
    using t by (simp add: tinv_def qs_of_def rx_ok_def tx_ok_def clbs_on_def frm_def)
  then have "owned l (w\<lparr>bL1Sending := False, hL1TimeOutTimer := False, semPosts := k\<rparr>)" for k
    unfolding owned_def by blast
  then show ?thesis
    using assms
    by (cases "(c, w)" rule: run_l1_clb.cases)
      (auto simp: Clb_L1SendDone_def Clb_L1RecvData_def StopL1TimeOutTimer_def Let_def)
qed

lemma FIFO_Push_ok:
  assumes "fifo_wf ff" "FIFO_Push ff x = (r, ff')"
  shows "fifo_wf ff'" "u16MaxSize ff' = u16MaxSize ff"
  using assms FIFO_Push_space [of ff x] ff.push_full [of ff x] length_fifo_list [of ff]
  by (cases "u16Size ff < u16MaxSize ff"; auto simp: word_less_nat_alt)+

lemma rx_irq_owned:
  assumes "owned l w"
  shows "owned l (l2_rx_irq x w)"
proof -
  obtain c l1 where r: "TransL1_RX_Interrupt_Handle x (sTransL1 w) = (c, l1)" by fastforce
  obtain D C S where t: "tinv l w D C S" using assms by (auto simp: owned_def)
  have "l1_ok l1" using r tinv_l1_ok [OF t]
    by (auto simp: TransL1_RX_Interrupt_Handle_def l1_ok_def Let_def FIFO_Push_ok split: if_splits prod.splits)
  from tinv_l1 [OF t this] have "owned l (w\<lparr>sTransL1 := l1\<rparr>)" by (auto simp: owned_def)
  then show ?thesis using r SendDone_irq_owned by (simp add: l2_rx_irq_def)
qed

lemma tx_irq_owned:
  assumes "owned l w" "l2_tx_irq w = (bs, w')"
  shows "owned l w'"
proof -
  obtain bs' c l1 where r: "UART_DRV_tx_irq (sTransL1 w) = (bs', c, l1)" by (metis prod_cases3)
  obtain D C S where t: "tinv l w D C S" using assms by (auto simp: owned_def)
  have "sRecvFIFO l1 = sRecvFIFO (sTransL1 w)" using r
    by (auto simp: UART_DRV_tx_irq_def TransL1_TX_Interrupt_Handle_def Let_def split: if_splits prod.splits)
  then have "l1_ok l1" using tinv_l1_ok [OF t] by (simp add: l1_ok_def)
  from tinv_l1 [OF t this] have "owned l (w\<lparr>sTransL1 := l1\<rparr>)" by (auto simp: owned_def)
  then show ?thesis using r assms(2) SendDone_irq_owned by (auto simp: l2_tx_irq_def)
qed

lemma remove_sent_owned:
  assumes "owned l w"
  shows "\<exists>r w'. remove_sent sq w = Some (r, w') \<and> (case r of None \<Rightarrow> owned l w' | Some b \<Rightarrow> owned (b # l) w' \<and> sendable (mem w') b)"
proof -
  obtain D C S where t: "tinv l w D C S" using assms by (auto simp: owned_def)
  obtain r S' where ws: "with_seq sq (mem w) S = (r, S')" by fastforce
  from remove_sent_tinv [OF t ws] obtain q ms where r: "remove_sent sq w = Some (r, w\<lparr>qSentQueue := q, mem := ms\<rparr>)"
    "body_same (mem w) ms" "tinv (case r of None \<Rightarrow> l | Some b \<Rightarrow> b # l) (w\<lparr>qSentQueue := q, mem := ms\<rparr>) D C S'" by metis
  have "sendable ms b" if "r = Some b" for b
    using list_remove_some [OF ws [unfolded with_seq_def]] tinv_sendable [OF t] body_same_sendable [OF r(2)] that by auto
  then show ?thesis using r(1,3) by (cases r) (auto simp: owned_def)
qed

lemma push_data_owned:
  "owned (b # l) w \<Longrightarrow> sendable (mem w) b \<Longrightarrow> \<exists>w'. push_data (Some b) w = Some w' \<and> owned l w'"
  unfolding owned_def by (metis push_data_tinv)

lemma pop_owned:
  assumes "owned l w"
  shows "Queue_GetSize (qSendingCMD w) > 0 \<Longrightarrow>
      \<exists>b w'. pop_cmd w = Some (Some b, w') \<and> owned (b # l) w' \<and> sendable (mem w') b \<and> l2Sending w' = l2Sending w \<and> l2Started w' = l2Started w"
    and "Queue_GetSize (qSendingData w) > 0 \<Longrightarrow>
      \<exists>b w'. pop_data w = Some (Some b, w') \<and> owned (b # l) w' \<and> sendable (mem w') b \<and> l2Sending w' = l2Sending w \<and> l2Started w' = l2Started w"
proof -
  obtain D C S where t: "tinv l w D C S" using assms by (auto simp: owned_def)
  have q: "queue_rel (qSendingCMD w) (mem w) C" "queue_rel (qSendingData w) (mem w) D"
    using tinv_store [OF t] by (simp_all add: store_inv_def)
  {
    assume "Queue_GetSize (qSendingCMD w) > 0"
    then obtain b C' where C: "C = b # C'" using queue_rel_size [OF q(1)] by (cases C) (auto simp: Queue_GetSize_def)
    from pop_cmd_tinv [OF t [unfolded C]] obtain q ms where p: "pop_cmd w = Some (Some b, w\<lparr>qSendingCMD := q, mem := ms\<rparr>)"
      "body_same (mem w) ms" "tinv (b # l) (w\<lparr>qSendingCMD := q, mem := ms\<rparr>) D C' S" by metis
    have "sendable ms b" using tinv_sendable [OF t] body_same_sendable [OF p(2)] C by simp
    then show "\<exists>b w'. pop_cmd w = Some (Some b, w') \<and> owned (b # l) w' \<and> sendable (mem w') b \<and> l2Sending w' = l2Sending w \<and> l2Started w' = l2Started w"
      using p(1,3) by (auto simp: owned_def)
  }
  {
    assume "Queue_GetSize (qSendingData w) > 0"
    then obtain b D' where D: "D = b # D'" using queue_rel_size [OF q(2)] by (cases D) (auto simp: Queue_GetSize_def)
    from pop_data_tinv [OF t [unfolded D]] obtain q ms where p: "pop_data w = Some (Some b, w\<lparr>qSendingData := q, mem := ms\<rparr>)"
      "body_same (mem w) ms" "tinv (b # l) (w\<lparr>qSendingData := q, mem := ms\<rparr>) D' C S" by metis
    have "sendable ms b" using tinv_sendable [OF t] body_same_sendable [OF p(2)] D by simp
    then show "\<exists>b w'. pop_data w = Some (Some b, w') \<and> owned (b # l) w' \<and> sendable (mem w') b \<and> l2Sending w' = l2Sending w \<and> l2Started w' = l2Started w"
      using p(1,3) by (auto simp: owned_def)
  }
qed

lemma L2_Send_owned:
  "owned (b # l) w \<Longrightarrow> sendable (mem w) b \<Longrightarrow> TransL2S_IsSendReady w \<Longrightarrow>
     \<exists>w'. TransL2S_Send w dst b = Some (TRANS_SUCCESS, w') \<and> owned l w'"
  unfolding owned_def using L2_Send_tinv by metis

lemma free_owned: "owned (b # l) w \<Longrightarrow> owned l (free_mem b w)"
  unfolding owned_def using free_mem_tinv(1) by blast

section \<open>The layer as a step relation\<close>

text \<open>
  One step of one task, timer or interrupt.  The L1 timer fires only while it runs; a frame can be posted
  by any task at any time, a data frame with at least one byte (the application posts \<open>len + 2\<close>).
\<close>

inductive l3_step :: "('a STrans_scheme) l3_clbs \<Rightarrow> 'a STrans_scheme \<Rightarrow> 'a STrans_scheme \<Rightarrow> bool"
  for app :: "('a STrans_scheme) l3_clbs" where
  recv_task: "Trans_RecvTask app w = Some w' \<Longrightarrow> l3_step app w w'"
| send_task: "Trans_SendTask app w = Some w' \<Longrightarrow> l3_step app w w'"
| post: "Trans_Send w n data ctl = Some (r, w') \<Longrightarrow> (ctl AND 0x3F = FRM_DATA \<longrightarrow> 0 < n) \<Longrightarrow> l3_step app w w'"
| tick: "l3_step app w (Clb_UpdateTimer w)"
| l1_timeout: "hL1TimeOutTimer w \<Longrightarrow> Clb_L1TimeOutTimer (l3_l2_clbs app) w = Some w' \<Longrightarrow> l3_step app w w'"
| rx_irq: "l3_step app w (l2_rx_irq x w)"
| tx_irq: "l2_tx_irq w = (bs, w') \<Longrightarrow> l3_step app w w'"

inductive_cases l3_stepE: "l3_step app w w'"

context l3_app
begin

lemma RecvTask_owned:
  assumes "owned l w" "Trans_RecvTask app w = Some w'"
  shows "owned l w'"
proof -
  obtain act v where v: "TransL2S_RecvTask cbs w = Some (act, v)"
    using assms(2) by (cases "TransL2S_RecvTask cbs w") (auto simp: Trans_RecvTask_def)
  have o: "owned l v" by (rule RecvTask_L2_owned [OF assms(1) v])
  have cmd: "owned l x" if s: "map_option snd (Trans_SendCmdFrame v None 0 c) = Some x" and c: "c = CMD_ACK \<or> c = CMD_NACK" for c x
  proof -
    have "c AND 0x3F \<noteq> FRM_DATA" using c by (auto simp: FRM_DATA_def CMD_ACK_def CMD_NACK_def)
    moreover obtain r where "Trans_send v None 0 c E_CMD_FRM = Some (r, x)" using s by (auto simp: Trans_SendCmdFrame_def)
    ultimately show ?thesis using Trans_send_step [OF o] by blast
  qed
  obtain r u where r: "remove_sent (u8SeqCMDFrm v) v = Some (r, u)"
    "case r of None \<Rightarrow> owned l u | Some b \<Rightarrow> owned (b # l) u \<and> sendable (mem u) b"
    using remove_sent_owned [OF o] by metis
  show ?thesis
  proof (cases act)
    case TRANSL2_RCV_NACK
    show ?thesis
    proof (cases r)
      case (Some b)
      let ?u = "upd_mem b (\<lambda>m. m\<lparr>i16TimeOut := TRANS_TIMEOUT_TICK\<rparr>) u"
      have ow: "owned (b # l) u" "sendable (mem u) b" using r(2) Some by simp_all
      then obtain D C S where t: "tinv (b # l) u D C S" unfolding owned_def by blast
      have "owned (b # l) ?u" unfolding owned_def using age_step [OF t, of b "\<lambda>_. TRANS_TIMEOUT_TICK"] by blast
      moreover have "sendable (mem ?u) b" using ow(2) by (simp add: sendable_def upd_mem_def)
      ultimately have "owned (b # l) ?u" "sendable (mem ?u) b" .
      from push_data_owned [OF this] show ?thesis
        using assms(2) v r(1) TRANSL2_RCV_NACK Some by (auto simp: Trans_RecvTask_def)
    qed (use assms(2) v r TRANSL2_RCV_NACK in \<open>simp add: Trans_RecvTask_def\<close>)
  next
    case TRANSL2_RCV_ACK
    then show ?thesis using assms(2) v r free_owned
      by (cases r) (auto simp: Trans_RecvTask_def)
  qed (use assms(2) v o cmd in \<open>auto simp: Trans_RecvTask_def\<close>)
qed

lemma SendTask_owned:
  assumes "owned l w"
  shows "\<exists>w'. Trans_SendTask app w = Some w' \<and> owned l w'"
proof -
  obtain w1 where w1: "(if bUpdateWaitingACKFrameState w
      then Trans_CheckTimeOutOfSendedFrame (w\<lparr>bUpdateWaitingACKFrameState := False\<rparr>) else Some w) = Some w1" "owned l w1"
  proof (cases "bUpdateWaitingACKFrameState w")
    case True
    obtain D C S where "tinv l (w\<lparr>bUpdateWaitingACKFrameState := False\<rparr>) D C S" using assms by (auto simp: owned_def)
    from CheckTimeOut_ends [OF this] show ?thesis using that True by (auto simp: owned_def)
  qed (use assms that [of w] in simp)
  obtain w2 where w2: "(if TransL2S_IsSendReady w1 then do {
        (pMem, w) \<leftarrow> (if Queue_GetSize (qSendingCMD w1) > 0 then pop_cmd w1
                       else if Queue_GetSize (qSendingData w1) > 0 then pop_data w1 else Some (None, w1));
        (case pMem of None \<Rightarrow> Some w | Some b \<Rightarrow> map_option snd (TransL2S_Send w LOGGER_PC_ID b)) }
      else Some w1) = Some w2" "owned l w2"
  proof (cases "TransL2S_IsSendReady w1")
    case True
    then have ready: "TransL2S_IsSendReady v" if "l2Sending v = l2Sending w1" "l2Started v = l2Started w1" for v :: "'a STrans_scheme"
      using that by (simp add: TransL2S_IsSendReady_def)
    consider "Queue_GetSize (qSendingCMD w1) > 0"
      | "\<not> Queue_GetSize (qSendingCMD w1) > 0" "Queue_GetSize (qSendingData w1) > 0"
      | "\<not> Queue_GetSize (qSendingCMD w1) > 0" "\<not> Queue_GetSize (qSendingData w1) > 0" by blast
    then show ?thesis
    proof cases
      case 1
      from pop_owned(1) [OF w1(2) 1] obtain b v where p: "pop_cmd w1 = Some (Some b, v)" "owned (b # l) v" "sendable (mem v) b"
        "TransL2S_IsSendReady v" using ready by blast
      from L2_Send_owned [OF p(2-4)] show ?thesis using that 1 p(1) True by auto
    next
      case 2
      from pop_owned(2) [OF w1(2) 2(2)] obtain b v where p: "pop_data w1 = Some (Some b, v)" "owned (b # l) v" "sendable (mem v) b"
        "TransL2S_IsSendReady v" using ready by blast
      from L2_Send_owned [OF p(2-4)] show ?thesis using that 2 p(1) True by auto
    qed (use w1(2) that [of w1] in simp)
  qed (use w1(2) that [of w1] in simp)
  from L2_SendTask_owned [OF w2(2)] show ?thesis
    unfolding Trans_SendTask_def w1(1) Option.bind.bind_lunit w2(1) .
qed

lemma step_owned:
  assumes "l3_step app w w'" "owned l w"
  shows "owned l w'"
  using assms
proof (cases rule: l3_step.cases)
  case (post n data ctl r)
  then show ?thesis using Trans_send_step [OF assms(2)] by (simp add: Trans_Send_def)
next
  case tick
  then show ?thesis using assms(2) by (auto simp: owned_def Clb_UpdateTimer_def)
qed (use RecvTask_owned SendTask_owned L1TimeOut_owned rx_irq_owned tx_irq_owned assms(2) in \<open>fastforce\<close>)+

end

end
