(* ===== verification/TransceiverNode.thy ===== *)
theory TransceiverNode
  imports TransceiverSafe
begin

text \<open>
  A node: transport layer 3 with the callbacks of the user-interface port, from power-up on.  Its
  reachable states, and what the layer promises there: the ownership of the frame buffers, that the
  tasks never fault, and the exact effect of posting, aging and acknowledging a frame.
\<close>

section \<open>The user-interface port\<close>

interpretation ui: l3_app ui_clbs
  by unfold_locales (simp_all add: ui_clbs_def Clb_TransUI_RecvEvent_def Clb_TransUI_SentEvent_def)

definition l3_bss :: STrans where
  "l3_bss = STransL2S.extend l2_bss (STrans.fields False False
     \<lparr>pHead = None, pTail = None, mtx = True, u8Size = 0\<rparr> \<lparr>pHead = None, pTail = None, mtx = True, u8Size = 0\<rparr>
     \<lparr>pHead = None, pTail = None, mtx = True, u8Size = 0\<rparr> False False False)"

text \<open>The start of \<open>App_TaskTransUI\<close>: the callbacks are registered, then the layer is initialised.\<close>

definition ui_node :: "u32 \<Rightarrow> u32 \<Rightarrow> STrans" where
  "ui_node port baud = the (Trans_Init ui_clbs True
     (Trans_RegisterClbEvent (Trans_RegisterClbEvent l3_bss TRANS_EVT_RECV_DATA True) TRANS_EVT_SENT_DATA True) port baud)"

text \<open>A layer at power-up with the application \<open>app\<close> and its state \<open>x\<close>, as the transport tasks start it.\<close>

definition l3_boot :: "('a STrans_scheme) l3_clbs \<Rightarrow> 'a \<Rightarrow> u32 \<Rightarrow> u32 \<Rightarrow> 'a STrans_scheme" where
  "l3_boot app x port baud = the (Trans_Init app True
     (Trans_RegisterClbEvent (Trans_RegisterClbEvent (STrans.extend l3_bss x) TRANS_EVT_RECV_DATA True) TRANS_EVT_SENT_DATA True)
     port baud)"

lemma l3_boot_start:
  "tinv [] (l3_boot app x port baud) [] [] []" "bStarted (l3_boot app x port baud)" "\<not> l2Sending (l3_boot app x port baud)"
  "frmRecv (l3_boot app x port baud) = Some (P272, 0)" "l1_bytes (sTransL1 (l3_boot app x port baud)) = []"
  "u16RecvCount (l3_boot app x port baud) = 0" "u8NodeID (l3_boot app x port baud) = LOGGER_DEV_ID"
  "u8SeqLocal (l3_boot app x port baud) = 0" "l2Started (l3_boot app x port baud)" "\<not> bUpdateWaitingACKFrameState (l3_boot app x port baud)"
  "TransL1_IsSendReady (sTransL1 (l3_boot app x port baud))"
  "used_blocks (mem (l3_boot app x port baud)) = {(P272, 0)}" "u32UartPort (sTransL1 (l3_boot app x port baud)) = port"
    "l1Registered (sTransL1 (l3_boot app x port baud))" "fClbL1RecvData (sTransL1 (l3_boot app x port baud)) = Some L1RecvData"
    "u16MaxSize (sRecvFIFO (sTransL1 (l3_boot app x port baud))) = 512" "l1_ready (sTransL1 (l3_boot app x port baud))"
    "STrans.more (l3_boot app x port baud) = x"
proof -
  obtain ms where m: "Mem_Alloc LARGE_MEM_SIZE (OSA_FixedMemInit mem_bss) = (Some (P272, 0), ms)"
    "frame (smems ms (P272, 0)) = replicate 248 0" "mem_ok ms" "used_blocks ms = {(P272, 0)}" using alloc_first by blast
  have fr: "smems ms = (smems mem_bss)((P272, 0) := (smems mem_bss (P272, 0))\<lparr>pNext := None\<rparr>)"
    using Mem_Alloc_some [OF OSA_FixedMemInit_ok(1) m(1)] by simp
  let ?bss = "(l1_bss :: l1_clb STransL1)\<lparr>u32UartPort := port, u32BaudRate := baud\<rparr>"
  let ?l = "snd (TransL1_Init ?bss port baud)"
  have l: "fifo_wf (sRecvFIFO ?l)" "fifo_list (sRecvFIFO ?l) = []" "u16MaxSize (sRecvFIFO ?l) = 512" "l1Registered ?l"
    "l1Started ?l" "\<not> l1Sending ?l" "\<not> isTxBusy (trans_uart_state ?l)" "u32UartPort ?l = port"
    using TransL1_Init_bss [of port baud, where 'a = l1_clb] by (simp_all add: Let_def TransL1_Init_def TransL1_UARTInit_def l1_bss_def)
  obtain l' where l': "TransL1_Init ?bss port baud = (TRANS_SUCCESS, l')"
    by (simp add: TransL1_Init_def Let_def)
  define n where "n = l3_boot app x port baud"
  have e: "frmRecv n = Some (P272, 0)" "sMemRecv n = Some (P272, 0)" "\<not> l2Sending n" "mem n = ms" "u16RecvCount n = 0"
    "statDLen n = 0" "\<not> hL1TimeOutTimer n" "fClbL2RecvData n" "fClbL2SendDone n" "fClbL2Error n" "bStarted n" "u8NodeID n = LOGGER_DEV_ID"
    "u8SeqLocal n = 0" "l2Started n" "STrans.more n = x" "\<not> bUpdateWaitingACKFrameState n"
    "qSendingData n = \<lparr>pHead = None, pTail = None, mtx = True, u8Size = 0\<rparr>"
    "qSendingCMD n = \<lparr>pHead = None, pTail = None, mtx = True, u8Size = 0\<rparr>"
    "qSentQueue n = \<lparr>pHead = None, pTail = None, mtx = True, u8Size = 0\<rparr>"
    "sTransL1 n = l'\<lparr>fClbL1SendDone := Some L1SendDone, fClbL1RecvData := Some L1RecvData\<rparr>"
    using m(1) l' by (simp_all add: n_def l3_boot_def Trans_Init_def Trans_RegisterClbEvent_def l3_bss_def STransL2S.extend_def
        STrans.fields_def STrans.extend_def l2_bss_def Queue_Init_def TransL2S_SetL1Para_def upd_l1_def TransL2S_Init_def TransL2S_MemAlloc_def Let_def
        TransL1_RegisterClbEvent_def TransL2S_SetCheckSeqNum_def TransL2S_RegisterClbEvent_def)
  have q: "queue_rel \<lparr>pHead = None, pTail = None, mtx = True, u8Size = 0\<rparr> ms []" by (simp add: queue_rel_def)
  have h: "rx_held n = [(P272, 0)]" "tx_held n = []" using e by (simp_all add: rx_held_def tx_held_def)
  have "frames_ok ms" by (auto simp: frames_ok_def fr mem_bss_def)
  then have "store_inv ([] @ rx_held n @ tx_held n) (qs_of n [] [] []) (mem n)"
    using m(3,4) q e h by (simp add: store_inv_def qs_of_def)
  then have "tinv [] n [] [] []"
    using e m(2) l l' by (simp add: tinv_def rx_ok_def tx_ok_def clbs_on_def frm_def l1_ok_def)
  then show "tinv [] (l3_boot app x port baud) [] [] []" "bStarted (l3_boot app x port baud)" "\<not> l2Sending (l3_boot app x port baud)"
    "frmRecv (l3_boot app x port baud) = Some (P272, 0)" "l1_bytes (sTransL1 (l3_boot app x port baud)) = []"
    "u16RecvCount (l3_boot app x port baud) = 0" "u8NodeID (l3_boot app x port baud) = LOGGER_DEV_ID"
    "u8SeqLocal (l3_boot app x port baud) = 0" "l2Started (l3_boot app x port baud)" "\<not> bUpdateWaitingACKFrameState (l3_boot app x port baud)"
    "TransL1_IsSendReady (sTransL1 (l3_boot app x port baud))"
    "used_blocks (mem (l3_boot app x port baud)) = {(P272, 0)}" "u32UartPort (sTransL1 (l3_boot app x port baud)) = port"
    "l1Registered (sTransL1 (l3_boot app x port baud))" "fClbL1RecvData (sTransL1 (l3_boot app x port baud)) = Some L1RecvData"
    "u16MaxSize (sRecvFIFO (sTransL1 (l3_boot app x port baud))) = 512" "l1_ready (sTransL1 (l3_boot app x port baud))"
    "STrans.more (l3_boot app x port baud) = x"
    using e l l' m(4) unfolding n_def [symmetric] by (simp_all add: l1_bytes_def TransL1_IsSendReady_def l1_ready_def)
qed

lemma ui_node_boot: "ui_node port baud = l3_boot ui_clbs () port baud"
proof -
  have "STrans.extend l3_bss () = l3_bss" by (simp add: STrans.extend_def l3_bss_def STransL2S.extend_def STrans.fields_def)
  then show ?thesis by (simp add: ui_node_def l3_boot_def)
qed

lemmas ui_node_start = l3_boot_start [of ui_clbs "()", folded ui_node_boot]

section \<open>Reachable states\<close>

inductive trans_reachable :: "STrans \<Rightarrow> bool" where
  boot: "trans_reachable (ui_node port baud)"
| step: "trans_reachable w \<Longrightarrow> l3_step ui_clbs w w' \<Longrightarrow> trans_reachable w'"

lemma reachable_owned: "trans_reachable w \<Longrightarrow> owned [] w"
proof (induction rule: trans_reachable.induct)
  case (boot port baud)
  show ?case unfolding owned_def using ui_node_start(1) by blast
qed (rule ui.step_owned)

lemma owned_summary:
  assumes "owned [] w"
  shows "\<exists>D C S. queue_rel (qSendingData w) (mem w) D \<and> queue_rel (qSendingCMD w) (mem w) C \<and> queue_rel (qSentQueue w) (mem w) S
    \<and> distinct (rx_held w @ tx_held w @ D @ C @ S) \<and> set (rx_held w @ tx_held w @ D @ C @ S) \<subseteq> used_blocks (mem w)
    \<and> mem_ok (mem w)"
proof -
  obtain D C S where t: "tinv [] w D C S" using assms unfolding owned_def by blast
  have "store_inv (rx_held w @ tx_held w) [(qSendingData w, D), (qSendingCMD w, C), (qSentQueue w, S)] (mem w)"
    using tinv_store [OF t] by simp
  then show ?thesis by (intro exI [of _ D] exI [of _ C] exI [of _ S]) (simp add: store_inv_def)
qed

text \<open>Whatever the tasks, timers and interrupts do, in every reachable state the three queues are
  well-formed lists and a frame buffer is in at most one of them, being received into or being sent: no
  buffer is queued twice, none in use has been given back, and the allocator's structures are intact.\<close>

theorem Trans_owns_buffers:
  assumes "trans_reachable w"
  shows "\<exists>D C S. queue_rel (qSendingData w) (mem w) D \<and> queue_rel (qSendingCMD w) (mem w) C \<and> queue_rel (qSentQueue w) (mem w) S
    \<and> distinct (rx_held w @ tx_held w @ D @ C @ S) \<and> set (rx_held w @ tx_held w @ D @ C @ S) \<subseteq> used_blocks (mem w)
    \<and> mem_ok (mem w)"
  by (rule owned_summary [OF reachable_owned [OF assms]])

lemma Trans_owns_buffers_witness:
  "\<exists>D C S. queue_rel (qSentQueue (Clb_UpdateTimer (ui_node 1 115200))) (mem (Clb_UpdateTimer (ui_node 1 115200))) S
     \<and> distinct (rx_held (Clb_UpdateTimer (ui_node 1 115200)) @ tx_held (Clb_UpdateTimer (ui_node 1 115200)) @ D @ C @ S)"
proof -
  have "trans_reachable (Clb_UpdateTimer (ui_node 1 115200))"
    by (rule trans_reachable.step [OF trans_reachable.boot l3_step.tick])
  from Trans_owns_buffers [OF this] show ?thesis by blast
qed

text \<open>In every reachable state the send task, the posting of a frame (with as many data bytes as announced, a data
  frame with at least one)
  and a firing transmission timer run to the end without touching a NULL pointer or memory outside a frame.\<close>

theorem Trans_tasks_never_fault:
  assumes "trans_reachable w" "unat (capped n) \<le> length d" "ctl AND 0x3F = FRM_DATA \<Longrightarrow> 0 < n"
  shows "Trans_SendTask ui_clbs w \<noteq> None \<and> Trans_Send w n (Some d) ctl \<noteq> None
    \<and> (hL1TimeOutTimer w \<longrightarrow> Clb_L1TimeOutTimer (l3_l2_clbs ui_clbs) w \<noteq> None)"
proof -
  have o: "owned [] w" by (rule reachable_owned [OF assms(1)])
  show ?thesis
    using ui.SendTask_owned [OF o] Trans_send_owned [OF o, of n "Some d" ctl E_DATA_FRM] ui.L1TimeOut_owned [OF o] assms(2)
      assms(3) by (auto simp: Trans_Send_def)
qed

lemma Trans_tasks_never_fault_witness:
  "Trans_SendTask ui_clbs (ui_node 1 115200) \<noteq> None"
  using Trans_tasks_never_fault [OF trans_reachable.boot [of 1 115200], of 2 "[7, 8]"] by (simp add: capped_def)

end
