(* ===== verification/TransceiverSpec.thy ===== *)
theory TransceiverSpec
  imports TransceiverNode
begin

text \<open>
  What transport layer 3 does: posting a frame, the aging of frames that wait for an acknowledge,
  the acknowledge and the negative acknowledge from the wire to the queues, the order of sending, and
  the frame that is lost when the port refuses it.
\<close>

section \<open>A node with one frame\<close>

text \<open>The node after power-up with a frame of no data in hand, its fields as given.\<close>

lemma ui_loose:
  obtains ms b where "tinv [b] ((ui_node port baud)\<lparr>mem := ms\<rparr>) [] [] []" "sendable ms b"
    "u8Seq (smems ms b) = s" "u8NumSend (smems ms b) = n" "i16TimeOut (smems ms b) = t" "u16DLen (smems ms b) = 0" "u8Ctrl (smems ms b) = ct"
proof -
  let ?w = "ui_node port baud" and ?sz = "8 + 16 + (2 + 8) :: u16"
  note u = ui_node_start(1) [of port baud]
  have ok: "mem_ok (mem ?w)" using u by (simp add: tinv_def store_inv_def)
  obtain r ms where m: "Mem_Alloc ?sz (mem ?w) = (r, ms)" by fastforce
  have "r \<noteq> None"
  proof
    assume "r = None"
    from Mem_Alloc_none [OF ok m [unfolded this]] have "free_list P64 (mem ?w) = []" by (simp add: select_part_nat)
    then have "(P64, 0) \<in> used_blocks (mem ?w)" by (simp add: used_blocks_def)
    then show False by (simp add: ui_node_start(12))
  qed
  then obtain b where m: "Mem_Alloc ?sz (mem ?w) = (Some b, ms)" using m by auto
  note a = alloc_tinv [OF u m, unfolded option.case]
  let ?f = "\<lambda>m. m\<lparr>u16DLen := 0, u8Seq := s, u8NumSend := n, i16TimeOut := t, u8Ctrl := ct\<rparr>"
  have l8: "10 \<le> length (frame (smems ms b))"
  proof -
    have "unat ?sz - 24 \<le> length (frame (smems ms b))" using a by blast
    then show ?thesis by simp
  qed
  have "tinv [b] (upd_mem b ?f (?w\<lparr>mem := ms\<rparr>)) [] [] []"
    by (rule tinv_upd_mem) (use a in \<open>simp_all add: sendable_def upd_mem_def\<close>)
  then show ?thesis using l8 that [of b "upd_smem b ?f ms"] by (simp add: upd_mem_def sendable_def)
qed

lemma ui_sent:
  obtains q ms b where "tinv [] ((ui_node port baud)\<lparr>qSentQueue := q, mem := ms\<rparr>) [] [] [b]"
    "u8Seq (smems ms b) = s" "u8NumSend (smems ms b) = n" "i16TimeOut (smems ms b) = t"
proof -
  obtain ms b where l: "tinv [b] ((ui_node port baud)\<lparr>mem := ms\<rparr>) [] [] []" "sendable ms b"
    "u8Seq (smems ms b) = s" "u8NumSend (smems ms b) = n" "i16TimeOut (smems ms b) = t" "u16DLen (smems ms b) = 0" "u8Ctrl (smems ms b) = 0"
    by (rule ui_loose)
  define w where "w = (ui_node port baud)\<lparr>mem := ms\<rparr>"
  have w: "tinv [b] w [] [] []" "sendable (mem w) b" using l by (simp_all add: w_def)
  from push_sent_tinv [OF w] obtain q ms2 where p: "tinv [] (w\<lparr>qSentQueue := q, mem := ms2\<rparr>) [] [] ([] @ [b])"
    "body_same (mem w) ms2" by metis
  show ?thesis using that [where q = q and ms = ms2 and b = b] p(1) l body_same_sel [OF p(2), of b] by (simp add: w_def)
qed


lemma with_seq_split:
  assumes "\<forall>k \<in> set ks. u8Seq (smems ms k) \<noteq> sq" "u8Seq (smems ms b) = sq"
  shows "with_seq sq ms (ks @ b # zs) = (Some b, ks @ zs)"
proof -
  have "List.extract (\<lambda>x. SearchSeqFrame sq (smems ms x)) (ks @ b # zs) = Some (ks, b, zs)"
    using assms by (simp add: extract_Some_iff SearchSeqFrame_def)
  then show ?thesis by (simp add: with_seq_def list_remove_def)
qed

lemma ack_nack: "(CMD_NACK = CMD_ACK) = False"
  by (simp add: CMD_ACK_def CMD_NACK_def)

section \<open>Acknowledges\<close>

lemma RecvTask_cmd:
  fixes w :: "'a STrans_scheme"
  assumes t: "tinv [] w D C S" and rb: "frmRecv w = Some rb" "u16RecvCount w = 0" "length data \<le> 240"
    and bytes: "l1_bytes (sTransL1 w) = ns @ frame_bytes src (u8NodeID w) sq ctrl data @ l"
    and q: "quiet (ns @ frame_bytes src (u8NodeID w) sq ctrl data @ l) (length ns)"
    and ct: "\<not> IS_DATA_FRM ctrl" "\<not> IS_ACK_REQ ctrl" "GET_FRM_TYPE ctrl = CMD_ACK \<or> GET_FRM_TYPE ctrl = CMD_NACK"
  obtains v where "TransL2S_RecvTask (l3_l2_clbs app) w =
      Some (if GET_FRM_TYPE ctrl = CMD_ACK then TRANSL2_RCV_ACK else TRANSL2_RCV_NACK, v)"
    "tinv [] v D C S" "u8SeqCMDFrm v = sq" "\<forall>b. b \<noteq> rb \<longrightarrow> smems (mem v) b = smems (mem w) b"
    "used_blocks (mem v) = used_blocks (mem w)"
proof -
  have inv: "rx_inv rb w" using t by (intro rx_ok_inv [OF _ rb(1)]) (simp add: tinv_def)
  obtain w' where w': "ProcessRecvData (l3_l2_clbs app) w = Some (True, w')" "rx_same rb w w'"
    "take (8 + length data) (frm rb w') = frame_bytes src (u8NodeID w) sq ctrl data"
    using ProcessRecvData_frame [OF rb(1) inv rb(2,3) bytes q] by blast
  obtain f ff c s where e: "w' = with_frm rb f (w\<lparr>sTransL1 := (sTransL1 w)\<lparr>sRecvFIFO := ff\<rparr>, u16RecvCount := c, statDLen := s\<rparr>)"
    using w'(2) unfolding rx_same_def by blast
  have t': "tinv [] w' D C S" using ProcessRecvData_tinv [OF t w'(1)] by simp
  have r: "frmRecv w' = Some rb" "u8NodeID w' = u8NodeID w" using rb(1) by (simp_all add: e)
  have "OnRecvFrame (l3_l2_clbs app) w' =
      Some (if GET_FRM_TYPE ctrl = CMD_ACK then TRANSL2_RCV_ACK else TRANSL2_RCV_NACK, w'\<lparr>u8SeqCMDFrm := sq\<rparr>)"
    using OnRecvFrame_good [OF r(1) w'(3) rb(3)] ct r(2) by (auto simp: for_us_def ack_wanted_def CMD_ACK_def CMD_NACK_def)
  then have "TransL2S_RecvTask (l3_l2_clbs app) w =
      Some (if GET_FRM_TYPE ctrl = CMD_ACK then TRANSL2_RCV_ACK else TRANSL2_RCV_NACK, w'\<lparr>u8SeqCMDFrm := sq\<rparr>)"
    using w'(1) by (simp add: TransL2S_RecvTask_def)
  moreover have "tinv [] (w'\<lparr>u8SeqCMDFrm := sq\<rparr>) D C S"
    using t' by simp
  moreover have "\<forall>b. b \<noteq> rb \<longrightarrow> smems (mem w') b = smems (mem w) b" "used_blocks (mem w') = used_blocks (mem w)"
    by (simp_all add: e with_frm_def upd_mem_def)
  ultimately show ?thesis by (intro that [of "w'\<lparr>u8SeqCMDFrm := sq\<rparr>"]) simp_all
qed

text \<open>Taking the frame \<open>b\<close> out of the sent queue, in the state \<open>v\<close> after layer 2 has received into \<open>rb\<close>.\<close>

lemma remove_acked:
  assumes w: "tinv [] w D C (ks @ b # zs)" "frmRecv w = Some rb"
    and v: "tinv [] v D C (ks @ b # zs)" "\<forall>b. b \<noteq> rb \<longrightarrow> smems (mem v) b = smems (mem w) b"
    and sq: "u8Seq (smems (mem w) b) = sq" "\<forall>k \<in> set ks. u8Seq (smems (mem w) k) \<noteq> sq"
  obtains q ms where "remove_sent sq v = Some (Some b, v\<lparr>qSentQueue := q, mem := ms\<rparr>)"
    "tinv [b] (v\<lparr>qSentQueue := q, mem := ms\<rparr>) D C (ks @ zs)" "used_blocks ms = used_blocks (mem v)"
    "u8NumSend (smems ms b) = u8NumSend (smems (mem w) b)" "sendable ms b"
proof -
  have nrb: "x \<noteq> rb" if "x \<in> set (ks @ b # zs)" for x
    using tinv_distinct(1) [OF w(1)] w(2) that by (auto simp: rx_held_def)
  have s: "smems (mem v) x = smems (mem w) x" if "x \<in> set (ks @ b # zs)" for x using v(2) nrb [OF that] by blast
  have ws: "with_seq sq (mem v) (ks @ b # zs) = (Some b, ks @ zs)"
    by (rule with_seq_split) (use s sq in auto)
  from remove_sent_tinv [OF v(1) ws] obtain q ms where r: "remove_sent sq v = Some (Some b, v\<lparr>qSentQueue := q, mem := ms\<rparr>)"
    "body_same (mem v) ms" "tinv [b] (v\<lparr>qSentQueue := q, mem := ms\<rparr>) D C (ks @ zs)"
    "links_only (set (ks @ b # zs) - {b}) (mem v) ms" by (metis option.case(2) option.simps(15))
  have "sendable ms b" using tinv_sendable [OF v(1)] body_same_sendable [OF r(2)] by simp
  then show ?thesis using that [OF r(1,3)] links_only_mem [OF r(4)] body_same_sel(5) [OF r(2)] s by simp
qed

lemma free_used:
  assumes "tinv (b # l) w D C S"
  shows "used_blocks (mem (free_mem b w)) = used_blocks (mem w) - {b}"
  using tinv_store [OF assms] Free_ok [of "mem w" b] by (simp add: store_inv_def Mem_Free_def free_mem_def)

text \<open>A node with the frame \<open>b\<close> (sequence number 5) waiting and the bytes of a command frame received.\<close>

lemma ui_command:
  obtains w :: STrans and b where "tinv [] w [] [] [b]" "frmRecv w = Some (P272, 0)" "u16RecvCount w = 0"
    "l1_bytes (sTransL1 w) = [] @ frame_bytes 1 (u8NodeID w) 5 ct [] @ []" "u8Seq (smems (mem w) b) = 5"
    "u8NumSend (smems (mem w) b) = 2"
proof -
  obtain q ms b where s: "tinv [] ((ui_node 1 115200)\<lparr>qSentQueue := q, mem := ms\<rparr>) [] [] [b]"
    "u8Seq (smems ms b) = 5" "u8NumSend (smems ms b) = 2" "i16TimeOut (smems ms b) = 9" by (rule ui_sent)
  define v where "v = (ui_node 1 115200)\<lparr>qSentQueue := q, mem := ms\<rparr>"
  note u = ui_node_start [of 1 115200]
  have v: "tinv [] v [] [] [b]" "frmRecv v = Some (P272, 0)" "u16RecvCount v = 0" "u8NodeID v = LOGGER_DEV_ID"
    "sTransL1 v = sTransL1 (ui_node 1 115200)" "mem v = ms" using s(1) u by (simp_all add: v_def)
  let ?xs = "frame_bytes 1 LOGGER_DEV_ID 5 ct []"
  have inv: "rx_inv (P272, 0) v" using v(1) by (intro rx_ok_inv [OF _ v(2)]) (simp add: tinv_def)
  have c: "fClbL1RecvData (sTransL1 v) \<noteq> Some L1SendDone" using u by (simp add: v(5))
  have r: "rx_inv (P272, 0) (fold l2_rx_irq ?xs v)" "l1_bytes (sTransL1 (fold l2_rx_irq ?xs v)) = ?xs"
    "\<exists>ff. fold l2_rx_irq ?xs v = v\<lparr>sTransL1 := (sTransL1 v)\<lparr>sRecvFIFO := ff\<rparr>\<rparr>"
    using rx_irq_bytes [OF inv _ c, of ?xs] u by (simp_all add: v(5))
  obtain l1 where l1: "fold l2_rx_irq ?xs v = v\<lparr>sTransL1 := l1\<rparr>" using r(3) by blast
  have "l1_ok l1" "l1_bytes l1 = ?xs" using r(1,2) by (simp_all add: l1 rx_inv_def)
  from tinv_l1 [OF v(1) this(1)] this(2) show ?thesis
    using that [of "v\<lparr>sTransL1 := l1\<rparr>" b] v s by simp
qed

text \<open>C10: when the bytes of a valid acknowledge arrive, behind noise that holds no valid header, and a frame with
  its sequence number waits in the sent queue, the receive task takes exactly that frame out of the
  queue and gives its buffer back; the other queues are untouched.\<close>

theorem Trans_ack_releases:
  fixes w :: "'a STrans_scheme"
  assumes "tinv [] w D C (ks @ b # zs)" "frmRecv w = Some rb" "u16RecvCount w = 0" "length data \<le> 240"
    and "l1_bytes (sTransL1 w) = ns @ frame_bytes src (u8NodeID w) sq ctrl data @ l"
    and "quiet (ns @ frame_bytes src (u8NodeID w) sq ctrl data @ l) (length ns)"
    and "\<not> IS_DATA_FRM ctrl" "\<not> IS_ACK_REQ ctrl" "GET_FRM_TYPE ctrl = CMD_ACK"
    and "u8Seq (smems (mem w) b) = sq" "\<forall>k \<in> set ks. u8Seq (smems (mem w) k) \<noteq> sq"
  shows "\<exists>w'. Trans_RecvTask app w = Some w' \<and> tinv [] w' D C (ks @ zs) \<and> used_blocks (mem w') = used_blocks (mem w) - {b}"
proof -
  obtain v where v: "TransL2S_RecvTask (l3_l2_clbs app) w = Some (TRANSL2_RCV_ACK, v)"
    "tinv [] v D C (ks @ b # zs)" "u8SeqCMDFrm v = sq" "\<forall>b. b \<noteq> rb \<longrightarrow> smems (mem v) b = smems (mem w) b"
    "used_blocks (mem v) = used_blocks (mem w)"
    by (rule RecvTask_cmd [OF assms(1-8) disjI1 [OF assms(9)], of app, unfolded assms(9) simp_thms if_True])
  obtain q ms where r: "remove_sent sq v = Some (Some b, v\<lparr>qSentQueue := q, mem := ms\<rparr>)"
    "tinv [b] (v\<lparr>qSentQueue := q, mem := ms\<rparr>) D C (ks @ zs)" "used_blocks ms = used_blocks (mem v)"
    "u8NumSend (smems ms b) = u8NumSend (smems (mem w) b)" "sendable ms b"
    by (rule remove_acked [OF assms(1,2) v(2,4) assms(10,11)])
  show ?thesis
    using free_mem_tinv(1) [OF r(2)] free_used [OF r(2)] v r by (simp add: Trans_RecvTask_def)
qed

lemma Trans_ack_releases_witness:
  "\<exists>(w :: STrans) b w'. tinv [] w [] [] [b] \<and> Trans_RecvTask ui_clbs w = Some w' \<and> tinv [] w' [] [] [] \<and> used_blocks (mem w') = used_blocks (mem w) - {b}"
proof -
  obtain w :: STrans and b where w: "tinv [] w [] [] ([] @ b # [])" "frmRecv w = Some (P272, 0)" "u16RecvCount w = 0"
    "l1_bytes (sTransL1 w) = [] @ frame_bytes 1 (u8NodeID w) 5 1 [] @ []" "u8Seq (smems (mem w) b) = 5"
    "u8NumSend (smems (mem w) b) = 2"
    by (rule ui_command [where ct = 1]) simp
  have "quiet ([] @ frame_bytes 1 (u8NodeID w) 5 1 [] @ []) (length ([] :: u8 list))" by (simp add: quiet_def)
  from Trans_ack_releases [OF w(1-3) _ w(4) this _ _ _ w(5), of ui_clbs] have
    "\<exists>w'. Trans_RecvTask ui_clbs w = Some w' \<and> tinv [] w' [] [] [] \<and> used_blocks (mem w') = used_blocks (mem w) - {b}"
    using w(6) by (auto simp: IS_DATA_FRM_def IS_ACK_REQ_def GET_FRM_TYPE_def CMD_ACK_def CMD_NACK_def)
  then show ?thesis using w(1) unfolding append_Nil by blast
qed

text \<open>A negative acknowledge puts the frame it names back at the end of the data queue with a fresh timeout;
  its count of remaining transmissions is neither checked nor lowered.\<close>

theorem Trans_nack_requeues:
  fixes w :: "'a STrans_scheme"
  assumes "tinv [] w D C (ks @ b # zs)" "frmRecv w = Some rb" "u16RecvCount w = 0" "length data \<le> 240"
    and "l1_bytes (sTransL1 w) = ns @ frame_bytes src (u8NodeID w) sq ctrl data @ l"
    and "quiet (ns @ frame_bytes src (u8NodeID w) sq ctrl data @ l) (length ns)"
    and "\<not> IS_DATA_FRM ctrl" "\<not> IS_ACK_REQ ctrl" "GET_FRM_TYPE ctrl = CMD_NACK"
    and "u8Seq (smems (mem w) b) = sq" "\<forall>k \<in> set ks. u8Seq (smems (mem w) k) \<noteq> sq"
  shows "\<exists>w'. Trans_RecvTask app w = Some w' \<and> tinv [] w' (D @ [b]) C (ks @ zs)
    \<and> i16TimeOut (smems (mem w') b) = TRANS_TIMEOUT_TICK \<and> u8NumSend (smems (mem w') b) = u8NumSend (smems (mem w) b)
    \<and> used_blocks (mem w') = used_blocks (mem w)"
proof -
  obtain v where v: "TransL2S_RecvTask (l3_l2_clbs app) w = Some (TRANSL2_RCV_NACK, v)"
    "tinv [] v D C (ks @ b # zs)" "u8SeqCMDFrm v = sq" "\<forall>b. b \<noteq> rb \<longrightarrow> smems (mem v) b = smems (mem w) b"
    "used_blocks (mem v) = used_blocks (mem w)"
    by (rule RecvTask_cmd [OF assms(1-8) disjI2 [OF assms(9)], of app, unfolded assms(9) ack_nack if_False])
  obtain q ms where r: "remove_sent sq v = Some (Some b, v\<lparr>qSentQueue := q, mem := ms\<rparr>)"
    "tinv [b] (v\<lparr>qSentQueue := q, mem := ms\<rparr>) D C (ks @ zs)" "used_blocks ms = used_blocks (mem v)"
    "u8NumSend (smems ms b) = u8NumSend (smems (mem w) b)" "sendable ms b"
    by (rule remove_acked [OF assms(1,2) v(2,4) assms(10,11)])
  let ?u = "upd_mem b (\<lambda>m. m\<lparr>i16TimeOut := TRANS_TIMEOUT_TICK\<rparr>) (v\<lparr>qSentQueue := q, mem := ms\<rparr>)"
  have u: "tinv [b] ?u D C (ks @ zs)" by (rule age_step [OF r(2)])
  have "sendable (mem ?u) b" using r(5) by (simp add: sendable_def upd_mem_def)
  from push_data_tinv [OF u this] obtain q2 ms2 where p: "push_data (Some b) ?u = Some (?u\<lparr>qSendingData := q2, mem := ms2\<rparr>)"
    "body_same (mem ?u) ms2" "tinv [] (?u\<lparr>qSendingData := q2, mem := ms2\<rparr>) (D @ [b]) C (ks @ zs)"
    "used_blocks ms2 = used_blocks (mem ?u)" by metis
  have "Trans_RecvTask app w = Some (?u\<lparr>qSendingData := q2, mem := ms2\<rparr>)"
    using v(1,3) r(1) p(1) by (simp add: Trans_RecvTask_def)
  moreover have "i16TimeOut (smems ms2 b) = TRANS_TIMEOUT_TICK" "u8NumSend (smems ms2 b) = u8NumSend (smems (mem w) b)"
    using body_same_sel(5,6) [OF p(2), of b] r(4) by (simp_all add: upd_mem_def)
  moreover have "used_blocks ms2 = used_blocks (mem w)" using p(4) r(3) v(5) by (simp add: upd_mem_def)
  ultimately show ?thesis using p(3) by simp
qed

lemma Trans_nack_requeues_witness:
  "\<exists>(w :: STrans) b w'. tinv [] w [] [] [b] \<and> Trans_RecvTask ui_clbs w = Some w' \<and> tinv [] w' ([] @ [b]) [] ([] @ []) \<and> u8NumSend (smems (mem w') b) = 2"
proof -
  obtain w :: STrans and b where w: "tinv [] w [] [] ([] @ b # [])" "frmRecv w = Some (P272, 0)" "u16RecvCount w = 0"
    "l1_bytes (sTransL1 w) = [] @ frame_bytes 1 (u8NodeID w) 5 2 [] @ []" "u8Seq (smems (mem w) b) = 5"
    "u8NumSend (smems (mem w) b) = 2"
    by (rule ui_command [where ct = 2]) simp
  have "quiet ([] @ frame_bytes 1 (u8NodeID w) 5 2 [] @ []) (length ([] :: u8 list))" by (simp add: quiet_def)
  from Trans_nack_requeues [OF w(1-3) _ w(4) this _ _ _ w(5), of ui_clbs] have
    "\<exists>w'. Trans_RecvTask ui_clbs w = Some w' \<and> tinv [] w' ([] @ [b]) [] ([] @ []) \<and> u8NumSend (smems (mem w') b) = 2"
    using w(6) by (auto simp: IS_DATA_FRM_def IS_ACK_REQ_def GET_FRM_TYPE_def CMD_ACK_def CMD_NACK_def)
  then show ?thesis using w(1) unfolding append_Nil by blast
qed

section \<open>Sending\<close>

lemma L2_Send_state:
  fixes w :: "'a STrans_scheme"
  assumes "tinv (b # l) w D C S" "sendable (mem w) b" "TransL2S_IsSendReady w"
    and data: "data = take (unat (u16DLen (smems (mem w) b))) (drop 8 (frm b w))"
  shows "TransL2S_Send w dst b = Some (TRANS_SUCCESS, sent_state dst b data w)" "tinv l (sent_state dst b data w) D C S"
proof -
  have "u16DLen (smems (mem w) b) \<le> 240" "8 + unat (u16DLen (smems (mem w) b)) \<le> length (frm b w)"
    using assms(2) by (simp_all add: sendable_def frm_def)
  from TransL2S_Send_ok [OF assms(3) this data] show r: "TransL2S_Send w dst b = Some (TRANS_SUCCESS, sent_state dst b data w)" .
  from L2_Send_tinv [OF assms(1-3), of dst] r show "tinv l (sent_state dst b data w) D C S" by simp
qed

text \<open>The bytes of the frame in the buffer \<open>b\<close> as the node \<open>i\<close> puts them on the wire.\<close>

definition wire_bytes :: "u8 \<Rightarrow> smem \<Rightarrow> u8 list" where
  "wire_bytes i m = frame_bytes i LOGGER_PC_ID (u8Seq m) (u8Ctrl m) (take (unat (u16DLen m)) (drop 8 (frame m)))"

lemma pop_next:
  fixes w :: "'a STrans_scheme"
  assumes t: "tinv [] w D C S" and n: "C @ D = b # xs"
  obtains v where "(if Queue_GetSize (qSendingCMD w) > 0 then pop_cmd w
      else if Queue_GetSize (qSendingData w) > 0 then pop_data w else Some (None, w)) = Some (Some b, v)"
    "tinv [b] v (if C = [] then tl D else D) (tl C) S" "body_same (mem w) (mem v)"
    "\<exists>c d ms. v = w\<lparr>qSendingCMD := c, qSendingData := d, mem := ms\<rparr>"
proof -
  have q: "queue_rel (qSendingCMD w) (mem w) C" "queue_rel (qSendingData w) (mem w) D"
    using tinv_store [OF t] by (simp_all add: store_inv_def)
  have sz: "(Queue_GetSize (qSendingCMD w) > 0) = (C \<noteq> [])" "(Queue_GetSize (qSendingData w) > 0) = (D \<noteq> [])"
    using queue_rel_size [OF q(1)] queue_rel_size [OF q(2)] by (simp_all add: Queue_GetSize_def word_gt_0)
  show ?thesis
  proof (cases C)
    case Nil
    with n have D: "D = b # xs" by simp
    from pop_data_tinv [OF t [unfolded D]] obtain q ms where p: "pop_data w = Some (Some b, w\<lparr>qSendingData := q, mem := ms\<rparr>)"
      "body_same (mem w) ms" "tinv [b] (w\<lparr>qSendingData := q, mem := ms\<rparr>) xs C S" by metis
    have "\<exists>c d m. w\<lparr>qSendingData := q, mem := ms\<rparr> = w\<lparr>qSendingCMD := c, qSendingData := d, mem := m\<rparr>"
      by (intro exI [of _ "qSendingCMD w"] exI [of _ q] exI [of _ ms]) simp
    from that [OF _ _ _ this] show ?thesis using p Nil D sz by simp
  next
    case (Cons c C')
    with n have C: "C = b # C'" by simp
    from pop_cmd_tinv [OF t [unfolded C]] obtain q ms where p: "pop_cmd w = Some (Some b, w\<lparr>qSendingCMD := q, mem := ms\<rparr>)"
      "body_same (mem w) ms" "tinv [b] (w\<lparr>qSendingCMD := q, mem := ms\<rparr>) D C' S" by metis
    have "\<exists>c d m. w\<lparr>qSendingCMD := q, mem := ms\<rparr> = w\<lparr>qSendingCMD := c, qSendingData := d, mem := m\<rparr>"
      by (intro exI [of _ q] exI [of _ "qSendingData w"] exI [of _ ms]) simp
    from that [OF _ _ _ this] show ?thesis using p C sz by simp
  qed
qed

text \<open>The part of the state that neither sending nor receiving a frame touches.\<close>

definition sent_env :: "'a STrans_scheme \<Rightarrow> u8 \<times> bool \<times> bool \<times> bool \<times> bool \<times> bool \<times> blk option \<times> u16 \<times> u8 \<times> 'a" where
  "sent_env w = (u8NodeID w, bStarted w, bUpdateWaitingACKFrameState w, bCheckSeqNum w, fClbRecv w, l2Started w,
     frmRecv w, u16RecvCount w, u8SeqRemote w, STrans.more w)"

lemma SendTask_take:
  fixes w :: "'a STrans_scheme"
  assumes t: "tinv [] w D C S" and n: "C @ D = b # xs"
    and r: "\<not> bUpdateWaitingACKFrameState w" "TransL2S_IsSendReady w"
  obtains u where "Trans_SendTask app w = TransL2S_SendTask (l3_l2_clbs app) u"
    "tinv [] u (if C = [] then tl D else D) (tl C) S" "sTransL1 u = sTransL1 w" "frmSend u = Some b" "sMemSend u = Some b"
    "l2Sending u" "\<not> bWaitingL1Send u" "\<exists>r. frm b u = wire_bytes (u8NodeID w) (smems (mem w) b) @ r" "fClbL2Error u"
    "u8NumSend (smems (mem u) b) = u8NumSend (smems (mem w) b) - 1" "unat (u16DLen (smems (mem w) b)) \<le> 240"
    "8 + unat (u16DLen (smems (mem w) b)) \<le> length (frm b w)" "rx_held u = rx_held w" "sent_env u = sent_env w"
proof -
  obtain v where v: "(if Queue_GetSize (qSendingCMD w) > 0 then pop_cmd w
      else if Queue_GetSize (qSendingData w) > 0 then pop_data w else Some (None, w)) = Some (Some b, v)"
    "tinv [b] v (if C = [] then tl D else D) (tl C) S" "body_same (mem w) (mem v)"
    "\<exists>c d ms. v = w\<lparr>qSendingCMD := c, qSendingData := d, mem := ms\<rparr>" by (rule pop_next [OF t n])
  have f: "TransL2S_IsSendReady v" "sTransL1 v = sTransL1 w" "u8NodeID v = u8NodeID w" "rx_held v = rx_held w"
    using v(4) r(2) by (auto simp: TransL2S_IsSendReady_def rx_held_def)
  have "b \<in> set (D @ C @ S)" using n by (metis Un_iff list.set_intros(1) set_append)
  then have sd: "sendable (mem w) b" using tinv_sendable [OF t] by blast
  then have sv: "sendable (mem v) b" using body_same_sendable [OF v(3)] by simp
  define data where "data = take (unat (u16DLen (smems (mem v) b))) (drop 8 (frm b v))"
  note s = L2_Send_state [OF v(2) sv f(1) data_def, of LOGGER_PC_ID]
  define u where "u = sent_state LOGGER_PC_ID b data v"
  have "Trans_SendTask app w = TransL2S_SendTask (l3_l2_clbs app) u"
    unfolding Trans_SendTask_def if_not_P [OF r(1)] Option.bind.bind_lunit if_P [OF r(2)] v(1)
    by (simp add: u_def s(1))
  moreover have "frm b u = wire_bytes (u8NodeID w) (smems (mem w) b) @ drop (8 + length data) (frm b v)"
    unfolding u_def frm_sent by (simp add: wire_bytes_def data_def f(3) body_same_sel [OF v(3)] frm_def)
  then have "\<exists>r. frm b u = wire_bytes (u8NodeID w) (smems (mem w) b) @ r" by blast
  moreover have "u8NumSend (smems (mem u) b) = u8NumSend (smems (mem w) b) - 1"
    by (simp add: u_def smems_sent body_same_sel [OF v(3)])
  moreover have "fClbL2Error u" using s(2) by (simp add: u_def tinv_def clbs_on_def)
  moreover have "unat (u16DLen (smems (mem w) b)) \<le> 240" "8 + unat (u16DLen (smems (mem w) b)) \<le> length (frm b w)"
    using sd by (simp_all add: sendable_def word_le_nat_alt frm_def)
  moreover have "sent_env u = sent_env w"
    using v(4) by (auto simp: u_def sent_state_def Let_def with_frm_def upd_mem_def sent_env_def)
  moreover have "rx_held u = rx_held w"
    using f(4) by (simp add: u_def sent_state_def Let_def with_frm_def upd_mem_def rx_held_def)
  ultimately show ?thesis using that [of u] s(2) f(2) by (simp add: u_def sent_sel)
qed

lemma SendTask_start:
  fixes w :: "'a STrans_scheme"
  assumes t: "tinv [] w D C S" "C @ D = b # xs" and r: "\<not> bUpdateWaitingACKFrameState w" "TransL2S_IsSendReady w" "l1_ready (sTransL1 w)"
    and fb: "fb = wire_bytes (u8NodeID w) (smems (mem w) b)"
  obtains v rs where "Trans_SendTask app w = Some v" "tinv [] v (if C = [] then tl D else D) (tl C) S" "sMemSend v = Some b"
    "frmSend v = Some b" "l2Sending v" "bWaitingL1Send v" "bL1Sending v" "hL1TimeOutTimer v" "frm b v = fb @ rs"
    "sending fb (sTransL1 v)" "l1_env (sTransL1 v) = l1_env (sTransL1 w)" "sent_env v = sent_env w"
    "u8NumSend (smems (mem v) b) = u8NumSend (smems (mem w) b) - 1"
proof -
  obtain u where u: "Trans_SendTask app w = TransL2S_SendTask (l3_l2_clbs app) u"
    "tinv [] u (if C = [] then tl D else D) (tl C) S" "sTransL1 u = sTransL1 w" "frmSend u = Some b" "sMemSend u = Some b"
    "l2Sending u" "\<not> bWaitingL1Send u" "\<exists>r. frm b u = wire_bytes (u8NodeID w) (smems (mem w) b) @ r" "fClbL2Error u"
    "u8NumSend (smems (mem u) b) = u8NumSend (smems (mem w) b) - 1" "unat (u16DLen (smems (mem w) b)) \<le> 240"
    "8 + unat (u16DLen (smems (mem w) b)) \<le> length (frm b w)" "rx_held u = rx_held w" "sent_env u = sent_env w"
    by (rule SendTask_take [OF t r(1,2)])
  obtain rs where fr: "frm b u = fb @ rs" using u(8) fb by blast
  have len: "length fb = 8 + unat (fb ! 5)"
    using u(11,12) by (simp add: fb wire_bytes_def frame_bytes_def frame_header_def frm_def min_def unat_of_nat)
  from RunSendFrame_start [OF u(4) fr len u(7) _ u(6), of "l3_l2_clbs app"] r(3) u(3) obtain l1 where
    l1: "TransL2S_SendTask (l3_l2_clbs app) u = Some (u\<lparr>bL1Sending := True, bWaitingL1Send := True, sTransL1 := l1,
             u8ErrorCode := TRANS_SUCCESS, u32L1SendTimeout := 40, hL1TimeOutTimer := True\<rparr>)"
    "sending fb l1" "l1_env l1 = l1_env (sTransL1 w)" by auto
  let ?v = "u\<lparr>bL1Sending := True, bWaitingL1Send := True, sTransL1 := l1, u8ErrorCode := TRANS_SUCCESS, u32L1SendTimeout := 40,
    hL1TimeOutTimer := True\<rparr>"
  have "l1_ok l1" using tinv_l1_ok [OF u(2)] l1(3) u(3) by (simp add: l1_ok_def l1_env_def)
  then have "tinv [] ?v (if C = [] then tl D else D) (tl C) S"
    using u(2,6) by (simp add: tinv_def qs_of_def rx_ok_def tx_ok_def clbs_on_def frm_def)
  moreover have "sent_env ?v = sent_env w" using u(14) by (simp add: sent_env_def)
  ultimately show ?thesis using that [of ?v rs] u(1,4-6,10) l1 fr by (simp add: frm_def)
qed

text \<open>The send task takes the oldest waiting command, or the oldest data frame when there is no command, lowers its
  count of transmissions by one and hands the whole frame to the idle port; nothing else moves.\<close>

theorem Trans_SendTask_starts_next:
  fixes w :: "'a STrans_scheme"
  assumes "tinv [] w D C S" "C @ D = b # xs" "\<not> bUpdateWaitingACKFrameState w" "TransL2S_IsSendReady w"
    and "l1_ready (sTransL1 w)"
  shows "\<exists>w'. Trans_SendTask app w = Some w' \<and> tinv [] w' (if C = [] then tl D else D) (tl C) S
    \<and> l2Sending w' \<and> sMemSend w' = Some b \<and> hL1TimeOutTimer w'
    \<and> u8NumSend (smems (mem w') b) = u8NumSend (smems (mem w) b) - 1
    \<and> sending (wire_bytes (u8NodeID w) (smems (mem w) b)) (sTransL1 w')"
proof -
  obtain v rs where "Trans_SendTask app w = Some v" "tinv [] v (if C = [] then tl D else D) (tl C) S" "sMemSend v = Some b"
    "frmSend v = Some b" "l2Sending v" "bWaitingL1Send v" "bL1Sending v" "hL1TimeOutTimer v"
    "frm b v = wire_bytes (u8NodeID w) (smems (mem w) b) @ rs"
    "sending (wire_bytes (u8NodeID w) (smems (mem w) b)) (sTransL1 v)" "l1_env (sTransL1 v) = l1_env (sTransL1 w)" "sent_env v = sent_env w"
    "u8NumSend (smems (mem v) b) = u8NumSend (smems (mem w) b) - 1"
    by (rule SendTask_start [OF assms refl])
  then show ?thesis by blast
qed

lemma ui_data:
  obtains q ms b where "tinv [] ((ui_node port baud)\<lparr>qSendingData := q, mem := ms\<rparr>) [b] [] []"
    "u8Seq (smems ms b) = s" "u8NumSend (smems ms b) = n" "u16DLen (smems ms b) = 0" "u8Ctrl (smems ms b) = ct"
proof -
  obtain ms b where l: "tinv [b] ((ui_node port baud)\<lparr>mem := ms\<rparr>) [] [] []" "sendable ms b"
    "u8Seq (smems ms b) = s" "u8NumSend (smems ms b) = n" "i16TimeOut (smems ms b) = 0" "u16DLen (smems ms b) = 0" "u8Ctrl (smems ms b) = ct"
    by (rule ui_loose)
  define w where "w = (ui_node port baud)\<lparr>mem := ms\<rparr>"
  have w: "tinv [b] w [] [] []" "sendable (mem w) b" using l by (simp_all add: w_def)
  from push_data_tinv [OF w] obtain q ms2 where p: "tinv [] (w\<lparr>qSendingData := q, mem := ms2\<rparr>) ([] @ [b]) [] []"
    "body_same (mem w) ms2" by metis
  show ?thesis using that [where q = q and ms = ms2 and b = b] p(1) l body_same_sel [OF p(2), of b] by (simp add: w_def)
qed

lemma Trans_SendTask_starts_next_witness:
  "\<exists>(w :: STrans) b w'. tinv [] w [b] [] [] \<and> Trans_SendTask ui_clbs w = Some w' \<and> tinv [] w' [] [] []
     \<and> sMemSend w' = Some b \<and> u8NumSend (smems (mem w') b) = 2 \<and> sending (wire_bytes 2 (smems (mem w) b)) (sTransL1 w')"
proof -
  obtain q ms b where l: "tinv [] ((ui_node 1 115200)\<lparr>qSendingData := q, mem := ms\<rparr>) [b] [] []"
    "u8Seq (smems ms b) = 0" "u8NumSend (smems ms b) = 3" "u16DLen (smems ms b) = 0" "u8Ctrl (smems ms b) = 0xA0" by (rule ui_data)
  define w where "w = (ui_node 1 115200)\<lparr>qSendingData := q, mem := ms\<rparr>"
  note u = ui_node_start [of 1 115200]
  have w: "tinv [] w [b] [] []" "\<not> bUpdateWaitingACKFrameState w" "TransL2S_IsSendReady w" "l1_ready (sTransL1 w)"
    "u8NodeID w = 2" "u8NumSend (smems (mem w) b) = 3"
    using l u by (simp_all add: w_def TransL2S_IsSendReady_def LOGGER_DEV_ID_def)
  have n: "[] @ [b] = b # []" by simp
  from Trans_SendTask_starts_next [OF w(1) n w(2-4), of ui_clbs] have "\<exists>w'. Trans_SendTask ui_clbs w = Some w' \<and> tinv [] w' [] [] []
     \<and> sMemSend w' = Some b \<and> u8NumSend (smems (mem w') b) = 2 \<and> sending (wire_bytes 2 (smems (mem w) b)) (sTransL1 w')"
    using w(5,6) by auto
  then show ?thesis using w(1) by blast
qed

text \<open>When the driver of the port refuses the transfer, the frame taken from the queue is lost: it is in no queue, not
  being sent and never given back, because the error callback frees only on a timeout.\<close>

theorem Trans_driver_failure_leaks:
  fixes w :: "'a STrans_scheme"
  assumes "tinv [] w D C S" "C @ D = b # xs" "\<not> bUpdateWaitingACKFrameState w" "TransL2S_IsSendReady w"
    and "TransL1_IsSendReady (sTransL1 w)" "isTxBusy (trans_uart_state (sTransL1 w))"
  shows "\<exists>w' D' C'. Trans_SendTask app w = Some w' \<and> tinv [] w' D' C' S \<and> b \<in> used_blocks (mem w')
    \<and> b \<notin> set (rx_held w' @ tx_held w' @ D' @ C' @ S)"
proof -
  obtain u where u: "Trans_SendTask app w = TransL2S_SendTask (l3_l2_clbs app) u"
    "tinv [] u (if C = [] then tl D else D) (tl C) S" "sTransL1 u = sTransL1 w" "frmSend u = Some b" "sMemSend u = Some b"
    "l2Sending u" "\<not> bWaitingL1Send u" "\<exists>r. frm b u = wire_bytes (u8NodeID w) (smems (mem w) b) @ r" "fClbL2Error u"
    "u8NumSend (smems (mem u) b) = u8NumSend (smems (mem w) b) - 1" "unat (u16DLen (smems (mem w) b)) \<le> 240"
    "8 + unat (u16DLen (smems (mem w) b)) \<le> length (frm b w)" "rx_held u = rx_held w" "sent_env u = sent_env w"
    by (rule SendTask_take [OF assms(1-4)])
  let ?D = "if C = [] then tl D else D"
  have g: "frm_get b 5 u = Some (frm b u ! 5)" using u(8) by (auto simp: frm_get_def wire_bytes_def)
  let ?l1 = "(sTransL1 w)\<lparr>pSendBuff := frm b u, u16SendSize := ucast (frm b u ! 5) + 8, u16SendPtr := 0, l1Sending := False\<rparr>"
  have s: "TransL1_Send (sTransL1 w) (Some (frm b u)) (ucast (frm b u ! 5) + 8) = (TRANS_FAILURE, ?l1)"
    using assms(5,6) by (cases "sTransL1 w")
      (simp add: TransL1_Send_def TransL1_IsSendReady_def UART_DRV_StartSendData_def Let_def)
  let ?w' = "u\<lparr>l2Sending := False, bL1Sending := True, bWaitingL1Send := True, sTransL1 := ?l1, u8ErrorCode := TRANS_FAILURE\<rparr>"
  have fu: "frm b (u\<lparr>bL1Sending := True, bWaitingL1Send := True\<rparr>) = frm b u" by (simp add: frm_def)
  have "TransL2S_SendTask (l3_l2_clbs app) u = Some ?w'"
    using u(3-9) g s fu assms(5) by (cases u)
      (simp add: TransL2S_SendTask_def RunSendFrame_def Let_def L2FireEvent_def fire_error_def l3_l2_clbs_def Clb_L2Error_def)
  moreover have nt: "\<not> hL1TimeOutTimer u" using u(2,7) by (auto simp: tinv_def tx_ok_def)
  have rel: "tinv [b] (u\<lparr>l2Sending := False, bL1Sending := True, bWaitingL1Send := True\<rparr>) ?D (tl C) S"
    by (rule tx_release [OF u(2,6,5) nt])
  have "l1_ok ?l1" using tinv_l1_ok [OF assms(1)] by (simp add: l1_ok_def)
  from tinv_l1 [OF rel this] have t: "tinv [b] ?w' ?D (tl C) S" by simp
  moreover have "b \<notin> set (rx_held ?w' @ tx_held ?w' @ ?D @ tl C @ S)" "b \<in> used_blocks (mem ?w')"
    using tinv_distinct [OF t] by (simp_all del: held_simps)
  ultimately show ?thesis using u(1) tinv_weaken [OF t] 
    by (intro exI [of _ ?w'] exI [of _ ?D] exI [of _ "tl C"]) (simp only:, blast)
qed

lemma Trans_driver_failure_leaks_witness:
  "\<exists>(w :: STrans) b w' D' C'. tinv [] w [b] [] [] \<and> Trans_SendTask ui_clbs w = Some w' \<and> b \<in> used_blocks (mem w')
     \<and> tinv [] w' D' C' [] \<and> b \<notin> set (rx_held w' @ tx_held w' @ D' @ C')"
proof -
  obtain q ms b where l: "tinv [] ((ui_node 1 115200)\<lparr>qSendingData := q, mem := ms\<rparr>) [b] [] []"
    "u8Seq (smems ms b) = 0" "u8NumSend (smems ms b) = 3" "u16DLen (smems ms b) = 0" "u8Ctrl (smems ms b) = 0xA0" by (rule ui_data)
  note u = ui_node_start [of 1 115200]
  define l1 where "l1 = (sTransL1 (ui_node 1 115200))\<lparr>trans_uart_state := \<lparr>txBuff = [], txSize = 0, isTxBusy = True\<rparr>\<rparr>"
  define w where "w = (ui_node 1 115200)\<lparr>qSendingData := q, mem := ms, sTransL1 := l1\<rparr>"
  have "l1_ok l1" using tinv_l1_ok [OF u(1)] by (simp add: l1_def l1_ok_def)
  from tinv_l1 [OF l(1) this] have w: "tinv [] w [b] [] []" by (simp add: w_def)
  have r: "\<not> bUpdateWaitingACKFrameState w" "TransL2S_IsSendReady w" "TransL1_IsSendReady (sTransL1 w)"
    "isTxBusy (trans_uart_state (sTransL1 w))"
    using u by (simp_all add: w_def l1_def TransL2S_IsSendReady_def TransL1_IsSendReady_def)
  have n: "[] @ [b] = b # []" by simp
  from Trans_driver_failure_leaks [OF w n r, of ui_clbs] show ?thesis
    using w unfolding append_Nil2 by blast
qed

section \<open>Posting and aging\<close>

text \<open>A posted data frame is cut to 240 bytes, put at the end of its queue with the next local sequence number,
  three transmissions and the full timeout, its bytes in the frame behind the header; the send task is woken.\<close>

theorem Trans_Send_queues:
  fixes w :: "'a STrans_scheme"
  assumes "tinv [] w D C S" "bStarted w" "unat (capped n) \<le> length d" "\<not> is_cmd ctl"
    and "Mem_Alloc (8 + 16 + (capped n + 8)) (mem w) = (Some b, ms)" "0 < n"
  shows "\<exists>w'. Trans_Send w n (Some d) ctl = Some (True, w') \<and> tinv [] w' (D @ [b]) C S
    \<and> new_frame ctl (capped n) (u8SeqLocal w) (Some d) (smems (mem w') b)
    \<and> u8SeqLocal w' = u8SeqLocal w + 1 \<and> semPosts w' = semPosts w + 1"
proof -
  have d: "case Some d of None \<Rightarrow> True | Some d \<Rightarrow> unat (capped n) \<le> length d" using assms(3) by simp
  have s: "u8SeqLocal w = (if E_DATA_FRM = E_CMD_FRM then u8SeqRemote w else u8SeqLocal w)" by simp
  obtain w' where "Trans_send w (Some d) n ctl E_DATA_FRM = Some (True, w')"
    "tinv [] w' (if is_cmd ctl then D else D @ [b]) (if is_cmd ctl then C @ [b] else C) S"
    "b \<notin> set ([] @ rx_held w @ tx_held w @ D @ C @ S)"
    "new_frame ctl (capped n) (u8SeqLocal w) (Some d) (smems (mem w') b)"
    "u8SeqLocal w' = (if E_DATA_FRM = E_CMD_FRM then u8SeqLocal w else u8SeqLocal w + 1)"
    "semPosts w' = semPosts w + 1" "posted b w w'"
    by (rule Trans_send_tinv [OF assms(1,2) d s assms(5,6)])
  then show ?thesis using assms(4) by (simp add: Trans_Send_def)
qed

lemma Trans_Send_queues_witness:
  "\<exists>w' b. Trans_Send (ui_node 1 115200) 300 (Some (replicate 300 7)) 0xA0 = Some (True, w')
     \<and> tinv [] w' [b] [] [] \<and> u16DLen (smems (mem w') b) = 240"
proof -
  let ?w = "ui_node 1 115200" and ?sz = "8 + 16 + (capped 300 + 8) :: u16"
  note u = ui_node_start [of 1 115200]
  have ok: "mem_ok (mem ?w)" using u(1) by (simp add: tinv_def store_inv_def)
  have c: "capped 300 = 240" by (simp add: capped_def)
  obtain r ms where m: "Mem_Alloc ?sz (mem ?w) = (r, ms)" by fastforce
  have "r \<noteq> None"
  proof
    assume "r = None"
    from Mem_Alloc_none [OF ok m [unfolded this]] have "free_list P272 (mem ?w) = []" by (simp add: c select_part_nat)
    then have "(P272, 1) \<in> used_blocks (mem ?w)" by (simp add: used_blocks_def)
    then show False by (simp add: u(12))
  qed
  then obtain b where m: "Mem_Alloc ?sz (mem ?w) = (Some b, ms)" using m by auto
  have n: "\<not> is_cmd 0xA0" "(0 :: u16) < 300" by (simp_all add: is_cmd_def CMD_ACK_def CMD_NACK_def)
  have "unat (capped 300) \<le> length (replicate 300 (7 :: u8))" by (simp add: c)
  from Trans_Send_queues [OF u(1,2) this n(1) m n(2)] show ?thesis
    unfolding c new_frame_def append_Nil by blast
qed

text \<open>C11: one pass over the frames waiting for an acknowledge, given by \<open>age_pass\<close>: each frame up to the first that is
  due and may be sent again loses one tick; frames that are due and may not are dropped and their buffers
  given back; the first that may moves to the end of the data queue with a fresh timeout, and there the pass stops:
  the frames behind it do not age.\<close>

theorem Trans_aging_pass:
  fixes w :: "'a STrans_scheme"
  assumes "tinv l w D C S" "distinct (seqs (mem w) S)" "age_pass (smems (mem w)) S = (kp, r, dr, un)"
  shows "\<exists>w'. Trans_CheckTimeOutOfSendedFrame w = Some w'
     \<and> tinv l w' (D @ (case r of None \<Rightarrow> [] | Some b \<Rightarrow> [b])) C (kp @ un)
     \<and> timers (mem w) (mem w') (pass_timer (smems (mem w)) kp r dr)
     \<and> used_blocks (mem w') = used_blocks (mem w) - set dr"
  using age_exact [of l w D C "[]" S kp r dr un] assms unfolding CheckTimeOut_loop [OF assms(1)] by auto

lemma Trans_aging_pass_witness:
  "\<exists>(w :: STrans) b w'. tinv [] w [] [] [b] \<and> Trans_CheckTimeOutOfSendedFrame w = Some w' \<and> tinv [] w' [b] [] []
     \<and> i16TimeOut (smems (mem w) b) = 1 \<and> i16TimeOut (smems (mem w') b) = 50"
proof -
  obtain q ms b where s: "tinv [] ((ui_node 1 115200)\<lparr>qSentQueue := q, mem := ms\<rparr>) [] [] [b]"
    "u8Seq (smems ms b) = 5" "u8NumSend (smems ms b) = 2" "i16TimeOut (smems ms b) = 1" by (rule ui_sent)
  define w where "w = (ui_node 1 115200)\<lparr>qSentQueue := q, mem := ms\<rparr>"
  have w: "tinv [] w [] [] [b]" "distinct (seqs (mem w) [b])" "age_pass (smems (mem w)) [b] = ([], Some b, [], [])"
    "i16TimeOut (smems (mem w) b) = 1" using s by (simp_all add: w_def seqs_def)
  from Trans_aging_pass [OF w(1-3)] obtain w' where "Trans_CheckTimeOutOfSendedFrame w = Some w'" "tinv [] w' [b] [] []"
    "timers (mem w) (mem w') (pass_timer (smems (mem w)) [] (Some b) [])" by auto
  moreover from timers_sel(1) [OF this(3), of b] have "i16TimeOut (smems (mem w') b) = 50"
    by (simp add: pass_timer_def TRANS_TIMEOUT_TICK_def)
  ultimately show ?thesis using w(1,4) by blast
qed

end
