(* ===== verification/TransceiverData.thy ===== *)
theory TransceiverData
  imports TransceiverSpec
begin

text \<open>
  The way of a received data frame from the ring of the port over layer 2 to the application's callback, on any node
  and for any application; the node's state when its port is at rest.
\<close>

section \<open>The size of the receive ring\<close>

lemma FIFO_Pop_max: "FIFO_Pop ff = (r, x, ff') \<Longrightarrow> u16MaxSize ff' = u16MaxSize ff"
  by (auto simp: FIFO_Pop_def Let_def split: if_splits)

lemma pop_n_max: "pop_n FIFO_Push FIFO_Pop n [] ff = (bs, ff') \<Longrightarrow> u16MaxSize ff' = u16MaxSize ff"
  by (induction n arbitrary: ff bs ff') (auto split: prod.splits dest!: FIFO_Pop_max)

lemma rewind_step_max [simp]: "u16MaxSize (rewind_step ff) = u16MaxSize ff"
  by (simp add: rewind_step_def Let_def)

lemma rewind_loop_max: "rewind_loop ff = Some ff' \<Longrightarrow> u16MaxSize ff' = u16MaxSize ff"
  by (rule rewind_loop.raw_induct [where P = "\<lambda>ff ff'. u16MaxSize ff' = u16MaxSize ff"])
    (auto simp: Let_def split: if_splits)

definition rx_max :: "'a STransL2S_scheme \<Rightarrow> u16" where
  "rx_max w = u16MaxSize (sRecvFIFO (sTransL1 w))"

lemma frm_set_max: "frm_set b i x w = Some w' \<Longrightarrow> rx_max w' = rx_max w"
  by (auto simp: frm_set_def upd_mem_def rx_max_def split: if_splits)

lemma frm_store_max: "frm_store b i xs w = Some w' \<Longrightarrow> rx_max w' = rx_max w"
  by (induction xs arbitrary: i w) (auto simp: bind_eq_Some_conv dest!: frm_set_max)

lemma rewind_max: "TransL1_RecvFF_RewindHead l1 = Some l1' \<Longrightarrow> u16MaxSize (sRecvFIFO l1') = u16MaxSize (sRecvFIFO l1)"
  by (auto simp: TransL1_RecvFF_RewindHead_def FIFO_RewindHead_def dest!: rewind_loop_max split: if_splits)

lemma protect_max [simp]: "u16MaxSize (sRecvFIFO (TransL1_RecvFF_EnProtect l1 e)) = u16MaxSize (sRecvFIFO l1)"
  by (simp add: TransL1_RecvFF_EnProtect_def FIFO_EnableProtect_def FIFO_DisableProtect_def)

lemma pop_max: "TransL1_RecvFF_Pop l1 = (x, l1') \<Longrightarrow> u16MaxSize (sRecvFIFO l1') = u16MaxSize (sRecvFIFO l1)"
  by (auto simp: TransL1_RecvFF_Pop_def Let_def split: prod.splits dest!: FIFO_Pop_max)

lemma recv_max: "TransL1_Recv l1 n [] = (bs, k, l1') \<Longrightarrow> u16MaxSize (sRecvFIFO l1') = u16MaxSize (sRecvFIFO l1)"
  by (auto simp: TransL1_Recv_def Let_def split: prod.splits dest!: pop_n_max)

lemma recv_round_max: "recv_round b w = Some r \<Longrightarrow> rx_max (res_state r) = rx_max w"
  unfolding recv_round_def rx_max_def
  by (auto simp: Let_def bind_eq_Some_conv upd_l1_def frm_set_max [unfolded rx_max_def] frm_store_max [unfolded rx_max_def] 
     split: if_splits prod.splits dest!: pop_max recv_max rewind_max frm_set_max [unfolded rx_max_def] frm_store_max [unfolded rx_max_def])

lemma recv_loop_max:
  assumes "recv_loop b w = Some r"
  shows "rx_max (snd r) = rx_max w"
proof (rule recv_loop.raw_induct [where P = "\<lambda>b w r. rx_max (snd r) = rx_max w", OF _ assms])
  fix rec and b :: blk and w :: "'a STransL2S_scheme" and r
  assume ih: "\<And>b w y. rec b w = Some y \<Longrightarrow> rx_max (snd y) = rx_max w"
    and "Option.bind (recv_round b w) (\<lambda>r. case r of Inl res \<Rightarrow> Some res | Inr w \<Rightarrow> rec b w) = Some r"
  then obtain x where "recv_round b w = Some x" "(case x of Inl res \<Rightarrow> Some res | Inr w \<Rightarrow> rec b w) = Some r"
    by (auto simp: bind_eq_Some_conv)
  with recv_round_max [of b w x] ih show "rx_max (snd r) = rx_max w" by (cases x) auto
qed

lemma ProcessRecvData_max:
  assumes "frmRecv w = Some b" "ProcessRecvData cb w = Some (t, w')"
  shows "rx_max w' = rx_max w"
  using assms by (auto simp: ProcessRecvData_def bind_eq_Some_conv dest!: frm_set_max recv_loop_max)

section \<open>A data frame arrives\<close>

text \<open>The state in which the application is called: the frame's length and control byte are in the buffer's header.\<close>

definition shown :: "blk \<Rightarrow> u8 \<Rightarrow> u8 list \<Rightarrow> 'a STransL2S_scheme \<Rightarrow> 'a STransL2S_scheme" where
  "shown rb ctrl data w =
     (upd_mem rb (\<lambda>m. m\<lparr>u16DLen := of_nat (length data), u8Ctrl := ctrl\<rparr>) w)\<lparr>u8ErrorCode := TRANS_SUCCESS\<rparr>"

lemma shown_tinv:
  assumes "tinv l w D C S" "frmRecv w = Some rb"
  shows "tinv l (shown rb ctrl data w) D C S"
proof -
  have nb: "rb \<notin> set (D @ C @ S @ tx_held w)" using tinv_distinct(1) [OF assms(1)] assms(2) by (auto simp: rx_held_def)
  have "tinv l (upd_mem rb (\<lambda>m. m\<lparr>u16DLen := of_nat (length data), u8Ctrl := ctrl\<rparr>) w) D C S"
    by (rule tinv_upd_mem [OF assms(1)]) (use nb in simp_all)
  then show ?thesis by (simp add: shown_def)
qed

lemma fire_recv_data_run:
  fixes w :: "'a STrans_scheme"
  assumes t: "tinv l w D C S" and rb: "frmRecv w = Some rb"
    and fb: "take (8 + length data) (frm rb w) = frame_bytes src dst sq ctrl data" and len: "length data \<le> 240"
  shows "fire_recv_data (l3_l2_clbs app) w = do {
      v \<leftarrow> (if fClbRecv w then onL3Recv app rb ctrl (shown rb ctrl data w) else Some (shown rb ctrl data w));
      (ok, v) \<leftarrow> TransL2S_MemAlloc (l3_l2_clbs app) (free_mem rb v);
      Some v }"
proof -
  note n = frame_nth [OF fb]
  have m: "sMemRecv w = Some rb" "fClbL2RecvData w" using t rb by (auto simp: tinv_def rx_ok_def clbs_on_def)
  have g: "frm_get rb 5 w = Some (of_nat (length data))" using n(1,6) by (simp add: frm_get_def)
  have dl: "(ucast (of_nat (length data) :: u8) :: u16) = of_nat (length data)"
    by (rule word_unat_eq_iff [THEN iffD2]) (use len in \<open>simp add: unat_of_nat\<close>)
  have g1: "frm_get rb 4 (upd_mem rb (\<lambda>m. m\<lparr>u16DLen := of_nat (length data)\<rparr>) w) = Some ctrl"
    using n(1,5) by (simp add: frm_get_def frm_def upd_mem_def)
  have s: "(upd_mem rb (\<lambda>m. m\<lparr>u8Ctrl := ctrl\<rparr>) (upd_mem rb (\<lambda>m. m\<lparr>u16DLen := of_nat (length data)\<rparr>) w))\<lparr>u8ErrorCode := TRANS_SUCCESS\<rparr>
      = shown rb ctrl data w"
    by (simp add: shown_def upd_mem_def upd_smem_def comp_def)
  have f: "sMemRecv (shown rb ctrl data w) = Some rb" "fClbRecv (shown rb ctrl data w) = fClbRecv w"
    "u8Ctrl (smems (mem (shown rb ctrl data w)) rb) = ctrl" "u8ErrorCode (shown rb ctrl data w) = TRANS_SUCCESS"
    using m(1) by (simp_all add: shown_def upd_mem_def)
  show ?thesis
    unfolding fire_recv_data_def Let_def if_P [OF m(2)] m(1) g Option.bind.bind_lunit dl g1 s f
    by (cases "fClbRecv w") (simp_all add: l3_l2_clbs_def Clb_L2RecvData_def f)
qed

text \<open>A frame addressed to the node is taken from behind the noise.\<close>

lemma RecvTask_frame:
  fixes w :: "'a STrans_scheme"
  assumes t: "tinv [] w D C S" and rb: "frmRecv w = Some rb" "u16RecvCount w = 0" "length data \<le> 240"
    and bytes: "l1_bytes (sTransL1 w) = ns @ frame_bytes src dst sq ctrl data @ l"
    and q: "quiet (ns @ frame_bytes src dst sq ctrl data @ l) (length ns)"
  obtains v where "TransL2S_RecvTask (l3_l2_clbs app) w = OnRecvFrame (l3_l2_clbs app) v" "tinv [] v D C S" "rx_same rb w v"
    "take (8 + length data) (frm rb v) = frame_bytes src dst sq ctrl data" "l1_bytes (sTransL1 v) = l" "rx_max v = rx_max w"
    "u16RecvCount v = 0"
proof -
  have inv: "rx_inv rb w" using t by (intro rx_ok_inv [OF _ rb(1)]) (simp add: tinv_def)
  obtain v where v: "ProcessRecvData (l3_l2_clbs app) w = Some (True, v)" "rx_same rb w v" "u16RecvCount v = 0"
    "take (8 + length data) (frm rb v) = frame_bytes src dst sq ctrl data" "l1_bytes (sTransL1 v) = l"
    using ProcessRecvData_frame [OF rb(1) inv rb(2,3) bytes q] by blast
  show ?thesis
    using that [of v] v ProcessRecvData_tinv [OF t v(1)] ProcessRecvData_max [OF rb(1) v(1)] by (simp add: TransL2S_RecvTask_def)
qed

lemma shown_data:
  assumes "take (8 + length data) (frm rb v) = frame_bytes src dst sq ctrl data" "length data \<le> 240"
  shows "u8Ctrl (smems (mem (shown rb ctrl data v)) rb) = ctrl" "unat (u16DLen (smems (mem (shown rb ctrl data v)) rb)) = length data"
    "take (length data) (drop 8 (frm rb (shown rb ctrl data v))) = data"
  using frame_nth(8) [OF assms(1)] assms(2) by (simp_all add: shown_def upd_mem_def frm_def unat_of_nat)

lemma RecvTask_data:
  fixes w :: "'a STrans_scheme"
  assumes t: "tinv [] w D C S" and rb: "frmRecv w = Some rb" "u16RecvCount w = 0" "length data \<le> 240"
    and bytes: "l1_bytes (sTransL1 w) = ns @ frame_bytes src dst sq ctrl data @ l"
    and q: "quiet (ns @ frame_bytes src dst sq ctrl data @ l) (length ns)"
    and d: "for_us dst w" "IS_DATA_FRM ctrl" "ack_wanted ctrl dst" "bCheckSeqNum w"
  obtains v where "tinv [] v D C S" "rx_same rb w v" "l1_bytes (sTransL1 v) = l" "rx_max v = rx_max w" "u16RecvCount v = 0"
    "take (8 + length data) (frm rb v) = frame_bytes src dst sq ctrl data"
    "Trans_RecvTask app w = (if sq = u8SeqRemote w then map_option snd (Trans_SendCmdFrame v None 0 CMD_ACK)
       else do {
         u \<leftarrow> (if fClbRecv w then onL3Recv app rb ctrl (shown rb ctrl data (v\<lparr>u8SeqRemote := sq\<rparr>))
               else Some (shown rb ctrl data (v\<lparr>u8SeqRemote := sq\<rparr>)));
         (ok, u) \<leftarrow> TransL2S_MemAlloc (l3_l2_clbs app) (free_mem rb u);
         map_option snd (Trans_SendCmdFrame u None 0 CMD_ACK) })"
proof -
  obtain v where v: "TransL2S_RecvTask (l3_l2_clbs app) w = OnRecvFrame (l3_l2_clbs app) v" "tinv [] v D C S" "rx_same rb w v"
    "take (8 + length data) (frm rb v) = frame_bytes src dst sq ctrl data" "l1_bytes (sTransL1 v) = l" "rx_max v = rx_max w"
    "u16RecvCount v = 0" by (rule RecvTask_frame [OF t rb bytes q])
  have s: "frmRecv v = Some rb" "for_us dst v" "bCheckSeqNum v" "u8SeqRemote v = u8SeqRemote w" "fClbRecv v = fClbRecv w"
    using v(3) rb(1) d by (auto simp: rx_same_def for_us_def with_frm_def upd_mem_def)
  let ?v = "v\<lparr>u8SeqRemote := sq\<rparr>"
  have t2: "tinv [] ?v D C S" "frmRecv ?v = Some rb" "take (8 + length data) (frm rb ?v) = frame_bytes src dst sq ctrl data"
    "fClbRecv ?v = fClbRecv w" using v(2,4) s by (simp_all add: frm_def)
  note f = fire_recv_data_run [OF t2(1-3) rb(3), of app, unfolded t2(4)]
  have o: "OnRecvFrame (l3_l2_clbs app) v = (if sq = u8SeqRemote w then Some (TRANSL2_REQ_ACK, v)
     else map_option (Pair TRANSL2_REQ_ACK) (fire_recv_data (l3_l2_clbs app) ?v))"
    using OnRecvFrame_good [OF s(1) v(4) rb(3), of "l3_l2_clbs app"] s d by (simp add: Let_def L2FireEvent_def)
  have "Trans_RecvTask app w = (if sq = u8SeqRemote w then map_option snd (Trans_SendCmdFrame v None 0 CMD_ACK)
       else do {
         u \<leftarrow> (if fClbRecv w then onL3Recv app rb ctrl (shown rb ctrl data ?v) else Some (shown rb ctrl data ?v));
         (ok, u) \<leftarrow> TransL2S_MemAlloc (l3_l2_clbs app) (free_mem rb u);
         map_option snd (Trans_SendCmdFrame u None 0 CMD_ACK) })"
    unfolding Trans_RecvTask_def v(1) o f by (auto simp: map_conv_bind_option split: Option.bind_split)
  from that [OF v(2,3,5,6,7,4) this] show ?thesis .
qed

section \<open>A port at rest\<close>

text \<open>Layer 2 at rest on an open port: nothing received so far, nothing being sent, the buffer \<open>rb\<close> ready to receive.\<close>

definition l2_idle :: "blk \<Rightarrow> 'a STransL2S_scheme \<Rightarrow> bool" where
  "l2_idle rb w \<longleftrightarrow> frmRecv w = Some rb \<and> rx_inv rb w \<and> u16RecvCount w = 0 \<and> l1_bytes (sTransL1 w) = [] \<and> rx_max w = 512
     \<and> l1_ready (sTransL1 w) \<and> fClbL1RecvData (sTransL1 w) \<noteq> Some L1SendDone \<and> TransL2S_IsSendReady w"

lemma idle_arrive:
  assumes "l2_idle rb w" "length xs \<le> 512"
  obtains ff where "fold l2_rx_irq xs w = w\<lparr>sTransL1 := (sTransL1 w)\<lparr>sRecvFIFO := ff\<rparr>\<rparr>"
    "rx_inv rb (fold l2_rx_irq xs w)" "l1_bytes (sTransL1 (fold l2_rx_irq xs w)) = xs" "rx_max (fold l2_rx_irq xs w) = 512"
proof -
  have max: "rx_max (fold l2_rx_irq xs v) = rx_max v" for v :: "'a STransL2S_scheme"
  proof (induction xs arbitrary: v)
    case (Cons x xs)
    have "FIFO_Push ff x = (r, ff') \<Longrightarrow> u16MaxSize ff' = u16MaxSize ff" for ff r ff'
      by (auto simp: FIFO_Push_def Let_def split: if_splits)
    then have "rx_max (l2_rx_irq x v) = rx_max v"
      by (auto simp: rx_max_def l2_rx_irq_def TransL1_RX_Interrupt_Handle_def run_l1_clb_l1 split: prod.splits)
    then show ?case using Cons by simp
  qed simp
  have i: "rx_inv rb w" "l1Registered (sTransL1 w)" "fClbL1RecvData (sTransL1 w) \<noteq> Some L1SendDone" "l1_bytes (sTransL1 w) = []"
    "u16MaxSize (sRecvFIFO (sTransL1 w)) = 512" "rx_max w = 512"
    using assms(1) by (simp_all add: l2_idle_def l1_ready_def rx_max_def)
  have "length (l1_bytes (sTransL1 w)) + length xs \<le> unat (u16MaxSize (sRecvFIFO (sTransL1 w)))"
    using i(4,5) assms(2) by simp
  from rx_irq_bytes [OF i(1-3) this] obtain ff where "fold l2_rx_irq xs w = w\<lparr>sTransL1 := (sTransL1 w)\<lparr>sRecvFIFO := ff\<rparr>\<rparr>"
    "rx_inv rb (fold l2_rx_irq xs w)" "l1_bytes (sTransL1 (fold l2_rx_irq xs w)) = xs" unfolding i(4) append_Nil by blast
  from that [OF this] show ?thesis using i(6) max by simp
qed

lemma l3_boot_flags:
  "bCheckSeqNum (l3_boot app x port baud)" "fClbRecv (l3_boot app x port baud)" "fClbSendDone (l3_boot app x port baud)"
  "u8SeqRemote (l3_boot app x port baud) = 0xFF"
proof -
  obtain ms where m: "Mem_Alloc LARGE_MEM_SIZE (OSA_FixedMemInit mem_bss) = (Some (P272, 0), ms)" using alloc_first by blast
  let ?bss = "(l1_bss :: l1_clb STransL1)\<lparr>u32UartPort := port, u32BaudRate := baud\<rparr>"
  obtain l' where l': "TransL1_Init ?bss port baud = (TRANS_SUCCESS, l')" by (simp add: TransL1_Init_def Let_def)
  show "bCheckSeqNum (l3_boot app x port baud)" "fClbRecv (l3_boot app x port baud)" "fClbSendDone (l3_boot app x port baud)"
    "u8SeqRemote (l3_boot app x port baud) = 0xFF"
    using m l' by (simp_all add: l3_boot_def Trans_Init_def Trans_RegisterClbEvent_def l3_bss_def STransL2S.extend_def
        STrans.fields_def STrans.extend_def l2_bss_def Queue_Init_def TransL2S_SetL1Para_def upd_l1_def TransL2S_Init_def TransL2S_MemAlloc_def Let_def
        TransL1_RegisterClbEvent_def TransL2S_SetCheckSeqNum_def TransL2S_RegisterClbEvent_def)
qed

lemma boot_idle: "l2_idle (P272, 0) (l3_boot app x port baud)"
proof -
  note u = l3_boot_start [of app x port baud]
  have "rx_inv (P272, 0) (l3_boot app x port baud)" using u(1) by (intro rx_ok_inv [OF _ u(4)]) (simp add: tinv_def)
  then show ?thesis using u by (simp add: l2_idle_def rx_max_def TransL2S_IsSendReady_def)
qed

lemmas ui_idle = boot_idle [of ui_clbs "()", folded ui_node_boot]
  and ui_flags = l3_boot_flags [of ui_clbs "()", folded ui_node_boot]

lemma tinv_arrive:
  assumes "tinv l w D C S" "fold l2_rx_irq xs w = w\<lparr>sTransL1 := (sTransL1 w)\<lparr>sRecvFIFO := ff\<rparr>\<rparr>" "rx_inv rb (fold l2_rx_irq xs w)"
  shows "tinv l (fold l2_rx_irq xs w) D C S"
  using tinv_l1 [OF assms(1), of "(sTransL1 w)\<lparr>sRecvFIFO := ff\<rparr>"] assms(2,3) by (simp add: rx_inv_def)

section \<open>Property\<close>

text \<open>C5: a data frame that asks for an acknowledge: when its sequence number is not that of the last frame accepted, the
  application's callback is called exactly once, with the control byte and exactly the sender's bytes in the buffer, then the
  buffer is given back, a new one is taken and an acknowledge is queued; a repeated frame is acknowledged again and not handed over.\<close>

theorem Trans_data_to_application:
  fixes w :: "'a STrans_scheme"
  assumes "tinv [] w D C S" "frmRecv w = Some rb" "u16RecvCount w = 0" "length data \<le> 240"
    and "l1_bytes (sTransL1 w) = ns @ frame_bytes src dst sq ctrl data @ l"
    and "quiet (ns @ frame_bytes src dst sq ctrl data @ l) (length ns)"
    and "for_us dst w" "IS_DATA_FRM ctrl" "ack_wanted ctrl dst" "bCheckSeqNum w" "fClbRecv w"
  shows "\<exists>v u. tinv [] v D C S \<and> tinv [] u D C S \<and> l1_bytes (sTransL1 v) = l \<and> u8SeqRemote u = sq \<and> sTransL1 u = sTransL1 v
     \<and> take (unat (u16DLen (smems (mem u) rb))) (drop 8 (frm rb u)) = data \<and> u8Ctrl (smems (mem u) rb) = ctrl
     \<and> Trans_RecvTask app w = (if sq = u8SeqRemote w then map_option snd (Trans_SendCmdFrame v None 0 CMD_ACK)
       else do {
         u \<leftarrow> onL3Recv app rb ctrl u;
         (ok, u) \<leftarrow> TransL2S_MemAlloc (l3_l2_clbs app) (free_mem rb u);
         map_option snd (Trans_SendCmdFrame u None 0 CMD_ACK) })"
proof -
  obtain v where v: "tinv [] v D C S" "rx_same rb w v" "l1_bytes (sTransL1 v) = l" "rx_max v = rx_max w" "u16RecvCount v = 0"
    "take (8 + length data) (frm rb v) = frame_bytes src dst sq ctrl data"
    "Trans_RecvTask app w = (if sq = u8SeqRemote w then map_option snd (Trans_SendCmdFrame v None 0 CMD_ACK)
       else do {
         u \<leftarrow> (if fClbRecv w then onL3Recv app rb ctrl (shown rb ctrl data (v\<lparr>u8SeqRemote := sq\<rparr>))
               else Some (shown rb ctrl data (v\<lparr>u8SeqRemote := sq\<rparr>)));
         (ok, u) \<leftarrow> TransL2S_MemAlloc (l3_l2_clbs app) (free_mem rb u);
         map_option snd (Trans_SendCmdFrame u None 0 CMD_ACK) })"
    by (rule RecvTask_data [OF assms(1-10)])
  let ?v = "v\<lparr>u8SeqRemote := sq\<rparr>"
  have "frmRecv ?v = Some rb" "tinv [] ?v D C S" using v(1,2) assms(2) by (auto simp: rx_same_def)
  then have "tinv [] (shown rb ctrl data ?v) D C S" by (intro shown_tinv)
  moreover have "take (8 + length data) (frm rb ?v) = frame_bytes src dst sq ctrl data" using v(6) by (simp add: frm_def)
  note shown_data [OF this assms(4)]
  ultimately show ?thesis
    using v(1,3,7) assms(11) by (intro exI [of _ v] exI [of _ "shown rb ctrl data ?v"]) (simp add: shown_def upd_mem_def)
qed

lemma Trans_data_to_application_witness:
  "\<exists>u. take (unat (u16DLen (smems (mem u) (P272, 0)))) (drop 8 (frm (P272, 0) u)) = [10, 11]
     \<and> Trans_RecvTask ui_clbs (fold l2_rx_irq (frame_bytes 1 2 3 0xA0 [10, 11]) (ui_node 1 115200)) =
       do {
          u \<leftarrow> onL3Recv ui_clbs (P272, 0) 0xA0 u;
          (ok, u) \<leftarrow> TransL2S_MemAlloc (l3_l2_clbs ui_clbs) (free_mem (P272, 0) u);
          map_option snd (Trans_SendCmdFrame u None 0 CMD_ACK) }"
proof -
  let ?n = "ui_node 1 115200" and ?xs = "frame_bytes 1 2 3 0xA0 [10, 11]"
  note u = ui_node_start [of 1 115200]
  obtain ff where a: "fold l2_rx_irq ?xs ?n = ?n\<lparr>sTransL1 := (sTransL1 ?n)\<lparr>sRecvFIFO := ff\<rparr>\<rparr>"
    "rx_inv (P272, 0) (fold l2_rx_irq ?xs ?n)" "l1_bytes (sTransL1 (fold l2_rx_irq ?xs ?n)) = ?xs" "rx_max (fold l2_rx_irq ?xs ?n) = 512"
    by (rule idle_arrive [OF ui_idle, of ?xs]) simp
  have t: "tinv [] (fold l2_rx_irq ?xs ?n) [] [] []" by (rule tinv_arrive [OF u(1) a(1,2)])
  have b: "l1_bytes (sTransL1 (fold l2_rx_irq ?xs ?n)) = [] @ ?xs @ []" using a(3) by simp
  have q: "quiet ([] @ ?xs @ []) (length ([] :: u8 list))" by (simp add: quiet_def)
  have c: "frmRecv (fold l2_rx_irq ?xs ?n) = Some (P272, 0)" "u16RecvCount (fold l2_rx_irq ?xs ?n) = 0" "for_us 2 (fold l2_rx_irq ?xs ?n)"
    "IS_DATA_FRM 0xA0" "ack_wanted 0xA0 2"
    using u by (simp_all add: a(1) for_us_def LOGGER_DEV_ID_def IS_DATA_FRM_def ack_wanted_def IS_ACK_REQ_def ADDR_BROADCAST_def)
  have r: "bCheckSeqNum (fold l2_rx_irq ?xs ?n)" "fClbRecv (fold l2_rx_irq ?xs ?n)"
    by (simp_all add: a(1) ui_flags)
  have ne: "(3 = u8SeqRemote (fold l2_rx_irq ?xs ?n)) = False" by (simp add: a(1) ui_flags)
  show ?thesis
    using Trans_data_to_application [OF t c(1,2) _ b q c(3-5) r, of ui_clbs, unfolded ne if_False] by auto
qed

end
