(* ===== verification/Exchange.thy ===== *)
theory Exchange
  imports TransceiverData
begin

text \<open>
  Frames between two nodes.  The logger at rest serves a data frame (the bytes arrive, its transport task runs, its
  transmit interrupts put the acknowledge on the wire, the task runs again) and is at rest again; so a peer that
  repeats each frame until it is acknowledged has every frame delivered exactly once.  The peer's side of the exchange is
  layer 2 of this repository.  The locale \<open>watcher\<close> covers every application whose callbacks change only its own
  part of the state: those of the user-interface port, and an observer that records what it is given.
\<close>

section \<open>Room in a pool\<close>

definition has_free :: "part_id \<Rightarrow> mem_state \<Rightarrow> bool" where
  "has_free p ms \<longleftrightarrow> (\<exists>i < unat (pcount p). (p, i) \<notin> used_blocks ms)"

lemma has_free_alloc:
  assumes "mem_ok ms" "select_part (ucast sz) = Some p" "has_free p ms"
  obtains i ms' where "Mem_Alloc sz ms = (Some (p, i), ms')" "used_blocks ms' = insert (p, i) (used_blocks ms)"
proof -
  obtain r ms' where m: "Mem_Alloc sz ms = (r, ms')" by fastforce
  have "r \<noteq> None"
  proof
    assume "r = None"
    from Mem_Alloc_none [OF assms(1) m [unfolded this]] assms(2,3) show False by (simp add: has_free_def used_blocks_def)
  qed
  then obtain q i where r: "r = Some (q, i)" by auto
  from Mem_Alloc_some [OF assms(1) m [unfolded r]] assms(2) show ?thesis using that m r by simp
qed

lemma has_free_freed: "mem_ok ms \<Longrightarrow> b \<in> used_blocks ms \<Longrightarrow> has_free (fst b) (Mem_Free b ms)"
  using Free_ok [of ms b] by (cases b) (auto simp: has_free_def Mem_Free_def used_blocks_def)

text \<open>The receive buffer is given back and a new one is taken.\<close>

lemma swap_buffer:
  fixes w :: "'a STrans_scheme"
  assumes t: "tinv [] w D C S" and rb: "frmRecv w = Some rb" "fst rb = P272"
  obtains nb ms where "TransL2S_MemAlloc (l3_l2_clbs app) (free_mem rb w) = Some (True, w\<lparr>sMemRecv := Some nb, mem := ms, frmRecv := Some nb\<rparr>)"
    "tinv [] (w\<lparr>sMemRecv := Some nb, mem := ms, frmRecv := Some nb\<rparr>) D C S" "fst nb = P272"
    "\<forall>p. p \<noteq> P272 \<longrightarrow> has_free p ms = has_free p (mem w)"
proof -
  have ok: "mem_ok (mem w)" "rb \<in> used_blocks (mem w)"
    using tinv_store [OF t] tinv_distinct(2) [OF t] rb by (simp_all add: store_inv_def rx_held_def)
  have f: "mem_ok (Mem_Free rb (mem w))" "used_blocks (Mem_Free rb (mem w)) = used_blocks (mem w) - {rb}"
    using Free_ok [OF ok] by (simp_all add: Mem_Free_def)
  have sp: "select_part (ucast LARGE_MEM_SIZE) = Some P272" by (simp add: LARGE_MEM_SIZE_def select_part_def)
  obtain i ms where m: "Mem_Alloc LARGE_MEM_SIZE (Mem_Free rb (mem w)) = (Some (P272, i), ms)"
    "used_blocks ms = insert (P272, i) (used_blocks (Mem_Free rb (mem w)))"
    using has_free_alloc [OF f(1) sp] has_free_freed [OF ok] rb(2) by metis
  let ?w' = "w\<lparr>sMemRecv := Some (P272, i), mem := ms, frmRecv := Some (P272, i)\<rparr>"
  have a: "TransL2S_MemAlloc (l3_l2_clbs app) (free_mem rb w) = Some (True, ?w')"
    using m(1) by (simp add: TransL2S_MemAlloc_def free_mem_def)
  have t4: "tinv [] (free_mem rb (rx_none w)) D C S" using free_mem_tinv(1) [OF rx_none_tinv [OF t rb(1)]] .
  have rn: "frmRecv (free_mem rb (rx_none w)) = None" "sMemRecv (free_mem rb (rx_none w)) = None"
    by (simp_all add: free_mem_def rx_none_def)
  have eq: "rx_none (free_mem rb w) = free_mem rb (rx_none w)" by (simp add: free_mem_def rx_none_def)
  from memalloc_tinv [OF t4 rn, of app] have "tinv [] ?w' D C S"
    unfolding eq [symmetric] memalloc_rx_none a by auto
  moreover have "has_free p ms = has_free p (mem w)" if "p \<noteq> P272" for p
    unfolding has_free_def m(2) f(2) using that rb(2) by auto
  ultimately show ?thesis using that [OF a] by simp
qed

section \<open>An application that only watches\<close>

text \<open>
  Callbacks that may change nothing but the application's own part of the state: \<open>see\<close> is what the
  receive callback does to it with a frame's control byte and data.  The callbacks of the user-interface
  port satisfy it (they log), and so does an observer that records what it is given.
\<close>

locale watcher =
  fixes app :: "('a STrans_scheme) l3_clbs" and see :: "u8 \<Rightarrow> u8 list \<Rightarrow> 'a \<Rightarrow> 'a"
  assumes watch: "onL3Recv app b ct w =
      Some (STrans.more_update (see ct (take (unat (u16DLen (smems (mem w) b))) (drop 8 (frm b w)))) w)"
    and sent: "onL3Sent app b ct w = Some w"

text \<open>The logger at rest: nothing queued to be answered, its data and sent queues \<open>D\<close> and \<open>S\<close>.\<close>

definition logger_idle :: "blk \<Rightarrow> 'a STrans_scheme \<Rightarrow> blk list \<Rightarrow> blk list \<Rightarrow> bool" where
  "logger_idle rb w D S \<longleftrightarrow> tinv [] w D [] S \<and> l2_idle rb w \<and> fst rb = P272 \<and> has_free P32 (mem w)
     \<and> bStarted w \<and> \<not> bUpdateWaitingACKFrameState w \<and> bCheckSeqNum w \<and> fClbRecv w \<and> u8NodeID w = LOGGER_DEV_ID"

lemma tinv_more: "tinv l (STrans.more_update f w) D C S = tinv l w D C S"
  by (simp add: tinv_def rx_held_def tx_held_def qs_of_def rx_ok_def tx_ok_def clbs_on_def frm_def)

lemma rx_same_idle:
  fixes w :: "'a STrans_scheme"
  assumes "logger_idle rb w D S" "w0 = w\<lparr>sTransL1 := (sTransL1 w)\<lparr>sRecvFIFO := ff\<rparr>\<rparr>"
    and "rx_same rb w0 v" "tinv [] v D [] S" "l1_bytes (sTransL1 v) = []" "rx_max v = 512" "u16RecvCount v = 0"
  shows "logger_idle rb v D S" "u8SeqRemote v = u8SeqRemote w" "STrans.more v = STrans.more w"
proof -
  obtain f fv c s where v: "v = with_frm rb f (w0\<lparr>sTransL1 := (sTransL1 w0)\<lparr>sRecvFIFO := fv\<rparr>, u16RecvCount := c, statDLen := s\<rparr>)"
    using assms(3) unfolding rx_same_def by blast
  have fr: "frmRecv v = Some rb" using assms(1) by (simp add: v assms(2) logger_idle_def l2_idle_def)
  have "rx_inv rb v" using assms(4) by (intro rx_ok_inv [OF _ fr]) (simp add: tinv_def)
  moreover have "used_blocks (mem v) = used_blocks (mem w)" by (simp add: v assms(2) with_frm_def upd_mem_def)
  ultimately show "logger_idle rb v D S" "u8SeqRemote v = u8SeqRemote w" "STrans.more v = STrans.more w"
    using assms(1,4-7) fr
    by (simp_all add: logger_idle_def l2_idle_def has_free_def)
      (simp_all add: v assms(2) l1_ready_def TransL1_IsSendReady_def TransL2S_IsSendReady_def with_frm_def upd_mem_def)
qed

text \<open>A quiet round of the receive task.\<close>

lemma RecvTask_quiet:
  fixes w :: "'a STrans_scheme"
  assumes t: "tinv [] w D C S" and rb: "frmRecv w = Some rb" "u16RecvCount w = 0" "l1_bytes (sTransL1 w) = []"
  obtains v where "Trans_RecvTask app w = Some v" "tinv [] v D C S" "rx_same rb w v" "l1_bytes (sTransL1 v) = []"
    "rx_max v = rx_max w" "u16RecvCount v = 0"
proof -
  have inv: "rx_inv rb w" using t by (intro rx_ok_inv [OF _ rb(1)]) (simp add: tinv_def)
  from ProcessRecvData_refines [OF rb(1) inv, of "l3_l2_clbs app"] obtain got v where
    v: "ProcessRecvData (l3_l2_clbs app) w = Some (got, v)" "rx_same rb w v"
    "rx_loop ((frm rb w)[0 := CST_PREAMBLE], snd (rx_of rb w)) = (got, rx_of rb v)" by blast
  have "rx_loop (g, [], 0, k) = (False, g, [], 0, k)" for g k by (simp add: rx_loop.simps rx_round_def)
  then have "got = False" "l1_bytes (sTransL1 v) = []" "u16RecvCount v = 0"
    using v(3) rb(2,3) by (simp_all add: rx_of_def unat_eq_0)
  then show ?thesis
    using that [of v] v(1,2) ProcessRecvData_tinv [OF t v(1)] ProcessRecvData_max [OF rb(1) v(1)]
    by (simp add: Trans_RecvTask_def TransL2S_RecvTask_def)
qed

lemma unit_address: "LOGGER_DEV_ID \<noteq> ADDR_BROADCAST"
  by (simp add: LOGGER_DEV_ID_def ADDR_BROADCAST_def)

context watcher
begin

lemma recv_step:
  assumes i: "logger_idle rb w D S" and len: "length data \<le> 240" and ct: "IS_DATA_FRM ctrl" "IS_ACK_REQ ctrl"
  obtains v nb where "Trans_RecvTask app (fold l2_rx_irq (frame_bytes src LOGGER_DEV_ID sq ctrl data) w)
      = map_option snd (Trans_SendCmdFrame v None 0 CMD_ACK)"
    "logger_idle nb v D S" "u8SeqRemote v = sq"
    "STrans.more v = (if sq = u8SeqRemote w then STrans.more w else see ctrl data (STrans.more w))"
proof -
  let ?xs = "frame_bytes src LOGGER_DEV_ID sq ctrl data" and ?w = "fold l2_rx_irq (frame_bytes src LOGGER_DEV_ID sq ctrl data) w"
  have w: "tinv [] w D [] S" "l2_idle rb w" "frmRecv w = Some rb" "u16RecvCount w = 0" "u8NodeID w = LOGGER_DEV_ID"
    "bCheckSeqNum w" "fClbRecv w" "fst rb = P272"
    using i by (simp_all add: logger_idle_def l2_idle_def)
  obtain ff where a: "?w = w\<lparr>sTransL1 := (sTransL1 w)\<lparr>sRecvFIFO := ff\<rparr>\<rparr>"
    "rx_inv rb ?w" "l1_bytes (sTransL1 ?w) = ?xs" "rx_max ?w = 512"
    by (rule idle_arrive [OF w(2), of ?xs]) (use len in simp)
  have f: "frmRecv ?w = Some rb" "u16RecvCount ?w = 0" "bCheckSeqNum ?w" "fClbRecv ?w" "for_us LOGGER_DEV_ID ?w"
    "u8SeqRemote ?w = u8SeqRemote w" "ack_wanted ctrl LOGGER_DEV_ID"
    using w ct(2) unit_address by (simp_all add: a(1) for_us_def ack_wanted_def)
  have b: "l1_bytes (sTransL1 ?w) = [] @ ?xs @ []" using a(3) by simp
  have q: "quiet ([] @ ?xs @ []) (length ([] :: u8 list))" by (simp add: quiet_def)
  obtain v where v: "tinv [] v D [] S" "rx_same rb ?w v" "l1_bytes (sTransL1 v) = []" "rx_max v = rx_max ?w" "u16RecvCount v = 0"
    "take (8 + length data) (frm rb v) = ?xs"
    "Trans_RecvTask app ?w = (if sq = u8SeqRemote ?w then map_option snd (Trans_SendCmdFrame v None 0 CMD_ACK)
       else do {
         u \<leftarrow> (if fClbRecv ?w then onL3Recv app rb ctrl (shown rb ctrl data (v\<lparr>u8SeqRemote := sq\<rparr>))
               else Some (shown rb ctrl data (v\<lparr>u8SeqRemote := sq\<rparr>)));
         (ok, u) \<leftarrow> TransL2S_MemAlloc (l3_l2_clbs app) (free_mem rb u);
         map_option snd (Trans_SendCmdFrame u None 0 CMD_ACK) })"
    by (rule RecvTask_data [OF tinv_arrive [OF w(1) a(1,2)] f(1,2) len b q f(5) ct(1) f(7,3)])
  note vi = rx_same_idle [OF i a(1) v(2,1,3) v(4) [unfolded a(4)] v(5)]
  show ?thesis
  proof (cases "sq = u8SeqRemote w")
    case True
    then show ?thesis using that [of v rb] v(7) vi f(6) by simp
  next
    case False
    let ?v = "v\<lparr>u8SeqRemote := sq\<rparr>"
    define u where "u = STrans.more_update (see ctrl data) (shown rb ctrl data ?v)"
    have vf: "frmRecv ?v = Some rb" "tinv [] ?v D [] S" using vi(1) by (simp_all add: logger_idle_def l2_idle_def)
    have "take (8 + length data) (frm rb ?v) = ?xs" using v(6) by (simp add: frm_def)
    note sd = shown_data [OF this len]
    have cb: "onL3Recv app rb ctrl (shown rb ctrl data ?v) = Some u"
      unfolding watch sd(2,3) u_def ..
    have u: "tinv [] u D [] S" "frmRecv u = Some rb"
      using shown_tinv [OF vf(2,1)] vf(1) by (simp_all add: u_def tinv_more shown_def upd_mem_def)
    obtain nb ms where s: "TransL2S_MemAlloc (l3_l2_clbs app) (free_mem rb u) = Some (True, u\<lparr>sMemRecv := Some nb, mem := ms, frmRecv := Some nb\<rparr>)"
      "tinv [] (u\<lparr>sMemRecv := Some nb, mem := ms, frmRecv := Some nb\<rparr>) D [] S" "fst nb = P272"
      "\<forall>p. p \<noteq> P272 \<longrightarrow> has_free p ms = has_free p (mem u)" by (rule swap_buffer [OF u w(8), of app])
    let ?u = "u\<lparr>sMemRecv := Some nb, mem := ms, frmRecv := Some nb\<rparr>"
    have "rx_inv nb ?u" using s(2) by (intro rx_ok_inv) (simp_all add: tinv_def)
    moreover have "has_free P32 (mem u)" using vi(1) by (simp add: u_def shown_def upd_mem_def has_free_def logger_idle_def)
    then have "has_free P32 ms" using spec [OF s(4), of P32] by simp
    ultimately have "logger_idle nb ?u D S"
      using vi(1) s(2,3) by (simp add: logger_idle_def l2_idle_def)
        (simp add: u_def shown_def upd_mem_def rx_max_def TransL2S_IsSendReady_def)
    moreover have "Trans_RecvTask app ?w = map_option snd (Trans_SendCmdFrame ?u None 0 CMD_ACK)"
      using v(7) False f(4,6) cb s(1) by simp
    moreover have "u8SeqRemote ?u = sq" "STrans.more ?u = see ctrl data (STrans.more w)"
      using vi(3) by (simp_all add: u_def shown_def upd_mem_def)
    ultimately show ?thesis using that [of ?u nb] False by simp
  qed
qed

end

section \<open>The acknowledge goes out\<close>

lemma post_ack:
  fixes w :: "'a STrans_scheme"
  assumes i: "logger_idle rb w D S"
  obtains v a where "map_option snd (Trans_SendCmdFrame w None 0 CMD_ACK) = Some v" "tinv [] v D [a] S" "fst a = P32"
    "new_frame CMD_ACK 0 (u8SeqRemote w) None (smems (mem v) a)" "sent_env v = sent_env w" "sTransL1 v = sTransL1 w"
    "l2Sending v = l2Sending w"
proof -
  have w: "tinv [] w D [] S" "bStarted w" "has_free P32 (mem w)" using i by (simp_all add: logger_idle_def)
  have ok: "mem_ok (mem w)" using tinv_store [OF w(1)] by (simp add: store_inv_def)
  have sp: "select_part (ucast (8 + 16 + (capped 0 + 8) :: u16)) = Some P32" by (simp add: capped_def select_part_def)
  obtain j ms where m: "Mem_Alloc (8 + 16 + (capped 0 + 8)) (mem w) = (Some (P32, j), ms)"
    using has_free_alloc [OF ok sp w(3)] by metis
  have d: "case None of None \<Rightarrow> True | Some d \<Rightarrow> unat (capped 0) \<le> length (d :: u8 list)" by simp
  have sq: "u8SeqRemote w = (if E_CMD_FRM = E_CMD_FRM then u8SeqRemote w else u8SeqLocal w)" by simp
  have ne: "CMD_ACK AND 0x3F = FRM_DATA \<Longrightarrow> (0 :: u16) < 0" by (simp add: CMD_ACK_def FRM_DATA_def)
  obtain v where v: "Trans_send w None 0 CMD_ACK E_CMD_FRM = Some (True, v)"
    "tinv [] v (if is_cmd CMD_ACK then D else D @ [(P32, j)]) (if is_cmd CMD_ACK then [] @ [(P32, j)] else []) S"
    "(P32, j) \<notin> set ([] @ rx_held w @ tx_held w @ D @ [] @ S)"
    "new_frame CMD_ACK (capped 0) (u8SeqRemote w) None (smems (mem v) (P32, j))"
    "u8SeqLocal v = (if E_CMD_FRM = E_CMD_FRM then u8SeqLocal w else u8SeqLocal w + 1)"
    "semPosts v = semPosts w + 1" "posted (P32, j) w v"
    by (rule Trans_send_tinv [OF w(1,2) d sq m ne])
  have "sent_env v = sent_env w" "sTransL1 v = sTransL1 w" "l2Sending v = l2Sending w"
    using v(7) by (auto simp: posted_def sent_env_def)
  moreover have "is_cmd CMD_ACK" "capped 0 = 0" by (simp_all add: is_cmd_def CMD_ACK_def capped_def)
  ultimately show ?thesis using that [of v "(P32, j)"] v(1,2,4) by (simp add: Trans_SendCmdFrame_def)
qed

lemma cmd_leaves:
  fixes w :: "'a STrans_scheme"
  assumes t: "tinv [] w D C S" and s: "sending fb (sTransL1 w)" "fClbL1SendDone (sTransL1 w) = Some L1SendDone"
  obtains v where "l2_tx_irqs (length fb) w = (fb, v)" "tinv [] v D C S" "\<not> bL1Sending v" "\<not> hL1TimeOutTimer v"
    "\<not> l1Sending (sTransL1 v)" "\<not> isTxBusy (trans_uart_state (sTransL1 v))" "l1_env (sTransL1 v) = l1_env (sTransL1 w)"
    "sent_env v = sent_env w" "frm b v = frm b w" "sMemSend v = sMemSend w" "frmSend v = frmSend w" "l2Sending v = l2Sending w"
    "bWaitingL1Send v = bWaitingL1Send w"
proof -
  obtain l1 where l1: "tx_irqs (length fb) (sTransL1 w) = (fb, [L1SendDone], l1)" "\<not> l1Sending l1" "\<not> isTxBusy (trans_uart_state l1)"
    using tx_irqs_sending [OF s(1) order_refl] s(2) by auto
  have e: "l1_env l1 = l1_env (sTransL1 w)" by (rule tx_irqs_env [OF l1(1)])
  let ?v = "(Clb_L1SendDone w)\<lparr>sTransL1 := l1\<rparr>"
  have "l1_ok l1" using tinv_l1_ok [OF t] e by (simp add: l1_ok_def l1_env_def)
  then have "tinv [] ?v D C S"
    using t by (simp add: Clb_L1SendDone_def StopL1TimeOutTimer_def Let_def tinv_def qs_of_def rx_ok_def tx_ok_def clbs_on_def frm_def)
  moreover have "l2_tx_irqs (length fb) w = (fb, ?v)" using l2_tx_irqs_l1 [OF l1(1)] by simp
  ultimately show ?thesis
    using that [of ?v] l1(2,3) e by (simp add: Clb_L1SendDone_def StopL1TimeOutTimer_def Let_def sent_env_def frm_def)
qed

context watcher
begin

text \<open>After the last byte the send task reports the frame as sent and, as it asks for no acknowledge, gives it back.\<close>

lemma cmd_done:
  assumes t: "tinv [] w D [] S" and b: "frmSend w = Some a" "sMemSend w = Some a" "l2Sending w" "bWaitingL1Send w" "\<not> bL1Sending w"
      "\<not> hL1TimeOutTimer w" "\<not> bUpdateWaitingACKFrameState w" "l2Started w"
    and fr: "frm a w = frame_bytes src dst sq ctrl data @ rs" "\<not> IS_ACK_REQ ctrl"
  obtains v where "Trans_SendTask app w = Some v" "tinv [] v D [] S" "TransL2S_IsSendReady v" "sTransL1 v = sTransL1 w"
    "sent_env v = sent_env w" "has_free (fst a) (mem v)"
proof -
  let ?u = "w\<lparr>l2Sending := False, bWaitingL1Send := False, u8ErrorCode := TRANS_SUCCESS\<rparr>"
  have l: "5 < length (frm a w)" by (simp add: fr(1))
  have c: "fClbL2SendDone w" using t by (simp add: tinv_def clbs_on_def)
  have g: "frm_get a 4 ?u = Some ctrl" by (simp add: frm_get_def frm_def fr(1) [unfolded frm_def])
      (simp add: frame_bytes_def frame_header_def)
  have "Trans_SendTask app w = TransL2S_SendTask (l3_l2_clbs app) w"
    using b(3,7) by (simp add: Trans_SendTask_def TransL2S_IsSendReady_def)
  also have "\<dots> = Clb_L2SendDone app TRANS_SUCCESS (Some a) ?u"
    using SendTask_done [OF b(1) l b(4,5,3) c, of "l3_l2_clbs app"] b(2) by (simp add: l3_l2_clbs_def)
  also have "\<dots> = Some (free_mem a ?u)"
    using g fr(2) sent by (simp add: Clb_L2SendDone_def)
  finally have r: "Trans_SendTask app w = Some (free_mem a ?u)" .
  have t2: "tinv [a] ?u D [] S"
    using tx_release [OF t b(3,2,6), where u = "bL1Sending w" and v = False] by simp
  have ok: "mem_ok (mem ?u)" "a \<in> used_blocks (mem ?u)"
    using tinv_store [OF t2] tinv_distinct(2) [OF t2] by (simp_all add: store_inv_def)
  have "has_free (fst a) (mem (free_mem a ?u))" using has_free_freed [OF ok] by (simp add: free_mem_def)
  moreover have "TransL2S_IsSendReady (free_mem a ?u)" "sTransL1 (free_mem a ?u) = sTransL1 w" "sent_env (free_mem a ?u) = sent_env w"
    using b(8) by (simp_all add: TransL2S_IsSendReady_def free_mem_def sent_env_def)
  ultimately show ?thesis using that [OF r free_mem_tinv(1) [OF t2]] by simp
qed

end

section \<open>The logger serves a frame\<close>

text \<open>
  The bytes \<open>bs\<close> arrive at the port, the transport task runs, the transmit interrupts put the answer on the
  wire (an acknowledge is 8 bytes long), and the task runs again.
\<close>

definition serve :: "('a STrans_scheme) l3_clbs \<Rightarrow> u8 list \<Rightarrow> 'a STrans_scheme \<Rightarrow> (u8 list \<times> 'a STrans_scheme) option" where
  "serve app bs w = do {
     w \<leftarrow> Trans_Task app (fold l2_rx_irq bs w);
     let (out, w) = l2_tx_irqs 8 w;
     w \<leftarrow> Trans_Task app w;
     Some (out, w)
   }"

text \<open>The acknowledge of the frame with the number \<open>sq\<close>, as it leaves the logger.\<close>

definition ack_frame :: "u8 \<Rightarrow> u8 list" where
  "ack_frame sq = frame_bytes LOGGER_DEV_ID LOGGER_PC_ID sq CMD_ACK []"

lemma length_ack [simp]: "length (ack_frame sq) = 8"
  by (simp add: ack_frame_def)

context watcher
begin

lemma ack_step:
  assumes i: "logger_idle rb w D S"
  obtains v2 v4 v where "map_option snd (Trans_SendCmdFrame w None 0 CMD_ACK) \<bind> Trans_SendTask app = Some v2"
    "l2_tx_irqs 8 v2 = (ack_frame (u8SeqRemote w), v4)" "Trans_Task app v4 = Some v" "logger_idle rb v D S"
    "u8SeqRemote v = u8SeqRemote w" "STrans.more v = STrans.more w"
proof -
  note w = i [unfolded logger_idle_def l2_idle_def l1_ready_def TransL2S_IsSendReady_def]
  obtain v1 a where v1: "map_option snd (Trans_SendCmdFrame w None 0 CMD_ACK) = Some v1" "tinv [] v1 D [a] S" "fst a = P32"
    "new_frame CMD_ACK 0 (u8SeqRemote w) None (smems (mem v1) a)" "sent_env v1 = sent_env w" "sTransL1 v1 = sTransL1 w"
    "l2Sending v1 = l2Sending w" by (rule post_ack [OF i])
  let ?fb = "ack_frame (u8SeqRemote w)"
  have r: "\<not> bUpdateWaitingACKFrameState v1" "TransL2S_IsSendReady v1" "l1_ready (sTransL1 v1)"
    using w v1(5-7) by (simp_all add: sent_env_def TransL2S_IsSendReady_def l1_ready_def)
  have fb: "?fb = wire_bytes (u8NodeID v1) (smems (mem v1) a)"
    using w v1(4,5) by (simp add: ack_frame_def wire_bytes_def new_frame_def sent_env_def)
  have n: "[a] @ D = a # D" by simp
  obtain v2 rs where v2: "Trans_SendTask app v1 = Some v2" "tinv [] v2 (if [a] = [] then tl D else D) (tl [a]) S" "sMemSend v2 = Some a"
    "frmSend v2 = Some a" "l2Sending v2" "bWaitingL1Send v2" "bL1Sending v2" "hL1TimeOutTimer v2" "frm a v2 = ?fb @ rs"
    "sending ?fb (sTransL1 v2)" "l1_env (sTransL1 v2) = l1_env (sTransL1 v1)" "sent_env v2 = sent_env v1"
    "u8NumSend (smems (mem v2) a) = u8NumSend (smems (mem v1) a) - 1" by (rule SendTask_start [OF v1(2) n r fb])
  have t2: "tinv [] v2 D [] S" using v2(2) by simp
  have c: "fClbL1SendDone (sTransL1 v2) = Some L1SendDone" using w v1(6) v2(11) by (simp add: l1_env_def)
  obtain v4 where v4: "l2_tx_irqs (length ?fb) v2 = (?fb, v4)" "tinv [] v4 D [] S" "\<not> bL1Sending v4" "\<not> hL1TimeOutTimer v4"
    "\<not> l1Sending (sTransL1 v4)" "\<not> isTxBusy (trans_uart_state (sTransL1 v4))" "l1_env (sTransL1 v4) = l1_env (sTransL1 v2)"
    "sent_env v4 = sent_env v2" "frm a v4 = frm a v2" "sMemSend v4 = sMemSend v2" "frmSend v4 = frmSend v2" "l2Sending v4 = l2Sending v2"
    "bWaitingL1Send v4 = bWaitingL1Send v2" by (rule cmd_leaves [OF t2 v2(10) c])
  have e4: "sent_env v4 = sent_env w" "l1_env (sTransL1 v4) = l1_env (sTransL1 w)" using v1(5,6) v2(11,12) v4(7,8) by simp_all
  have q: "frmRecv v4 = Some rb" "u16RecvCount v4 = 0" "l1_bytes (sTransL1 v4) = []" "rx_max v4 = 512"
    using w e4 by (simp_all add: sent_env_def l1_env_def l1_bytes_def rx_max_def)
  obtain v5 where v5: "Trans_RecvTask app v4 = Some v5" "tinv [] v5 D [] S" "rx_same rb v4 v5" "l1_bytes (sTransL1 v5) = []"
    "rx_max v5 = rx_max v4" "u16RecvCount v5 = 0" by (rule RecvTask_quiet [OF v4(2) q(1-3)])
  obtain f ff k s where x: "v5 = with_frm rb f (v4\<lparr>sTransL1 := (sTransL1 v4)\<lparr>sRecvFIFO := ff\<rparr>, u16RecvCount := k, statDLen := s\<rparr>)"
    using v5(3) unfolding rx_same_def by blast
  have ne: "a \<noteq> rb" using w v1(3) by auto
  have e5: "sent_env v5 = sent_env w" using e4(1) v5(6) w by (simp add: x sent_env_def with_frm_def upd_mem_def)
  have f5: "frmSend v5 = Some a" "sMemSend v5 = Some a" "l2Sending v5" "bWaitingL1Send v5" "\<not> bL1Sending v5" "\<not> hL1TimeOutTimer v5"
    using v2 v4 by (simp_all add: x with_frm_def upd_mem_def)
  have g5: "\<not> bUpdateWaitingACKFrameState v5" "l2Started v5" using e5 w by (simp_all add: sent_env_def)
  have fr: "frm a v5 = frame_bytes LOGGER_DEV_ID LOGGER_PC_ID (u8SeqRemote w) CMD_ACK [] @ rs"
    using v2(9) v4(9) ne by (simp add: x frm_def with_frm_def upd_mem_def ack_frame_def)
  have na: "\<not> IS_ACK_REQ CMD_ACK" by (simp add: IS_ACK_REQ_def CMD_ACK_def)
  obtain v where v: "Trans_SendTask app v5 = Some v" "tinv [] v D [] S" "TransL2S_IsSendReady v" "sTransL1 v = sTransL1 v5"
    "sent_env v = sent_env v5" "has_free (fst a) (mem v)" by (rule cmd_done [OF v5(2) f5 g5 fr na])
  have ev: "sent_env v = sent_env w" using v(5) e5 by simp
  have fv: "frmRecv v = Some rb" using ev w by (simp add: sent_env_def)
  have "rx_inv rb v" using v(2) by (intro rx_ok_inv [OF _ fv]) (simp add: tinv_def)
  moreover have "l1_ready (sTransL1 v)" "fClbL1RecvData (sTransL1 v) \<noteq> Some L1SendDone"
    using v4(5,6) e4(2) w by (simp_all add: v(4) x l1_ready_def TransL1_IsSendReady_def l1_env_def)
  moreover have "rx_max v = 512" using v5(5) q(4) by (simp add: rx_max_def v(4))
  ultimately have "logger_idle rb v D S"
    using v ev w v5(4) v1(3) by (simp add: logger_idle_def l2_idle_def sent_env_def)
  moreover have "Trans_Task app v4 = Some v" using v5(1) v(1) by (simp add: Trans_Task_def)
  ultimately show ?thesis using that [of v2 v4 v] v1(1) v2(1) v4(1) ev by (simp add: sent_env_def)
qed

lemma serve_step:
  assumes i: "logger_idle rb w D S" and len: "length data \<le> 240" and ct: "IS_DATA_FRM ctrl" "IS_ACK_REQ ctrl"
  obtains v nb where "serve app (frame_bytes src LOGGER_DEV_ID sq ctrl data) w = Some (ack_frame sq, v)" "logger_idle nb v D S"
    "u8SeqRemote v = sq" "STrans.more v = (if sq = u8SeqRemote w then STrans.more w else see ctrl data (STrans.more w))"
proof -
  obtain u nb where u: "Trans_RecvTask app (fold l2_rx_irq (frame_bytes src LOGGER_DEV_ID sq ctrl data) w)
      = map_option snd (Trans_SendCmdFrame u None 0 CMD_ACK)"
    "logger_idle nb u D S" "u8SeqRemote u = sq"
    "STrans.more u = (if sq = u8SeqRemote w then STrans.more w else see ctrl data (STrans.more w))"
    by (rule recv_step [OF i len ct])
  obtain v2 v4 v where v: "map_option snd (Trans_SendCmdFrame u None 0 CMD_ACK) \<bind> Trans_SendTask app = Some v2"
    "l2_tx_irqs 8 v2 = (ack_frame (u8SeqRemote u), v4)" "Trans_Task app v4 = Some v" "logger_idle nb v D S"
    "u8SeqRemote v = u8SeqRemote u" "STrans.more v = STrans.more u" by (rule ack_step [OF u(2)])
  have "Trans_Task app (fold l2_rx_irq (frame_bytes src LOGGER_DEV_ID sq ctrl data) w) = Some v2"
    using u(1) v(1) by (simp add: Trans_Task_def)
  then show ?thesis using that [of v nb] v u by (simp add: serve_def)
qed

end

section \<open>Interpretations\<close>

interpretation ui_watch: watcher ui_clbs "\<lambda>ct d x. x"
  by unfold_locales (simp_all add: ui_clbs_def Clb_TransUI_RecvEvent_def Clb_TransUI_SentEvent_def)

text \<open>An observer in the place of the application: it records the data of every frame it is given.\<close>

definition log_clbs :: "(u8 list list STrans_scheme) l3_clbs" where
  "log_clbs = \<lparr>onL3Recv = (\<lambda>b ct w. Some (STrans.more_update (\<lambda>x. x @ [take (unat (u16DLen (smems (mem w) b))) (drop 8 (frm b w))]) w)),
     onL3Sent = (\<lambda>b ct w. Some w)\<rparr>"

interpretation logged: watcher log_clbs "\<lambda>ct d x. x @ [d]"
  by unfold_locales (simp_all add: log_clbs_def)

lemma boot_logger_idle: "logger_idle (P272, 0) (l3_boot app x port baud) [] []"
proof -
  have "(P32, 0) \<notin> used_blocks (mem (l3_boot app x port baud))" by (simp add: l3_boot_start(12))
  then have "has_free P32 (mem (l3_boot app x port baud))" unfolding has_free_def by (intro exI [of _ 0]) simp
  then show ?thesis
    using l3_boot_start(1,2,7,10) [of app x port baud] boot_idle [of app x port baud] l3_boot_flags [of app x port baud]
    by (simp add: logger_idle_def)
qed

section \<open>Many frames\<close>

fun serve_all :: "('a STrans_scheme) l3_clbs \<Rightarrow> u8 list list \<Rightarrow> 'a STrans_scheme \<Rightarrow> (u8 list list \<times> 'a STrans_scheme) option" where
  "serve_all app [] w = Some ([], w)"
| "serve_all app (bs # bss) w = do { (out, w) \<leftarrow> serve app bs w; (outs, w) \<leftarrow> serve_all app bss w; Some (out # outs, w) }"

lemma serve_all_append:
  "serve_all app (xs @ ys) w = do { (o1, w) \<leftarrow> serve_all app xs w; (o2, w) \<leftarrow> serve_all app ys w; Some (o1 @ o2, w) }"
  by (induction xs arbitrary: w) (auto simp: bind_assoc split: prod.splits Option.bind_split)

text \<open>A frame with its sequence number, and the number of times the peer repeats it before the acknowledge reaches it.\<close>

type_synonym sent_frame = "nat \<times> u8 \<times> u8 list"

definition arriving :: "u8 \<Rightarrow> u8 \<Rightarrow> sent_frame \<Rightarrow> u8 list list" where
  "arriving src ctrl = (\<lambda>(k, sq, data). replicate (Suc k) (frame_bytes src LOGGER_DEV_ID sq ctrl data))"

definition answers :: "sent_frame \<Rightarrow> u8 list list" where
  "answers = (\<lambda>(k, sq, data). replicate (Suc k) (ack_frame sq))"

lemma serve_repeats:
  assumes "logger_idle rb w D S" "length data \<le> 240" "IS_DATA_FRM ctrl" "IS_ACK_REQ ctrl" "u8SeqRemote w = sq"
  shows "\<exists>v nb. serve_all log_clbs (replicate k (frame_bytes src LOGGER_DEV_ID sq ctrl data)) w = Some (replicate k (ack_frame sq), v)
    \<and> logger_idle nb v D S \<and> u8SeqRemote v = sq \<and> STrans.more v = STrans.more w"
  using assms(1,5)
proof (induction k arbitrary: w rb)
  case (Suc k)
  obtain v nb where v: "serve log_clbs (frame_bytes src LOGGER_DEV_ID sq ctrl data) w = Some (ack_frame sq, v)" "logger_idle nb v D S"
    "u8SeqRemote v = sq" "STrans.more v = (if sq = u8SeqRemote w then STrans.more w else STrans.more w @ [data])"
    by (rule logged.serve_step [OF Suc.prems(1) assms(2-4)])
  from Suc.IH [OF v(2,3)] obtain v2 nb2 where
    v2: "serve_all log_clbs (replicate k (frame_bytes src LOGGER_DEV_ID sq ctrl data)) v = Some (replicate k (ack_frame sq), v2)"
    "logger_idle nb2 v2 D S" "u8SeqRemote v2 = sq" "STrans.more v2 = STrans.more v" by blast
  show ?case using v(1,4) v2 Suc.prems(2) by (intro exI [of _ v2] exI [of _ nb2]) simp
qed auto

lemma serve_frames:
  assumes "logger_idle rb w D S" "\<forall>(k, sq, data) \<in> set fs. length data \<le> 240" "IS_DATA_FRM ctrl" "IS_ACK_REQ ctrl"
    and "distinct_adj (u8SeqRemote w # map (fst \<circ> snd) fs)"
  shows "\<exists>v nb. serve_all log_clbs (concat (map (arriving src ctrl) fs)) w = Some (concat (map answers fs), v)
    \<and> logger_idle nb v D S \<and> STrans.more v = STrans.more w @ map (snd \<circ> snd) fs"
  using assms(1,2,5)
proof (induction fs arbitrary: w rb)
  case (Cons f fs)
  obtain k sq data where f: "f = (k, sq, data)" by (cases f) auto
  have len: "length data \<le> 240" and ne: "sq \<noteq> u8SeqRemote w" using Cons.prems(2,3) f by auto
  obtain v nb where v: "serve log_clbs (frame_bytes src LOGGER_DEV_ID sq ctrl data) w = Some (ack_frame sq, v)" "logger_idle nb v D S"
    "u8SeqRemote v = sq" "STrans.more v = (if sq = u8SeqRemote w then STrans.more w else STrans.more w @ [data])"
    by (rule logged.serve_step [OF Cons.prems(1) len assms(3,4)])
  from serve_repeats [OF v(2) len assms(3,4) v(3), of k src] obtain v2 nb2 where
    v2: "serve_all log_clbs (replicate k (frame_bytes src LOGGER_DEV_ID sq ctrl data)) v = Some (replicate k (ack_frame sq), v2)"
    "logger_idle nb2 v2 D S" "u8SeqRemote v2 = sq" "STrans.more v2 = STrans.more v" by blast
  have "distinct_adj (u8SeqRemote v2 # map (fst \<circ> snd) fs)" using Cons.prems(3) f v2(3) by (simp add: comp_def)
  from Cons.IH [OF v2(2) _ this] Cons.prems(2) obtain v3 nb3 where
    "serve_all log_clbs (concat (map (arriving src ctrl) fs)) v2 = Some (concat (map answers fs), v3)" "logger_idle nb3 v3 D S"
    "STrans.more v3 = STrans.more v2 @ map (snd \<circ> snd) fs" by auto
  then show ?case using v v2 ne
    by (intro exI [of _ v3] exI [of _ nb3]) (simp add: f arriving_def answers_def serve_all_append)
qed auto

section \<open>A peer that runs layer 2\<close>

text \<open>The peer's layer 2 sends the frame in its buffer \<open>b\<close>: the bytes on the wire, and the port at rest again.\<close>

lemma peer_sends:
  fixes p :: "'a STransL2S_scheme"
  assumes i: "l2_idle pb p" "fClbL2SendDone p" "b \<noteq> pb"
    and dl: "u16DLen (smems (mem p) b) \<le> 240" "8 + unat (u16DLen (smems (mem p) b)) \<le> length (frm b p)"
    and data: "data = take (unat (u16DLen (smems (mem p) b))) (drop 8 (frm b p))"
    and fb: "fb = frame_bytes (u8NodeID p) dst (u8Seq (smems (mem p) b)) (u8Ctrl (smems (mem p) b)) data"
  obtains p1 p2 p3 p4 where "TransL2S_Send p dst b = Some (TRANS_SUCCESS, p1)" "TransL2S_SendTask no_clbs p1 = Some p2"
    "l2_tx_irqs (length fb) p2 = (fb, p3)" "TransL2S_SendTask no_clbs p3 = Some p4" "l2_idle pb p4" "u8NodeID p4 = u8NodeID p"
proof -
  note w = i(1) [unfolded l2_idle_def]
  let ?p1 = "sent_state dst b data p"
  have s: "TransL2S_Send p dst b = Some (TRANS_SUCCESS, ?p1)" using TransL2S_Send_ok [OF _ dl data] w by simp
  have "length data \<le> 240" using dl data by (simp add: word_le_nat_alt)
  then have len: "length fb = 8 + unat (fb ! 5)" by (simp add: fb unat_of_nat frame_bytes_def frame_header_def)
  have fr: "frm b ?p1 = fb @ drop (8 + length data) (frm b p)" by (simp add: frm_sent fb)
  have r: "l1_ready (sTransL1 ?p1)" using w by (simp add: sent_sel)
  from RunSendFrame_start [OF sent_sel(1) fr len sent_sel(4) r sent_sel(3), of no_clbs] obtain l1 where
    l1: "TransL2S_SendTask no_clbs ?p1 = Some (?p1\<lparr>bL1Sending := True, bWaitingL1Send := True, sTransL1 := l1,
             u8ErrorCode := TRANS_SUCCESS, u32L1SendTimeout := 40, hL1TimeOutTimer := True\<rparr>)"
    "sending fb l1" "l1_env l1 = l1_env (sTransL1 p)" by (auto simp: sent_sel)
  define p2 where "p2 = ?p1\<lparr>bL1Sending := True, bWaitingL1Send := True, sTransL1 := l1,
             u8ErrorCode := TRANS_SUCCESS, u32L1SendTimeout := 40, hL1TimeOutTimer := True\<rparr>"
  have c: "fClbL1SendDone l1 = Some L1SendDone" using w l1(3) by (simp add: l1_env_def l1_ready_def)
  obtain l2 where l2: "tx_irqs (length fb) (sTransL1 p2) = (fb, [L1SendDone], l2)" "\<not> l1Sending l2" "\<not> isTxBusy (trans_uart_state l2)"
    using tx_irqs_sending [OF l1(2) order_refl] c by (auto simp: p2_def)
  have e: "l1_env l2 = l1_env (sTransL1 p)" using tx_irqs_env [OF l2(1)] l1(3) by (simp add: p2_def)
  define p3 where "p3 = (Clb_L1SendDone p2)\<lparr>sTransL1 := l2\<rparr>"
  have tx: "l2_tx_irqs (length fb) p2 = (fb, p3)" using l2_tx_irqs_l1 [OF l2(1)] by (simp add: p3_def)
  have f3: "frmSend p3 = Some b" "5 < length (frm b p3)" "bWaitingL1Send p3" "\<not> bL1Sending p3" "l2Sending p3" "fClbL2SendDone p3"
    using i(2) len fr by (simp_all add: p3_def p2_def Clb_L1SendDone_def StopL1TimeOutTimer_def Let_def sent_sel frm_def)
  let ?p4 = "p3\<lparr>l2Sending := False, bWaitingL1Send := False, u8ErrorCode := TRANS_SUCCESS\<rparr>"
  have d: "TransL2S_SendTask no_clbs p3 = Some ?p4" using SendTask_done [OF f3] by (simp add: no_clbs_def)
  have g: "frmRecv ?p4 = frmRecv p" "u16RecvCount ?p4 = u16RecvCount p" "statDLen ?p4 = statDLen p" "frm pb ?p4 = frm pb p"
    "u8NodeID ?p4 = u8NodeID p" "l2Started ?p4 = l2Started p" "sTransL1 ?p4 = l2"
    using i(3) by (simp_all add: p3_def p2_def Clb_L1SendDone_def StopL1TimeOutTimer_def Let_def sent_state_def frm_def with_frm_def upd_mem_def)
  have "l2_idle pb ?p4"
    using w g e l2(2,3)
    by (simp add: l2_idle_def rx_inv_def l1_env_def l1_ok_def l1_bytes_def rx_max_def l1_ready_def TransL1_IsSendReady_def TransL2S_IsSendReady_def)
  then show ?thesis using that [of ?p1 p2 p3 ?p4] s l1(1) tx d g(5) by (simp add: p2_def)
qed

text \<open>The acknowledge of the logger reaches the peer's layer 2.\<close>

lemma peer_acked:
  fixes p :: "'a STransL2S_scheme"
  assumes "l2_idle pb p" "u8NodeID p = LOGGER_PC_ID"
  obtains v where "TransL2S_RecvTask cb (fold l2_rx_irq (ack_frame sq) p) = Some (TRANSL2_RCV_ACK, v)" "u8SeqCMDFrm v = sq"
proof -
  let ?p = "fold l2_rx_irq (ack_frame sq) p"
  obtain ff where a: "?p = p\<lparr>sTransL1 := (sTransL1 p)\<lparr>sRecvFIFO := ff\<rparr>\<rparr>"
    "rx_inv pb ?p" "l1_bytes (sTransL1 ?p) = ack_frame sq" "rx_max ?p = 512"
    by (rule idle_arrive [OF assms(1), of "ack_frame sq"]) simp
  have f: "frmRecv ?p = Some pb" "u16RecvCount ?p = 0" "u8NodeID ?p = LOGGER_PC_ID"
    using assms by (simp_all add: a(1) l2_idle_def)
  have b: "l1_bytes (sTransL1 ?p) = [] @ frame_bytes LOGGER_DEV_ID LOGGER_PC_ID sq CMD_ACK [] @ []"
    using a(3) by (simp add: ack_frame_def)
  have q: "quiet ([] @ frame_bytes LOGGER_DEV_ID LOGGER_PC_ID sq CMD_ACK [] @ []) (length ([] :: u8 list))" by (simp add: quiet_def)
  have z: "length ([] :: u8 list) \<le> 240" by simp
  from ProcessRecvData_frame [OF f(1) a(2) f(2) z b q, of cb] obtain v where v: "ProcessRecvData cb ?p = Some (True, v)" "rx_same pb ?p v"
    "take (8 + length ([] :: u8 list)) (frm pb v) = frame_bytes LOGGER_DEV_ID LOGGER_PC_ID sq CMD_ACK []" by blast
  have r: "frmRecv v = Some pb" "u8NodeID v = LOGGER_PC_ID" using v(2) f by (auto simp: rx_same_def with_frm_def upd_mem_def)
  have "OnRecvFrame cb v = Some (TRANSL2_RCV_ACK, v\<lparr>u8SeqCMDFrm := sq\<rparr>)"
    using OnRecvFrame_good [OF r(1) v(3) z, of cb] r(2)
    by (simp add: for_us_def ack_wanted_def IS_DATA_FRM_def IS_ACK_REQ_def GET_FRM_TYPE_def CMD_ACK_def)
  then show ?thesis using that [of "v\<lparr>u8SeqCMDFrm := sq\<rparr>"] v(1) by (simp add: TransL2S_RecvTask_def)
qed

section \<open>Properties\<close>

text \<open>C3: a peer that repeats each data frame until it hears the acknowledge, and numbers consecutive frames differently: every
  copy that arrives is acknowledged with the frame's number, and the application is given each frame exactly once, in order,
  with exactly the bytes sent; between frames the logger is at rest again, with its own queues as they were.\<close>

theorem Trans_exactly_once:
  assumes "logger_idle rb w D S" "\<forall>(k, sq, data) \<in> set fs. length data \<le> 240" "IS_DATA_FRM ctrl" "IS_ACK_REQ ctrl"
    and "distinct_adj (u8SeqRemote w # map (fst \<circ> snd) fs)"
  shows "\<exists>v nb. serve_all log_clbs (concat (map (arriving src ctrl) fs)) w = Some (concat (map answers fs), v)
    \<and> logger_idle nb v D S \<and> STrans.more v = STrans.more w @ map (snd \<circ> snd) fs"
  using serve_frames [OF assms] .

lemma Trans_exactly_once_witness:
  "\<exists>v. serve_all log_clbs (replicate 3 (frame_bytes 1 2 0 0xA0 [10, 11]) @ [frame_bytes 1 2 1 0xA0 [12]]) (l3_boot log_clbs [] 1 115200)
     = Some (replicate 3 (ack_frame 0) @ [ack_frame 1], v) \<and> STrans.more v = [[10, 11], [12]]"
proof -
  let ?fs = "[(2, 0, [10, 11]), (0, 1, [12])] :: sent_frame list"
  have c: "\<forall>(k, sq, data) \<in> set ?fs. length data \<le> 240" "IS_DATA_FRM 0xA0" "IS_ACK_REQ 0xA0"
    "distinct_adj (u8SeqRemote (l3_boot log_clbs [] 1 115200) # map (fst \<circ> snd) ?fs)"
    by (simp_all add: IS_DATA_FRM_def IS_ACK_REQ_def l3_boot_flags)
  from Trans_exactly_once [OF boot_logger_idle c, where src = 1] show ?thesis
    by (auto simp: arriving_def answers_def LOGGER_DEV_ID_def l3_boot_start eval_nat_numeral)
qed

text \<open>C4: one exchange over the wire between two nodes that run this code: the peer's layer 2 sends a data frame that asks for an
  acknowledge; the bytes its transmit interrupts emit reach the logger; the logger's task hands the data to the application
  unless the frame is a repetition and answers; the bytes of the answer reach the peer, whose layer 2 reports an
  acknowledge of exactly that frame.  Both ports are at rest again.\<close>

theorem Exchange_completes:
  fixes p :: "'b STransL2S_scheme"
  assumes "logger_idle rb w D S" "l2_idle pb p" "fClbL2SendDone p" "u8NodeID p = LOGGER_PC_ID" "b \<noteq> pb"
    and "u16DLen (smems (mem p) b) \<le> 240" "8 + unat (u16DLen (smems (mem p) b)) \<le> length (frm b p)"
    and "data = take (unat (u16DLen (smems (mem p) b))) (drop 8 (frm b p))" "sq = u8Seq (smems (mem p) b)"
    and "IS_DATA_FRM (u8Ctrl (smems (mem p) b))" "IS_ACK_REQ (u8Ctrl (smems (mem p) b))"
  shows "\<exists>p1 p2 p3 p4 p5 v nb bs ack. TransL2S_Send p LOGGER_DEV_ID b = Some (TRANS_SUCCESS, p1)
     \<and> TransL2S_SendTask no_clbs p1 = Some p2 \<and> l2_tx_irqs (8 + length data) p2 = (bs, p3)
     \<and> TransL2S_SendTask no_clbs p3 = Some p4 \<and> l2_idle pb p4
     \<and> serve log_clbs bs w = Some (ack, v) \<and> logger_idle nb v D S
     \<and> STrans.more v = (if sq = u8SeqRemote w then STrans.more w else STrans.more w @ [data]) \<and> u8SeqRemote v = sq
     \<and> TransL2S_RecvTask no_clbs (fold l2_rx_irq ack p4) = Some (TRANSL2_RCV_ACK, p5) \<and> u8SeqCMDFrm p5 = sq"
proof -
  define fb where "fb = frame_bytes (u8NodeID p) LOGGER_DEV_ID sq (u8Ctrl (smems (mem p) b)) data"
  have len: "length data \<le> 240" using assms(6-8) by (simp add: word_le_nat_alt)
  obtain p1 p2 p3 p4 where p: "TransL2S_Send p LOGGER_DEV_ID b = Some (TRANS_SUCCESS, p1)" "TransL2S_SendTask no_clbs p1 = Some p2"
    "l2_tx_irqs (length fb) p2 = (fb, p3)" "TransL2S_SendTask no_clbs p3 = Some p4" "l2_idle pb p4" "u8NodeID p4 = u8NodeID p"
    by (rule peer_sends [OF assms(2,3,5-8) fb_def [unfolded assms(9)]])
  obtain v nb where v: "serve log_clbs fb w = Some (ack_frame sq, v)" "logger_idle nb v D S" "u8SeqRemote v = sq"
    "STrans.more v = (if sq = u8SeqRemote w then STrans.more w else STrans.more w @ [data])"
    unfolding fb_def by (rule logged.serve_step [OF assms(1) len assms(10,11)])
  have "u8NodeID p4 = LOGGER_PC_ID" using p(6) assms(4) by simp
  from peer_acked [OF p(5) this, of no_clbs sq] obtain p5 where
    "TransL2S_RecvTask no_clbs (fold l2_rx_irq (ack_frame sq) p4) = Some (TRANSL2_RCV_ACK, p5)" "u8SeqCMDFrm p5 = sq" by blast
  moreover have "length fb = 8 + length data" by (simp add: fb_def)
  ultimately show ?thesis using p v by metis
qed

lemma Exchange_completes_witness:
  "\<exists>(p :: STransL2S) p1 p2 p3 p4 p5 v bs ack. TransL2S_Send p LOGGER_DEV_ID (P272, 1) = Some (TRANS_SUCCESS, p1)
     \<and> TransL2S_SendTask no_clbs p1 = Some p2 \<and> l2_tx_irqs 10 p2 = (bs, p3) \<and> TransL2S_SendTask no_clbs p3 = Some p4
     \<and> serve log_clbs bs (l3_boot log_clbs [] 1 115200) = Some (ack, v) \<and> STrans.more v = [[10, 11]]
     \<and> TransL2S_RecvTask no_clbs (fold l2_rx_irq ack p4) = Some (TRANSL2_RCV_ACK, p5) \<and> u8SeqCMDFrm p5 = 7"
proof -
  define b1 :: blk where "b1 = (P272, 1)"
  define p where "p = upd_mem b1 (\<lambda>m. m\<lparr>u16DLen := 2, u8Ctrl := 0xA0, u8Seq := 7, frame := replicate 8 0 @ [10, 11]\<rparr>)
    ((l2_node 1)\<lparr>fClbL2SendDone := True\<rparr>)"
  note n = l2_node_init [of 1]
  have fp: "frm (P272, 0) p = frm (P272, 0) (l2_node 1)" by (simp add: p_def frm_def upd_mem_def b1_def)
  have i: "l2_idle (P272, 0) p" "fClbL2SendDone p" "u8NodeID p = LOGGER_PC_ID"
    using n fp by (simp_all add: l2_idle_def rx_inv_def l1_ready_def rx_max_def LOGGER_PC_ID_def TransL2S_IsSendReady_def)
      (simp_all add: p_def upd_mem_def)
  let ?m = "smems (mem p) b1"
  have m: "u16DLen ?m = 2" "u8Ctrl ?m = 0xA0" "u8Seq ?m = 7" "frm b1 p = replicate 8 0 @ [10, 11]"
    by (simp_all add: p_def upd_mem_def frm_def)
  have d: "[10, 11] = take (unat (u16DLen ?m)) (drop 8 (frm b1 p))" by (simp add: m)
  have dl: "u16DLen ?m \<le> 240" "8 + unat (u16DLen ?m) \<le> length (frm b1 p)" by (simp_all add: m)
  have c: "IS_DATA_FRM (u8Ctrl ?m)" "IS_ACK_REQ (u8Ctrl ?m)" by (simp_all add: m IS_DATA_FRM_def IS_ACK_REQ_def)
  have b: "b1 \<noteq> (P272, 0)" by (simp add: b1_def)
  have s: "(7 = u8SeqRemote (l3_boot log_clbs [] 1 115200)) = False" by (simp add: l3_boot_flags)
  have x: "STrans.more (l3_boot log_clbs [] 1 115200) = []" by (rule l3_boot_start)
  have sq: "7 = u8Seq ?m" and len: "8 + length ([10, 11] :: u8 list) = 10" by (simp_all add: m)
  show ?thesis
    using Exchange_completes [OF boot_logger_idle [of log_clbs "[]" 1 115200] i b dl d sq c]
    unfolding len s x if_False append_Nil b1_def by blast
qed

text \<open>After power-up the last number accepted is taken to be 255: when the first frame the logger hears carries this number, it
  is acknowledged and its data is lost.\<close>

theorem Restart_loses_frame_255:
  assumes "length data \<le> 240" "IS_DATA_FRM ctrl" "IS_ACK_REQ ctrl"
  shows "\<exists>v. serve log_clbs (frame_bytes src LOGGER_DEV_ID 255 ctrl data) (l3_boot log_clbs [] port baud) = Some (ack_frame 255, v)
     \<and> STrans.more v = []"
proof -
  obtain v nb where "serve log_clbs (frame_bytes src LOGGER_DEV_ID 255 ctrl data) (l3_boot log_clbs [] port baud) = Some (ack_frame 255, v)"
    "logger_idle nb v [] []" "u8SeqRemote v = 255"
    "STrans.more v = (if 255 = u8SeqRemote (l3_boot log_clbs [] port baud) then STrans.more (l3_boot log_clbs [] port baud)
       else STrans.more (l3_boot log_clbs [] port baud) @ [data])"
    by (rule logged.serve_step [OF boot_logger_idle assms])
  then show ?thesis by (simp add: l3_boot_flags l3_boot_start)
qed

lemma Restart_loses_frame_255_witness:
  "\<exists>v. serve log_clbs (frame_bytes 1 LOGGER_DEV_ID 255 0xA0 [10, 11]) (l3_boot log_clbs [] 1 115200) = Some (ack_frame 255, v)
     \<and> STrans.more v = []"
  using Restart_loses_frame_255 [of "[10, 11]" "0xA0" 1 1 115200] by (simp add: IS_DATA_FRM_def IS_ACK_REQ_def)

end
