(* ===== verification/Modbus.thy ===== *)
theory Modbus
  imports TransL1 Checksum
begin

text \<open>
  The Modbus RTU master: the half-duplex serial port of \<^verbatim>\<open>modbus/layer1.c\<close>, the request and the
  parsing of the reply in \<^verbatim>\<open>modbus/master-rtu.c\<close>, and the polling of all tags in \<^verbatim>\<open>app.c\<close>.  A result
  \<open>None\<close> is a read or write outside a buffer.
\<close>

section \<open>State (layer1.h)\<close>

datatype EMbReturn = MB_SUCCESS | MB_FAILURE | MB_ERR_MEM | MB_ERR_BUSY | MB_ERR_NOT_STARTED | MB_ERR_TIMEOUT
  | MB_ERR_INVALID_PTR | MB_ERR_INVALID_DATA | MB_ERR_FIFO | MB_ERR_CRCD

text \<open>\<open>mbRs485Pin\<close> is the direction pin (set while sending), \<open>mbUart\<close> the driver's \<open>modbus_uart_state\<close>.\<close>

record SModbus =
  mbStarted :: bool
  mbSending :: bool
  mbUartInstance :: u32
  mbBaudRate :: u32
  mbSendBuff :: "u8 list"
  mbSendSize :: u16
  mbSendPtr :: u16
  mbRecvFIFO :: SFIFO
  mbRs485Pin :: bool
  mbUart :: uart_state

definition SIZE_FIFO_SEND :: u16 where "SIZE_FIFO_SEND = 512"
definition MB_DATA_COUNT_IDX :: nat where "MB_DATA_COUNT_IDX = 2"
definition MB_DATA_RESP_IDX :: nat where "MB_DATA_RESP_IDX = 3"

section \<open>The port (layer1.c)\<close>

definition Modbus_IsSendReady :: "SModbus \<Rightarrow> bool" where
  "Modbus_IsSendReady p = (mbStarted p = True \<and> mbSending p = False)"

definition Modbus_SetSending :: "SModbus \<Rightarrow> bool \<Rightarrow> SModbus" where
  "Modbus_SetSending p send = p\<lparr>mbSending := send\<rparr>"

definition RS485_TX :: "SModbus \<Rightarrow> SModbus" where
  "RS485_TX p = p\<lparr>mbRs485Pin := True\<rparr>"

text \<open>The wait for the hardware to shift out its last byte is not modelled.\<close>

definition RS485_RX :: "SModbus \<Rightarrow> SModbus" where
  "RS485_RX p = p\<lparr>mbRs485Pin := False\<rparr>"

definition Modbus_Uart_Init :: "SModbus \<Rightarrow> SModbus" where
  "Modbus_Uart_Init p = p\<lparr>mbUart := \<lparr>txBuff = [], txSize = 0, isTxBusy = False\<rparr>\<rparr>"

definition Modbus_Init :: "SModbus \<Rightarrow> u32 \<Rightarrow> u32 \<Rightarrow> EMbReturn \<times> SModbus" where
  "Modbus_Init p inst baud =
     (let p = p\<lparr>mbRecvFIFO := FIFO_Create (arrBuff (mbRecvFIFO p)) SIZE_FIFO_RECV\<rparr>;
          p = RS485_TX p;
          p = p\<lparr>mbUartInstance := inst, mbBaudRate := baud\<rparr>;
          p = Modbus_Uart_Init p;
          p = RS485_RX p;
          p = p\<lparr>mbStarted := False, mbSending := False\<rparr>
      in (MB_SUCCESS, p\<lparr>mbStarted := True\<rparr>))"

definition UART_DRV_SendData :: "u8 list \<Rightarrow> u32 \<Rightarrow> uart_state \<Rightarrow> uart_status \<times> uart_state" where
  "UART_DRV_SendData buf sz us = UART_DRV_StartSendData buf sz us"

definition Modbus_Send :: "SModbus \<Rightarrow> u8 list \<Rightarrow> u16 \<Rightarrow> (EMbReturn \<times> SModbus) option" where
  "Modbus_Send p d sz =
     (if \<not> sz \<le> SIZE_FIFO_SEND then Some (MB_ERR_INVALID_DATA, p)
      else if \<not> Modbus_IsSendReady p then Some (MB_ERR_BUSY, p)
      else if unat sz > length d then None
      else
        (let p = p\<lparr>mbSendBuff := take (unat sz) d @ drop (unat sz) (mbSendBuff p)\<rparr>;
             p = p\<lparr>mbSendSize := sz\<rparr>;
             p = RS485_TX (Modbus_SetSending p True);
             (st, us) = UART_DRV_SendData (mbSendBuff p) (ucast (mbSendSize p)) (mbUart p);
             p = p\<lparr>mbUart := us\<rparr>
         in Some (if st = kStatus_UART_Success then MB_SUCCESS else MB_FAILURE, p)))"

text \<open>The receive into the caller's buffer \<open>buf\<close>; no byte arrives between the pops.\<close>

definition Modbus_Recv :: "SModbus \<Rightarrow> u8 list \<Rightarrow> u16 \<Rightarrow> (u8 list \<times> u16 \<times> SModbus) option" where
  "Modbus_Recv p buf sz =
     (let sz = (if sz > FIFO_GetCount (mbRecvFIFO p) then FIFO_GetCount (mbRecvFIFO p) else sz);
          (bs, ff) = pop_n FIFO_Push FIFO_Pop (unat sz) [] (mbRecvFIFO p)
      in if length bs \<le> length buf then Some (bs @ drop (length bs) buf, sz, p\<lparr>mbRecvFIFO := ff\<rparr>) else None)"

definition Modbus_RecvFF_EnProtect :: "SModbus \<Rightarrow> bool \<Rightarrow> SModbus" where
  "Modbus_RecvFF_EnProtect p bEn =
     (if bEn then p\<lparr>mbRecvFIFO := FIFO_EnableProtect (mbRecvFIFO p)\<rparr>
      else p\<lparr>mbRecvFIFO := FIFO_DisableProtect (mbRecvFIFO p)\<rparr>)"

definition Modbus_RecvFF_RewindHead :: "SModbus \<Rightarrow> SModbus option" where
  "Modbus_RecvFF_RewindHead p = map_option (\<lambda>ff. p\<lparr>mbRecvFIFO := ff\<rparr>) (FIFO_RewindHead (mbRecvFIFO p))"

definition Modbus_RecvFF_Pop :: "SModbus \<Rightarrow> u8 \<times> SModbus" where
  "Modbus_RecvFF_Pop p = (let (ok, b, ff) = FIFO_Pop (mbRecvFIFO p) in (b, p\<lparr>mbRecvFIFO := ff\<rparr>))"

definition Modbus_GetRecvCount :: "SModbus \<Rightarrow> u16" where
  "Modbus_GetRecvCount p = FIFO_GetCount (mbRecvFIFO p)"

definition Modbus_RecvFF_Reset :: "SModbus \<Rightarrow> SModbus" where
  "Modbus_RecvFF_Reset p = p\<lparr>mbRecvFIFO := snd (FIFO_Reset (mbRecvFIFO p))\<rparr>"

section \<open>Interrupts\<close>

definition modbus_rx_handle :: "u8 \<Rightarrow> SModbus \<Rightarrow> SModbus" where
  "modbus_rx_handle b p = p\<lparr>mbRecvFIFO := snd (FIFO_Push (mbRecvFIFO p) b)\<rparr>"

definition modbus_tx_handle :: "SModbus \<Rightarrow> SModbus" where
  "modbus_tx_handle p =
     (if txSize (mbUart p) > 0 then
        (let us = (mbUart p)\<lparr>txBuff := tl (txBuff (mbUart p)), txSize := txSize (mbUart p) - 1\<rparr>;
             p = p\<lparr>mbUart := us\<rparr>
         in if txSize us = 0 then RS485_RX (Modbus_SetSending p False) else p)
      else p)"

text \<open>One transmit interrupt of the driver: the byte that leaves, and the state after the handler.\<close>

definition modbus_tx_irq :: "SModbus \<Rightarrow> u8 list \<times> SModbus" where
  "modbus_tx_irq p =
     (if txSize (mbUart p) \<noteq> 0 then
        (let b = hd (txBuff (mbUart p));
             p = modbus_tx_handle p;
             p = (if txSize (mbUart p) = 0 then p\<lparr>mbUart := (mbUart p)\<lparr>isTxBusy := False\<rparr>\<rparr> else p)
         in ([b], p))
      else ([], p))"

datatype mb_irq = MbRx u8 | MbTx

fun mb_irqs :: "mb_irq list \<Rightarrow> SModbus \<Rightarrow> u8 list \<times> SModbus" where
  "mb_irqs [] p = ([], p)"
| "mb_irqs (MbRx b # es) p = mb_irqs es (modbus_rx_handle b p)"
| "mb_irqs (MbTx # es) p = (let (w, p) = modbus_tx_irq p; (ws, p) = mb_irqs es p in (w @ ws, p))"

section \<open>Request and reply\<close>

text \<open>\<open>es\<close> are the interrupts that run while the task sleeps; the result holds the reply buffer, the
  length written to \<open>rSize\<close> (\<open>r0\<close> before), and the bytes put on the wire.\<close>

definition Modbus_SendAndRecv ::
  "SModbus \<Rightarrow> u8 list \<Rightarrow> u16 \<Rightarrow> u8 list \<Rightarrow> u16 \<Rightarrow> mb_irq list \<Rightarrow> (EMbReturn \<times> u8 list \<times> u16 \<times> u8 list \<times> SModbus) option" where
  "Modbus_SendAndRecv p sd sz rbuf r0 es =
     (let p = Modbus_RecvFF_Reset p in
      Option.bind (Modbus_Send p sd sz) (\<lambda>(r, p).
        if r = MB_SUCCESS then
          (let (wire, p) = mb_irqs es p;
               recvCount = Modbus_GetRecvCount p
           in if recvCount > 0 then
                Option.bind (Modbus_Recv p rbuf recvCount) (\<lambda>(rbuf, n, p).
                  Some (if n \<le> 0 then MB_ERR_FIFO else r, rbuf, n, wire, p))
              else Some (MB_ERR_TIMEOUT, rbuf, r0, wire, p))
        else Some (r, rbuf, r0, [], p)))"

definition mb_request :: "u8 \<Rightarrow> u8 \<Rightarrow> u16 \<Rightarrow> u16 \<Rightarrow> u8 list" where
  "mb_request slv fc addr num = [slv, fc, ucast (drop_bit 8 addr AND 0xFF), ucast (addr AND 0xFF),
     ucast (drop_bit 8 num AND 0xFF), ucast (num AND 0xFF)]"

text \<open>\<open>rlen - 2\<close> is an \<^verbatim>\<open>int\<close>, converted to \<^verbatim>\<open>size_t\<close> by the call of the checksum.\<close>

definition MBMaster_Read ::
  "crc16_state \<Rightarrow> SModbus \<Rightarrow> u8 \<Rightarrow> u8 \<Rightarrow> u16 \<Rightarrow> u16 \<Rightarrow> u8 list \<Rightarrow> mb_irq list
     \<Rightarrow> (EMbReturn \<times> u8 list \<times> u16 \<times> u8 list \<times> crc16_state \<times> SModbus) option" where
  "MBMaster_Read st p slv fc addr num rbuf es =
     (let sb = mb_request slv fc addr num;
          (c, st) = crc_modbus st (Some sb) 6
      in Option.bind c (\<lambda>crc.
         let sb = sb @ [ucast (crc AND 0xFF), ucast (drop_bit 8 crc AND 0xFF)] in
         Option.bind (Modbus_SendAndRecv p sb 8 rbuf 0 es) (\<lambda>(r, rbuf, rlen, wire, p).
           if rlen > 0 then
             (let n = unat (ucast rlen - 2 :: u32);
                  (c, st) = crc_modbus st (Some rbuf) n
              in Option.bind c (\<lambda>crc.
                 let high = ucast (drop_bit 8 crc AND 0xFF); low = ucast (crc AND 0xFF) in
                 if n + 1 < length rbuf then
                   Some (if rbuf ! n = low \<and> rbuf ! (n + 1) = high then r else MB_ERR_CRCD, rbuf, rlen, wire, st, p)
                 else None))
           else Some (r, rbuf, rlen, wire, st, p))))"

section \<open>Parsing the data of a reply\<close>

datatype MbDataType = Integer_8bits | Integer_16bits | Integer_32bits | Float_32bits

text \<open>\<open>VF i\<close> is the float that the conversion of the C integer \<open>i\<close> gives.\<close>

datatype mb_value = V8 u8 | V16 u16 | V32 u32 | VF int

definition mb_byte :: "u8 list \<Rightarrow> nat \<Rightarrow> u8 option" where
  "mb_byte d i = (if i < length d then Some (d ! i) else None)"

definition mb_word :: "u8 list \<Rightarrow> nat \<Rightarrow> u32 option" where
  "mb_word d i = Option.bind (mb_byte d i) (\<lambda>a. Option.bind (mb_byte d (i + 1)) (\<lambda>b.
     Option.bind (mb_byte d (i + 2)) (\<lambda>c. Option.bind (mb_byte d (i + 3)) (\<lambda>e.
       Some (push_bit 24 (ucast a) OR push_bit 16 (ucast b) OR push_bit 8 (ucast c) OR ucast e)))))"

definition mb_object :: "u8 list \<Rightarrow> MbDataType \<Rightarrow> nat \<Rightarrow> mb_value option" where
  "mb_object d fmt i =
     (case fmt of
        Integer_8bits \<Rightarrow> map_option V8 (mb_byte d i)
      | Integer_16bits \<Rightarrow> Option.bind (mb_byte d i) (\<lambda>a. Option.bind (mb_byte d (i + 1)) (\<lambda>b.
          Some (V16 ((push_bit 8 (ucast a) AND 0xFF00) OR ucast b))))
      | Integer_32bits \<Rightarrow> map_option V32 (mb_word d i)
      | Float_32bits \<Rightarrow> map_option (\<lambda>w. VF (sint w)) (mb_word d i))"

definition dataSize :: "MbDataType \<Rightarrow> nat" where
  "dataSize fmt = (case fmt of Integer_8bits \<Rightarrow> 1 | Integer_16bits \<Rightarrow> 2 | Integer_32bits \<Rightarrow> 4 | Float_32bits \<Rightarrow> 4)"

text \<open>The loop: \<open>n\<close> objects to go from offset \<open>j\<close> on, \<open>v\<close> the content of \<open>*rdata\<close>.\<close>

fun parse_loop :: "u8 list \<Rightarrow> MbDataType \<Rightarrow> nat \<Rightarrow> nat \<Rightarrow> mb_value \<Rightarrow> mb_value option" where
  "parse_loop d fmt 0 j v = Some v"
| "parse_loop d fmt (Suc n) j v =
     Option.bind (mb_object d fmt (MB_DATA_RESP_IDX + j)) (\<lambda>v. parse_loop d fmt n (j + dataSize fmt) v)"

definition MBMaster_Parse :: "u8 list \<Rightarrow> MbDataType \<Rightarrow> mb_value \<Rightarrow> (nat \<times> mb_value) option" where
  "MBMaster_Parse d fmt v0 =
     Option.bind (mb_byte d MB_DATA_COUNT_IDX) (\<lambda>c.
       let recvObjNum = unat c div dataSize fmt in
       map_option (Pair recvObjNum) (parse_loop d fmt recvObjNum 0 v0))"

definition MBMaster_Write :: "u8 \<Rightarrow> u8 \<Rightarrow> u16 \<Rightarrow> u8 \<Rightarrow> u8 list \<Rightarrow> u16 \<Rightarrow> u16" where
  "MBMaster_Write i fc addr num_reg data len = 0"

section \<open>Polling all tags (app.c)\<close>

datatype ETagInputType = TIT_AI | TIT_MB
datatype ETagStatus = TAG_STT_OK | TAG_STT_MB_FAILED | TAG_STT_AI_FAILED

text \<open>A node of \<open>sMB\<close> with the configuration of its tag; \<open>mbValue\<close> is the integer whose float is stored,
  \<open>data_format\<close> is \<open>None\<close> when the configured byte is none of the four formats.\<close>

record SMBValueNode =
  mbInputType :: ETagInputType
  mbEnable :: bool
  mbStatus :: ETagStatus
  mbDataFormat :: "MbDataType option"
  mbFuncCode :: u8
  mbAddress :: u8
  mbRegAddress :: u16
  mbValue :: int

fun value_int :: "mb_value \<Rightarrow> int" where
  "value_int (V8 b) = uint b"
| "value_int (V16 x) = uint x"
| "value_int (V32 x) = uint x"
| "value_int (VF i) = i"

text \<open>One round of the loop: the reply is parsed into \<open>readValue\<close>, an uninitialised variable (\<open>junk\<close>).\<close>

definition read_node ::
  "mb_value \<Rightarrow> mb_irq list \<Rightarrow> SMBValueNode \<Rightarrow> crc16_state \<Rightarrow> u8 list \<Rightarrow> SModbus
     \<Rightarrow> (SMBValueNode \<times> crc16_state \<times> u8 list \<times> SModbus) option" where
  "read_node junk es nd st data p =
     (if mbEnable nd \<and> mbInputType nd = TIT_MB then
        Option.bind (MBMaster_Read st p (mbAddress nd) (mbFuncCode nd) (mbRegAddress nd) 1 data es) (\<lambda>(r, data, rlen, wire, st, p).
          if r \<noteq> MB_SUCCESS then Some (nd\<lparr>mbStatus := TAG_STT_MB_FAILED\<rparr>, st, data, p)
          else
            (let nd = nd\<lparr>mbStatus := TAG_STT_OK\<rparr> in
             case mbDataFormat nd of
               None \<Rightarrow> Some (nd, st, data, p)
             | Some fmt \<Rightarrow> Option.bind (MBMaster_Parse data fmt junk) (\<lambda>(n, v).
                 Some (nd\<lparr>mbValue := value_int v\<rparr>, st, data, p))))
      else Some (nd, st, data, p))"

fun read_loop ::
  "mb_value \<Rightarrow> mb_irq list list \<Rightarrow> SMBValueNode list \<Rightarrow> crc16_state \<Rightarrow> u8 list \<Rightarrow> SModbus
     \<Rightarrow> (SMBValueNode list \<times> crc16_state \<times> u8 list \<times> SModbus) option" where
  "read_loop junk ess [] st data p = Some ([], st, data, p)"
| "read_loop junk ess (nd # nds) st data p =
     Option.bind (read_node junk (concat (take 1 ess)) nd st data p) (\<lambda>(nd, st, data, p).
       Option.bind (read_loop junk (drop 1 ess) nds st data p) (\<lambda>(nds, st, data, p). Some (nd # nds, st, data, p)))"

text \<open>The state of the application the polling touches.\<close>

record SAppMb =
  sModbus :: SModbus
  sMB :: "SMBValueNode list"
  mbReadCount :: u32

text \<open>\<open>data\<close> is the uninitialised stack buffer of 30 bytes, \<open>ess\<close> the interrupts during each exchange.\<close>

definition App_ModbusDoRead ::
  "mb_value \<Rightarrow> u8 list \<Rightarrow> mb_irq list list \<Rightarrow> crc16_state \<Rightarrow> SAppMb \<Rightarrow> (int \<times> crc16_state \<times> SAppMb) option" where
  "App_ModbusDoRead junk data ess st a =
     Option.bind (read_loop junk ess (sMB a) st data (sModbus a)) (\<lambda>(nds, st, data, p).
       Some (0, st, a\<lparr>sMB := nds, sModbus := p, mbReadCount := mbReadCount a + 1\<rparr>))"

text \<open>The part of a tag's configuration the polling uses; \<open>App_InitModbus\<close> copies it, cutting the
  address to a byte.\<close>

record STagMb =
  tInputType :: ETagInputType
  tEnable :: bool
  tInputId :: u16
  tDataType :: u8
  tSlaveRegAddr :: u16
  tDataFormat :: "MbDataType option"

definition init_node :: "STagMb \<Rightarrow> SMBValueNode \<Rightarrow> SMBValueNode" where
  "init_node t nd =
     (if tInputType t = TIT_MB then
        nd\<lparr>mbInputType := TIT_MB, mbEnable := tEnable t, mbAddress := ucast (tInputId t), mbFuncCode := tDataType t,
           mbRegAddress := tSlaveRegAddr t, mbDataFormat := tDataFormat t\<rparr>
      else nd\<lparr>mbInputType := tInputType t\<rparr>)"

definition App_InitModbus :: "STagMb list \<Rightarrow> u32 \<Rightarrow> u32 \<Rightarrow> SAppMb \<Rightarrow> EMbReturn \<times> SAppMb" where
  "App_InitModbus tags inst modbus_brate a =
     (let nds = map (\<lambda>(t, nd). init_node t nd) (zip tags (sMB a));
          (r, p) = Modbus_Init (sModbus a) inst modbus_brate
      in (r, a\<lparr>sMB := nds, sModbus := p\<rparr>))"

section \<open>One exchange on the wire\<close>

definition mb_ready :: "SModbus \<Rightarrow> bool" where
  "mb_ready p \<longleftrightarrow> mbStarted p \<and> \<not> mbSending p \<and> \<not> isTxBusy (mbUart p)
     \<and> u16MaxSize (mbRecvFIFO p) = 512 \<and> 512 \<le> length (arrBuff (mbRecvFIFO p))"

definition mb_sending :: "u8 list \<Rightarrow> SModbus \<Rightarrow> bool" where
  "mb_sending d p \<longleftrightarrow> unat (txSize (mbUart p)) = length d \<and> take (length d) (txBuff (mbUart p)) = d"

lemma mb_tx_step:
  assumes "mb_sending (b # d) p"
  obtains p' where "modbus_tx_irq p = ([b], p')" "mb_sending d p'" "mbRecvFIFO p' = mbRecvFIFO p" "mbStarted p' = mbStarted p"
    "d = [] \<longrightarrow> \<not> mbSending p' \<and> \<not> isTxBusy (mbUart p') \<and> \<not> mbRs485Pin p'"
proof -
  let ?us = "mbUart p"
  have a: "unat (txSize ?us) = Suc (length d)" "take (Suc (length d)) (txBuff ?us) = b # d"
    using assms by (simp_all add: mb_sending_def)
  then have nz: "txSize ?us \<noteq> 0" by auto
  then have one: "unat (txSize ?us - 1) = length d" using a(1) by (simp add: unat_pred_word)
  then have z: "(txSize ?us - 1 = 0) = (d = [])" by (metis length_0_conv unat_eq_0)
  obtain xs where x: "txBuff ?us = b # xs" "take (length d) xs = d" using a(2) by (cases "txBuff ?us") auto
  show ?thesis
    by (rule that [of "snd (modbus_tx_irq p)"])
      (use nz one z x in \<open>auto simp: modbus_tx_irq_def modbus_tx_handle_def Let_def mb_sending_def RS485_RX_def
        Modbus_SetSending_def word_greater_zero_iff\<close>)
qed

lemma mb_tx_all:
  assumes "mb_sending d p" "d \<noteq> []"
  obtains p' where "mb_irqs (replicate (length d) MbTx @ es) p = (d @ fst (mb_irqs es p'), snd (mb_irqs es p'))"
    "mbRecvFIFO p' = mbRecvFIFO p" "mbStarted p' = mbStarted p" "\<not> mbSending p'" "\<not> isTxBusy (mbUart p')" "\<not> mbRs485Pin p'"
  using assms
proof (induction d arbitrary: p thesis)
  case (Cons b d)
  obtain p1 where p1: "modbus_tx_irq p = ([b], p1)" "mb_sending d p1" "mbRecvFIFO p1 = mbRecvFIFO p" "mbStarted p1 = mbStarted p"
    "d = [] \<longrightarrow> \<not> mbSending p1 \<and> \<not> isTxBusy (mbUart p1) \<and> \<not> mbRs485Pin p1" by (rule mb_tx_step [OF Cons.prems(2)])
  show ?case
  proof (cases "d = []")
    case True
    show ?thesis by (rule Cons.prems(1) [of p1]) (use p1 True in \<open>simp_all add: split_def Let_def\<close>)
  next
    case False
    from Cons.IH [OF _ p1(2) False] obtain p' where
      "mb_irqs (replicate (length d) MbTx @ es) p1 = (d @ fst (mb_irqs es p'), snd (mb_irqs es p'))"
      "mbRecvFIFO p' = mbRecvFIFO p1" "mbStarted p' = mbStarted p1" "\<not> mbSending p'" "\<not> isTxBusy (mbUart p')" "\<not> mbRs485Pin p'" by metis
    then show ?thesis using p1 by (intro Cons.prems(1) [of p']) (simp_all add: split_def Let_def)
  qed
qed simp

lemma mb_rx_all:
  "mb_irqs (map MbRx bs) p = ([], p\<lparr>mbRecvFIFO := push_all FIFO_Push bs (mbRecvFIFO p)\<rparr>)"
  by (induction bs arbitrary: p) (simp_all add: modbus_rx_handle_def)

lemma fifo_reset_empty:
  "u16MaxSize ff = 512 \<Longrightarrow> 512 \<le> length (arrBuff ff) \<Longrightarrow>
     fifo_wf (snd (FIFO_Reset ff)) \<and> fifo_list (snd (FIFO_Reset ff)) = [] \<and> u16MaxSize (snd (FIFO_Reset ff)) = 512"
  by (simp add: FIFO_Reset_def fifo_wf_def fifo_list_def ring_slice_def)

lemma fifo_max: "unat (u16MaxSize ff) = 512 \<longleftrightarrow> u16MaxSize ff = 512"
  by (auto simp: word_unat_eq_iff)

lemma Recv_all:
  assumes "fifo_wf (mbRecvFIFO p)" "fifo_list (mbRecvFIFO p) = bs" "u16MaxSize (mbRecvFIFO p) = 512"
  shows "\<exists>ff. Modbus_Recv p buf (Modbus_GetRecvCount p) =
      (if length bs \<le> length buf then Some (bs @ drop (length bs) buf, of_nat (length bs), p\<lparr>mbRecvFIFO := ff\<rparr>) else None)
    \<and> fifo_wf ff \<and> u16MaxSize ff = 512"
proof -
  have c: "unat (u16Size (mbRecvFIFO p)) = length bs" using length_fifo_list [of "mbRecvFIFO p"] assms(2) by simp
  then have c': "u16Size (mbRecvFIFO p) = of_nat (length bs)" by (metis of_nat_unat ucast_id)
  obtain bs' ff where n: "pop_n FIFO_Push FIFO_Pop (length bs) [] (mbRecvFIFO p) = (bs', ff)" by fastforce
  from ff.pop_n_abs [OF assms(1) _ n] assms(2,3) have "bs' = bs" "fifo_wf ff" "u16MaxSize ff = 512" by (auto simp: fifo_max)
  then show ?thesis using n c c' by (auto simp: Modbus_Recv_def Modbus_GetRecvCount_def FIFO_GetCount_def)
qed

lemma exchange:
  assumes p: "mb_ready p" and sd: "sd \<noteq> []" "unat sz = length sd" "length sd \<le> 512"
    and rep: "reply \<noteq> []" "length reply \<le> 512"
  shows "\<exists>p'. Modbus_SendAndRecv p sd sz rbuf r0 (replicate (length sd) MbTx @ map MbRx reply) =
      (if length reply \<le> length rbuf
       then Some (MB_SUCCESS, reply @ drop (length reply) rbuf, of_nat (length reply), sd, p') else None) \<and> mb_ready p'"
proof -
  define q where "q = Modbus_RecvFF_Reset p"
  have q: "fifo_wf (mbRecvFIFO q)" "fifo_list (mbRecvFIFO q) = []" "u16MaxSize (mbRecvFIFO q) = 512" "mbStarted q" "\<not> mbSending q"
    "\<not> isTxBusy (mbUart q)"
    using p fifo_reset_empty [of "mbRecvFIFO p"] by (simp_all add: q_def Modbus_RecvFF_Reset_def mb_ready_def)
  define q1 where "q1 = q\<lparr>mbSendBuff := sd @ drop (length sd) (mbSendBuff q), mbSendSize := sz, mbSending := True, mbRs485Pin := True,
     mbUart := (mbUart q)\<lparr>txBuff := sd @ drop (length sd) (mbSendBuff q), txSize := ucast sz, isTxBusy := True\<rparr>\<rparr>"
  have z: "(ucast sz :: u32) \<noteq> 0" using sd(1,2) by (metis length_0_conv unat_0 unat_ucast_16_32)
  have sz: "sz \<le> 512" using sd(2,3) by (simp add: word_le_nat_alt)
  have send: "Modbus_Send q sd sz = Some (MB_SUCCESS, q1)"
    using q(4-6) sz sd(2) z by (simp add: Modbus_Send_def SIZE_FIFO_SEND_def Modbus_IsSendReady_def UART_DRV_SendData_def
      UART_DRV_StartSendData_def RS485_TX_def Modbus_SetSending_def Let_def q1_def)
  have "mb_sending sd q1" using sd(2) by (simp add: mb_sending_def q1_def)
  from mb_tx_all [OF this sd(1), of "map MbRx reply"] obtain q2 where
    tx: "mb_irqs (replicate (length sd) MbTx @ map MbRx reply) q1 = (sd @ fst (mb_irqs (map MbRx reply) q2), snd (mb_irqs (map MbRx reply) q2))"
    and q2: "mbRecvFIFO q2 = mbRecvFIFO q1" "mbStarted q2 = mbStarted q1" "\<not> mbSending q2" "\<not> isTxBusy (mbUart q2)" "\<not> mbRs485Pin q2"
    by metis
  let ?ff = "push_all FIFO_Push reply (mbRecvFIFO q2)"
  define q3 where "q3 = q2\<lparr>mbRecvFIFO := ?ff\<rparr>"
  have f: "mbRecvFIFO q2 = mbRecvFIFO q" using q2(1) by (simp add: q1_def)
  have q3: "fifo_wf (mbRecvFIFO q3)" "fifo_list (mbRecvFIFO q3) = reply" "u16MaxSize (mbRecvFIFO q3) = 512"
    using ff.push_all_abs [OF q(1), of reply] q(2,3) rep(2) by (simp_all add: q3_def f fifo_max)
  have "unat (u16Size (mbRecvFIFO q3)) = length reply" using length_fifo_list [of "mbRecvFIFO q3"] q3(2) by simp
  then have cnt: "Modbus_GetRecvCount q3 > 0"
    using rep(1) by (simp add: Modbus_GetRecvCount_def FIFO_GetCount_def word_gt_0 unat_eq_0 [symmetric] del: unat_eq_0)
  obtain ff where r: "Modbus_Recv q3 rbuf (Modbus_GetRecvCount q3) =
      (if length reply \<le> length rbuf then Some (reply @ drop (length reply) rbuf, of_nat (length reply), q3\<lparr>mbRecvFIFO := ff\<rparr>) else None)"
    "fifo_wf ff" "u16MaxSize ff = 512" using Recv_all [OF q3] by blast
  have nz: "\<not> (of_nat (length reply) :: u16) \<le> 0"
    using rep by (simp add: word_le_nat_alt unat_of_nat)
  have "mb_ready (q3\<lparr>mbRecvFIFO := ff\<rparr>)"
    using q2 q(4) r(2,3) by (simp add: mb_ready_def q3_def q1_def fifo_wf_def)
  moreover have "Modbus_SendAndRecv p sd sz rbuf r0 (replicate (length sd) MbTx @ map MbRx reply) =
      (if length reply \<le> length rbuf then Some (MB_SUCCESS, reply @ drop (length reply) rbuf, of_nat (length reply), sd, q3\<lparr>mbRecvFIFO := ff\<rparr>) else None)"
    unfolding Modbus_SendAndRecv_def q_def [symmetric] Let_def send Option.bind.bind_lunit prod.case tx mb_rx_all fst_conv snd_conv
      q3_def [symmetric] using cnt r(1) nz by simp
  ultimately show ?thesis by blast
qed

text \<open>The two checksum bytes in the order of the wire.\<close>

definition mb_crc :: "u8 list \<Rightarrow> u8 list" where
  "mb_crc bs = [ucast (modbus_of bs AND 0xFF), ucast (drop_bit 8 (modbus_of bs) AND 0xFF)]"

lemma crc_ok_ensure: "crc16_ok st \<Longrightarrow> crc16_ok (ensure_crc16_tab st)"
  by (rule ensure_crc16_tab_ok)

lemma crc_size: "2 \<le> n \<Longrightarrow> n \<le> 512 \<Longrightarrow> unat (ucast (of_nat n :: u16) - 2 :: u32) = n - 2"
proof -
  assume n: "2 \<le> n" "n \<le> 512"
  have "unat (ucast (of_nat n :: u16) :: u32) = n" using n by (simp add: unat_of_nat)
  then show ?thesis using n by (simp add: unat_sub word_le_nat_alt)
qed

lemma Read_reply:
  assumes st: "crc16_ok st" and p: "mb_ready p" and rep: "reply \<noteq> []" "length reply \<le> 512"
    and n: "n = unat (ucast (of_nat (length reply) :: u16) - 2 :: u32)"
  shows "\<exists>p'. mb_ready p' \<and> MBMaster_Read st p slv fc addr num rbuf (replicate 8 MbTx @ map MbRx reply) =
    (if length reply \<le> length rbuf then
       (let rb = reply @ drop (length reply) rbuf;
            (c, st) = crc_modbus (ensure_crc16_tab st) (Some rb) n
        in Option.bind c (\<lambda>crc. if n + 1 < length rb then
             Some (if rb ! n = ucast (crc AND 0xFF) \<and> rb ! (n + 1) = ucast (drop_bit 8 crc AND 0xFF) then MB_SUCCESS else MB_ERR_CRCD,
               rb, of_nat (length reply), mb_request slv fc addr num @ mb_crc (mb_request slv fc addr num), st, p') else None))
     else None)"
proof -
  let ?r = "mb_request slv fc addr num"
  have l: "length (?r @ mb_crc ?r) = 8" "length ?r = 6" by (simp_all add: mb_request_def mb_crc_def)
  obtain p' where x: "mb_ready p'" "Modbus_SendAndRecv p (?r @ mb_crc ?r) 8 rbuf 0 (replicate 8 MbTx @ map MbRx reply) =
      (if length reply \<le> length rbuf
       then Some (MB_SUCCESS, reply @ drop (length reply) rbuf, of_nat (length reply), ?r @ mb_crc ?r, p') else None)"
    using exchange [OF p, of "?r @ mb_crc ?r" 8 reply rbuf 0] rep l by (auto simp: mb_crc_def)
  have nz: "(of_nat (length reply) :: u16) > 0"
    using rep by (simp add: word_less_nat_alt unat_of_nat)
  have c: "crc_modbus st (Some ?r) 6 = (Some (modbus_of ?r), ensure_crc16_tab st)"
    using crc_modbus_of [OF st, of 6 ?r] l(2) by simp
  obtain c2 st2 where c2: "crc_modbus (ensure_crc16_tab st) (Some (reply @ drop (length reply) rbuf)) n = (c2, st2)" by fastforce
  show ?thesis
    unfolding MBMaster_Read_def Let_def c prod.case Option.bind.bind_lunit mb_crc_def [symmetric] x(2) c2
    using x(1) nz c2 by (intro exI [of _ p']) (cases c2; simp add: n [symmetric])
qed

lemma Read_good:
  assumes "crc16_ok st" "mb_ready p" "length reply + 2 \<le> 512" "length reply + 2 \<le> length rbuf"
  shows "\<exists>p'. MBMaster_Read st p slv fc addr num rbuf (replicate 8 MbTx @ map MbRx (reply @ [lo, hi])) =
      Some (if [lo, hi] = mb_crc reply then MB_SUCCESS else MB_ERR_CRCD, reply @ [lo, hi] @ drop (length reply + 2) rbuf,
        of_nat (length reply + 2), mb_request slv fc addr num @ mb_crc (mb_request slv fc addr num), ensure_crc16_tab (ensure_crc16_tab st), p')
      \<and> mb_ready p'"
proof -
  let ?reply = "reply @ [lo, hi]" let ?rb = "?reply @ drop (length ?reply) rbuf"
  have n: "length reply = unat (ucast (of_nat (length ?reply) :: u16) - 2 :: u32)"
    using crc_size [of "length ?reply"] assms(3) by simp
  have c: "crc_modbus (ensure_crc16_tab st) (Some ?rb) (length reply) = (Some (modbus_of reply), ensure_crc16_tab (ensure_crc16_tab st))"
    using crc_modbus_of [OF crc_ok_ensure [OF assms(1)], of "length reply" ?rb] by simp
  have i: "?rb ! length reply = lo" "?rb ! (length reply + 1) = hi" "length reply + 1 < length ?rb"
    by (simp_all add: nth_append)
  obtain p' where "mb_ready p'" "MBMaster_Read st p slv fc addr num rbuf (replicate 8 MbTx @ map MbRx ?reply) =
      Some (if lo = ucast (modbus_of reply AND 0xFF) \<and> hi = ucast (drop_bit 8 (modbus_of reply) AND 0xFF) then MB_SUCCESS else MB_ERR_CRCD,
               ?rb, of_nat (length ?reply), mb_request slv fc addr num @ mb_crc (mb_request slv fc addr num), ensure_crc16_tab (ensure_crc16_tab st), p')"
    using Read_reply [OF assms(1,2) _ _ n, of slv fc addr num rbuf] assms(3,4) unfolding Let_def c prod.case Option.bind.bind_lunit i
    by auto
  then show ?thesis by (auto simp: mb_crc_def)
qed

section \<open>A polled tag\<close>

lemma poll_node:
  assumes "crc16_ok st" "mb_ready p" "length reply + 2 \<le> 512" "length reply + 2 \<le> length data"
    and "mbEnable nd" "mbInputType nd = TIT_MB" "mbDataFormat nd = Some fmt" "[lo, hi] = mb_crc reply"
    and "MBMaster_Parse (reply @ [lo, hi] @ drop (length reply + 2) data) fmt junk = Some (n, v)"
  shows "\<exists>st' data' p'. read_node junk (replicate 8 MbTx @ map MbRx (reply @ [lo, hi])) nd st data p
      = Some (nd\<lparr>mbStatus := TAG_STT_OK, mbValue := value_int v\<rparr>, st', data', p')
    \<and> crc16_ok st' \<and> mb_ready p' \<and> length data' = length data"
proof -
  obtain p' where "mb_ready p'" "MBMaster_Read st p (mbAddress nd) (mbFuncCode nd) (mbRegAddress nd) 1 data
      (replicate 8 MbTx @ map MbRx (reply @ [lo, hi])) = Some (MB_SUCCESS, reply @ [lo, hi] @ drop (length reply + 2) data,
        of_nat (length reply + 2), mb_request (mbAddress nd) (mbFuncCode nd) (mbRegAddress nd) 1
          @ mb_crc (mb_request (mbAddress nd) (mbFuncCode nd) (mbRegAddress nd) 1), ensure_crc16_tab (ensure_crc16_tab st), p')"
    using Read_good [OF assms(1-4), of "mbAddress nd" "mbFuncCode nd" "mbRegAddress nd" 1 lo hi] assms(8) by auto
  then show ?thesis
    using assms(4-7,9) crc_ok_ensure [OF crc_ok_ensure [OF assms(1)]] by (simp add: read_node_def)
qed

lemma join_bytes: "(push_bit 8 (ucast (ucast (drop_bit 8 (v :: u16)) :: u8)) AND 0xFF00) OR ucast (ucast v :: u8) = (v :: u16)"
proof (rule bit_word_eqI)
  fix n assume n: "n < LENGTH(16)"
  have m: "bit (0xFF00 :: u16) n = (8 \<le> n)" using bit_high_mask [of n] n by simp
  show "bit ((push_bit 8 (ucast (ucast (drop_bit 8 v) :: u8)) AND 0xFF00) OR ucast (ucast v :: u8) :: u16) n = bit v n"
    using n m by (auto simp: bit_or_iff bit_and_iff bit_push_bit_iff bit_unsigned_iff bit_drop_bit_eq
      simp del: bit_numeral_word_iff dest: bit_imp_le_length)
qed

section \<open>Properties\<close>

text \<open>C20: one exchange over an idle port: the eight bytes of the request, checksum last and low byte first, go on
  the wire; the bytes of the reply end up in the caller's buffer, the read succeeds exactly when the last two are
  the checksum of the others, and the port is idle again.\<close>

theorem Modbus_exchange:
  assumes "crc16_ok st" "mb_ready p" "length reply + 2 \<le> 512" "length reply + 2 \<le> length rbuf"
  shows "\<exists>p'. MBMaster_Read st p slv fc addr num rbuf (replicate 8 MbTx @ map MbRx (reply @ [lo, hi])) =
      Some (if [lo, hi] = mb_crc reply then MB_SUCCESS else MB_ERR_CRCD, reply @ [lo, hi] @ drop (length reply + 2) rbuf,
        of_nat (length reply + 2), mb_request slv fc addr num @ mb_crc (mb_request slv fc addr num), ensure_crc16_tab (ensure_crc16_tab st), p')
      \<and> mb_ready p'"
  by (rule Read_good [OF assms])

definition mb_bss :: SModbus where
  "mb_bss = \<lparr>mbStarted = False, mbSending = False, mbUartInstance = 0, mbBaudRate = 0, mbSendBuff = replicate 512 0,
     mbSendSize = 0, mbSendPtr = 0, mbRecvFIFO = FIFO_Create (replicate 512 0) 0, mbRs485Pin = False,
     mbUart = \<lparr>txBuff = [], txSize = 0, isTxBusy = False\<rparr>\<rparr>"

lemma Modbus_Init_ready: "mb_ready (snd (Modbus_Init mb_bss inst baud))"
  by (simp add: mb_ready_def mb_bss_def Modbus_Init_def Modbus_Uart_Init_def RS485_TX_def RS485_RX_def FIFO_Create_def
    SIZE_FIFO_RECV_def Let_def)

lemma Modbus_exchange_witness:
  "\<exists>p'. MBMaster_Read crc16_state0 (snd (Modbus_Init mb_bss 4 9600)) 1 3 0x10 1 (replicate 30 0)
     (replicate 8 MbTx @ map MbRx ([1, 3, 2, 0, 7] @ [0, 0])) = Some (if [0, 0] = mb_crc [1, 3, 2, 0, 7] then MB_SUCCESS else MB_ERR_CRCD,
       [1, 3, 2, 0, 7] @ [0, 0] @ replicate 23 0, 7, [1, 3, 0, 0x10, 0, 1] @ mb_crc [1, 3, 0, 0x10, 0, 1],
       ensure_crc16_tab (ensure_crc16_tab crc16_state0), p') \<and> mb_ready p'"
  using Modbus_exchange [OF crc16_ok_state0 Modbus_Init_ready [of 4 9600], of "[1, 3, 2, 0, 7]" "replicate 30 0" 1 3 "0x10" 1 0 0]
  by (simp add: mb_request_def)

text \<open>C21: the 16-bit register value a slave sends, high byte first, is the value stored for the tag, and the tag's
  status becomes OK, whatever was there before.\<close>

theorem Modbus_poll_value:
  assumes "crc16_ok st" "mb_ready p" "7 \<le> length data" "mbEnable nd" "mbInputType nd = TIT_MB"
    and "mbDataFormat nd = Some Integer_16bits" "reply = [mbAddress nd, mbFuncCode nd, 2, ucast (drop_bit 8 v), ucast v]"
  shows "\<exists>st' data' p'. read_node junk (replicate 8 MbTx @ map MbRx (reply @ mb_crc reply)) nd st data p
      = Some (nd\<lparr>mbStatus := TAG_STT_OK, mbValue := uint (v :: u16)\<rparr>, st', data', p')
    \<and> crc16_ok st' \<and> mb_ready p' \<and> length data' = length data"
proof -
  obtain lo hi where c: "mb_crc reply = [lo, hi]" by (simp add: mb_crc_def)
  have "MBMaster_Parse (reply @ [lo, hi] @ drop (length reply + 2) data) Integer_16bits junk = Some (1, V16 v)"
    using join_bytes [of v] by (simp add: assms(7) MBMaster_Parse_def mb_byte_def MB_DATA_COUNT_IDX_def dataSize_def mb_object_def
      MB_DATA_RESP_IDX_def)
  from poll_node [OF assms(1,2) _ _ assms(4-6) c [symmetric] this] show ?thesis
    using assms(3) c [unfolded assms(7)] by (simp add: assms(7))
qed

lemma Modbus_poll_value_witness:
  "\<exists>nd' st' data' p'. read_node (V16 0) (replicate 8 MbTx @ map MbRx ([1, 3, 2, 1, 2] @ mb_crc [1, 3, 2, 1, 2]))
      \<lparr>mbInputType = TIT_MB, mbEnable = True, mbStatus = TAG_STT_MB_FAILED, mbDataFormat = Some Integer_16bits, mbFuncCode = 3,
       mbAddress = 1, mbRegAddress = 16, mbValue = 0\<rparr> crc16_state0 (replicate 30 0) (snd (Modbus_Init mb_bss 4 9600))
     = Some (nd', st', data', p') \<and> mbValue nd' = 0x102"
proof -
  let ?nd = "\<lparr>mbInputType = TIT_MB, mbEnable = True, mbStatus = TAG_STT_MB_FAILED, mbDataFormat = Some Integer_16bits, mbFuncCode = 3,
       mbAddress = 1, mbRegAddress = 16, mbValue = 0\<rparr>"
  have "[1, 3, 2, 1, 2] = [mbAddress ?nd, mbFuncCode ?nd, 2, ucast (drop_bit 8 (0x102 :: u16)), ucast (0x102 :: u16)]" by simp
  from Modbus_poll_value [OF crc16_ok_state0 Modbus_Init_ready [of 4 9600] _ _ _ _ this, of "replicate 30 0" "V16 0"]
  show ?thesis by auto
qed

text \<open>An exception reply (function code with the top bit set, then the exception code 2) is taken for a value: neither the
  address nor the function code of the reply is compared with the request, so the read succeeds, the exception
  code is read as the byte count and the two checksum bytes are stored as the register's value, status OK.\<close>

theorem Modbus_exception_is_value:
  assumes "crc16_ok st" "mb_ready p" "5 \<le> length data" "mbEnable nd" "mbInputType nd = TIT_MB"
    and "mbDataFormat nd = Some Integer_16bits" "mb_crc [mbAddress nd, mbFuncCode nd OR 0x80, 2] = [lo, hi]"
  shows "\<exists>st' data' p'. read_node junk (replicate 8 MbTx @ map MbRx ([mbAddress nd, mbFuncCode nd OR 0x80, 2] @ [lo, hi])) nd st data p
      = Some (nd\<lparr>mbStatus := TAG_STT_OK, mbValue := uint ((push_bit 8 (ucast lo) AND 0xFF00) OR ucast hi :: u16)\<rparr>, st', data', p')"
proof -
  let ?reply = "[mbAddress nd, mbFuncCode nd OR 0x80, 2]"
  have "MBMaster_Parse (?reply @ [lo, hi] @ drop (length ?reply + 2) data) Integer_16bits junk
      = Some (1, V16 ((push_bit 8 (ucast lo) AND 0xFF00) OR ucast hi))"
    by (simp add: MBMaster_Parse_def mb_byte_def MB_DATA_COUNT_IDX_def dataSize_def mb_object_def MB_DATA_RESP_IDX_def)
  from poll_node [OF assms(1,2) _ _ assms(4-6) assms(7) [symmetric] this] show ?thesis using assms(3) by auto
qed

lemma Modbus_exception_is_value_witness:
  "\<exists>lo hi nd' st' data' p'. read_node (V16 0) (replicate 8 MbTx @ map MbRx ([1, 0x83, 2] @ [lo, hi]))
      \<lparr>mbInputType = TIT_MB, mbEnable = True, mbStatus = TAG_STT_MB_FAILED, mbDataFormat = Some Integer_16bits, mbFuncCode = 3,
       mbAddress = 1, mbRegAddress = 16, mbValue = 0\<rparr> crc16_state0 (replicate 30 0) (snd (Modbus_Init mb_bss 4 9600))
     = Some (nd', st', data', p') \<and> mbStatus nd' = TAG_STT_OK"
proof -
  let ?nd = "\<lparr>mbInputType = TIT_MB, mbEnable = True, mbStatus = TAG_STT_MB_FAILED, mbDataFormat = Some Integer_16bits, mbFuncCode = 3,
       mbAddress = 1, mbRegAddress = 16, mbValue = 0\<rparr>"
  obtain lo hi where "mb_crc [mbAddress ?nd, mbFuncCode ?nd OR 0x80, 2] = [lo, hi]" by (simp add: mb_crc_def)
  from Modbus_exception_is_value [OF crc16_ok_state0 Modbus_Init_ready [of 4 9600] _ _ _ _ this, of "replicate 30 0" "V16 0"]
  obtain st' data' p' where "read_node (V16 0) (replicate 8 MbTx @ map MbRx ([1, 0x83, 2] @ [lo, hi])) ?nd crc16_state0 (replicate 30 0)
      (snd (Modbus_Init mb_bss 4 9600)) = Some (?nd\<lparr>mbStatus := TAG_STT_OK,
        mbValue := uint ((push_bit 8 (ucast lo) AND 0xFF00) OR ucast hi :: u16)\<rparr>, st', data', p')" by auto
  moreover have "mbStatus (?nd\<lparr>mbStatus := TAG_STT_OK, mbValue := uint ((push_bit 8 (ucast lo) AND 0xFF00) OR ucast hi :: u16)\<rparr>) = TAG_STT_OK"
    by simp
  ultimately show ?thesis by blast
qed

text \<open>A reply of a single byte makes the master compute a checksum over 4294967295 bytes, and a reply longer than the
  caller's buffer (30 bytes on the stack of the polling task, while the FIFO holds 512) is written past its end.\<close>

theorem Modbus_reply_faults:
  assumes "crc16_ok st" "mb_ready p" "length rbuf < 1000" "reply \<noteq> []" "length reply \<le> 512"
    and "length reply = 1 \<or> length rbuf < length reply"
  shows "MBMaster_Read st p slv fc addr num rbuf (replicate 8 MbTx @ map MbRx reply) = None"
proof (cases "length reply \<le> length rbuf")
  case False
  then show ?thesis using Read_reply [OF assms(1,2,4,5) refl, of slv fc addr num rbuf] by auto
next
  case True
  then have one: "length reply = 1" using assms(6) by simp
  have n: "4294967295 = unat (ucast (of_nat (length reply) :: u16) - 2 :: u32)" by (simp add: one unsigned_minus_1_eq_mask mask_eq_exp_minus_1)
  have "crc_modbus (ensure_crc16_tab st) (Some (reply @ drop (length reply) rbuf)) 4294967295 = (None, ensure_crc16_tab (ensure_crc16_tab st))"
    using assms(3) True by (simp add: crc_modbus_def Let_def)
  then show ?thesis using Read_reply [OF assms(1,2,4,5) n, of slv fc addr num rbuf] True by auto
qed

lemma Modbus_reply_faults_witness:
  "MBMaster_Read crc16_state0 (snd (Modbus_Init mb_bss 4 9600)) 1 3 0x10 1 (replicate 30 0) (replicate 8 MbTx @ map MbRx [0xFF]) = None"
  by (rule Modbus_reply_faults [OF crc16_ok_state0 Modbus_Init_ready]) simp_all

end
