(* ===== verification/FatFs.thy ===== *)
theory FatFs
  imports Prelude
begin

text \<open>
  What the code relies on of the file system, and byte images of C integers.  A file is its bytes and a
  position; the calls follow the FatFs documentation and take their outcomes from a list, so that every
  error path runs.
\<close>

section \<open>One open file\<close>

datatype fs_outcome = FsOk | FsErr | FsFull nat

record FIL =
  fdata :: "u8 list"
  fptr :: nat
  outcomes :: "fs_outcome list"

text \<open>The outcome of the next call; when the list is used up every call succeeds.\<close>

definition next_outcome :: "FIL \<Rightarrow> fs_outcome \<times> FIL" where
  "next_outcome f = (case outcomes f of [] \<Rightarrow> (FsOk, f) | x # xs \<Rightarrow> (x, f\<lparr>outcomes := xs\<rparr>))"

text \<open>Each call returns whether it failed (\<open>ret \<noteq> FR_OK\<close>).  A full disk is not an error: fewer bytes are written.\<close>

definition f_open :: "FIL \<Rightarrow> bool \<times> FIL" where
  "f_open f = (let (r, f) = next_outcome f in if r = FsErr then (True, f) else (False, f\<lparr>fptr := 0\<rparr>))"

definition f_create :: "FIL \<Rightarrow> bool \<times> FIL" where
  "f_create f = (let (r, f) = next_outcome f in if r = FsErr then (True, f) else (False, f\<lparr>fptr := 0, fdata := []\<rparr>))"

definition f_close :: "FIL \<Rightarrow> bool \<times> FIL" where
  "f_close f = (let (r, f) = next_outcome f in (r = FsErr, f))"

definition f_lseek :: "nat \<Rightarrow> FIL \<Rightarrow> bool \<times> FIL" where
  "f_lseek n f = (let (r, f) = next_outcome f in
     if r = FsErr then (True, f) else (False, f\<lparr>fptr := n, fdata := fdata f @ replicate (n - length (fdata f)) 0\<rparr>))"

definition put_bytes :: "nat \<Rightarrow> u8 list \<Rightarrow> u8 list \<Rightarrow> u8 list" where
  "put_bytes n bs d = take n d @ bs @ drop (n + length bs) d"

definition f_write :: "u8 list \<Rightarrow> FIL \<Rightarrow> bool \<times> nat \<times> FIL" where
  "f_write bs f = (let (r, f) = next_outcome f in
     case r of
       FsErr \<Rightarrow> (True, 0, f)
     | FsOk \<Rightarrow> (False, length bs, f\<lparr>fdata := put_bytes (fptr f) bs (fdata f), fptr := fptr f + length bs\<rparr>)
     | FsFull k \<Rightarrow> (let bs = take k bs in
         (False, length bs, f\<lparr>fdata := put_bytes (fptr f) bs (fdata f), fptr := fptr f + length bs\<rparr>)))"

definition f_read :: "nat \<Rightarrow> FIL \<Rightarrow> bool \<times> u8 list \<times> FIL" where
  "f_read n f = (let (r, f) = next_outcome f; bs = take n (drop (fptr f) (fdata f)) in
     if r = FsErr then (True, [], f) else (False, bs, f\<lparr>fptr := fptr f + length bs\<rparr>))"

section \<open>Integers in memory\<close>

text \<open>Little endian.\<close>

definition enc16 :: "u16 \<Rightarrow> u8 list" where "enc16 w = [ucast w, ucast (drop_bit 8 w)]"

definition enc32 :: "u32 \<Rightarrow> u8 list" where
  "enc32 w = [ucast w, ucast (drop_bit 8 w), ucast (drop_bit 16 w), ucast (drop_bit 24 w)]"

definition dec16 :: "u8 list \<Rightarrow> nat \<Rightarrow> u16" where
  "dec16 d i = ucast (d ! i) OR push_bit 8 (ucast (d ! (i + 1)))"

definition dec32 :: "u8 list \<Rightarrow> nat \<Rightarrow> u32" where
  "dec32 d i = ucast (d ! i) OR push_bit 8 (ucast (d ! (i + 1))) OR push_bit 16 (ucast (d ! (i + 2)))
     OR push_bit 24 (ucast (d ! (i + 3)))"

lemma dec16_enc16: "ucast (ucast w :: u8) OR push_bit 8 (ucast (ucast (drop_bit 8 w) :: u8)) = (w :: u16)"
  by (rule bit_word_eqI) (auto simp: bit_simps dest: bit_imp_le_length)

lemma dec32_enc32: "ucast (ucast w :: u8) OR push_bit 8 (ucast (ucast (drop_bit 8 w) :: u8))
    OR push_bit 16 (ucast (ucast (drop_bit 16 w) :: u8)) OR push_bit 24 (ucast (ucast (drop_bit 24 w) :: u8)) = (w :: u32)"
proof (rule bit_word_eqI)
  fix n assume n: "n < LENGTH(32)"
  consider "n < 8" | "8 \<le> n" "n < 16" | "16 \<le> n" "n < 24" | "24 \<le> n" by linarith
  then show "bit (ucast (ucast w :: u8) OR push_bit 8 (ucast (ucast (drop_bit 8 w) :: u8))
    OR push_bit 16 (ucast (ucast (drop_bit 16 w) :: u8)) OR push_bit 24 (ucast (ucast (drop_bit 24 w) :: u8)) :: u32) n = bit w n"
    by cases (use n in \<open>auto simp: bit_simps\<close>)
qed

section \<open>The file when no call fails\<close>

lemma fs_ok:
  assumes "outcomes f = []"
  shows "f_open f = (False, f\<lparr>fptr := 0\<rparr>)" "f_close f = (False, f)"
    "n \<le> length (fdata f) \<Longrightarrow> f_lseek n f = (False, f\<lparr>fptr := n\<rparr>)"
    "f_write bs f = (False, length bs, f\<lparr>fdata := put_bytes (fptr f) bs (fdata f), fptr := fptr f + length bs\<rparr>)"
    "f_read n f = (False, take n (drop (fptr f) (fdata f)), f\<lparr>fptr := fptr f + length (take n (drop (fptr f) (fdata f)))\<rparr>)"
  using assms by (cases f; simp add: f_open_def f_close_def f_lseek_def f_write_def f_read_def next_outcome_def Let_def)+

lemma put_bytes_length: "n + length bs \<le> length d \<Longrightarrow> length (put_bytes n bs d) = length d"
  by (simp add: put_bytes_def)

lemma put_bytes_nth: "n + length bs \<le> length d \<Longrightarrow> i < length d \<Longrightarrow>
    put_bytes n bs d ! i = (if i < n then d ! i else if i < n + length bs then bs ! (i - n) else d ! i)"
  by (auto simp: put_bytes_def nth_append min_def)

lemma f_create_ok: "outcomes f = [] \<Longrightarrow> f_create f = (False, f\<lparr>fptr := 0, fdata := []\<rparr>)"
  by (cases f) (simp add: f_create_def next_outcome_def)

end
