(* ===== verification/RingFile.thy ===== *)
theory RingFile
  imports FixedMem FatFs
begin

text \<open>
  The retry table on the SD card, \<^verbatim>\<open>library/common/ring_file.c\<close>: a ring of fixed-size records behind a
  packed header in one file.
\<close>

section \<open>Header and handle (ring\_file.h)\<close>

record ring_file_header =
  u16_max_record_count :: u16
  u16_record_count :: u16
  u16_record_size :: u16
  u32_buffer_size :: u32
  u16_buffer_pop_index :: u16
  u16_buffer_push_index :: u16

record ring_file_handle =
  fp :: FIL
  header :: ring_file_header

definition ring_file_record_size :: nat where "ring_file_record_size = 259"
definition ring_file_header_size :: nat where "ring_file_header_size = 14"

text \<open>The packed struct as bytes, little endian.\<close>

definition enc_header :: "ring_file_header \<Rightarrow> u8 list" where
  "enc_header h = enc16 (u16_max_record_count h) @ enc16 (u16_record_count h) @ enc16 (u16_record_size h)
     @ enc32 (u32_buffer_size h) @ enc16 (u16_buffer_pop_index h) @ enc16 (u16_buffer_push_index h)"

definition dec_header :: "u8 list \<Rightarrow> ring_file_header" where
  "dec_header d = \<lparr>u16_max_record_count = dec16 d 0, u16_record_count = dec16 d 2, u16_record_size = dec16 d 4,
     u32_buffer_size = dec32 d 6, u16_buffer_pop_index = dec16 d 10, u16_buffer_push_index = dec16 d 12\<rparr>"

text \<open>A read of the header overwrites as many bytes of the struct as it delivers.\<close>

definition load_header :: "u8 list \<Rightarrow> ring_file_header \<Rightarrow> ring_file_header" where
  "load_header bs h = dec_header (bs @ drop (length bs) (enc_header h))"

section \<open>The operations (ring\_file.c)\<close>

definition close_with :: "'r \<Rightarrow> ring_file_handle \<Rightarrow> 'r \<times> ring_file_handle" where
  "close_with r h = (r, h\<lparr>fp := snd (f_close (fp h))\<rparr>)"

definition with_seek :: "nat \<Rightarrow> 'r \<Rightarrow> ring_file_handle \<Rightarrow> (ring_file_handle \<Rightarrow> 'r \<times> ring_file_handle) \<Rightarrow> 'r \<times> ring_file_handle" where
  "with_seek n e h k = (let (r, f) = f_lseek n (fp h); h = h\<lparr>fp := f\<rparr> in if r then close_with e h else k h)"

text \<open>The end of every operation: seek to the start, read the header back, close.\<close>

definition read_back :: "'r \<Rightarrow> 'r \<Rightarrow> ring_file_handle \<Rightarrow> 'r \<times> ring_file_handle" where
  "read_back e ok h = with_seek 0 e h (\<lambda>h.
     let (r, bs, f) = f_read ring_file_header_size (fp h) in
     if r then close_with e (h\<lparr>fp := f\<rparr>)
     else close_with ok (h\<lparr>fp := f, header := load_header bs (header h)\<rparr>))"

text \<open>The position of record \<open>i\<close>; the product is computed in \<^verbatim>\<open>int\<close>.\<close>

definition record_offset :: "ring_file_header \<Rightarrow> nat \<Rightarrow> nat" where
  "record_offset h i = ring_file_header_size + unat (u16_record_size h) * i"

definition ring_file_push_back :: "u8 list \<Rightarrow> ring_file_handle \<Rightarrow> bool \<times> ring_file_handle" where
  "ring_file_push_back data h =
     (if (unat (u16_record_count (header h)) + 1) * unat (u16_record_size (header h)) > unat (u32_buffer_size (header h))
      then (False, h)
      else
        (let (r, f) = f_open (fp h); h = h\<lparr>fp := f\<rparr> in
         if r then (False, h)
         else with_seek (record_offset (header h)
                (unat (u16_buffer_push_index (header h)) mod unat (u16_max_record_count (header h)))) False h (\<lambda>h.
           let (r, bw, f) = f_write (take ring_file_record_size data) (fp h); h = h\<lparr>fp := f\<rparr> in
           if r then close_with False h
           else
             (let h = h\<lparr>header := (header h)\<lparr>u16_buffer_push_index := u16_buffer_push_index (header h) + 1\<rparr>\<rparr>;
                  h = h\<lparr>header := (header h)\<lparr>u16_record_count := u16_record_count (header h) + 1\<rparr>\<rparr>;
                  (r, f) = f_lseek 0 (fp h);
                  (r, bw, f) = f_write (enc_header (header h)) f;
                  h = h\<lparr>fp := f\<rparr>
              in if r then close_with False h else read_back False True h))))"

text \<open>\<open>data\<close> is the caller's record before; the result holds the record after.\<close>

definition ring_file_get_front :: "u8 list \<Rightarrow> ring_file_handle \<Rightarrow> (bool \<times> u8 list) \<times> ring_file_handle" where
  "ring_file_get_front data h =
     (if u16_record_count (header h) = 0 then ((False, data), h)
      else
        (let offset = record_offset (header h) (unat (u16_buffer_pop_index (header h))) in
         if offset > unat (u32_buffer_size (header h)) then ((False, data), h)
         else
           (let (r, f) = f_open (fp h); h = h\<lparr>fp := f\<rparr> in
            if r then ((False, data), h)
            else with_seek offset (False, data) h (\<lambda>h.
              let (r, bs, f) = f_read ring_file_record_size (fp h); h = h\<lparr>fp := f\<rparr> in
              if r then close_with (False, data) h
              else close_with (True, bs @ drop (length bs) data) h))))"

definition ring_file_pop_front :: "u8 list \<Rightarrow> ring_file_handle \<Rightarrow> mem_state \<Rightarrow> (bool \<times> u8 list \<times> mem_state) \<times> ring_file_handle" where
  "ring_file_pop_front data h ms =
     (if u16_record_count (header h) = 0 then ((False, data, ms), h)
      else
        (let offset = record_offset (header h) (unat (u16_buffer_pop_index (header h))) in
         if offset > unat (u32_buffer_size (header h)) then ((False, data, ms), h)
         else
           (let (r, f) = f_open (fp h); h = h\<lparr>fp := f\<rparr> in
            if r then ((False, data, ms), h)
            else with_seek offset (False, data, ms) h (\<lambda>h.
              let (r, bs, f) = f_read ring_file_record_size (fp h); h = h\<lparr>fp := f\<rparr> in
              if r then close_with (False, data, ms) h
              else
                (let data = bs @ drop (length bs) data in
                 with_seek offset (False, data, ms) h (\<lambda>h.
                   let (pRecord, ms) = OSA_FixedMemMalloc (of_nat ring_file_record_size) ms in
                   case pRecord of
                     None \<Rightarrow> close_with (False, data, ms) h
                   | Some b \<Rightarrow>
                       (let (r, bw, f) = f_write (replicate ring_file_record_size 0xFF) (fp h);
                            ms = OSA_FixedMemFree b ms;
                            h = h\<lparr>fp := f\<rparr>
                        in if r \<or> bw < ring_file_record_size then close_with (False, data, ms) h
                           else
                             (let hd = header h;
                                  hd = hd\<lparr>u16_buffer_pop_index := u16_buffer_pop_index hd + 1\<rparr>;
                                  hd = hd\<lparr>u16_buffer_pop_index := u16_buffer_pop_index hd mod u16_max_record_count hd\<rparr>;
                                  hd = hd\<lparr>u16_record_count := u16_record_count hd - 1\<rparr>;
                                  h = h\<lparr>header := hd\<rparr>
                              in with_seek 0 (False, data, ms) h (\<lambda>h.
                                   let (r, bw, f) = f_write (enc_header (header h)) (fp h); h = h\<lparr>fp := f\<rparr> in
                                   if r then close_with (False, data, ms) h
                                   else read_back (False, data, ms) (True, data, ms) h)))))))))"

definition ring_file_get_count :: "ring_file_handle \<Rightarrow> u16" where
  "ring_file_get_count h = u16_record_count (header h)"

definition ring_file_get_available_count :: "ring_file_handle \<Rightarrow> u16" where
  "ring_file_get_available_count h = u16_max_record_count (header h) - u16_record_count (header h)"

definition ring_file_flush :: "ring_file_handle \<Rightarrow> ring_file_handle" where
  "ring_file_flush h =
     (let h = h\<lparr>header := (header h)\<lparr>u16_record_count := 0, u16_buffer_pop_index := 0, u16_buffer_push_index := 0\<rparr>\<rparr>;
          (r, f) = f_open (fp h);
          h = h\<lparr>fp := f\<rparr>
      in if r then h
         else snd (with_seek 0 () h (\<lambda>h.
           let (r, bw, f) = f_write (enc_header (header h)) (fp h); h = h\<lparr>fp := f\<rparr> in
           if r then close_with () h else read_back () () h)))"

text \<open>The records of a new file, until a write comes up short.\<close>

fun write_records :: "nat \<Rightarrow> FIL \<Rightarrow> FIL" where
  "write_records 0 f = f"
| "write_records (Suc n) f =
     (let (r, bw, f) = f_write (replicate ring_file_record_size 0) f in
      if bw < ring_file_record_size then f else write_records n f)"

definition new_header :: "u16 \<Rightarrow> u16 \<Rightarrow> ring_file_header" where
  "new_header record_count record_size = \<lparr>u16_max_record_count = record_count, u16_record_count = 0,
     u16_record_size = record_size, u32_buffer_size = ucast record_count * ucast record_size,
     u16_buffer_pop_index = 0, u16_buffer_push_index = 0\<rparr>"

definition ring_file_create_new :: "u16 \<Rightarrow> u16 \<Rightarrow> ring_file_handle \<Rightarrow> bool \<times> ring_file_handle" where
  "ring_file_create_new record_count record_size h =
     (let (r, f) = f_close (fp h) in
      if r then (False, h\<lparr>fp := f\<rparr>)
      else
        (let (r, f) = f_create f;
             (r, f) = f_lseek 0 f;
             (r, bw, f) = f_write (enc_header (new_header record_count record_size)) f;
             f = write_records (unat record_count) f;
             (r, f) = f_lseek 0 f
         in (True, h\<lparr>fp := f\<rparr>)))"

definition ring_file_init :: "u16 \<Rightarrow> u16 \<Rightarrow> ring_file_handle \<Rightarrow> ring_file_handle" where
  "ring_file_init count sz h =
     (let (r, f) = f_open (fp h); h = h\<lparr>fp := f\<rparr> in
      if r then h
      else
        (let h = (if length (fdata f) \<noteq> ring_file_header_size + unat count * unat sz
                  then snd (ring_file_create_new count sz h) else h);
             (r, bs, f) = f_read ring_file_header_size (fp h);
             h = h\<lparr>fp := f\<rparr>;
             h = (if r then h else h\<lparr>header := load_header bs (header h)\<rparr>)
         in snd (close_with () h)))"

section \<open>The packed header\<close>

lemma length_enc_header [simp]: "length (enc_header h) = 14"
  by (simp add: enc_header_def enc16_def enc32_def)

lemma dec_enc_header [simp]: "dec_header (enc_header h) = h"
  by (simp add: dec_header_def enc_header_def enc16_def enc32_def dec16_def dec32_def dec16_enc16 dec32_enc32)

lemma load_header_full [simp]: "load_header (enc_header h) h' = h"
  by (simp add: load_header_def)

section \<open>Records in the file\<close>

definition slot :: "u8 list \<Rightarrow> nat \<Rightarrow> u8 list" where
  "slot d k = take 259 (drop (14 + 259 * k) d)"

lemma slot_put:
  assumes "length d = 14 + N * 259" "j < N" "k < N" "length bs = 259"
  shows "slot (put_bytes (14 + 259 * j) bs d) k = (if k = j then bs else slot d k)"
proof -
  have b: "14 + 259 * j + length bs \<le> length d" "14 + 259 * k + 259 \<le> length d"
    using assms mult_le_mono1 [of "Suc j" N 259] mult_le_mono1 [of "Suc k" N 259] by simp_all
  have l: "length (slot (put_bytes (14 + 259 * j) bs d) k) = 259" "length (slot d k) = 259"
    using b by (simp_all add: slot_def put_bytes_length)
  show ?thesis
  proof (rule nth_equalityI)
    show "length (slot (put_bytes (14 + 259 * j) bs d) k) = length (if k = j then bs else slot d k)" using l assms by simp
  next
    fix i assume "i < length (slot (put_bytes (14 + 259 * j) bs d) k)"
    then have i: "i < 259" using l by simp
    have "k < j \<Longrightarrow> 259 * k + 259 \<le> 259 * j" "j < k \<Longrightarrow> 259 * j + 259 \<le> 259 * k" by auto
    then show "slot (put_bytes (14 + 259 * j) bs d) k ! i = (if k = j then bs else slot d k) ! i"
      using i b assms(4) by (cases k j rule: linorder_cases) (auto simp: slot_def put_bytes_nth put_bytes_length)
  qed
qed

lemma slot_header:
  assumes "length d = 14 + N * 259" "k < N"
  shows "slot (put_bytes 0 (enc_header h) d) k = slot d k"
  using assms by (simp add: slot_def put_bytes_def add.commute)

section \<open>The ring as a queue of records\<close>

definition ring_rel :: "ring_file_handle \<Rightarrow> u8 list list \<Rightarrow> bool" where
  "ring_rel h rs \<longleftrightarrow>
     (let d = fdata (fp h); hd = header h; N = unat (u16_max_record_count hd); p = unat (u16_buffer_pop_index hd) in
      0 < N \<and> u16_record_size hd = 259 \<and> unat (u32_buffer_size hd) = N * 259 \<and> p < N
      \<and> unat (u16_record_count hd) = length rs \<and> length rs \<le> N
      \<and> unat (u16_buffer_push_index hd) mod N = (p + length rs) mod N
      \<and> length d = 14 + N * 259 \<and> outcomes (fp h) = [] \<and> take 14 d = enc_header hd
      \<and> (\<forall>i < length rs. slot d ((p + i) mod N) = rs ! i))"

text \<open>The effect of a push that is not refused, whatever the contents of the file.\<close>

definition pushed :: "u8 list \<Rightarrow> ring_file_handle \<Rightarrow> ring_file_handle" where
  "pushed data h =
     (let hd = (header h)\<lparr>u16_buffer_push_index := u16_buffer_push_index (header h) + 1,
                 u16_record_count := u16_record_count (header h) + 1\<rparr>;
          j = unat (u16_buffer_push_index (header h)) mod unat (u16_max_record_count (header h))
      in h\<lparr>fp := (fp h)\<lparr>fdata := put_bytes 0 (enc_header hd) (put_bytes (14 + 259 * j) data (fdata (fp h))), fptr := 14\<rparr>,
           header := hd\<rparr>)"

lemma push_exec:
  assumes N: "N = unat (u16_max_record_count (header h))" "0 < N"
    and h: "u16_record_size (header h) = 259" "unat (u32_buffer_size (header h)) = N * 259" "length (fdata (fp h)) = 14 + N * 259"
      "outcomes (fp h) = []" "unat (u16_record_count (header h)) < N"
    and len: "length data = 259"
  shows "ring_file_push_back data h = (True, pushed data h)" "length (fdata (fp (pushed data h))) = 14 + N * 259"
    "outcomes (fp (pushed data h)) = []" "take 14 (fdata (fp (pushed data h))) = enc_header (header (pushed data h))"
    "k < N \<Longrightarrow> slot (fdata (fp (pushed data h))) k =
       (if k = unat (u16_buffer_push_index (header h)) mod N then data else slot (fdata (fp h)) k)"
proof -
  let ?d = "fdata (fp h)" and ?hd = "header h" and ?j = "unat (u16_buffer_push_index (header h)) mod N"
  have j: "?j < N" using N(2) by simp
  have off: "14 + 259 * ?j + 259 \<le> length ?d" using h(3) mult_le_mono1 [of "Suc ?j" N 259] j by simp
  have full: "\<not> (unat (u16_record_count ?hd) + 1) * 259 > N * 259" using h(5) by simp
  let ?hd' = "?hd\<lparr>u16_buffer_push_index := u16_buffer_push_index ?hd + 1, u16_record_count := u16_record_count ?hd + 1\<rparr>"
  define e where "e = put_bytes (14 + 259 * ?j) data ?d"
  define d' where "d' = put_bytes 0 (enc_header ?hd') e"
  have le: "length e = 14 + N * 259" using off len h(3) by (simp add: e_def put_bytes_length)
  have ld: "length d' = 14 + N * 259" using le by (simp add: d'_def put_bytes_length)
  have t: "take 14 d' = enc_header ?hd'" by (simp add: d'_def put_bytes_def)
  have p: "pushed data h = h\<lparr>fp := (fp h)\<lparr>fdata := d', fptr := 14\<rparr>, header := ?hd'\<rparr>"
    by (simp add: pushed_def Let_def N(1) [symmetric] d'_def e_def)
  show "ring_file_push_back data h = (True, pushed data h)"
    using h full len off ld le t
    by (simp add: ring_file_push_back_def Let_def fs_ok with_seek_def record_offset_def ring_file_header_size_def
        ring_file_record_size_def close_with_def read_back_def N(1) [symmetric] e_def [symmetric] d'_def [symmetric] p)
  show "length (fdata (fp (pushed data h))) = 14 + N * 259" "outcomes (fp (pushed data h)) = []"
    "take 14 (fdata (fp (pushed data h))) = enc_header (header (pushed data h))" using ld h(4) t by (simp_all add: p)
  show "k < N \<Longrightarrow> slot (fdata (fp (pushed data h))) k = (if k = ?j then data else slot ?d k)"
    using slot_header [OF le, of k ?hd'] slot_put [OF h(3) j _ len, of k] by (simp add: p d'_def e_def)
qed

lemma pushed_header: "header (pushed data h) = (header h)\<lparr>u16_buffer_push_index := u16_buffer_push_index (header h) + 1,
    u16_record_count := u16_record_count (header h) + 1\<rparr>"
  by (simp add: pushed_def Let_def)

lemma ring_push:
  assumes r: "ring_rel h rs" and len: "length data = 259" and room: "length rs < unat (u16_max_record_count (header h))"
    and wrap: "unat (u16_buffer_push_index (header h)) < 65535"
  shows "ring_file_push_back data h = (True, pushed data h) \<and> ring_rel (pushed data h) (rs @ [data])"
proof -
  let ?d = "fdata (fp h)" and ?hd = "header h" and ?N = "unat (u16_max_record_count (header h))"
  let ?p = "unat (u16_buffer_pop_index ?hd)" and ?q = "unat (u16_buffer_push_index ?hd)"
  have a: "0 < ?N" "u16_record_size ?hd = 259" "unat (u32_buffer_size ?hd) = ?N * 259" "?p < ?N"
    "unat (u16_record_count ?hd) = length rs" "?q mod ?N = (?p + length rs) mod ?N" "length ?d = 14 + ?N * 259"
    "outcomes (fp h) = []" "\<forall>i < length rs. slot ?d ((?p + i) mod ?N) = rs ! i"
    using r by (simp_all add: ring_rel_def Let_def)
  let ?j = "?q mod ?N"
  note x = push_exec [OF refl a(1-3,7,8) _ len]
  have cnt: "unat (u16_record_count ?hd) < ?N" using room a(5) by simp
  have c: "unat (u16_record_count ?hd + 1) = Suc (length rs)"
    using room a(5) unat_Suc_below [of "u16_record_count ?hd" "u16_max_record_count ?hd"] by simp
  have q: "unat (u16_buffer_push_index ?hd + 1) = Suc ?q" using wrap by (simp add: unat_Suc_word)
  have sl: "slot (fdata (fp (pushed data h))) ((?p + i) mod ?N) = (rs @ [data]) ! i" if "i < Suc (length rs)" for i
  proof (cases "i = length rs")
    case True
    then show ?thesis using x(5) [OF cnt, of ?j] a(1,6) by simp
  next
    case False
    then have "(?p + i) mod ?N \<noteq> ?j" using that room a(6) mod_ring_neq [of i "length rs" ?N ?p] by simp
    then show ?thesis using x(5) [OF cnt, of "(?p + i) mod ?N"] a(1,9) that False by (simp add: nth_append)
  qed
  have "Suc ?q mod ?N = (?p + Suc (length rs)) mod ?N"
    using a(6) mod_Suc_eq [of ?q ?N] mod_Suc_eq [of "?p + length rs" ?N] by simp
  then have "ring_rel (pushed data h) (rs @ [data])"
    unfolding ring_rel_def Let_def pushed_header using a(1-4) c q room x(2-4) [OF cnt] sl by (simp add: pushed_header)
  then show ?thesis using x(1) [OF cnt] by simp
qed

lemma ring_front:
  assumes r: "ring_rel h (r # rs)" and len: "length data = 259"
  shows "\<exists>h'. ring_file_get_front data h = ((True, r), h') \<and> ring_rel h' (r # rs) \<and> header h' = header h \<and> fdata (fp h') = fdata (fp h)"
proof -
  let ?d = "fdata (fp h)" and ?hd = "header h" and ?N = "unat (u16_max_record_count (header h))"
  let ?p = "unat (u16_buffer_pop_index ?hd)"
  have a: "u16_record_size ?hd = 259" "unat (u32_buffer_size ?hd) = ?N * 259" "?p < ?N"
    "unat (u16_record_count ?hd) = Suc (length rs)" "length ?d = 14 + ?N * 259" "outcomes (fp h) = []" "slot ?d ?p = r"
    using r by (auto simp: ring_rel_def Let_def)
  have off: "14 + 259 * ?p + 259 \<le> length ?d" using a(5) mult_le_mono1 [of "Suc ?p" ?N 259] a(3) by simp
  have nz: "u16_record_count ?hd \<noteq> 0" using a(4) by auto
  have sl: "take 259 (drop (14 + 259 * ?p) ?d) = r" using a(7) by (simp add: slot_def)
  then have lr: "length r = 259" using off by auto
  let ?h' = "h\<lparr>fp := (fp h)\<lparr>fptr := 14 + 259 * ?p + 259\<rparr>\<rparr>"
  have "ring_file_get_front data h = ((True, r), ?h')"
    using a(1,2,5,6) off nz sl lr len
    by (simp add: ring_file_get_front_def Let_def fs_ok with_seek_def record_offset_def ring_file_header_size_def
        ring_file_record_size_def close_with_def)
  moreover have "ring_rel ?h' (r # rs)" using r by (simp add: ring_rel_def Let_def)
  ultimately show ?thesis by (intro exI [of _ ?h']) simp
qed

lemma ring_pop:
  assumes r: "ring_rel h (r # rs)" and len: "length data = 259" and al: "OSA_FixedMemMalloc 259 ms = (Some b, ms1)"
  shows "\<exists>h'. ring_file_pop_front data h ms = ((True, r, OSA_FixedMemFree b ms1), h') \<and> ring_rel h' rs
     \<and> u16_max_record_count (header h') = u16_max_record_count (header h)"
proof -
  let ?d = "fdata (fp h)" and ?hd = "header h" and ?N = "unat (u16_max_record_count (header h))"
  let ?p = "unat (u16_buffer_pop_index ?hd)" and ?q = "unat (u16_buffer_push_index ?hd)"
  have a: "0 < ?N" "u16_record_size ?hd = 259" "unat (u32_buffer_size ?hd) = ?N * 259" "?p < ?N"
    "unat (u16_record_count ?hd) = Suc (length rs)" "?q mod ?N = (?p + Suc (length rs)) mod ?N" "length ?d = 14 + ?N * 259"
    "outcomes (fp h) = []" "\<forall>i < Suc (length rs). slot ?d ((?p + i) mod ?N) = (r # rs) ! i" "Suc (length rs) \<le> ?N" "slot ?d ?p = r"
    using r by (auto simp: ring_rel_def Let_def)
  have off: "14 + 259 * ?p + 259 \<le> length ?d" using a(7) mult_le_mono1 [of "Suc ?p" ?N 259] a(4) by simp
  have nz: "u16_record_count ?hd \<noteq> 0" using a(5) by auto
  have sl: "take 259 (drop (14 + 259 * ?p) ?d) = r" using a(11) by (simp add: slot_def)
  then have lr: "length r = 259" using off by auto
  define hd' where "hd' = ?hd\<lparr>u16_buffer_pop_index := (u16_buffer_pop_index ?hd + 1) mod u16_max_record_count ?hd,
    u16_record_count := u16_record_count ?hd - 1\<rparr>"
  define e where "e = put_bytes (14 + 259 * ?p) (replicate 259 0xFF) ?d"
  define d' where "d' = put_bytes 0 (enc_header hd') e"
  have le: "length e = length ?d" using off by (simp add: e_def put_bytes_length)
  have ld: "length d' = length ?d" using le a(7) by (simp add: d'_def put_bytes_length)
  have t: "take 14 d' = enc_header hd'" by (simp add: d'_def put_bytes_def)
  define h' where "h' = h\<lparr>fp := (fp h)\<lparr>fdata := d', fptr := 14\<rparr>, header := hd'\<rparr>"
  have "ring_file_pop_front data h ms = ((True, r, OSA_FixedMemFree b ms1), h')"
    using a(2,3,7,8) off nz sl lr len al le ld t
    by (simp add: ring_file_pop_front_def Let_def fs_ok with_seek_def record_offset_def ring_file_header_size_def
        ring_file_record_size_def close_with_def read_back_def e_def [symmetric] hd'_def [symmetric] d'_def [symmetric] h'_def)
  moreover have "ring_rel h' rs"
  proof -
    have m: "u16_max_record_count hd' = u16_max_record_count ?hd" "u16_buffer_push_index hd' = u16_buffer_push_index ?hd"
      "u16_record_size hd' = 259" "u32_buffer_size hd' = u32_buffer_size ?hd" using a(2) by (simp_all add: hd'_def)
    have c: "unat (u16_record_count hd') = length rs" using a(5) nz by (simp add: hd'_def unat_pred_word)
    have "unat (u16_buffer_pop_index ?hd + 1) = Suc ?p" by (rule unat_Suc_below [OF a(4)])
    then have p: "unat (u16_buffer_pop_index hd') = Suc ?p mod ?N" by (simp add: hd'_def unat_mod_distrib)
    have sl: "slot d' k = (if k = ?p then replicate 259 0xFF else slot ?d k)" if "k < ?N" for k
      using slot_header [of e ?N k hd'] slot_put [OF a(7,4) that, of "replicate 259 0xFF"] that le a(7)
      by (simp add: d'_def e_def)
    have "slot d' ((Suc ?p mod ?N + i) mod ?N) = rs ! i" if i: "i < length rs" for i
    proof -
      have e1: "(Suc ?p mod ?N + i) mod ?N = (?p + Suc i) mod ?N" by (simp add: mod_add_left_eq)
      have "?p mod ?N = ?p" using a(4) by simp
      then have "(?p + Suc i) mod ?N \<noteq> ?p" using mod_ring_neq [of 0 "Suc i" ?N ?p] i a(10) by simp
      then show ?thesis using e1 sl [of "(?p + Suc i) mod ?N"] a(1) a(9) [rule_format, of "Suc i"] i by simp
    qed
    moreover have "?q mod ?N = (Suc ?p mod ?N + length rs) mod ?N" using a(6) by (simp add: mod_add_left_eq)
    ultimately show ?thesis
      using a(1,3,7,8,10) c p t ld m by (simp add: ring_rel_def Let_def h'_def)
  qed
  ultimately show ?thesis by (intro exI [of _ h']) (simp add: h'_def hd'_def)
qed

section \<open>A new file\<close>

lemma write_records_ok:
  assumes "outcomes f = []" "fptr f = length (fdata f)"
  shows "write_records n f = f\<lparr>fdata := fdata f @ replicate (n * 259) 0, fptr := fptr f + n * 259\<rparr>"
  using assms
proof (induction n arbitrary: f)
  case (Suc n)
  let ?g = "f\<lparr>fdata := fdata f @ replicate 259 0, fptr := fptr f + 259\<rparr>"
  have "write_records (Suc n) f = write_records n ?g"
    using Suc.prems by (simp add: Let_def fs_ok ring_file_record_size_def put_bytes_def)
  also have "\<dots> = f\<lparr>fdata := fdata f @ replicate 259 0 @ replicate (n * 259) 0, fptr := fptr f + 259 + n * 259\<rparr>"
    using Suc.IH [of ?g] Suc.prems by simp
  finally show ?case by (simp add: replicate_add [symmetric])
qed (cases f; simp)

definition ring_bss :: ring_file_handle where
  "ring_bss = \<lparr>fp = \<lparr>fdata = [], fptr = 0, outcomes = []\<rparr>, header = \<lparr>u16_max_record_count = 0, u16_record_count = 0,
     u16_record_size = 0, u32_buffer_size = 0, u16_buffer_pop_index = 0, u16_buffer_push_index = 0\<rparr>\<rparr>"

lemma ring_init:
  assumes "0 < N"
  shows "ring_rel (ring_file_init N 259 ring_bss) []" "u16_max_record_count (header (ring_file_init N 259 ring_bss)) = N"
    "u16_buffer_push_index (header (ring_file_init N 259 ring_bss)) = 0"
proof -
  have N: "0 < unat N" using assms by (simp add: word_gt_0 unat_gt_0)
  let ?hd = "new_header N 259"
  let ?d = "enc_header ?hd @ replicate (unat N * 259) 0"
  have sz: "unat (ucast N * 259 :: u32) = unat N * 259"
  proof -
    have "unat N * 259 < 4294967296" using unat_u16_less [of N] by linarith
    then show ?thesis by (simp add: unat_word_ariths)
  qed
  have i: "ring_file_init N 259 ring_bss = \<lparr>fp = \<lparr>fdata = ?d, fptr = 14, outcomes = []\<rparr>, header = ?hd\<rparr>"
    by (simp add: ring_file_init_def ring_bss_def Let_def fs_ok ring_file_create_new_def f_create_ok put_bytes_def
        write_records_ok ring_file_header_size_def close_with_def)
  show "ring_rel (ring_file_init N 259 ring_bss) []"
    using N sz by (simp add: i ring_rel_def Let_def) (simp add: new_header_def)
  show "u16_max_record_count (header (ring_file_init N 259 ring_bss)) = N"
    "u16_buffer_push_index (header (ring_file_init N 259 ring_bss)) = 0" by (simp_all add: i new_header_def)
qed

section \<open>Properties\<close>


lemma malloc_first: "\<exists>b ms1. OSA_FixedMemMalloc 259 (OSA_FixedMemInit mem_bss) = (Some b, ms1)"
proof -
  have "fst (OSA_FixedMemMalloc 259 (OSA_FixedMemInit mem_bss)) = Some (P272, 0)"
    by (simp add: OSA_FixedMemMalloc_def select_part_nat Let_def OSMemGet_def OSA_FixedMemInit_parts)
  then show ?thesis by (metis prod.collapse)
qed


text \<open>The push index is never reduced modulo the number of slots, it wraps at 65536: unless the number of slots
  divides 65536 (the 5000 of the program do not) the push after the one with index 65535 goes to slot 0 instead of
  the next slot of the queue, where a pop will find what an earlier record left.\<close>

theorem ring_file_push_wraps:
  assumes "ring_rel h rs" "unat (u16_buffer_push_index (header h)) = 65535" "N = unat (u16_max_record_count (header h))"
    and "length rs + 1 < N" "65536 mod N \<noteq> 0" "length r1 = 259" "length r2 = 259"
  shows "\<exists>h1 h2. ring_file_push_back r1 h = (True, h1) \<and> ring_file_push_back r2 h1 = (True, h2)
     \<and> slot (fdata (fp h2)) 0 = r2
     \<and> slot (fdata (fp h2)) ((unat (u16_buffer_pop_index (header h)) + length rs + 1) mod N)
       = slot (fdata (fp h)) ((unat (u16_buffer_pop_index (header h)) + length rs + 1) mod N)"
proof -
  let ?p = "unat (u16_buffer_pop_index (header h))"
  have a: "0 < N" "u16_record_size (header h) = 259" "unat (u32_buffer_size (header h)) = N * 259"
    "unat (u16_record_count (header h)) = length rs" "65535 mod N = (?p + length rs) mod N" "length (fdata (fp h)) = 14 + N * 259"
    "outcomes (fp h) = []" using assms(1-3) by (simp_all add: ring_rel_def Let_def)
  have c0: "unat (u16_record_count (header h)) < N" using a(4) assms(4) by simp
  note x = push_exec [OF assms(3) a(1-3,6,7) c0 assms(6)]
  let ?h1 = "pushed r1 h"
  have "u16_buffer_push_index (header h) = 65535" using assms(2) by (metis of_nat_numeral of_nat_unat ucast_id)
  then have q1: "u16_buffer_push_index (header ?h1) = 0" by (simp add: pushed_header)
  have c1: "unat (u16_record_count (header ?h1)) < N"
    using a(4) assms(3,4) unat_Suc_below [of "u16_record_count (header h)" "u16_max_record_count (header h)"] by (simp add: pushed_header)
  have h1: "N = unat (u16_max_record_count (header ?h1))" "u16_record_size (header ?h1) = 259" "unat (u32_buffer_size (header ?h1)) = N * 259"
    using a(2,3) assms(3) by (simp_all add: pushed_header)
  note y = push_exec [OF h1(1) a(1) h1(2,3) x(2,3) c1 assms(7)]
  let ?k = "(?p + length rs + 1) mod N"
  have k: "?k < N" using a(1) by simp
  have "?k = 65536 mod N" using a(5) mod_Suc_eq [of 65535 N] mod_Suc_eq [of "?p + length rs" N] by simp
  then have k0: "?k \<noteq> 0" using assms(5) by simp
  have k1: "?k \<noteq> 65535 mod N" using mod_ring_neq [of 0 1 N "?p + length rs"] assms(4) a(5) by simp
  have "slot (fdata (fp (pushed r2 ?h1))) ?k = slot (fdata (fp h)) ?k"
    using y(5) [OF k] x(5) [OF k] k0 k1 q1 assms(2) by simp
  moreover have "slot (fdata (fp (pushed r2 ?h1))) 0 = r2" using y(5) [OF a(1)] q1 by simp
  ultimately show ?thesis using x(1) y(1) by blast
qed

lemma ring_file_push_wraps_witness:
  "\<exists>h h1 h2. ring_rel h [] \<and> unat (u16_max_record_count (header h)) = 5000
     \<and> ring_file_push_back (replicate 259 1) h = (True, h1) \<and> ring_file_push_back (replicate 259 2) h1 = (True, h2)
     \<and> slot (fdata (fp h2)) 0 = replicate 259 2 \<and> slot (fdata (fp h2)) 536 = replicate 259 0"
proof -
  define hd where "hd = (new_header 5000 259)\<lparr>u16_buffer_push_index := 65535, u16_buffer_pop_index := 535\<rparr>"
  define h where "h = \<lparr>fp = \<lparr>fdata = enc_header hd @ replicate (5000 * 259) 0, fptr = 0, outcomes = []\<rparr>, header = hd\<rparr>"
  have r: "ring_rel h []" by (simp add: h_def ring_rel_def Let_def) (simp add: hd_def new_header_def)
  have d: "unat (u16_buffer_push_index (header h)) = 65535" "5000 = unat (u16_max_record_count (header h))"
    "unat (u16_buffer_pop_index (header h)) = 535" by (simp_all add: h_def hd_def new_header_def)
  have "slot (fdata (fp h)) 536 = replicate 259 0" by (simp add: slot_def h_def)
  with ring_file_push_wraps [OF r d(1,2), of "replicate 259 1" "replicate 259 2"] d r show ?thesis by auto
qed

end
