(* ===== verification/DigitalOut.thy ===== *)
theory DigitalOut
  imports Prelude
begin

text \<open>
  The pulse generator of the digital outputs, \<^verbatim>\<open>interface/digital_out.c\<close>.  Every operation returns the
  writes it makes through the registered pin function, in order, as pairs of pin and level.
\<close>

section \<open>State (digital\_out.h)\<close>

record SControlDo =
  pinId :: u32
  gen_pulse :: u8
  active :: u8
  high :: u32
  period :: u32
  counter :: u32

type_synonym pin_write = "u32 \<times> bool"

definition DIGITAL_OUTPUT_NUM_CHANNEL :: nat where "DIGITAL_OUTPUT_NUM_CHANNEL = 6"

section \<open>The operations (digital\_out.c)\<close>

definition DOCtrl_Init :: "SControlDo \<Rightarrow> u32 \<Rightarrow> u8 \<Rightarrow> u32 \<Rightarrow> u32 \<Rightarrow> SControlDo" where
  "DOCtrl_Init pDo pinid act per hi =
     pDo\<lparr>pinId := pinid, active := act, period := per, high := hi, counter := 0, gen_pulse := 0\<rparr>"

text \<open>\<open>pins\<close> are the six pin names; the parameter \<open>act\<close> is not used.\<close>

definition DOCtrl_InitAll :: "u32 list \<Rightarrow> u16 \<Rightarrow> u16 \<Rightarrow> u8 \<Rightarrow> SControlDo list \<Rightarrow> SControlDo list" where
  "DOCtrl_InitAll pins per duty act obj = map (\<lambda>(p, d). DOCtrl_Init d p 0 (ucast per) (ucast duty)) (zip pins obj)"

text \<open>\<open>None\<close>: the index is outside the array of objects.\<close>

definition DOCtrl_SetPeriod :: "u8 \<Rightarrow> u32 \<Rightarrow> SControlDo list \<Rightarrow> SControlDo list option" where
  "DOCtrl_SetPeriod i per obj =
     (if unat i < length obj then Some (obj[unat i := (obj ! unat i)\<lparr>period := per\<rparr>]) else None)"

definition DOCtrl_SetHighDuty :: "u8 \<Rightarrow> u32 \<Rightarrow> SControlDo list \<Rightarrow> SControlDo list option" where
  "DOCtrl_SetHighDuty i hi obj =
     (if unat i < length obj then Some (obj[unat i := (obj ! unat i)\<lparr>high := hi\<rparr>]) else None)"

definition DOCtrl_SetPulse :: "u8 \<Rightarrow> u8 \<Rightarrow> SControlDo list \<Rightarrow> (pin_write list \<times> SControlDo list) option" where
  "DOCtrl_SetPulse i pulse obj =
     (if unat i < length obj then
        (let d = (obj ! unat i)\<lparr>gen_pulse := pulse\<rparr>
         in Some (if pulse = 0 then [(pinId d, if active d \<noteq> 0 then False else True)] else [], obj[unat i := d]))
      else None)"

definition DOCtrl_Act :: "SControlDo \<Rightarrow> pin_write list \<times> SControlDo" where
  "DOCtrl_Act d =
     (if gen_pulse d > 0 then
        (let d = d\<lparr>counter := counter d + 1\<rparr>;
             (ws, d) = (if counter d = high d then ([(pinId d, if active d \<noteq> 0 then False else True)], d)
                        else if counter d = period d then
                          ([(pinId d, if active d \<noteq> 0 then True else False)], d\<lparr>counter := 0\<rparr>)
                        else ([], d));
             d = (if counter d > period d then d\<lparr>counter := 0, gen_pulse := gen_pulse d - 1\<rparr> else d)
         in (ws, d))
      else ([], d))"

fun DOCtrl_ActAll :: "SControlDo list \<Rightarrow> pin_write list \<times> SControlDo list" where
  "DOCtrl_ActAll [] = ([], [])"
| "DOCtrl_ActAll (d # ds) = (let (ws, d) = DOCtrl_Act d; (ws', ds) = DOCtrl_ActAll ds in (ws @ ws', d # ds))"

text \<open>The loops over all channels.\<close>

fun set_all :: "u8 \<Rightarrow> nat \<Rightarrow> SControlDo list \<Rightarrow> (pin_write list \<times> SControlDo list) option" where
  "set_all pulse 0 obj = Some ([], obj)"
| "set_all pulse (Suc n) obj =
     Option.bind (set_all pulse n obj) (\<lambda>(ws, obj).
       Option.bind (DOCtrl_SetPulse (of_nat n) pulse obj) (\<lambda>(ws', obj). Some (ws @ ws', obj)))"

definition DOCtrl_OffAll :: "SControlDo list \<Rightarrow> (pin_write list \<times> SControlDo list) option" where
  "DOCtrl_OffAll obj = set_all 0 DIGITAL_OUTPUT_NUM_CHANNEL obj"

definition DOCtrl_OnAll :: "SControlDo list \<Rightarrow> (pin_write list \<times> SControlDo list) option" where
  "DOCtrl_OnAll obj = set_all 1 DIGITAL_OUTPUT_NUM_CHANNEL obj"

section \<open>The waveform\<close>

text \<open>The writes of \<open>n\<close> timer ticks.\<close>

fun do_ticks :: "nat \<Rightarrow> SControlDo \<Rightarrow> pin_write list \<times> SControlDo" where
  "do_ticks 0 d = ([], d)"
| "do_ticks (Suc n) d = (let (ws, d) = do_ticks n d; (ws', d) = DOCtrl_Act d in (ws @ ws', d))"

text \<open>What a pulse train writes at tick \<open>t\<close>: the inactive level \<open>high\<close> ticks into each period, the active level at its end.\<close>

definition wave :: "SControlDo \<Rightarrow> nat \<Rightarrow> pin_write list" where
  "wave d t =
     (if t mod unat (period d) = unat (high d) then [(pinId d, active d = 0)]
      else if t mod unat (period d) = 0 then [(pinId d, active d \<noteq> 0)] else [])"

lemma do_ticks_wave:
  assumes "gen_pulse d > 0" "counter d = 0" "0 < high d" "high d < period d"
  shows "do_ticks n d = (concat (map (wave d) [1..<Suc n]), d\<lparr>counter := of_nat (n mod unat (period d))\<rparr>)"
proof (induction n)
  case 0
  then show ?case using assms(2) by simp
next
  case (Suc n)
  let ?P = "unat (period d)" and ?d = "d\<lparr>counter := of_nat (n mod unat (period d))\<rparr>"
  have hp: "unat (high d) < ?P" "0 < unat (high d)" using assms(3,4) by (simp_all add: word_less_nat_alt)
  then have P: "1 < ?P" by linarith
  define m where "m = n mod ?P"
  have lt: "Suc m \<le> ?P" using P by (simp add: m_def Suc_leI)
  have b: "Suc m < 4294967296" using lt unsigned_less [of "period d", where 'a = nat] by simp
  have c: "unat (of_nat m + 1 :: u32) = Suc m" using b by (simp add: unat_word_ariths unat_of_nat)
  have eqs: "(of_nat m + 1 = high d) = (Suc m = unat (high d))" "(of_nat m + 1 = period d) = (Suc m = ?P)"
    "\<not> of_nat m + 1 > period d" using lt c by (auto simp: word_unat_eq_iff word_less_nat_alt)
  have m: "Suc n mod ?P = (if Suc m = ?P then 0 else Suc m)" by (simp add: m_def mod_Suc)
  have w: "wave d (Suc n) = (if Suc m = unat (high d) then [(pinId d, active d = 0)]
      else if Suc m = ?P then [(pinId d, active d \<noteq> 0)] else [])"
    using hp by (simp add: wave_def m)
  have "DOCtrl_Act ?d = (wave d (Suc n), d\<lparr>counter := of_nat (Suc n mod ?P)\<rparr>)"
    using assms(1) eqs hp unfolding w m m_def [symmetric]
    by (simp add: DOCtrl_Act_def Let_def add.commute)
  then show ?case using Suc.IH by (simp add: Let_def)
qed

section \<open>Property\<close>

text \<open>C23: a running pulse train with a duty between 0 and the period writes the inactive level \<open>high\<close> ticks into each
  period and the active level at its end, exactly, for ever: the count of pulses is never lowered.\<close>

theorem DOCtrl_waveform:
  assumes "gen_pulse d > 0" "counter d = 0" "0 < high d" "high d < period d"
  shows "fst (do_ticks n d) = concat (map (wave d) [1..<Suc n]) \<and> gen_pulse (snd (do_ticks n d)) = gen_pulse d
    \<and> unat (counter (snd (do_ticks n d))) = n mod unat (period d)"
proof -
  have "n mod unat (period d) < unat (period d)" using assms(3,4) by (simp add: word_less_nat_alt)
  then have "unat (of_nat (n mod unat (period d)) :: u32) = n mod unat (period d)"
    using unsigned_less [of "period d", where 'a = nat] by (simp add: unat_of_nat)
  then show ?thesis by (simp add: do_ticks_wave [OF assms])
qed

lemma DOCtrl_waveform_witness:
  "fst (do_ticks 7 \<lparr>pinId = 9, gen_pulse = 1, active = 0, high = 1, period = 3, counter = 0\<rparr>)
     = [(9, True), (9, False), (9, True), (9, False), (9, True)]"
proof -
  have l: "[1..<Suc 7] = [1, 2, 3, 4, 5, 6, 7]" by (simp add: upt_rec)
  show ?thesis
    using DOCtrl_waveform [of "\<lparr>pinId = 9, gen_pulse = 1, active = 0, high = 1, period = 3, counter = 0\<rparr>" 7, unfolded l]
    by (simp add: wave_def)
qed

end
