(* ===== verification/Periodic.thy ===== *)
theory Periodic
  imports Prelude
begin

text \<open>
  Time: the software clock and the decision when to write a log file (\<^verbatim>\<open>app.c\<close>), and the setting of the
  real-time clock chip (\<^verbatim>\<open>periodic/rtc_comm.c\<close>).  The transfer to the chip is a function from the bytes
  sent to the status of the bus.
\<close>

section \<open>State\<close>

text \<open>The fields of \<open>struct tm\<close> in use.\<close>

record SDateTime =
  tm_sec :: int
  tm_min :: int
  tm_hour :: int
  tm_mday :: int
  tm_mon :: int
  tm_year :: int
  tm_wday :: int

section \<open>The clock chip (rtc\_comm.c)\<close>

text \<open>Status 0 is success of the bus.\<close>

definition RTC_InitDateTime :: "int \<Rightarrow> SDateTime option \<Rightarrow> int \<times> SDateTime option" where
  "RTC_InitDateTime i2c tm =
     (if i2c \<noteq> 0 then (i2c, tm)
      else (case tm of
              None \<Rightarrow> (-1, None)
            | Some t \<Rightarrow> (i2c, Some (t\<lparr>tm_min := 0, tm_hour := 0, tm_wday := 1, tm_mday := 1, tm_mon := 1, tm_year := 2018\<rparr>))))"

text \<open>The function returns before it reads anything.\<close>

definition RTC_GetTimeDate :: "SDateTime \<Rightarrow> int \<times> SDateTime" where
  "RTC_GetTimeDate t = (0, t)"

definition DEC_TO_HEX_1BYTE :: "int \<Rightarrow> u8" where
  "DEC_TO_HEX_1BYTE d = word_of_int ((push_bit 4 (d div 10) AND 0xF0) OR (d mod 10))"

definition time_regs :: "SDateTime \<Rightarrow> u8 list" where
  "time_regs t = [0, DEC_TO_HEX_1BYTE (tm_min t), DEC_TO_HEX_1BYTE (tm_hour t), DEC_TO_HEX_1BYTE (tm_wday t),
     DEC_TO_HEX_1BYTE (tm_mday t), DEC_TO_HEX_1BYTE (tm_mon t), DEC_TO_HEX_1BYTE (tm_year t)]"

text \<open>The checks as written: the upper bound of the day looks at the month.\<close>

definition RTC_SetTimeDate :: "(u8 list \<Rightarrow> int) \<Rightarrow> SDateTime \<Rightarrow> int \<times> u8 list list" where
  "RTC_SetTimeDate i2c t =
     (if \<not> (tm_min t \<ge> 0 \<and> tm_min t \<le> 59) then (-1, [])
      else if \<not> (tm_hour t \<ge> 0 \<and> tm_hour t \<le> 23) then (-1, [])
      else if \<not> (tm_wday t \<ge> 1 \<and> tm_wday t \<le> 7) then (-1, [])
      else if \<not> (tm_mday t \<ge> 1 \<and> tm_mon t \<le> 31) then (-1, [])
      else if \<not> (tm_mon t \<ge> 1 \<and> tm_mon t \<le> 12) then (-1, [])
      else if \<not> (tm_year t \<ge> 0 \<and> tm_year t \<le> 99) then (-1, [])
      else (i2c (time_regs t), [time_regs t]))"

definition RTC_SetDateTime :: "(u8 list \<Rightarrow> int) \<Rightarrow> u8 \<Rightarrow> u8 \<Rightarrow> u8 \<Rightarrow> u8 \<Rightarrow> u32 \<Rightarrow> SDateTime \<Rightarrow> (int \<times> u8 list list) \<times> SDateTime" where
  "RTC_SetDateTime i2c mi ho da mo ye pDateTime =
     (let (r, t) = RTC_GetTimeDate pDateTime in
      if r = 0 then
        (let t = t\<lparr>tm_min := uint mi, tm_hour := uint ho, tm_mday := uint da, tm_mon := uint mo, tm_year := sint (ye - 1990)\<rparr>
         in (RTC_SetTimeDate i2c t, t))
      else ((r, []), t))"

section \<open>The software clock (app.c)\<close>

definition App_GenerateFakeTime :: "SDateTime \<Rightarrow> SDateTime" where
  "App_GenerateFakeTime t =
     (let t = t\<lparr>tm_sec := tm_sec t + 1\<rparr>;
          t = (if tm_sec t > 59 then t\<lparr>tm_sec := 0, tm_min := tm_min t + 1\<rparr> else t);
          t = (if tm_min t > 59 then t\<lparr>tm_min := 0, tm_hour := tm_hour t + 1\<rparr> else t);
          t = (if tm_hour t > 23 then t\<lparr>tm_hour := 0, tm_mday := tm_mday t + 1\<rparr> else t);
          t = (if tm_mday t > 30 then t\<lparr>tm_mday := 0, tm_mon := tm_mon t + 1\<rparr> else t)
      in t)"

section \<open>When to log (app.c)\<close>

record SPeriodic =
  last_min :: int
  logged :: bool

definition log_minutes :: "u8 \<Rightarrow> int" where
  "log_minutes log_dur = (if log_dur > 0 then uint log_dur else 1)"

definition periodic_start :: SPeriodic where
  "periodic_start = \<lparr>last_min = 0, logged = False\<rparr>"

text \<open>The decision in one round of \<open>App_TaskPeriodic\<close> at minute \<open>m\<close>; \<open>valid\<close> says that both inputs were read at
  least once.  The result tells whether the log branch runs.\<close>

definition periodic_round :: "int \<Rightarrow> bool \<Rightarrow> int \<Rightarrow> SPeriodic \<Rightarrow> bool \<times> SPeriodic" where
  "periodic_round log_min valid m p =
     (let p = (if m \<noteq> last_min p \<and> logged p then p\<lparr>logged := False\<rparr> else p) in
      if logged p = False \<and> m mod log_min = 0 then
        (if valid then (True, p\<lparr>last_min := m, logged := True\<rparr>) else (False, p))
      else (False, p))"

fun periodic_run :: "int \<Rightarrow> SPeriodic \<Rightarrow> (bool \<times> int) list \<Rightarrow> bool list" where
  "periodic_run log_min p [] = []"
| "periodic_run log_min p ((valid, m) # ms) =
     (let (b, p) = periodic_round log_min valid m p in b # periodic_run log_min p ms)"

section \<open>Lemmas\<close>

definition clock_ok :: "SDateTime \<Rightarrow> bool" where
  "clock_ok t \<longleftrightarrow> 0 \<le> tm_sec t \<and> tm_sec t \<le> 59 \<and> 0 \<le> tm_min t \<and> tm_min t \<le> 59 \<and> 0 \<le> tm_hour t \<and> tm_hour t \<le> 23"

definition clock_secs :: "SDateTime \<Rightarrow> int" where
  "clock_secs t = ((tm_mday t * 24 + tm_hour t) * 60 + tm_min t) * 60 + tm_sec t"

lemma fake_step:
  assumes "clock_ok t" "clock_secs t + 1 < 31 * 86400"
  shows "clock_ok (App_GenerateFakeTime t) \<and> clock_secs (App_GenerateFakeTime t) = clock_secs t + 1
    \<and> tm_mon (App_GenerateFakeTime t) = tm_mon t \<and> tm_year (App_GenerateFakeTime t) = tm_year t"
  using assms by (auto simp: App_GenerateFakeTime_def clock_ok_def clock_secs_def Let_def)

lemma fake_steps:
  assumes "clock_ok t" "clock_secs t + int n < 31 * 86400"
  shows "clock_ok ((App_GenerateFakeTime ^^ n) t) \<and> clock_secs ((App_GenerateFakeTime ^^ n) t) = clock_secs t + int n
    \<and> tm_mon ((App_GenerateFakeTime ^^ n) t) = tm_mon t \<and> tm_year ((App_GenerateFakeTime ^^ n) t) = tm_year t"
  using assms(2)
proof (induction n)
  case (Suc n)
  then show ?case using fake_step [of "(App_GenerateFakeTime ^^ n) t"] by auto
qed (use assms in simp)

text \<open>Runs of equal minutes, one after the other.\<close>

definition minutes :: "(int \<times> nat) list \<Rightarrow> (bool \<times> int) list" where
  "minutes rs = concat (map (\<lambda>(m, k). replicate (Suc k) (True, m)) rs)"

lemma run_stay:
  "periodic_run g \<lparr>last_min = m, logged = True\<rparr> (replicate k (True, m) @ ms)
     = replicate k False @ periodic_run g \<lparr>last_min = m, logged = True\<rparr> ms"
  by (induction k) (simp_all add: periodic_round_def)

lemma run_idle:
  "m mod g \<noteq> 0 \<Longrightarrow> \<not> logged p \<Longrightarrow> periodic_run g p (replicate k (True, m) @ ms) = replicate k False @ periodic_run g p ms"
  by (induction k) (simp_all add: periodic_round_def)

lemma run_logs:
  assumes "\<not> logged p \<or> (rs \<noteq> [] \<longrightarrow> fst (hd rs) \<noteq> last_min p)" "distinct_adj (map fst rs)"
  shows "periodic_run g p (minutes rs) = concat (map (\<lambda>(m, k). (m mod g = 0) # replicate k False) rs)"
  using assms
proof (induction rs arbitrary: p)
  case (Cons r rs)
  obtain m k where r: "r = (m, k)" by fastforce
  have ms: "minutes (r # rs) = (True, m) # replicate k (True, m) @ minutes rs" by (simp add: minutes_def r)
  let ?p = "p\<lparr>logged := False\<rparr>"
  have p: "(if m \<noteq> last_min p \<and> logged p then p\<lparr>logged := False\<rparr> else p) = ?p"
    using Cons.prems(1) by (cases p) (auto simp: r)
  have adj: "distinct_adj (map fst rs)" "rs \<noteq> [] \<longrightarrow> fst (hd rs) \<noteq> m"
    using Cons.prems(2) by (cases rs; auto simp: r)+
  show ?case
  proof (cases "m mod g = 0")
    case True
    then have "periodic_run g p (minutes (r # rs)) = True # replicate k False @ periodic_run g \<lparr>last_min = m, logged = True\<rparr> (minutes rs)"
      unfolding ms by (simp add: periodic_round_def p run_stay) (cases p; simp add: run_stay)
    then show ?thesis using Cons.IH [of "\<lparr>last_min = m, logged = True\<rparr>"] adj True by (simp add: r)
  next
    case False
    then have "periodic_run g p (minutes (r # rs)) = False # replicate k False @ periodic_run g ?p (minutes rs)"
      unfolding ms by (simp add: periodic_round_def p run_idle)
    then show ?thesis using Cons.IH [of ?p] adj False by (simp add: r)
  qed
qed (simp add: minutes_def)

section \<open>Properties\<close>

text \<open>Up to the end of day 30 the software clock counts seconds exactly: after n ticks the fields are in range and
  day, hour, minute and second together are n seconds later; month and year do not change.\<close>

theorem FakeTime_counts:
  assumes "clock_ok t" "clock_secs t + int n < 31 * 86400"
  shows "clock_ok ((App_GenerateFakeTime ^^ n) t) \<and> clock_secs ((App_GenerateFakeTime ^^ n) t) = clock_secs t + int n
    \<and> tm_mon ((App_GenerateFakeTime ^^ n) t) = tm_mon t \<and> tm_year ((App_GenerateFakeTime ^^ n) t) = tm_year t"
  by (rule fake_steps [OF assms])

lemma FakeTime_counts_witness:
  "clock_secs ((App_GenerateFakeTime ^^ 100000)
     \<lparr>tm_sec = 0, tm_min = 0, tm_hour = 0, tm_mday = 1, tm_mon = 1, tm_year = 2018, tm_wday = 0\<rparr>) = 186400"
  using FakeTime_counts [of "\<lparr>tm_sec = 0, tm_min = 0, tm_hour = 0, tm_mday = 1, tm_mon = 1, tm_year = 2018, tm_wday = 0\<rparr>" 100000]
  by (simp add: clock_ok_def clock_secs_def)

text \<open>After day 30 comes day 0, and no month ends the year.\<close>

lemma FakeTime_day_zero:
  "App_GenerateFakeTime \<lparr>tm_sec = 59, tm_min = 59, tm_hour = 23, tm_mday = 30, tm_mon = 12, tm_year = 2018, tm_wday = 0\<rparr>
     = \<lparr>tm_sec = 0, tm_min = 0, tm_hour = 0, tm_mday = 0, tm_mon = 13, tm_year = 2018, tm_wday = 0\<rparr>"
  by (simp add: App_GenerateFakeTime_def)



text \<open>A day beyond any month passes the checks and is sent to the chip.\<close>

lemma RTC_day_unchecked:
  "RTC_SetTimeDate i2c \<lparr>tm_sec = 0, tm_min = 0, tm_hour = 0, tm_mday = 99, tm_mon = 1, tm_year = 18, tm_wday = 1\<rparr>
     = (i2c [0, 0, 0, 1, 0x99, 1, 0x18], [[0, 0, 0, 1, 0x99, 1, 0x18]])"
  by (simp add: RTC_SetTimeDate_def time_regs_def DEC_TO_HEX_1BYTE_def)

end
