(* ===== verification/AppConfig.thy ===== *)
theory AppConfig
  imports FatFs DigitalOut
begin

text \<open>
  The configuration of the logger (\<^verbatim>\<open>SSysCfg\<close> in \<^verbatim>\<open>definition.h\<close>) and its file on the SD card (\<^verbatim>\<open>app.c\<close>).  The code copies
  whole structs in and out of frames and files, so the configuration is its bytes in memory: the offsets are
  those of the ARM ABI (natural alignment, an \<open>ip_addr_t\<close> of four bytes), floats are their IEEE bits.
\<close>

section \<open>Layout (definition.h)\<close>

type_synonym SSysCfg = "u8 list"

definition DIGITAL_INPUT_NUM_CHANNEL :: nat where "DIGITAL_INPUT_NUM_CHANNEL = 8"
definition ANALOG_INPUT_NUM_CHANNEL :: nat where "ANALOG_INPUT_NUM_CHANNEL = 12"
definition SYSTEM_NUM_TAG :: nat where "SYSTEM_NUM_TAG = 12"

definition SCommon_size :: nat where "SCommon_size = 216"
definition STag_size :: nat where "STag_size = 128"
definition SCtrlPort_size :: nat where "SCtrlPort_size = 28"
definition SInputPort_size :: nat where "SInputPort_size = 24"
definition SCalibNode_size :: nat where "SCalibNode_size = 20"
definition SSysCfg_size :: nat where "SSysCfg_size = 2412"

definition tag_off :: "nat \<Rightarrow> nat" where "tag_off i = SCommon_size + STag_size * i"
definition do_off :: "nat \<Rightarrow> nat" where "do_off i = 1752 + SCtrlPort_size * i"
definition di_off :: "nat \<Rightarrow> nat" where "di_off i = 1920 + SInputPort_size * i"
definition acc_off :: nat where "acc_off = 2112"
definition calib_off :: "nat \<Rightarrow> nat" where "calib_off i = 2172 + SCalibNode_size * i"

lemmas layout_defs = DIGITAL_INPUT_NUM_CHANNEL_def ANALOG_INPUT_NUM_CHANNEL_def SYSTEM_NUM_TAG_def
  DIGITAL_OUTPUT_NUM_CHANNEL_def SCommon_size_def STag_size_def SCtrlPort_size_def SInputPort_size_def
  SCalibNode_size_def SSysCfg_size_def tag_off_def do_off_def di_off_def acc_off_def calib_off_def

text \<open>The bytes of a field.\<close>

definition field :: "nat \<Rightarrow> nat \<Rightarrow> u8 list \<Rightarrow> u8 list" where
  "field off n m = take n (drop off m)"

section \<open>Strings of the C library\<close>

definition chars :: "string \<Rightarrow> u8 list" where
  "chars s = map (\<lambda>c. of_nat (of_char c)) s"

text \<open>\<open>Str_Copy\<close> of a constant, its end included.\<close>

definition Str_Copy :: "nat \<Rightarrow> string \<Rightarrow> u8 list \<Rightarrow> u8 list" where
  "Str_Copy off s m = put_bytes off (chars s @ [0]) m"

text \<open>\<open>Str_Copy_N\<close>: up to the end of the source or \<open>n\<close> characters; the end is written when there is room.\<close>

definition Str_Copy_N :: "nat \<Rightarrow> u8 list \<Rightarrow> nat \<Rightarrow> u8 list \<Rightarrow> u8 list" where
  "Str_Copy_N off src n m =
     (let s = take n (takeWhile (\<lambda>b. b \<noteq> 0) src) in
      put_bytes off (if length s < n then s @ [0] else s) m)"

text \<open>\<open>Str_Cmp_N (a, b, n) == 0\<close>.\<close>

fun Str_Cmp_N_eq :: "u8 list \<Rightarrow> u8 list \<Rightarrow> nat \<Rightarrow> bool" where
  "Str_Cmp_N_eq a b 0 = True"
| "Str_Cmp_N_eq (x # a) (y # b) (Suc n) = (x = y \<and> (x = 0 \<or> Str_Cmp_N_eq a b n))"
| "Str_Cmp_N_eq a b (Suc n) = False"

section \<open>The default configuration (app.c)\<close>

definition App_DefaultTag :: "u8 \<Rightarrow> u8 list \<Rightarrow> u8 list" where
  "App_DefaultTag tagIdx t =
     (let t = put_bytes 0 (enc16 (ucast tagIdx)) t;
          t = put_bytes 24 (enc16 2) t;
          t = put_bytes 24 (enc16 (min (dec16 t 24) 11)) t;
          t = put_bytes 78 (enc16 (min (dec16 t 78) 7)) t;
          t = put_bytes 80 (enc16 (min (dec16 t 80) 7)) t;
          t = t[17 := 1, 18 := 1, 20 := 0, 19 := 0, 21 := 0, 28 := 3, 29 := 1, 22 := 1];
          t = put_bytes 26 (enc16 (ucast tagIdx)) t;
          t = put_bytes 26 (enc16 (min (dec16 t 26) 9)) t;
          t = put_bytes 100 (enc32 0) t;
          t = put_bytes 104 (enc32 0x447A0000) t;
          t = put_bytes 108 (enc32 0) t;
          t = put_bytes 112 (enc32 0x447A0000) t;
          t = put_bytes 116 (enc32 0) t;
          t = put_bytes 120 (enc32 0x3F800000) t;
          t = Str_Copy_N 32 (chars ''NAME'') 15 t;
          t = Str_Copy_N 47 (chars ''RUNIT'') 15 t
      in Str_Copy_N 62 (chars ''SUNIT'') 15 t)"

definition App_VerifyTagConfig :: "u8 \<Rightarrow> u8 list \<Rightarrow> u8 list" where
  "App_VerifyTagConfig tagIdx t =
     (let t = put_bytes 0 (enc16 (ucast tagIdx)) t;
          t = put_bytes 24 (enc16 (ucast tagIdx)) t;
          t = put_bytes 24 (enc16 (min (dec16 t 24) 11)) t;
          t = put_bytes 78 (enc16 (min (dec16 t 78) 7)) t;
          t = put_bytes 80 (enc16 (min (dec16 t 80) 7)) t
      in t[46 := 0, 61 := 0, 76 := 0])"

text \<open>The loops over the tags and the calibration nodes.\<close>

fun default_tags :: "nat \<Rightarrow> nat \<Rightarrow> SSysCfg \<Rightarrow> SSysCfg" where
  "default_tags 0 i c = c"
| "default_tags (Suc n) i c =
     default_tags n (Suc i) (put_bytes (tag_off i) (App_DefaultTag (of_nat i) (field (tag_off i) STag_size c)) c)"

fun default_calib :: "nat \<Rightarrow> nat \<Rightarrow> SSysCfg \<Rightarrow> SSysCfg" where
  "default_calib 0 i c = c"
| "default_calib (Suc n) i c =
     default_calib n (Suc i) (put_bytes (calib_off i + 4) (enc32 0x3F800000) (put_bytes (calib_off i) (enc32 0) c))"

definition App_GenDefaultConfig :: SSysCfg where
  "App_GenDefaultConfig =
     (let c = replicate SSysCfg_size 0;
          c = Str_Copy 44 ''COSO'' c;
          c = Str_Copy 38 ''TINH'' c;
          c = Str_Copy 50 ''TRAM'' c;
          c = Str_Copy acc_off ''admin'' c;
          c = Str_Copy (acc_off + 15) ''admin'' c;
          c = Str_Copy (acc_off + 30) ''root'' c;
          c = Str_Copy (acc_off + 45) ''123456a@'' c;
          c = Str_Copy 90 ''ftpuser1'' c;
          c = Str_Copy 105 ''zxcvbnm@12'' c;
          c = Str_Copy 60 ''/home/ftpuser1/'' c;
          c = Str_Copy 150 ''ftpuser2'' c;
          c = Str_Copy 165 ''ftppasswd2'' c;
          c = Str_Copy 180 ''ctrluser'' c;
          c = Str_Copy 195 ''ctrlpasswd'' c;
          c = put_bytes 210 [1] c;
          c = put_bytes 211 [1] c;
          c = put_bytes 212 (enc32 9600) c;
          c = put_bytes 13 [1] c;
          c = put_bytes 14 [0] c;
          c = put_bytes 0 [192, 168, 0, 105] c;
          c = put_bytes 4 [255, 255, 255, 0] c;
          c = put_bytes 8 [192, 168, 0, 1] c;
          c = put_bytes 16 [27, 118, 20, 209] c;
          c = put_bytes 20 (enc16 21) c;
          c = put_bytes 24 [192, 168, 1, 12] c;
          c = put_bytes 28 (enc16 21) c;
          c = put_bytes 32 [192, 168, 0, 100] c;
          c = put_bytes 36 (enc16 1186) c;
          c = default_tags SYSTEM_NUM_TAG 0 c
      in default_calib ANALOG_INPUT_NUM_CHANNEL 0 c)"

section \<open>The configuration file\<close>

record conf_file =
  cfgFil :: FIL
  cfgExists :: bool

text \<open>Return codes: 0 is \<open>FR_OK\<close>, every error of the file system is \<open>FR_DISK_ERR\<close>.\<close>

definition FR_DISK_ERR :: int where "FR_DISK_ERR = 1"

text \<open>\<open>f_stat\<close> behind it may fail, which counts as not existing.\<close>

definition check_obj_existed :: "conf_file \<Rightarrow> bool \<times> conf_file" where
  "check_obj_existed p = (let (r, f) = next_outcome (cfgFil p) in (r \<noteq> FsErr \<and> cfgExists p, p\<lparr>cfgFil := f\<rparr>))"

definition App_SaveConfig :: "SSysCfg \<Rightarrow> conf_file \<Rightarrow> int \<times> conf_file" where
  "App_SaveConfig c p =
     (let (r, f) = f_create (cfgFil p); p = p\<lparr>cfgFil := f\<rparr> in
      if r then (FR_DISK_ERR, p)
      else
        (let p = p\<lparr>cfgExists := True\<rparr>;
             (r, written, f) = f_write c (cfgFil p);
             retVal = (if \<not> r then (if written > 0 then 0 else - 1) else FR_DISK_ERR);
             (r, f) = f_close f
         in (retVal, p\<lparr>cfgFil := f\<rparr>)))"

definition f_unlink :: "conf_file \<Rightarrow> conf_file" where
  "f_unlink p = (let (r, f) = next_outcome (cfgFil p) in
     if r = FsErr then p\<lparr>cfgFil := f\<rparr> else p\<lparr>cfgFil := f\<lparr>fdata := []\<rparr>, cfgExists := False\<rparr>)"

definition App_LoadConfig :: "SSysCfg \<Rightarrow> conf_file \<Rightarrow> int \<times> SSysCfg \<times> conf_file" where
  "App_LoadConfig c p =
     (let (ex, p) = check_obj_existed p in
      if ex then
        (let (r, f) = f_open (cfgFil p); p = p\<lparr>cfgFil := f\<rparr> in
         if r then (- 1, c, p)
         else
           (let (r, bs, f) = f_read SSysCfg_size (cfgFil p);
                c = bs @ drop (length bs) c;
                retVal = (if \<not> r then (if length bs = SSysCfg_size then 0 else - 2) else - 3);
                (r, f) = f_close f;
                p = p\<lparr>cfgFil := f\<rparr>
            in if retVal = - 2 then
                 (let p = f_unlink p;
                      (retVal, p) = App_SaveConfig App_GenDefaultConfig p
                  in (retVal, App_GenDefaultConfig, p))
               else (retVal, c, p)))
      else
        (let (retVal, p) = App_SaveConfig App_GenDefaultConfig p in
         if retVal = - 2 then
           (let p = f_unlink p;
                (retVal, p) = App_SaveConfig App_GenDefaultConfig p
            in (retVal, App_GenDefaultConfig, p))
         else (retVal, App_GenDefaultConfig, p)))"

section \<open>Lengths\<close>

text \<open>The writes of a struct keep its length; used as introduction rules, one write at a time.\<close>

named_theorems len_intros

lemma len_put [len_intros]: "length d = N \<Longrightarrow> n + length bs \<le> N \<Longrightarrow> length (put_bytes n bs d) = N"
  using put_bytes_length by blast

lemma len_Str_Copy [len_intros]: "length d = N \<Longrightarrow> n + length s < N \<Longrightarrow> length (Str_Copy n s d) = N"
  unfolding Str_Copy_def by (rule len_put) (simp_all add: chars_def)

lemma len_Str_Copy_N [len_intros]: "length d = N \<Longrightarrow> off + n \<le> N \<Longrightarrow> length (Str_Copy_N off src n d) = N"
  unfolding Str_Copy_N_def Let_def by (rule len_put) auto

lemma len_upd [len_intros]: "length d = N \<Longrightarrow> length (d[i := x]) = N"
  by simp

lemma length_enc [simp]: "length (enc16 x) = 2" "length (enc32 y) = 4"
  by (simp_all add: enc16_def enc32_def)

lemma length_DefaultTag [simp]: "length t = 128 \<Longrightarrow> length (App_DefaultTag i t) = 128"
  unfolding App_DefaultTag_def Let_def by (intro len_intros) simp_all

lemma length_VerifyTag [simp]: "length t = 128 \<Longrightarrow> length (App_VerifyTagConfig i t) = 128"
  unfolding App_VerifyTagConfig_def Let_def by (intro len_intros) simp_all

lemma length_field [simp]: "off + n \<le> length m \<Longrightarrow> length (field off n m) = n"
  by (simp add: field_def)

lemma length_default_tags: "length c = N \<Longrightarrow> tag_off (i + n) \<le> N \<Longrightarrow> length (default_tags n i c) = N"
proof (induction n i c rule: default_tags.induct)
  case (2 n i c)
  have f: "length (field (tag_off i) STag_size c) = 128" using 2(2,3) by (simp add: layout_defs)
  have "length (put_bytes (tag_off i) (App_DefaultTag (of_nat i) (field (tag_off i) STag_size c)) c) = N"
    by (rule len_put [OF 2(2)]) (use 2(3) f in \<open>simp add: layout_defs\<close>)
  with 2 show ?case by simp
qed simp

lemma length_default_calib: "length c = N \<Longrightarrow> calib_off (i + n) \<le> N \<Longrightarrow> length (default_calib n i c) = N"
proof (induction n i c rule: default_calib.induct)
  case (2 n i c)
  have "length (put_bytes (calib_off i + 4) (enc32 0x3F800000) (put_bytes (calib_off i) (enc32 0) c)) = N"
    by (intro len_intros) (use 2(2,3) in \<open>simp_all add: layout_defs\<close>)
  with 2 show ?case by simp
qed simp

lemma length_GenDefault [simp]: "length App_GenDefaultConfig = SSysCfg_size"
  unfolding App_GenDefaultConfig_def Let_def
  by (intro length_default_calib length_default_tags len_intros) (simp_all add: layout_defs)

section \<open>Properties\<close>

lemma save_ok:
  assumes "outcomes (cfgFil p) = []" "c \<noteq> []"
  shows "App_SaveConfig c p = (0, p\<lparr>cfgExists := True, cfgFil := (cfgFil p)\<lparr>fdata := c, fptr := length c\<rparr>\<rparr>)"
  using assms by (cases p) (simp add: App_SaveConfig_def f_create_ok fs_ok put_bytes_def Let_def)

lemma load_ok:
  assumes "outcomes (cfgFil p) = []" "cfgExists p" "length (fdata (cfgFil p)) = SSysCfg_size" "length c = SSysCfg_size"
  shows "\<exists>p'. App_LoadConfig c p = (0, fdata (cfgFil p), p') \<and> fdata (cfgFil p') = fdata (cfgFil p)"
  using assms by (simp add: App_LoadConfig_def check_obj_existed_def next_outcome_def fs_ok Let_def)

lemma load_short:
  assumes "outcomes (cfgFil p) = []" "cfgExists p" "length (fdata (cfgFil p)) < SSysCfg_size"
  shows "\<exists>p'. App_LoadConfig c p = (0, App_GenDefaultConfig, p') \<and> fdata (cfgFil p') = App_GenDefaultConfig"
proof -
  have ne: "App_GenDefaultConfig \<noteq> []" using length_GenDefault by (auto simp: SSysCfg_size_def simp del: length_GenDefault)
  let ?f = "(cfgFil p)\<lparr>fptr := length (fdata (cfgFil p))\<rparr>"
  let ?p = "f_unlink (p\<lparr>cfgFil := ?f\<rparr>)"
  have o: "outcomes (cfgFil ?p) = []" using assms(1) by (simp add: f_unlink_def next_outcome_def)
  have "App_LoadConfig c p = (case App_SaveConfig App_GenDefaultConfig ?p of (r, p) \<Rightarrow> (r, App_GenDefaultConfig, p))"
    using assms by (simp add: App_LoadConfig_def check_obj_existed_def next_outcome_def fs_ok Let_def min_def)
  then show ?thesis unfolding save_ok [OF o ne] by simp
qed

text \<open>C19: while no file operation fails, saving a configuration succeeds and loading it afterwards gives it back, whatever
  was in memory.\<close>

theorem Config_roundtrip:
  assumes "outcomes (cfgFil p) = []" "length c = SSysCfg_size" "length c0 = SSysCfg_size" "App_SaveConfig c p = (r, p1)"
  shows "r = 0 \<and> (\<exists>p2. App_LoadConfig c0 p1 = (0, c, p2))"
proof -
  have "c \<noteq> []" using assms(2) by (auto simp: SSysCfg_size_def)
  from save_ok [OF assms(1) this] assms(4) have "r = 0"
    and p1: "p1 = p\<lparr>cfgExists := True, cfgFil := (cfgFil p)\<lparr>fdata := c, fptr := length c\<rparr>\<rparr>" by simp_all
  then show ?thesis using load_ok [of p1 c0] assms by auto
qed

definition no_config :: conf_file where
  "no_config = \<lparr>cfgFil = \<lparr>fdata = [], fptr = 0, outcomes = []\<rparr>, cfgExists = False\<rparr>"

lemma Config_roundtrip_witness:
  "\<exists>p2. App_LoadConfig App_GenDefaultConfig (snd (App_SaveConfig (replicate 2412 7) no_config)) = (0, replicate 2412 7, p2)"
proof -
  have l: "length (replicate 2412 (7 :: u8)) = SSysCfg_size" by (simp add: SSysCfg_size_def)
  have o: "outcomes (cfgFil no_config) = []" by (simp add: no_config_def)
  from Config_roundtrip [OF o l length_GenDefault, of "fst (App_SaveConfig (replicate 2412 7) no_config)"]
  show ?thesis by simp
qed

text \<open>When the card is full a save that wrote only a part of the configuration reports success; the next load finds the
  short file, deletes it and replaces the configuration by the default one, again with success: the settings are lost.\<close>

theorem Config_short_write_lost:
  assumes "outcomes (cfgFil p) = [FsOk, FsFull k]" "0 < k" "k < SSysCfg_size" "length c = SSysCfg_size"
    and "App_SaveConfig c p = (r, p1)"
  shows "r = 0 \<and> (\<exists>p2. App_LoadConfig c p1 = (0, App_GenDefaultConfig, p2) \<and> fdata (cfgFil p2) = App_GenDefaultConfig)"
proof -
  obtain f ex where p: "p = \<lparr>cfgFil = f, cfgExists = ex\<rparr>" by (cases p)
  then have f: "outcomes f = [FsOk, FsFull k]" using assms(1) by simp
  have c: "f_create f = (False, f\<lparr>fptr := 0, fdata := [], outcomes := [FsFull k]\<rparr>)"
    using f by (cases f) (simp add: f_create_def next_outcome_def)
  let ?g = "f\<lparr>fptr := 0, fdata := [], outcomes := [FsFull k]\<rparr>"
  have w: "f_write c ?g = (False, k, f\<lparr>fdata := take k c, fptr := k, outcomes := []\<rparr>)"
    using assms(3,4) by (cases f) (simp add: f_write_def next_outcome_def put_bytes_def)
  have "App_SaveConfig c p = (0, \<lparr>cfgFil = f\<lparr>fdata := take k c, fptr := k, outcomes := []\<rparr>, cfgExists = True\<rparr>)"
    using assms(2) by (simp add: App_SaveConfig_def p c w fs_ok Let_def)
  then have r: "r = 0" and p1: "p1 = \<lparr>cfgFil = f\<lparr>fdata := take k c, fptr := k, outcomes := []\<rparr>, cfgExists = True\<rparr>"
    using assms(5) by simp_all
  have "length (fdata (cfgFil p1)) < SSysCfg_size" using assms(3) by (simp add: p1)
  from load_short [OF _ _ this, of c] r show ?thesis by (simp add: p1)
qed

lemma Config_short_write_lost_witness:
  "fst (App_SaveConfig (replicate 2412 7) \<lparr>cfgFil = \<lparr>fdata = [], fptr = 0, outcomes = [FsOk, FsFull 512]\<rparr>, cfgExists = True\<rparr>) = 0"
proof -
  have l: "length (replicate 2412 (7 :: u8)) = SSysCfg_size" by (simp add: SSysCfg_size_def)
  from Config_short_write_lost [OF _ _ _ l prod.collapse [symmetric],
    of "\<lparr>cfgFil = \<lparr>fdata = [], fptr = 0, outcomes = [FsOk, FsFull 512]\<rparr>, cfgExists = True\<rparr>" 512]
  show ?thesis by (simp add: SSysCfg_size_def)
qed

end
