(* ===== verification/AppComm.thy ===== *)
theory AppComm
  imports TransceiverNode AppConfig Periodic
begin

text \<open>
  The application behind the serial port to the PC and behind the port of the user interface (\<^verbatim>\<open>app.c\<close>): the
  command handler, the answers it posts, the stream of tag headers, and the timer that feeds the display.  The
  state is that of transport layer 3 on one port, extended by the part of \<^verbatim>\<open>SApp\<close> these functions use; a result
  \<open>None\<close> is an access outside a buffer.
\<close>

section \<open>State\<close>

text \<open>The nodes of the arrays other tasks fill; floats are their IEEE bits.\<close>

record SAiValueNode =
  aiEnable :: u8
  aiStatus :: u8
  aiId :: u8
  aiValue :: u32

record SMbNode =
  mbnEnable :: u8
  mbnStatus :: u8
  mbnDataFormat :: u8
  mbnDataType :: u8
  mbnAddress :: u8
  mbnRegAddress :: u16
  mbnValue :: u32

record STagNode =
  tvScratch :: u32
  tvRaw :: u32
  tvStd :: u32
  tvStt :: "u8 \<times> u8 \<times> u8"

text \<open>
  The arrays are indexed by the number of the tag or channel; \<open>tmRest\<close> are the two fields of \<open>struct tm\<close> that nothing
  reads; \<open>poolJunk\<close> is what a block just taken from the pool holds.  \<open>netPosts\<close> are the outcomes of the next posts to
  the queue of the TCP sender, \<open>netQueue\<close> the messages it got, each in its block.
\<close>

record SApp = STrans +
  sCfg :: SSysCfg
  cfgStore :: conf_file
  sDateTime :: SDateTime
  tmRest :: "u32 \<times> u32"
  sAI :: "nat \<Rightarrow> SAiValueNode"
  sMB :: "nat \<Rightarrow> SMbNode"
  sTagValue :: "nat \<Rightarrow> STagNode"
  pcCounter :: u32
  uiCounter :: u32
  eCtrlCode :: u32
  reboot :: bool
  sysReset :: bool
  timerCounter :: u8
  poolJunk :: "nat \<Rightarrow> u8"
  netConnected :: bool
  netPosts :: "bool list"
  netQueue :: "(blk \<times> u8 list) list"

definition CTRL_SEND_HEADER :: u32 where "CTRL_SEND_HEADER = 16"
definition LOGGER_SUCCESS :: u8 where "LOGGER_SUCCESS = 0"
definition LOGGER_ERROR :: u8 where "LOGGER_ERROR = 1"
definition STagHeader_size :: nat where "STagHeader_size = 64"
definition STagVArray_size :: nat where "STagVArray_size = 144"
definition SAnalogInput_size :: nat where "SAnalogInput_size = 96"
definition SModbusValue_size :: nat where "SModbusValue_size = 144"
definition SSystemStatus_size :: nat where "SSystemStatus_size = 40"

text \<open>Reads from a buffer.\<close>

definition rd :: "u8 list \<Rightarrow> nat \<Rightarrow> u8 option" where
  "rd d i = (if i < length d then Some (d ! i) else None)"

definition rd_n :: "u8 list \<Rightarrow> nat \<Rightarrow> nat \<Rightarrow> u8 list option" where
  "rd_n d i n = (if i + n \<le> length d then Some (take n (drop i d)) else None)"

section \<open>Posting a message\<close>

text \<open>The message in its buffer: code, length, data.  With no data (\<open>NULL\<close>) the rest of the buffer is what it was.\<close>

definition sdata_bytes :: "u8 \<Rightarrow> u8 list option \<Rightarrow> u8 \<Rightarrow> (nat \<Rightarrow> u8) \<Rightarrow> u8 list option" where
  "sdata_bytes subctrl data len junk =
     (case data of
        None \<Rightarrow> Some (subctrl # len # map junk [2..<2 + unat len])
      | Some d \<Rightarrow> map_option (\<lambda>bs. subctrl # len # bs) (rd_n d 0 (unat len)))"

text \<open>The body shared by \<open>App_SendUI\<close> and \<open>App_SendPC\<close>.\<close>

definition send_message :: "u8 \<Rightarrow> u8 list option \<Rightarrow> u8 \<Rightarrow> bool \<Rightarrow> 'a SApp_scheme \<Rightarrow> (bool \<times> 'a SApp_scheme) option" where
  "send_message subctrl data len ack w =
     (let (r, ms) = OSA_FixedMemMalloc (ucast len + 2) (mem w);
          w = w\<lparr>mem := ms\<rparr>
      in (case r of
            None \<Rightarrow> Some (False, w)
          | Some b \<Rightarrow> do {
              sdata \<leftarrow> sdata_bytes subctrl data len (poolJunk w);
              (ret, w) \<leftarrow> Trans_Send w (ucast len + 2) (Some sdata) (if ack then 0xA0 else 0x20);
              Some (ret, w\<lparr>mem := OSA_FixedMemFree b (mem w)\<rparr>)
            }))"

definition App_SendUI :: "u8 \<Rightarrow> u8 list option \<Rightarrow> u8 \<Rightarrow> bool \<Rightarrow> 'a SApp_scheme \<Rightarrow> (bool \<times> 'a SApp_scheme) option" where
  "App_SendUI = send_message"

definition App_SendPC :: "u8 \<Rightarrow> u8 list option \<Rightarrow> u8 \<Rightarrow> bool \<Rightarrow> 'a SApp_scheme \<Rightarrow> (bool \<times> 'a SApp_scheme) option" where
  "App_SendPC = send_message"

text \<open>The TCP server: a message is a block with a header of eight bytes.  When the queue is full the block is lost.\<close>

definition tcp_server_send_nonblocking :: "u8 list \<Rightarrow> 'a SApp_scheme \<Rightarrow> int \<times> 'a SApp_scheme" where
  "tcp_server_send_nonblocking d w =
     (if netConnected w then
        (let (r, ms) = OSA_FixedMemMalloc (8 + of_nat (length d)) (mem w);
             w = w\<lparr>mem := ms\<rparr>
         in (case r of
               None \<Rightarrow> (- 1, w)
             | Some b \<Rightarrow>
                 (case netPosts w of
                    False # ps \<Rightarrow> (- 2, w\<lparr>netPosts := ps\<rparr>)
                  | True # ps \<Rightarrow> (0, w\<lparr>netPosts := ps, netQueue := netQueue w @ [(b, d)]\<rparr>)
                  | [] \<Rightarrow> (0, w\<lparr>netQueue := netQueue w @ [(b, d)]\<rparr>))))
      else (- 3, w))"

definition App_SendPCNetworkClient :: "u8 \<Rightarrow> u8 list option \<Rightarrow> u8 \<Rightarrow> 'a SApp_scheme \<Rightarrow> (int \<times> 'a SApp_scheme) option" where
  "App_SendPCNetworkClient subctrl data len w =
     (let (r, ms) = OSA_FixedMemMalloc (ucast len + 2) (mem w);
          w = w\<lparr>mem := ms\<rparr>
      in (case r of
            None \<Rightarrow> Some (0, w)
          | Some b \<Rightarrow> do {
              sdata \<leftarrow> sdata_bytes subctrl data len (poolJunk w);
              let (ret, w) = tcp_server_send_nonblocking sdata w;
              Some (ret, w\<lparr>mem := OSA_FixedMemFree b (mem w)\<rparr>)
            }))"

section \<open>Writing the configuration\<close>

text \<open>\<open>memcpy\<close> of \<open>n\<close> bytes of the message at \<open>i\<close> into the configuration.\<close>

definition copy_cfg :: "nat \<Rightarrow> u8 list \<Rightarrow> nat \<Rightarrow> nat \<Rightarrow> 'a SApp_scheme \<Rightarrow> 'a SApp_scheme option" where
  "copy_cfg off d i n w = do { bs \<leftarrow> rd_n d i n; Some (w\<lparr>sCfg := put_bytes off bs (sCfg w)\<rparr>) }"

text \<open>An element of one of the arrays: the length must fit, an index out of range is only logged.\<close>

definition set_element ::
  "u8 list \<Rightarrow> nat \<Rightarrow> nat \<Rightarrow> (nat \<Rightarrow> nat) \<Rightarrow> int \<Rightarrow> 'a SApp_scheme \<Rightarrow> (int option \<times> 'a SApp_scheme) option" where
  "set_element pData sz num off err w = do {
     l \<leftarrow> rd pData 1;
     (if unat l = sz + 1 then do {
        idx \<leftarrow> rd pData 2;
        (if unat idx \<le> num - 1 then do { w \<leftarrow> copy_cfg (off (unat idx)) pData 3 sz w; Some (None, w) }
         else Some (None, w))
      }
      else Some (Some err, w))
   }"

definition App_SetConfig :: "u8 list \<Rightarrow> bool \<Rightarrow> 'a SApp_scheme \<Rightarrow> (int \<times> 'a SApp_scheme) option" where
  "App_SetConfig pData serial w = do {
     c \<leftarrow> rd pData 0;
     (e, w) \<leftarrow>
       (if c = 0x82 then do {
          l \<leftarrow> rd pData 1;
          (if unat l = SCommon_size then do { w \<leftarrow> copy_cfg 0 pData 2 SCommon_size w; Some (None, w) }
           else Some (Some (- 1), w))
        }
        else if c = 0x83 then set_element pData STag_size SYSTEM_NUM_TAG tag_off (- 2) w
        else if c = 0x84 then set_element pData SInputPort_size DIGITAL_INPUT_NUM_CHANNEL di_off (- 3) w
        else if c = 0x85 then set_element pData SCtrlPort_size DIGITAL_OUTPUT_NUM_CHANNEL do_off (- 4) w
        else if c = 0x88 then
          (let (r, p) = App_SaveConfig (sCfg w) (cfgStore w) in Some (None, w\<lparr>cfgStore := p, reboot := True\<rparr>))
        else Some (Some (- 5), w));
     (case e of
        Some k \<Rightarrow> Some (k, w)
      | None \<Rightarrow>
          (if serial then map_option (\<lambda>(ret, w). (if ret then 1 else 0, w)) (App_SendPC 0x87 None 0 False w)
           else App_SendPCNetworkClient 0x87 None 0 w))
   }"

section \<open>Calibration of the analog inputs\<close>

text \<open>The four operations of the floating-point unit and its test for zero, on bits.\<close>

record fpu =
  fl_add :: "u32 \<Rightarrow> u32 \<Rightarrow> u32"
  fl_sub :: "u32 \<Rightarrow> u32 \<Rightarrow> u32"
  fl_mul :: "u32 \<Rightarrow> u32 \<Rightarrow> u32"
  fl_div :: "u32 \<Rightarrow> u32 \<Rightarrow> u32"
  fl_zero :: "u32 \<Rightarrow> bool"

text \<open>One calibration node: offset, coefficient, x1, x2 and raw at 0, 4, 8, 12 and 16; 1, 4 and 16 as floats.\<close>

definition calib_4mA :: "fpu \<Rightarrow> u8 list \<Rightarrow> u8 list" where
  "calib_4mA fl n = put_bytes 8 (enc32 (fl_sub fl (dec32 n 16) 0x3F800000)) n"

definition calib_20mA :: "fpu \<Rightarrow> u8 list \<Rightarrow> u8 list" where
  "calib_20mA fl n =
     (let n = put_bytes 12 (enc32 (fl_add fl (dec32 n 16) 0x3F800000)) n in
      if \<not> fl_zero fl (fl_sub fl (dec32 n 12) (dec32 n 8)) then
        (let n = put_bytes 4 (enc32 (fl_div fl 0x41800000 (fl_sub fl (dec32 n 12) (dec32 n 8)))) n
         in put_bytes 0 (enc32 (fl_sub fl 0x40800000 (fl_mul fl (dec32 n 4) (dec32 n 8)))) n)
      else n)"

text \<open>The loop over the channels; the result tells whether a node was calibrated at 20 mA.\<close>

fun calib_loop :: "fpu \<Rightarrow> u8 \<Rightarrow> nat list \<Rightarrow> bool \<Rightarrow> 'a SApp_scheme \<Rightarrow> bool \<times> 'a SApp_scheme" where
  "calib_loop fl d2 [] save w = (save, w)"
| "calib_loop fl d2 (i # is) save w =
     (if aiStatus (sAI w i) = 0 then
        (let n = field (calib_off i) SCalibNode_size (sCfg w);
             n = (if d2 = 0 then calib_4mA fl n else calib_20mA fl n)
         in calib_loop fl d2 is (if d2 = 0 then save else True) (w\<lparr>sCfg := put_bytes (calib_off i) n (sCfg w)\<rparr>))
      else calib_loop fl d2 is save w)"

definition App_CommCalibAi :: "fpu \<Rightarrow> u8 list \<Rightarrow> 'a SApp_scheme \<Rightarrow> 'a SApp_scheme option" where
  "App_CommCalibAi fl data w = do {
     d2 \<leftarrow> rd data 2;
     let (isSave, w) = calib_loop fl d2 [0..<ANALOG_INPUT_NUM_CHANNEL] False w;
     Some (if isSave then w\<lparr>cfgStore := snd (App_SaveConfig (sCfg w) (cfgStore w))\<rparr> else w)
   }"

section \<open>Streams\<close>

text \<open>The bytes of the two arrays; the padding of the static structs is zero.\<close>

definition ai_bytes :: "(nat \<Rightarrow> SAiValueNode) \<Rightarrow> u8 list" where
  "ai_bytes a = concat (map (\<lambda>i. [aiEnable (a i), aiStatus (a i), aiId (a i), 0] @ enc32 (aiValue (a i))) [0..<ANALOG_INPUT_NUM_CHANNEL])"

definition mb_bytes :: "(nat \<Rightarrow> SMbNode) \<Rightarrow> u8 list" where
  "mb_bytes a = concat (map (\<lambda>i. [mbnEnable (a i), mbnStatus (a i), mbnDataFormat (a i), mbnDataType (a i), mbnAddress (a i), 0]
     @ enc16 (mbnRegAddress (a i)) @ enc32 (mbnValue (a i))) [0..<SYSTEM_NUM_TAG])"

text \<open>The values of all tags in a new buffer: twelve bytes each, the last of them padding that keeps what was there.\<close>

definition value_bytes :: "(nat \<Rightarrow> STagNode) \<Rightarrow> (nat \<Rightarrow> u8) \<Rightarrow> u8 list" where
  "value_bytes v junk = concat (map (\<lambda>i. enc32 (tvRaw (v i)) @ enc32 (tvStd (v i))
     @ (case tvStt (v i) of (a, b, c) \<Rightarrow> [a, b, c]) @ [junk (12 * i + 11)]) [0..<SYSTEM_NUM_TAG])"

text \<open>The header of tag \<open>i\<close> in a new buffer, its number before it.\<close>

definition tag_header :: "SSysCfg \<Rightarrow> nat \<Rightarrow> (nat \<Rightarrow> u8) \<Rightarrow> u8 list" where
  "tag_header c i junk =
     (let t = drop (tag_off i) c;
          m = map junk [0..<STagHeader_size + 1];
          m = m[0 := of_nat i];
          m = put_bytes 1 (field 0 2 t) m;
          m = put_bytes 3 (field 17 1 t) m;
          m = put_bytes 49 (field 100 4 t) m;
          m = put_bytes 53 (field 104 4 t) m;
          m = put_bytes 57 (field 124 4 t) m;
          m = put_bytes 61 (field 21 1 t) m;
          m = Str_Copy_N 4 (drop 32 t) 15 m;
          m = Str_Copy_N 19 (drop 47 t) 15 m
      in Str_Copy_N 34 (drop 62 t) 15 m)"

definition struct_tm :: "SDateTime \<Rightarrow> u32 \<times> u32 \<Rightarrow> u8 list" where
  "struct_tm t rest = concat (map enc32 (map word_of_int
     [tm_sec t, tm_min t, tm_hour t, tm_mday t, tm_mon t, tm_year t, tm_wday t] @ [fst rest, snd rest]))"

definition tm_of_bytes :: "u8 list \<Rightarrow> SDateTime" where
  "tm_of_bytes bs = \<lparr>tm_sec = sint (dec32 bs 0), tm_min = sint (dec32 bs 4), tm_hour = sint (dec32 bs 8),
     tm_mday = sint (dec32 bs 12), tm_mon = sint (dec32 bs 16), tm_year = sint (dec32 bs 20), tm_wday = sint (dec32 bs 24)\<rparr>"

section \<open>Commands\<close>

text \<open>The log-in check of both handlers: user name and password behind the two bytes of the message's head.\<close>

definition login_ok :: "SSysCfg \<Rightarrow> u8 list \<Rightarrow> bool" where
  "login_ok c data \<longleftrightarrow>
     Str_Cmp_N_eq (drop acc_off c) (drop 2 data) 15 \<and> Str_Cmp_N_eq (drop (acc_off + 15) c) (drop 17 data) 15
     \<or> Str_Cmp_N_eq (drop (acc_off + 30) c) (drop 2 data) 15 \<and> Str_Cmp_N_eq (drop (acc_off + 45) c) (drop 17 data) 15"

text \<open>What \<open>App_CommRecvHandle\<close> and \<open>App_NetRecvHandle\<close> share; they differ in how an answer is sent.\<close>

definition recv_handle ::
  "fpu \<Rightarrow> (u8 \<Rightarrow> u8 list option \<Rightarrow> u8 \<Rightarrow> 'a SApp_scheme \<Rightarrow> 'a SApp_scheme option) \<Rightarrow> bool
     \<Rightarrow> u8 list \<Rightarrow> 'a SApp_scheme \<Rightarrow> 'a SApp_scheme option" where
  "recv_handle fl send serial data w = do {
     c \<leftarrow> rd data 0;
     (if c = 0x10 then do {
        bs \<leftarrow> rd_n data 2 30;
        send 0x10 (Some [if login_ok (sCfg w) data then LOGGER_SUCCESS else LOGGER_ERROR]) 1 w
      }
      else if c = 0x82 \<or> c = 0x83 \<or> c = 0x84 \<or> c = 0x85 \<or> c = 0x88 then map_option snd (App_SetConfig data serial w)
      else if c = 0x81 then do {
        bs \<leftarrow> rd_n data 2 36;
        send 0x81 None 0 (w\<lparr>sDateTime := tm_of_bytes bs, tmRest := (dec32 bs 28, dec32 bs 32)\<rparr>)
      }
      else if c = 0x12 then Some w
      else if c = 0x20 then send 0x20 (Some (ai_bytes (sAI w))) (of_nat SAnalogInput_size) w
      else if c = 0x21 then send 0x21 (Some (mb_bytes (sMB w))) (of_nat SModbusValue_size) w
      else if c = 0x31 then do {
        d2 \<leftarrow> rd data 2;
        w \<leftarrow> (if d2 AND 1 \<noteq> 0 then send 0x20 (Some (ai_bytes (sAI w))) (of_nat SAnalogInput_size) w else Some w);
        w \<leftarrow> (if d2 AND 2 \<noteq> 0 then send 0x21 (Some (mb_bytes (sMB w))) (of_nat SModbusValue_size) w else Some w);
        (if d2 AND 4 \<noteq> 0 then
           (let (r, ms) = OSA_FixedMemMalloc (of_nat STagVArray_size) (mem w);
                w = w\<lparr>mem := ms\<rparr>
            in (case r of
                  None \<Rightarrow> Some w
                | Some b \<Rightarrow> do {
                    w \<leftarrow> send 0x31 (Some (value_bytes (sTagValue w) (poolJunk w)))
                           (of_nat STagVArray_size) w;
                    Some (w\<lparr>mem := OSA_FixedMemFree b (mem w)\<rparr>)
                  }))
         else Some w)
      }
      else if c = 0x30 then Some (w\<lparr>pcCounter := 0, eCtrlCode := eCtrlCode w OR CTRL_SEND_HEADER\<rparr>)
      else if c = 0xA2 then App_CommCalibAi fl data w
      else Some w)
   }"

definition App_CommRecvHandle :: "fpu \<Rightarrow> u8 list \<Rightarrow> 'a SApp_scheme \<Rightarrow> 'a SApp_scheme option" where
  "App_CommRecvHandle fl = recv_handle fl (\<lambda>c d n w. map_option snd (App_SendPC c d n False w)) True"

definition App_NetRecvHandle :: "fpu \<Rightarrow> u8 list \<Rightarrow> 'a SApp_scheme \<Rightarrow> 'a SApp_scheme option" where
  "App_NetRecvHandle fl = recv_handle fl (\<lambda>c d n w. map_option snd (App_SendPCNetworkClient c d n w)) False"

section \<open>Callbacks of the PC port\<close>

text \<open>\<open>pu8Data\<close> points behind the eight bytes of the frame header.\<close>

definition Clb_TransPC_RecvEvent :: "fpu \<Rightarrow> blk \<Rightarrow> u8 \<Rightarrow> 'a SApp_scheme \<Rightarrow> 'a SApp_scheme option" where
  "Clb_TransPC_RecvEvent fl pData u8Type w =
     (if u8Type AND 0x3F = FRM_DATA then App_CommRecvHandle fl (drop 8 (frm pData w)) w else Some w)"

text \<open>One step of the stream of tag headers, as \<open>Clb_TransPC_SentEvent\<close> and \<open>Clb_NetTcpServerSentData\<close> have it.\<close>

definition stream_header ::
  "(u8 \<Rightarrow> u8 list option \<Rightarrow> u8 \<Rightarrow> 'a SApp_scheme \<Rightarrow> 'a SApp_scheme option) \<Rightarrow> 'a SApp_scheme \<Rightarrow> 'a SApp_scheme option" where
  "stream_header send w =
     (if eCtrlCode w AND CTRL_SEND_HEADER \<noteq> 0 then
        (if unat (pcCounter w) < SYSTEM_NUM_TAG then
           (let (r, ms) = OSA_FixedMemMalloc (of_nat (STagHeader_size + 1)) (mem w);
                w = w\<lparr>mem := ms\<rparr>
            in (case r of
                  None \<Rightarrow> Some w
                | Some b \<Rightarrow> do {
                    w \<leftarrow> send 0x30 (Some (tag_header (sCfg w) (unat (pcCounter w)) (poolJunk w)))
                           (of_nat (STagHeader_size + 1)) w;
                    let w = w\<lparr>eCtrlCode := eCtrlCode w OR CTRL_SEND_HEADER, pcCounter := pcCounter w + 1\<rparr>;
                    Some (w\<lparr>mem := OSA_FixedMemFree b (mem w)\<rparr>)
                  }))
         else Some (w\<lparr>eCtrlCode := eCtrlCode w AND NOT CTRL_SEND_HEADER, pcCounter := 0\<rparr>))
      else Some w)"

definition Clb_TransPC_SentEvent :: "blk \<Rightarrow> u8 \<Rightarrow> 'a SApp_scheme \<Rightarrow> 'a SApp_scheme option" where
  "Clb_TransPC_SentEvent pData u8Type w = do {
     w \<leftarrow> stream_header (\<lambda>c d n w. map_option snd (App_SendPC c d n False w)) w;
     (if u8Type AND 0x3F = FRM_DATA then do {
        c \<leftarrow> frm_get pData 8 w;
        Some (if c = 0x87 \<and> reboot w then w\<lparr>sysReset := True\<rparr> else w)
      }
      else Some w)
   }"

definition Clb_NetTcpServerRecvData :: "fpu \<Rightarrow> u8 list \<Rightarrow> 'a SApp_scheme \<Rightarrow> 'a SApp_scheme option" where
  "Clb_NetTcpServerRecvData fl data w = App_NetRecvHandle fl data w"

definition Clb_NetTcpServerSentData :: "'a SApp_scheme \<Rightarrow> 'a SApp_scheme option" where
  "Clb_NetTcpServerSentData = stream_header (\<lambda>c d n w. map_option snd (App_SendPCNetworkClient c d n w))"

definition pc_clbs :: "fpu \<Rightarrow> ('a SApp_scheme) l3_clbs" where
  "pc_clbs fl = \<lparr>onL3Recv = Clb_TransPC_RecvEvent fl, onL3Sent = Clb_TransPC_SentEvent\<rparr>"

section \<open>The timer of the display\<close>

text \<open>Every tick posts the header of the next tag or, when all have been sent, the values; every fifteenth tick starts
  over with the system status.\<close>

definition Clb_TimerControl :: "'a SApp_scheme \<Rightarrow> 'a SApp_scheme option" where
  "Clb_TimerControl w = do {
     let w = w\<lparr>sDateTime := App_GenerateFakeTime (sDateTime w)\<rparr>;
     w \<leftarrow> (if timerCounter w mod 15 = 0 then
             (let w = w\<lparr>uiCounter := 0\<rparr>;
                  (r, ms) = OSA_FixedMemMalloc (of_nat SSystemStatus_size) (mem w);
                  w = w\<lparr>mem := ms\<rparr>
              in (case r of
                    None \<Rightarrow> Some w
                  | Some b \<Rightarrow> do {
                      (ret, w) \<leftarrow> App_SendUI 0x09 (Some (replicate 4 0 @ struct_tm (sDateTime w) (tmRest w)))
                                   (of_nat SSystemStatus_size) False w;
                      Some (w\<lparr>mem := OSA_FixedMemFree b (mem w)\<rparr>)
                    }))
           else Some w);
     w \<leftarrow> (if unat (uiCounter w) < SYSTEM_NUM_TAG then
             (let (r, ms) = OSA_FixedMemMalloc (of_nat (STagHeader_size + 1)) (mem w);
                  w = w\<lparr>mem := ms\<rparr>
              in (case r of
                    None \<Rightarrow> Some w
                  | Some b \<Rightarrow> do {
                      (ret, w) \<leftarrow> App_SendUI 0x30 (Some (tag_header (sCfg w) (unat (uiCounter w)) (poolJunk w)))
                                   (of_nat (STagHeader_size + 1)) False w;
                      let w = w\<lparr>mem := OSA_FixedMemFree b (mem w)\<rparr>;
                      Some (w\<lparr>uiCounter := uiCounter w + 1\<rparr>)
                    }))
           else
             (let (r, ms) = OSA_FixedMemMalloc (of_nat STagVArray_size) (mem w);
                  w = w\<lparr>mem := ms\<rparr>
              in (case r of
                    None \<Rightarrow> Some w
                  | Some b \<Rightarrow> do {
                      (ret, w) \<leftarrow> App_SendUI 0x31 (Some (value_bytes (sTagValue w) (poolJunk w)))
                                   (of_nat STagVArray_size) False w;
                      Some (w\<lparr>mem := OSA_FixedMemFree b (mem w)\<rparr>)
                    })));
     Some (w\<lparr>timerCounter := timerCounter w + 1\<rparr>)
   }"

end
