(* ===== verification/AppSafe.thy ===== *)
theory AppSafe
  imports AppComm
begin

text \<open>
  The application under the contract of transport layer 3: whatever command arrives and whatever the allocator and
  the file system answer, the callbacks run to the end, give back what they took and keep the ownership of the frame
  buffers.  With that the PC port is a second instance of the layer's safety theorem.
\<close>

section \<open>Changes the layer allows\<close>

text \<open>Besides what the layer asks of an application, the configuration keeps its layout.\<close>

definition keeps :: "blk list \<Rightarrow> 'a SApp_scheme \<Rightarrow> 'a SApp_scheme \<Rightarrow> bool" where
  "keeps l w w' \<longleftrightarrow> owned l w' \<and> frmRecv w' = frmRecv w
     \<and> (length (sCfg w) = SSysCfg_size \<longrightarrow> length (sCfg w') = SSysCfg_size)
     \<and> (\<forall>c \<in> set l. (smems (mem w') c)\<lparr>pNext := None\<rparr> = (smems (mem w) c)\<lparr>pNext := None\<rparr>)"

definition safe :: "blk list \<Rightarrow> 'a SApp_scheme \<Rightarrow> 'a SApp_scheme option \<Rightarrow> bool" where
  "safe l w r \<longleftrightarrow> (\<exists>w'. r = Some w' \<and> keeps l w w')"

lemma keeps_refl: "owned l w \<Longrightarrow> keeps l w w"
  by (simp add: keeps_def)

lemma keeps_trans: "keeps l w w1 \<Longrightarrow> keeps l w1 w2 \<Longrightarrow> keeps l w w2"
  by (simp add: keeps_def)

lemma keeps_owned: "keeps l w w' \<Longrightarrow> owned l w'"
  by (simp add: keeps_def)

lemma safe_Some: "keeps l w w' \<Longrightarrow> safe l w (Some w')"
  by (simp add: safe_def)

lemma safe_bind:
  assumes "safe l w r" "\<And>w'. keeps l w w' \<Longrightarrow> safe l w' (f w')"
  shows "safe l w (Option.bind r f)"
proof -
  obtain w1 where w1: "r = Some w1" "keeps l w w1" using assms(1) by (auto simp: safe_def)
  obtain w2 where "f w1 = Some w2" "keeps l w1 w2" using assms(2) [OF w1(2)] by (auto simp: safe_def)
  then show ?thesis using w1 keeps_trans by (auto simp: safe_def)
qed

lemma safe_from: "keeps l w w1 \<Longrightarrow> safe l w1 r \<Longrightarrow> safe l w r"
  using keeps_trans by (fastforce simp: safe_def)

text \<open>Fields of the application are not part of the layer's invariant.\<close>

lemma tinv_app [simp]:
  "tinv l (w\<lparr>sCfg := c\<rparr>) D C S = tinv l w D C S" "tinv l (w\<lparr>cfgStore := p\<rparr>) D C S = tinv l w D C S"
  "tinv l (w\<lparr>sDateTime := t\<rparr>) D C S = tinv l w D C S" "tinv l (w\<lparr>tmRest := y\<rparr>) D C S = tinv l w D C S"
  "tinv l (w\<lparr>pcCounter := k\<rparr>) D C S = tinv l w D C S" "tinv l (w\<lparr>uiCounter := k\<rparr>) D C S = tinv l w D C S"
  "tinv l (w\<lparr>eCtrlCode := e\<rparr>) D C S = tinv l w D C S" "tinv l (w\<lparr>reboot := b\<rparr>) D C S = tinv l w D C S"
  "tinv l (w\<lparr>sysReset := b\<rparr>) D C S = tinv l w D C S" "tinv l (w\<lparr>timerCounter := x\<rparr>) D C S = tinv l w D C S"
  "tinv l (w\<lparr>netPosts := ps\<rparr>) D C S = tinv l w D C S" "tinv l (w\<lparr>netQueue := nq\<rparr>) D C S = tinv l w D C S"
  by (simp_all add: tinv_def rx_held_def tx_held_def qs_of_def rx_ok_def tx_ok_def clbs_on_def frm_def)

lemma owned_app [simp]:
  "owned l (w\<lparr>sCfg := c\<rparr>) = owned l w" "owned l (w\<lparr>cfgStore := p\<rparr>) = owned l w"
  "owned l (w\<lparr>sDateTime := t\<rparr>) = owned l w" "owned l (w\<lparr>tmRest := y\<rparr>) = owned l w"
  "owned l (w\<lparr>pcCounter := k\<rparr>) = owned l w" "owned l (w\<lparr>uiCounter := k\<rparr>) = owned l w"
  "owned l (w\<lparr>eCtrlCode := e\<rparr>) = owned l w" "owned l (w\<lparr>reboot := b\<rparr>) = owned l w"
  "owned l (w\<lparr>sysReset := b\<rparr>) = owned l w" "owned l (w\<lparr>timerCounter := x\<rparr>) = owned l w"
  "owned l (w\<lparr>netPosts := ps\<rparr>) = owned l w" "owned l (w\<lparr>netQueue := nq\<rparr>) = owned l w"
  by (simp_all add: owned_def)

section \<open>Blocks of the pool used directly\<close>

lemma malloc_owned:
  assumes "owned l w" "OSA_FixedMemMalloc n (mem w) = (r, ms)"
  shows "case r of
      None \<Rightarrow> ms = mem w
    | Some b \<Rightarrow> owned (b # l) (w\<lparr>mem := ms\<rparr>) \<and> smems ms = smems (mem w) \<and> b \<notin> set l"
proof -
  obtain D C S where t: "tinv l w D C S" using assms(1) by (auto simp: owned_def)
  note a = store_malloc [OF tinv_store [OF t] assms(2)]
  show ?thesis
  proof (cases r)
    case (Some b)
    then have s: "smems ms = smems (mem w)" using a by simp
    have "tinv (b # l) (w\<lparr>mem := ms\<rparr>) D C S"
      by (rule tinv_mem_only [OF t body_same_smems [OF s]]) (use a Some in simp)
    then show ?thesis using a Some by (auto simp: owned_def)
  qed (use a in simp)
qed

lemma free_keeps:
  assumes "owned (b # l) w"
  shows "keeps l w (w\<lparr>mem := OSA_FixedMemFree b (mem w)\<rparr>)"
proof -
  obtain D C S where t: "tinv (b # l) w D C S" using assms by (auto simp: owned_def)
  note f = free_mem_tinv [OF t]
  have e: "free_mem b w = w\<lparr>mem := OSA_FixedMemFree b (mem w)\<rparr>" by (simp add: free_mem_def Mem_Free_def)
  show ?thesis using f unfolding e keeps_def owned_def by auto
qed

lemma safe_block:
  assumes "owned l w"
    and f: "\<And>b w1. owned (b # l) w1 \<Longrightarrow> STrans.more w1 = STrans.more w \<Longrightarrow> safe (b # l) w1 (f w1)"
  shows "safe l w (let (r, ms) = OSA_FixedMemMalloc n (mem w); w = w\<lparr>mem := ms\<rparr> in
    case r of None \<Rightarrow> Some w | Some b \<Rightarrow> Option.bind (f w) (\<lambda>w. Some (w\<lparr>mem := OSA_FixedMemFree b (mem w)\<rparr>)))"
proof -
  obtain r ms where m: "OSA_FixedMemMalloc n (mem w) = (r, ms)" by fastforce
  note a = malloc_owned [OF assms(1) m]
  show ?thesis
  proof (cases r)
    case None
    then show ?thesis using a m assms(1) by (simp add: safe_def keeps_refl)
  next
    case (Some b)
    let ?w1 = "w\<lparr>mem := ms\<rparr>"
    have o: "owned (b # l) ?w1" "smems ms = smems (mem w)" using a Some by simp_all
    have "STrans.more ?w1 = STrans.more w" by simp
    from f [OF o(1) this] obtain w2 where w2: "f ?w1 = Some w2" "keeps (b # l) ?w1 w2" by (auto simp: safe_def)
    have "keeps l w2 (w2\<lparr>mem := OSA_FixedMemFree b (mem w2)\<rparr>)" by (rule free_keeps [OF keeps_owned [OF w2(2)]])
    moreover have "keeps l w w2" if "owned l w2" using w2(2) o(2) that by (simp add: keeps_def)
    moreover have "owned l w2" using keeps_owned [OF w2(2)] unfolding owned_def by (meson tinv_weaken)
    ultimately show ?thesis using m Some w2(1) keeps_trans by (auto simp: safe_def Let_def)
  qed
qed

section \<open>Sending\<close>

lemma map_option_bind: "map_option f (Option.bind r g) = Option.bind r (\<lambda>x. map_option f (g x))"
  by (cases r) simp_all

lemma bind_snd: "map_option snd (Option.bind r (\<lambda>(a, w). Some (a, g w))) = Option.bind (map_option snd r) (\<lambda>w. Some (g w))"
  by (cases r) auto

lemma more_sCfg: "STrans.more w' = STrans.more w \<Longrightarrow> sCfg w' = sCfg w"
  by (cases w; cases w') simp

lemma app_same_keeps: "owned l w' \<Longrightarrow> app_same l w w' \<Longrightarrow> keeps l w w'"
  using more_sCfg [of w' w] by (simp add: app_same_def keeps_def)

text \<open>A message that fits is posted whatever happens, and nothing of the application changes.\<close>

definition msg_fits :: "u8 list option \<Rightarrow> u8 \<Rightarrow> bool" where
  "msg_fits d n \<longleftrightarrow> (case d of None \<Rightarrow> True | Some bs \<Rightarrow> unat n \<le> length bs)"

lemma sdata_bytes_fits:
  assumes "msg_fits d n"
  obtains s where "sdata_bytes c d n junk = Some s" "length s = unat n + 2"
proof (cases d)
  case None
  have "length (map junk [2..<2 + unat n]) = unat n" by (simp del: upt_Suc)
  then have "length (c # n # map junk [2..<2 + unat n]) = unat n + 2" by (simp only: list.size)
  then show ?thesis using that None by (simp only: sdata_bytes_def option.case)
next
  case (Some bs)
  then show ?thesis using that [of "c # n # take (unat n) bs"] assms by (simp add: msg_fits_def sdata_bytes_def rd_n_def)
qed

lemma unat_len2: "unat (ucast (n :: u8) + 2 :: u16) = unat n + 2"
proof -
  have "unat n + 2 < 65536" using unat_u8_less [of n] by linarith
  then show ?thesis by (simp add: unat_word_ariths)
qed

lemma Trans_Send_keeps:
  assumes "owned l w" "length s = unat (n :: u8) + 2"
  shows "\<exists>ret w'. Trans_Send w (ucast n + 2) (Some s) (if ack then 0xA0 else 0x20) = Some (ret, w')
    \<and> keeps l w w' \<and> STrans.more w' = STrans.more w"
proof -
  have "unat (capped (ucast n + 2)) \<le> length s"
    using assms(2) unat_len2 [of n] by (auto simp: capped_def word_less_nat_alt)
  moreover have "(0 :: u16) < ucast n + 2" by (simp add: word_less_nat_alt unat_len2)
  ultimately show ?thesis
    using Trans_send_owned [OF assms(1), of "ucast n + 2" "Some s" "if ack then 0xA0 else 0x20" E_DATA_FRM] app_same_keeps
    by (fastforce simp: Trans_Send_def app_same_def)
qed

lemma send_message_block:
  "map_option snd (send_message c d n ack w) =
     (let (r, ms) = OSA_FixedMemMalloc (ucast n + 2) (mem w); w = w\<lparr>mem := ms\<rparr> in
      case r of None \<Rightarrow> Some w | Some b \<Rightarrow>
        Option.bind (Option.bind (sdata_bytes c d n (poolJunk w)) (\<lambda>s.
            map_option snd (Trans_Send w (ucast n + 2) (Some s) (if ack then 0xA0 else 0x20))))
          (\<lambda>w. Some (w\<lparr>mem := OSA_FixedMemFree b (mem w)\<rparr>)))"
proof -
  obtain r ms where m: "OSA_FixedMemMalloc (ucast n + 2) (mem w) = (r, ms)" by fastforce
  show ?thesis
    by (cases r) (simp_all only: send_message_def m Let_def prod.case option.case bind_snd map_option_bind [where r = "sdata_bytes c d n j" for j]
      option.map(2) snd_conv Option.bind_assoc)
qed

lemma send_message_safe:
  assumes "owned l w" "msg_fits d n"
  shows "safe l w (map_option snd (send_message c d n ack w))"
  unfolding send_message_block
proof (rule safe_block [OF assms(1)])
  fix b and w1 :: "'a SApp_scheme"
  assume o: "owned (b # l) w1"
  obtain s where s: "sdata_bytes c d n (poolJunk w1) = Some s" "length s = unat n + 2" by (rule sdata_bytes_fits [OF assms(2)])
  from Trans_Send_keeps [OF o s(2), of ack] show "safe (b # l) w1 (Option.bind (sdata_bytes c d n (poolJunk w1)) (\<lambda>s.
      map_option snd (Trans_Send w1 (ucast n + 2) (Some s) (if ack then 0xA0 else 0x20))))"
    by (auto simp: s safe_def)
qed

text \<open>The network: the message's block stays with the sender's queue.\<close>

lemma tcp_send_keeps:
  assumes "owned l w"
  shows "keeps l w (snd (tcp_server_send_nonblocking s w))"
proof -
  obtain r ms where m: "OSA_FixedMemMalloc (8 + of_nat (length s)) (mem w) = (r, ms)" by fastforce
  note a = malloc_owned [OF assms m]
  have k: "keeps l w (w\<lparr>mem := ms\<rparr>)"
  proof (cases r)
    case None
    then show ?thesis using a assms by (simp add: keeps_refl)
  next
    case (Some b)
    then have "owned (b # l) (w\<lparr>mem := ms\<rparr>)" "smems ms = smems (mem w)" using a by simp_all
    moreover from this(1) have "owned l (w\<lparr>mem := ms\<rparr>)" unfolding owned_def by (meson tinv_weaken)
    ultimately show ?thesis by (simp add: keeps_def)
  qed
  then show ?thesis
    using m assms by (auto simp: tcp_server_send_nonblocking_def Let_def keeps_def split: option.splits list.splits bool.splits)
qed

lemma net_block:
  "map_option snd (App_SendPCNetworkClient c d n w) =
     (let (r, ms) = OSA_FixedMemMalloc (ucast n + 2) (mem w); w = w\<lparr>mem := ms\<rparr> in
      case r of None \<Rightarrow> Some w | Some b \<Rightarrow>
        Option.bind (Option.bind (sdata_bytes c d n (poolJunk w)) (\<lambda>s. Some (snd (tcp_server_send_nonblocking s w))))
          (\<lambda>w. Some (w\<lparr>mem := OSA_FixedMemFree b (mem w)\<rparr>)))"
proof -
  obtain r ms where m: "OSA_FixedMemMalloc (ucast n + 2) (mem w) = (r, ms)" by fastforce
  show ?thesis
    by (cases r) (simp_all add: App_SendPCNetworkClient_def m Let_def map_option_bind split_def)
qed

lemma net_safe:
  assumes "owned l w" "msg_fits d n"
  shows "safe l w (map_option snd (App_SendPCNetworkClient c d n w))"
  unfolding net_block
proof (rule safe_block [OF assms(1)])
  fix b and w1 :: "'a SApp_scheme"
  assume o: "owned (b # l) w1"
  obtain s where s: "sdata_bytes c d n (poolJunk w1) = Some s" by (rule sdata_bytes_fits [OF assms(2)])
  show "safe (b # l) w1 (Option.bind (sdata_bytes c d n (poolJunk w1)) (\<lambda>s. Some (snd (tcp_server_send_nonblocking s w1))))"
    using tcp_send_keeps [OF o] by (simp add: s safe_Some)
qed

section \<open>The contract of the handlers\<close>

lemma safe_map_bind: "safe l w r \<Longrightarrow> (\<And>w'. keeps l w w' \<Longrightarrow> keeps l w' (g w')) \<Longrightarrow> safe l w (map_option g r)"
  using keeps_trans by (fastforce simp: safe_def)

lemma keeps_app [simp]:
  "keeps l w (w\<lparr>sCfg := c\<rparr>) = (owned l w \<and> (length (sCfg w) = SSysCfg_size \<longrightarrow> length c = SSysCfg_size))" "keeps l w (w\<lparr>cfgStore := p\<rparr>) = owned l w"
  "keeps l w (w\<lparr>sDateTime := t\<rparr>) = owned l w" "keeps l w (w\<lparr>tmRest := y\<rparr>) = owned l w"
  "keeps l w (w\<lparr>pcCounter := k\<rparr>) = owned l w" "keeps l w (w\<lparr>uiCounter := k\<rparr>) = owned l w"
  "keeps l w (w\<lparr>eCtrlCode := e\<rparr>) = owned l w" "keeps l w (w\<lparr>sysReset := b\<rparr>) = owned l w"
  "keeps l w (w\<lparr>timerCounter := x\<rparr>) = owned l w" "keeps l w (w\<lparr>sDateTime := t, tmRest := y\<rparr>) = owned l w"
  "keeps l w (w\<lparr>cfgStore := p, reboot := b\<rparr>) = owned l w" "keeps l w (w\<lparr>pcCounter := k, eCtrlCode := e\<rparr>) = owned l w"
  "keeps l w (w\<lparr>eCtrlCode := e, pcCounter := k\<rparr>) = owned l w"
  by (simp_all add: keeps_def)

definition calib_node :: "fpu \<Rightarrow> u8 \<Rightarrow> u8 list \<Rightarrow> u8 list" where
  "calib_node fl d2 n = (if d2 = 0 then calib_4mA fl n else calib_20mA fl n)"

lemma len_if: "length a = N \<Longrightarrow> length b = N \<Longrightarrow> length (if P then a else b) = N"
  by simp

lemma length_calib_node [simp]: "length n = 20 \<Longrightarrow> length (calib_node fl d2 n) = 20"
  unfolding calib_node_def calib_4mA_def calib_20mA_def Let_def
  by (intro len_if len_intros) simp_all

text \<open>The answers have the lengths announced.\<close>

lemma length_concat_const: "(\<And>x. length (f x) = n) \<Longrightarrow> length (concat (map f xs)) = n * length xs"
  by (induction xs) simp_all

lemma length_answers [simp]:
  "length (ai_bytes a) = SAnalogInput_size" "length (mb_bytes m) = SModbusValue_size"
  "length (value_bytes v junk) = STagVArray_size"
proof -
  show "length (ai_bytes a) = SAnalogInput_size"
    unfolding ai_bytes_def by (subst length_concat_const [where n = 8]) (simp_all add: SAnalogInput_size_def layout_defs)
  show "length (mb_bytes m) = SModbusValue_size"
    unfolding mb_bytes_def by (subst length_concat_const [where n = 12]) (simp_all add: SModbusValue_size_def layout_defs)
  show "length (value_bytes v junk) = STagVArray_size"
    unfolding value_bytes_def by (subst length_concat_const [where n = 12])
      (simp_all add: STagVArray_size_def layout_defs split: prod.splits)
qed

lemma length_tag_header [simp]: "length (tag_header c i junk) = STagHeader_size + 1"
  unfolding tag_header_def Let_def by (intro len_intros) (simp_all add: STagHeader_size_def field_def del: upt_Suc)

lemma length_struct_tm [simp]: "length (struct_tm t y) = 36"
  by (simp add: struct_tm_def)

lemma answers_fit [simp]:
  "msg_fits (Some (ai_bytes a)) (of_nat SAnalogInput_size)" "msg_fits (Some (mb_bytes m)) (of_nat SModbusValue_size)"
  "msg_fits (Some (value_bytes v junk)) (of_nat STagVArray_size)" "msg_fits (Some [x]) 1" "msg_fits None n"
  "msg_fits (Some (tag_header c i junk)) (of_nat (STagHeader_size + 1))"
  "msg_fits (Some (replicate 4 0 @ struct_tm t y)) (of_nat SSystemStatus_size)"
  by (simp_all add: msg_fits_def SAnalogInput_size_def SModbusValue_size_def STagVArray_size_def STagHeader_size_def SSystemStatus_size_def)

definition returns :: "('w \<Rightarrow> bool) \<Rightarrow> 'w option \<Rightarrow> bool" where
  "returns P r \<longleftrightarrow> (\<exists>w'. r = Some w' \<and> P w')"

lemma returns_Some [simp]: "returns P (Some w) = P w"
  by (simp add: returns_def)

lemma returns_safe: "returns (keeps l w) r = safe l w r"
  by (simp add: returns_def safe_def)

text \<open>An answer goes to the serial port or to the network.\<close>

definition answer_to :: "bool \<Rightarrow> u8 \<Rightarrow> u8 list option \<Rightarrow> u8 \<Rightarrow> 'a SApp_scheme \<Rightarrow> 'a SApp_scheme option" where
  "answer_to serial c d n w =
     (if serial then map_option snd (App_SendPC c d n False w) else map_option snd (App_SendPCNetworkClient c d n w))"

text \<open>What the handlers ask of an invariant \<open>own\<close> and of the changes \<open>keep\<close> they may make: their own fields are free, a
  temporary block may be taken around a step that keeps it, and an answer can be posted.\<close>

locale handler =
  fixes own :: "blk list \<Rightarrow> 'a SApp_scheme \<Rightarrow> bool"
    and keep :: "blk list \<Rightarrow> 'a SApp_scheme \<Rightarrow> 'a SApp_scheme \<Rightarrow> bool"
    and serial :: bool
  assumes keep_own: "keep l w w' \<Longrightarrow> own l w'"
    and keep_refl: "own l w \<Longrightarrow> keep l w w"
    and keep_trans: "keep l w w1 \<Longrightarrow> keep l w1 w2 \<Longrightarrow> keep l w w2"
    and keep_cfg: "own l w \<Longrightarrow> (length (sCfg w) = SSysCfg_size \<longrightarrow> length c = SSysCfg_size) \<Longrightarrow> keep l w (w\<lparr>sCfg := c\<rparr>)"
    and keep_store: "own l w \<Longrightarrow> keep l w (w\<lparr>cfgStore := p\<rparr>)"
    and keep_reboot: "own l w \<Longrightarrow> keep l w (w\<lparr>cfgStore := p, reboot := b\<rparr>)"
    and keep_date: "own l w \<Longrightarrow> keep l w (w\<lparr>sDateTime := t, tmRest := y\<rparr>)"
    and keep_ctrl: "own l w \<Longrightarrow> keep l w (w\<lparr>pcCounter := k, eCtrlCode := e\<rparr>)" "own l w \<Longrightarrow> keep l w (w\<lparr>eCtrlCode := e, pcCounter := k\<rparr>)"
    and block: "own l w \<Longrightarrow> (\<And>b w1. own (b # l) w1 \<Longrightarrow> STrans.more w1 = STrans.more w \<Longrightarrow> returns (keep (b # l) w1) (f w1)) \<Longrightarrow>
      returns (keep l w) (let (r, ms) = OSA_FixedMemMalloc n (mem w); w = w\<lparr>mem := ms\<rparr> in
        case r of None \<Rightarrow> Some w | Some b \<Rightarrow> Option.bind (f w) (\<lambda>w. Some (w\<lparr>mem := OSA_FixedMemFree b (mem w)\<rparr>)))"
    and answer: "own l w \<Longrightarrow> msg_fits d m \<Longrightarrow> returns (keep l w) (answer_to serial cmd d m w)"
begin

lemma returns_bind:
  assumes "returns (keep l w) r" "\<And>w'. keep l w w' \<Longrightarrow> returns (keep l w') (f w')"
  shows "returns (keep l w) (Option.bind r f)"
proof -
  obtain w1 where w1: "r = Some w1" "keep l w w1" using assms(1) by (auto simp: returns_def)
  obtain w2 where "f w1 = Some w2" "keep l w1 w2" using assms(2) [OF w1(2)] by (auto simp: returns_def)
  then show ?thesis using w1 keep_trans by (auto simp: returns_def)
qed

lemma returns_from: "keep l w w1 \<Longrightarrow> returns (keep l w1) r \<Longrightarrow> returns (keep l w) r"
  using keep_trans by (fastforce simp: returns_def)

lemma returns_map: "returns (keep l w) r \<Longrightarrow> (\<And>w'. keep l w w' \<Longrightarrow> keep l w' (g w')) \<Longrightarrow> returns (keep l w) (map_option g r)"
  using keep_trans by (fastforce simp: returns_def)

lemma copy_cfg_returns:
  assumes "own l w" "i + n \<le> length d" "off + n \<le> SSysCfg_size"
  shows "returns (keep l w) (copy_cfg off d i n w)"
proof -
  have "length (put_bytes off (take n (drop i d)) (sCfg w)) = SSysCfg_size" if "length (sCfg w) = SSysCfg_size"
    using assms that by (intro len_put) simp_all
  then show ?thesis using assms by (simp add: copy_cfg_def rd_n_def keep_cfg)
qed

lemma set_element_returns:
  assumes "own l w" "sz + 3 \<le> length d" "\<And>i. i \<le> num - 1 \<Longrightarrow> off i + sz \<le> SSysCfg_size"
  shows "returns (keep l w) (map_option snd (set_element d sz num off err w))"
proof -
  have r: "rd d 1 = Some (d ! 1)" "rd d 2 = Some (d ! 2)" using assms(2) by (auto simp: rd_def)
  show ?thesis
  proof (cases "unat (d ! 1) = sz + 1 \<and> unat (d ! 2) \<le> num - 1")
    case True
    have "returns (keep l w) (copy_cfg (off (unat (d ! 2))) d 3 sz w)"
      by (rule copy_cfg_returns [OF assms(1)]) (use assms(2,3) True in simp_all)
    then show ?thesis using True r by (auto simp: set_element_def returns_def)
  next
    case False
    then show ?thesis using r assms(1) by (auto simp: set_element_def keep_refl)
  qed
qed

lemma calib_loop_keep:
  "own l w \<Longrightarrow> set is \<subseteq> {..<ANALOG_INPUT_NUM_CHANNEL} \<Longrightarrow> keep l w (snd (calib_loop fl d2 is save w))"
proof (induction "is" arbitrary: save w)
  case (Cons i "is")
  show ?case
  proof (cases "aiStatus (sAI w i) = 0")
    case True
    let ?n = "calib_node fl d2 (field (calib_off i) SCalibNode_size (sCfg w))"
    let ?w = "w\<lparr>sCfg := put_bytes (calib_off i) ?n (sCfg w)\<rparr>"
    have "length (put_bytes (calib_off i) ?n (sCfg w)) = SSysCfg_size" if "length (sCfg w) = SSysCfg_size"
      using that Cons.prems(2) by (intro len_put) (simp_all add: layout_defs)
    then have k: "keep l w ?w" using Cons.prems(1) by (simp add: keep_cfg)
    then have "keep l w (snd (calib_loop fl d2 is s ?w))" for s
      by (rule keep_trans [OF _ Cons.IH]) (use Cons.prems keep_own [OF k] in simp_all)
    then show ?thesis using True by (cases "d2 = 0") (simp_all add: Let_def calib_node_def)
  qed (use Cons in simp)
qed (simp add: keep_refl)

lemma SetConfig_returns:
  assumes o: "own l w" and len: "240 \<le> length data"
  shows "returns (keep l w) (map_option snd (App_SetConfig data serial w))"
proof -
  define reply where "reply = (\<lambda>w :: 'a SApp_scheme. if serial
     then map_option (\<lambda>(ret, w). (if ret then 1 else 0 :: int, w)) (App_SendPC 0x87 None 0 False w)
     else App_SendPCNetworkClient 0x87 None 0 w)"
  have a: "returns (keep l w) (map_option snd (reply w))" if "own l w" for w :: "'a SApp_scheme"
  proof -
    have f: "snd \<circ> (\<lambda>(ret, w). (if ret then 1 else 0 :: int, w)) = (snd :: bool \<times> 'a SApp_scheme \<Rightarrow> 'a SApp_scheme)" by auto
    show ?thesis using answer [OF that, of None 0 "0x87"]
      by (simp add: reply_def answer_to_def option.map_comp f msg_fits_def split: if_splits)
  qed
  have tail: "returns (keep l w) (Option.bind r (\<lambda>(e, w). map_option snd (case e of Some k \<Rightarrow> Some (k, w) | None \<Rightarrow> reply w)))"
    if "returns (keep l w) (map_option snd r)" for r :: "(int option \<times> 'a SApp_scheme) option"
  proof -
    from that obtain e w1 where r: "r = Some (e, w1)" "keep l w w1" by (auto simp: returns_def)
    have "returns (keep l w1) (map_option snd (case e of Some k \<Rightarrow> Some (k, w1) | None \<Rightarrow> reply w1))"
      using a [OF keep_own [OF r(2)]] keep_own [OF r(2)] by (cases e) (simp_all add: keep_refl)
    then show ?thesis using r returns_from by auto
  qed
  have c: "rd data 0 = Some (data ! 0)" "rd data 1 = Some (data ! 1)" using len by (auto simp: rd_def)
  have cp: "returns (keep l w) (copy_cfg 0 data 2 SCommon_size w)" using o len by (simp add: copy_cfg_returns layout_defs)
  have se: "returns (keep l w) (map_option snd (set_element data sz num off err w))"
    if "sz \<le> 128" "\<And>i. i \<le> num - 1 \<Longrightarrow> off i + sz \<le> SSysCfg_size" for sz num off err
    using o len that by (intro set_element_returns) simp_all
  have "returns (keep l w) (map_option snd (if data ! 0 = 0x82 then (if unat (data ! 1) = SCommon_size
             then Option.bind (copy_cfg 0 data 2 SCommon_size w) (\<lambda>w. Some (None, w)) else Some (Some (- 1), w))
        else if data ! 0 = 0x83 then set_element data STag_size SYSTEM_NUM_TAG tag_off (- 2) w
        else if data ! 0 = 0x84 then set_element data SInputPort_size DIGITAL_INPUT_NUM_CHANNEL di_off (- 3) w
        else if data ! 0 = 0x85 then set_element data SCtrlPort_size DIGITAL_OUTPUT_NUM_CHANNEL do_off (- 4) w
        else if data ! 0 = 0x88 then
          (let (r, p) = App_SaveConfig (sCfg w) (cfgStore w) in Some (None, w\<lparr>cfgStore := p, reboot := True\<rparr>))
        else Some (Some (- 5), w)))"
    using o se cp by (auto simp: keep_refl keep_reboot layout_defs returns_def split_def)
  from tail [OF this] show ?thesis
    unfolding App_SetConfig_def c reply_def Option.bind.bind_lunit map_option_bind by (simp add: split_def)
qed

lemma CalibAi_returns:
  assumes "own l w" "240 \<le> length data"
  shows "returns (keep l w) (App_CommCalibAi fl data w)"
proof -
  obtain save w1 where w1: "calib_loop fl (data ! 2) [0..<ANALOG_INPUT_NUM_CHANNEL] False w = (save, w1)" by fastforce
  then have k: "keep l w w1" using calib_loop_keep [OF assms(1), of "[0..<ANALOG_INPUT_NUM_CHANNEL]" fl "data ! 2" False] by (simp add: lessThan_atLeast0)
  moreover have "rd data 2 = Some (data ! 2)" using assms(2) by (simp add: rd_def)
  ultimately show ?thesis using w1 keep_trans [OF k keep_store [OF keep_own [OF k]]] by (simp add: App_CommCalibAi_def)
qed

text \<open>Every command is carried out or ignored.\<close>

lemma handles:
  assumes o: "own l w" and len: "240 \<le> length data"
  shows "returns (keep l w) (recv_handle fl (answer_to serial) serial data w)"
proof -
  let ?send = "answer_to serial :: u8 \<Rightarrow> u8 list option \<Rightarrow> u8 \<Rightarrow> 'a SApp_scheme \<Rightarrow> 'a SApp_scheme option"
  have rd: "rd data 0 = Some (data ! 0)" "rd data 2 = Some (data ! 2)" "\<exists>bs. rd_n data 2 30 = Some bs" "\<exists>bs. rd_n data 2 36 = Some bs"
    using len by (auto simp: rd_def rd_n_def)
  then obtain b30 b36 where bs: "rd_n data 2 30 = Some b30" "rd_n data 2 36 = Some b36" by blast
  have opt: "returns (keep l w) (if P then ?send c (Some d) n w else Some w)" if "own l w" "msg_fits (Some d) n" for P c d n w
    using that answer by (simp add: keep_refl)
  have vals: "returns (keep l w) (let (r, ms) = OSA_FixedMemMalloc (of_nat STagVArray_size) (mem w); w = w\<lparr>mem := ms\<rparr> in
      case r of None \<Rightarrow> Some w | Some b \<Rightarrow> Option.bind (?send 0x31 (Some (value_bytes (sTagValue w) (poolJunk w))) (of_nat STagVArray_size) w)
        (\<lambda>w. Some (w\<lparr>mem := OSA_FixedMemFree b (mem w)\<rparr>)))" if "own l w" for w
    by (rule block [OF that]) (use answer in simp)
  have three: "returns (keep l w) (do {
      w \<leftarrow> (if data ! 2 AND 1 \<noteq> 0 then ?send 0x20 (Some (ai_bytes (sAI w))) (of_nat SAnalogInput_size) w else Some w);
      w \<leftarrow> (if data ! 2 AND 2 \<noteq> 0 then ?send 0x21 (Some (mb_bytes (sMB w))) (of_nat SModbusValue_size) w else Some w);
      (if data ! 2 AND 4 \<noteq> 0 then
         (let (r, ms) = OSA_FixedMemMalloc (of_nat STagVArray_size) (mem w); w = w\<lparr>mem := ms\<rparr> in
          case r of None \<Rightarrow> Some w | Some b \<Rightarrow> Option.bind (?send 0x31 (Some (value_bytes (sTagValue w) (poolJunk w))) (of_nat STagVArray_size) w)
            (\<lambda>w. Some (w\<lparr>mem := OSA_FixedMemFree b (mem w)\<rparr>)))
       else Some w) })"
  proof (intro returns_bind)
    fix w' w'' assume k: "keep l w w'" "keep l w' w''"
    from vals [OF keep_own [OF k(2)]] keep_refl [OF keep_own [OF k(2)]]
    show "returns (keep l w'') (if data ! 2 AND 4 \<noteq> 0 then
         (let (r, ms) = OSA_FixedMemMalloc (of_nat STagVArray_size) (mem w''); w = w''\<lparr>mem := ms\<rparr> in
          case r of None \<Rightarrow> Some w | Some b \<Rightarrow> Option.bind (?send 0x31 (Some (value_bytes (sTagValue w) (poolJunk w))) (of_nat STagVArray_size) w)
            (\<lambda>w. Some (w\<lparr>mem := OSA_FixedMemFree b (mem w)\<rparr>)))
       else Some w'')"
      by (simp only: returns_Some if_split) simp
  qed (rule opt, use o in simp, simp, rule opt, erule keep_own, simp)
  have date: "returns (keep l w) (?send 0x81 None 0 (w\<lparr>sDateTime := t, tmRest := y\<rparr>))" for t y
    by (rule returns_from [OF keep_date [OF o] answer]) (use keep_own [OF keep_date [OF o]] in simp_all)
  show ?thesis
    unfolding recv_handle_def rd Option.bind.bind_lunit bs
    using three date answer [OF o] SetConfig_returns [OF o len] CalibAi_returns [OF o len] o
    by (simp add: keep_refl keep_ctrl)
qed

lemma streams:
  assumes o: "own l w"
  shows "returns (keep l w) (stream_header (answer_to serial) w)"
proof -
  define step where "step = (\<lambda>w :: 'a SApp_scheme. map_option
      (\<lambda>w. w\<lparr>eCtrlCode := eCtrlCode w OR CTRL_SEND_HEADER, pcCounter := pcCounter w + 1\<rparr>)
      (answer_to serial 0x30 (Some (tag_header (sCfg w) (unat (pcCounter w)) (poolJunk w))) (of_nat (STagHeader_size + 1)) w))"
  have s: "returns (keep l w) (step w)" if "own l w" for l and w :: "'a SApp_scheme"
    unfolding step_def by (rule returns_map [OF answer [OF that answers_fit(6)]]) (simp add: keep_own keep_ctrl)
  have e: "Option.bind (step w) h = do {
      w \<leftarrow> answer_to serial 0x30 (Some (tag_header (sCfg w) (unat (pcCounter w)) (poolJunk w))) (of_nat (STagHeader_size + 1)) w;
      let w = w\<lparr>eCtrlCode := eCtrlCode w OR CTRL_SEND_HEADER, pcCounter := pcCounter w + 1\<rparr>;
      h w }" for w and h :: "'a SApp_scheme \<Rightarrow> 'a SApp_scheme option"
    unfolding step_def by (simp add: map_conv_bind_option bind_assoc Let_def comp_def)
  note block [OF o s, unfolded e, of "of_nat (STagHeader_size + 1)"]
  then show ?thesis using o by (simp add: stream_header_def keep_refl keep_ctrl)
qed

end

lemma answer_to_eq:
  "answer_to True = (\<lambda>c d n w. map_option snd (App_SendPC c d n False w))" "answer_to False = (\<lambda>c d n w. map_option snd (App_SendPCNetworkClient c d n w))"
  by (simp_all add: answer_to_def fun_eq_iff)

text \<open>The ownership of the frame buffers is such an invariant, for both ways to answer.\<close>

interpretation keeping: handler owned keeps serial for serial :: bool
proof
  fix l and w w' w1 w2 :: "'a SApp_scheme" and f :: "'a SApp_scheme \<Rightarrow> 'a SApp_scheme option" and n :: u32
  show "keeps l w w' \<Longrightarrow> owned l w'" "owned l w \<Longrightarrow> keeps l w w" "keeps l w w1 \<Longrightarrow> keeps l w1 w2 \<Longrightarrow> keeps l w w2"
    by (fact keeps_owned keeps_refl keeps_trans)+
  show "owned l w \<Longrightarrow> (\<And>b w1. owned (b # l) w1 \<Longrightarrow> STrans.more w1 = STrans.more w \<Longrightarrow> returns (keeps (b # l) w1) (f w1)) \<Longrightarrow>
      returns (keeps l w) (let (r, ms) = OSA_FixedMemMalloc n (mem w); w = w\<lparr>mem := ms\<rparr> in
        case r of None \<Rightarrow> Some w | Some b \<Rightarrow> Option.bind (f w) (\<lambda>w. Some (w\<lparr>mem := OSA_FixedMemFree b (mem w)\<rparr>)))"
    unfolding returns_safe by (rule safe_block)
  show "owned l w \<Longrightarrow> msg_fits d k \<Longrightarrow> returns (keeps l w) (answer_to serial c d k w)" for d k c
    by (simp add: answer_to_def returns_safe App_SendPC_def send_message_safe net_safe)
qed simp_all

lemmas App_SetConfig_safe = keeping.SetConfig_returns [unfolded returns_safe]
lemmas pc_stream_safe = keeping.streams [where serial = True, unfolded returns_safe answer_to_eq]
lemmas net_stream_safe = keeping.streams [where serial = False, unfolded returns_safe answer_to_eq]

lemma App_CommRecvHandle_safe: "owned l w \<Longrightarrow> 240 \<le> length data \<Longrightarrow> safe l w (App_CommRecvHandle fl data w)"
  using keeping.handles [of l w data fl True] by (simp add: App_CommRecvHandle_def returns_safe answer_to_eq)

lemma App_NetRecvHandle_safe: "owned l w \<Longrightarrow> 240 \<le> length data \<Longrightarrow> safe l w (App_NetRecvHandle fl data w)"
  using keeping.handles [of l w data fl False] by (simp add: App_NetRecvHandle_def returns_safe answer_to_eq)

lemma ui_block_safe:
  fixes w :: "'a SApp_scheme"
  assumes "owned l w" "\<And>w :: 'a SApp_scheme. msg_fits (Some (d w)) n" "\<And>l (w :: 'a SApp_scheme). owned l w \<Longrightarrow> keeps l w (g w)"
    and g: "\<And>(w :: 'a SApp_scheme) m. g (w\<lparr>mem := m\<rparr>) = (g w)\<lparr>mem := m\<rparr>" "\<And>w. mem (g w) = mem w"
  shows "safe l w (let (r, ms) = OSA_FixedMemMalloc k (mem w); w = w\<lparr>mem := ms\<rparr> in
      case r of None \<Rightarrow> Some w | Some b \<Rightarrow> do {
        (ret, w) \<leftarrow> App_SendUI c (Some (d w)) n False w;
        Some (g (w\<lparr>mem := OSA_FixedMemFree b (mem w)\<rparr>)) })"
proof -
  have "safe l w (map_option g (map_option snd (App_SendUI c (Some (d w)) n False w)))"
    if "owned l w" for l and w :: "'a SApp_scheme"
    unfolding App_SendUI_def using assms(2,3) that keeps_owned by (blast intro: safe_map_bind send_message_safe)
  note s = safe_block [OF assms(1) this]
  have "Option.bind (map_option g (map_option snd r)) (\<lambda>w. Some (w\<lparr>mem := OSA_FixedMemFree b (mem w)\<rparr>))
      = Option.bind r (\<lambda>(ret, w). Some (g (w\<lparr>mem := OSA_FixedMemFree b (mem w)\<rparr>)))" for r :: "(bool \<times> 'a SApp_scheme) option" and b
    by (cases r) (auto simp: g)
  from s [unfolded this] show ?thesis .
qed

lemma Clb_TimerControl_safe:
  fixes w :: "'a SApp_scheme"
  assumes o: "owned l w"
  shows "safe l w (Clb_TimerControl w)"
proof -
  have t0: "keeps l w (w\<lparr>sDateTime := t\<rparr>)" for t using o by simp
  have end_: "keeps l w (w\<lparr>timerCounter := timerCounter w + 1\<rparr>)" if "keeps l w0 w" for w w0 :: "'a SApp_scheme"
    using keeps_owned [OF that] by simp
  have opt: "safe l w (if P then r else Some w)" if "owned l w" "safe l w r" for P r and w :: "'a SApp_scheme"
    using that by (simp add: safe_Some keeps_refl)
  have status: "safe l w (if P then (let w = w\<lparr>uiCounter := 0\<rparr>; (r, ms) = OSA_FixedMemMalloc k (mem w); w = w\<lparr>mem := ms\<rparr> in
      case r of None \<Rightarrow> Some w | Some b \<Rightarrow> do {
        (ret, w) \<leftarrow> App_SendUI 0x09 (Some (replicate 4 0 @ struct_tm (sDateTime w) (tmRest w))) (of_nat SSystemStatus_size) False w;
        Some (w\<lparr>mem := OSA_FixedMemFree b (mem w)\<rparr>) }) else Some w)" if "owned l w" for P k and w :: "'a SApp_scheme"
    by (rule opt [OF that], subst Let_def, rule safe_from [OF _ ui_block_safe [where g = "\<lambda>w. w"]])
      (use that keeps_refl in simp_all)
  have next_: "safe l w (if P w then (let (r, ms) = OSA_FixedMemMalloc k (mem w); w = w\<lparr>mem := ms\<rparr> in
      case r of None \<Rightarrow> Some w | Some b \<Rightarrow> do {
        (ret, w) \<leftarrow> App_SendUI 0x30 (Some (tag_header (sCfg w) (unat (uiCounter w)) (poolJunk w))) (of_nat (STagHeader_size + 1)) False w;
        let w = w\<lparr>mem := OSA_FixedMemFree b (mem w)\<rparr>;
        Some (w\<lparr>uiCounter := uiCounter w + 1\<rparr>) })
      else (let (r, ms) = OSA_FixedMemMalloc k' (mem w); w = w\<lparr>mem := ms\<rparr> in
      case r of None \<Rightarrow> Some w | Some b \<Rightarrow> do {
        (ret, w) \<leftarrow> App_SendUI 0x31 (Some (value_bytes (sTagValue w) (poolJunk w))) (of_nat STagVArray_size) False w;
        Some (w\<lparr>mem := OSA_FixedMemFree b (mem w)\<rparr>) }))" if "owned l w" for P k k' and w :: "'a SApp_scheme"
  proof (cases "P w")
    case True
    show ?thesis
      unfolding if_P [where P = "P w", OF True] Let_def
      by (rule ui_block_safe [where g = "\<lambda>w. w\<lparr>uiCounter := uiCounter w + 1\<rparr>", OF that answers_fit(6), unfolded Let_def])
        simp_all
  next
    case False
    show ?thesis unfolding if_not_P [where P = "P w", OF False]
      by (rule ui_block_safe [where g = "\<lambda>w. w"]) (use that keeps_refl in simp_all)
  qed
  show ?thesis
    unfolding Clb_TimerControl_def
    by (subst Let_def, rule safe_from [OF t0], rule safe_bind [OF status], use o in simp,
      rule safe_bind [OF next_], erule keeps_owned, rule safe_Some, erule end_)
qed

section \<open>The PC port as an application of transport layer 3\<close>

lemma PC_Recv_safe:
  assumes "owned l w" "248 \<le> length (frm b w)"
  shows "safe l w (Clb_TransPC_RecvEvent fl b ct w)"
  using App_CommRecvHandle_safe [OF assms(1), of "drop 8 (frm b w)" fl] assms
  by (simp add: Clb_TransPC_RecvEvent_def safe_Some keeps_refl)

lemma PC_Sent_bind:
  assumes "owned l w"
  shows "\<exists>w1. Clb_TransPC_SentEvent b ct w = (if ct AND 0x3F = FRM_DATA then do {
        c \<leftarrow> frm_get b 8 w1; Some (if c = 0x87 \<and> reboot w1 then w1\<lparr>sysReset := True\<rparr> else w1) } else Some w1) \<and> keeps l w w1"
proof -
  have "safe l w (stream_header (\<lambda>c d n w. map_option snd (App_SendPC c d n False w)) w)"
    by (rule pc_stream_safe [OF assms])
  then show ?thesis by (auto simp: safe_def Clb_TransPC_SentEvent_def)
qed

lemma owned_frames: "owned l w \<Longrightarrow> length (frm b w) = unat (psize (fst b)) - 24"
proof -
  assume "owned l w"
  then obtain D C S where t: "tinv l w D C S" unfolding owned_def by blast
  have "frames_ok (mem w)" using tinv_store [OF t] by (simp add: store_inv_def)
  then show ?thesis unfolding frames_ok_def frm_def by (rule spec)
qed

lemma keeps_sendable:
  assumes "keeps l w w'" "c \<in> set l" "sendable (mem w) c"
  shows "sendable (mem w') c"
proof -
  have "(smems (mem w') c)\<lparr>pNext := None\<rparr> = (smems (mem w) c)\<lparr>pNext := None\<rparr>" using assms(1,2) by (simp add: keeps_def)
  then have "u16DLen (smems (mem w') c) = u16DLen (smems (mem w) c)" "u8Ctrl (smems (mem w') c) = u8Ctrl (smems (mem w) c)"
    "frame (smems (mem w') c) = frame (smems (mem w) c)" by (cases "smems (mem w') c"; cases "smems (mem w) c"; simp)+
  then show ?thesis using assms(3) by (simp add: sendable_def)
qed

interpretation pc: l3_app "pc_clbs fl" for fl :: fpu
proof
  fix l b ct and w w' :: "'a SApp_scheme"
  assume o: "owned l w"
  obtain w1 where w1: "Clb_TransPC_SentEvent b ct w = (if ct AND 0x3F = FRM_DATA then do {
        c \<leftarrow> frm_get b 8 w1; Some (if c = 0x87 \<and> reboot w1 then w1\<lparr>sysReset := True\<rparr> else w1) } else Some w1)" "keeps l w w1"
    using PC_Sent_bind [OF o] by blast
  show "owned l w' \<and> frmRecv w' = frmRecv w" if "248 \<le> length (frm b w)" "onL3Recv (pc_clbs fl) b ct w = Some w'"
    using PC_Recv_safe [OF o that(1), of fl ct] that(2) by (auto simp: pc_clbs_def safe_def keeps_def)
  show "onL3Recv (pc_clbs fl) b ct w \<noteq> None" if "248 \<le> length (frm b w)"
    using PC_Recv_safe [OF o that, of fl ct] by (auto simp: pc_clbs_def safe_def)
  show "owned l w' \<and> (\<forall>c \<in> set l. sendable (mem w) c \<longrightarrow> sendable (mem w') c)" if "onL3Sent (pc_clbs fl) b ct w = Some w'"
  proof -
    have "w' = w1 \<or> w' = w1\<lparr>sysReset := True\<rparr>" using that w1(1) by (auto simp: pc_clbs_def split: if_splits bind_splits)
    then have "keeps l w w'" using w1(2) by (auto simp: keeps_def)
    then show ?thesis using keeps_sendable keeps_owned by blast
  qed
next
  fix l b and w :: "'a SApp_scheme"
  assume o: "owned l w" and sd: "sendable (mem w) b"
  obtain w1 where w1: "Clb_TransPC_SentEvent b (u8Ctrl (smems (mem w) b)) w = (if u8Ctrl (smems (mem w) b) AND 0x3F = FRM_DATA then do {
        c \<leftarrow> frm_get b 8 w1; Some (if c = 0x87 \<and> reboot w1 then w1\<lparr>sysReset := True\<rparr> else w1) } else Some w1)" "keeps l w w1"
    using PC_Sent_bind [OF o] by blast
  have "8 < length (frm b w1)" if "u8Ctrl (smems (mem w) b) AND 0x3F = FRM_DATA"
    using sd that owned_frames [OF o] owned_frames [OF keeps_owned [OF w1(2)]] by (simp add: sendable_def frm_def)
  then show "onL3Sent (pc_clbs fl) b (u8Ctrl (smems (mem w) b)) w \<noteq> None"
    using w1(1) by (simp add: pc_clbs_def frm_get_def)
qed

end
