(* ===== verification/AppCommands.thy ===== *)
theory AppCommands
  imports AppSafe
begin

text \<open>
  What the commands of the PC do: the log-in check against the two accounts, the setting of one tag and the header
  that reports it afterwards, the calibration of the analog inputs, and the stream of tag headers over the network.
\<close>

section \<open>A concrete node\<close>

text \<open>For the witnesses: the PC port just started, with the default configuration, a connected client and an empty card.\<close>

definition fpu0 :: fpu where
  "fpu0 = \<lparr>fl_add = (\<lambda>x y. x), fl_sub = (\<lambda>x y. x), fl_mul = (\<lambda>x y. x), fl_div = (\<lambda>x y. x), fl_zero = (\<lambda>x. True)\<rparr>"

definition pc0 :: SApp where
  "pc0 = l3_boot (pc_clbs fpu0) (SApp.fields App_GenDefaultConfig no_config
     \<lparr>tm_sec = 0, tm_min = 0, tm_hour = 0, tm_mday = 1, tm_mon = 1, tm_year = 0, tm_wday = 0\<rparr> (0, 0)
     (\<lambda>_. \<lparr>aiEnable = 1, aiStatus = 0, aiId = 0, aiValue = 0\<rparr>)
     (\<lambda>_. \<lparr>mbnEnable = 1, mbnStatus = 0, mbnDataFormat = 0, mbnDataType = 0, mbnAddress = 1, mbnRegAddress = 0, mbnValue = 0\<rparr>)
     (\<lambda>_. \<lparr>tvScratch = 0, tvRaw = 0, tvStd = 0, tvStt = (48, 48, 0)\<rparr>) 0 0 0 False False 0 (\<lambda>_. 0) True [] []) 1 115200"

lemma pc0:
  "owned [] pc0" "sCfg pc0 = App_GenDefaultConfig" "length (sCfg pc0) = SSysCfg_size" "netConnected pc0" "netPosts pc0 = []"
  "netQueue pc0 = []" "uiCounter pc0 = 0" "aiStatus (sAI pc0 i) = 0" "used_blocks (mem pc0) = {(P272, 0)}" "poolJunk pc0 = (\<lambda>_. 0)"
proof -
  have f: "sCfg w = a \<and> sAI w = ai \<and> netConnected w = nc \<and> netPosts w = np \<and> netQueue w = nq \<and> uiCounter w = uic \<and> poolJunk w = pj"
    if "STrans.more w = SApp.fields a cs dt tr ai mb tv pcc uic ec rb sr tc pj nc np nq" for w :: SApp and a cs dt tr ai mb tv pcc uic ec rb sr tc pj nc np nq
    using that by (cases w) (simp add: SApp.fields_def)
  note p = f [OF l3_boot_start(18)]
  show "sCfg pc0 = App_GenDefaultConfig" "netConnected pc0" "netPosts pc0 = []" "netQueue pc0 = []" "uiCounter pc0 = 0" "aiStatus (sAI pc0 i) = 0"
    "poolJunk pc0 = (\<lambda>_. 0)" by (simp_all add: pc0_def p)
  then show "length (sCfg pc0) = SSysCfg_size" by simp
  show "owned [] pc0" unfolding owned_def pc0_def by (intro exI) (rule l3_boot_start(1))
  show "used_blocks (mem pc0) = {(P272, 0)}" unfolding pc0_def by (rule l3_boot_start(12))
qed

section \<open>Strings in the configuration\<close>

text \<open>The string in a field of \<open>n\<close> characters.\<close>

definition cstr :: "nat \<Rightarrow> u8 list \<Rightarrow> u8 list" where
  "cstr n s = take n (takeWhile (\<lambda>b. b \<noteq> 0) s)"

lemma Str_Cmp_N_cstr: "n \<le> length a \<Longrightarrow> n \<le> length b \<Longrightarrow> Str_Cmp_N_eq a b n \<longleftrightarrow> cstr n a = cstr n b"
  by (induction a b n rule: Str_Cmp_N_eq.induct) (auto simp: cstr_def)

lemma cstr_take: "cstr n s = takeWhile (\<lambda>b. b \<noteq> 0) (take n s)"
proof (induction n arbitrary: s)
  case (Suc n)
  then show ?case by (cases s) (auto simp: cstr_def)
qed (simp add: cstr_def)

text \<open>The user names and passwords of the configuration.\<close>

definition accounts :: "SSysCfg \<Rightarrow> (u8 list \<times> u8 list) list" where
  "accounts c = map (\<lambda>a. (cstr 15 (drop a c), cstr 15 (drop (a + 15) c))) [acc_off, acc_off + 30]"

lemma login_ok_accounts:
  assumes "length c = SSysCfg_size" "32 \<le> length data"
  shows "login_ok c data \<longleftrightarrow> (cstr 15 (drop 2 data), cstr 15 (drop 17 data)) \<in> set (accounts c)"
proof -
  have "Str_Cmp_N_eq (drop a c) (drop k data) 15 \<longleftrightarrow> cstr 15 (drop k data) = cstr 15 (drop a c)"
    if "a + 15 \<le> SSysCfg_size" "k + 15 \<le> 32" for a k
    using assms that by (subst Str_Cmp_N_cstr) auto
  then show ?thesis by (simp add: login_ok_def accounts_def layout_defs)
qed

text \<open>A log-in is answered with success exactly when user name and password are those of one of the two accounts of
  the configuration, compared as strings of at most fifteen characters.\<close>

theorem Login_checks_accounts:
  assumes "length (sCfg w) = SSysCfg_size" "240 \<le> length data" "data ! 0 = 0x10"
  shows "App_CommRecvHandle fl data w = map_option snd (App_SendPC 0x10
     (Some [if (cstr 15 (drop 2 data), cstr 15 (drop 17 data)) \<in> set (accounts (sCfg w)) then LOGGER_SUCCESS else LOGGER_ERROR]) 1 False w)"
proof -
  have "rd data 0 = Some 0x10" "\<exists>bs. rd_n data 2 30 = Some bs" using assms(2,3) by (auto simp: rd_def rd_n_def)
  then show ?thesis
    using assms(2) login_ok_accounts [OF assms(1), of data] by (auto simp: App_CommRecvHandle_def recv_handle_def)
qed

lemma Login_checks_accounts_witness:
  "App_CommRecvHandle fpu0 (0x10 # replicate 239 0) (pc0\<lparr>sCfg := replicate 2412 0\<rparr>)
     = map_option snd (App_SendPC 0x10 (Some [LOGGER_SUCCESS]) 1 False (pc0\<lparr>sCfg := replicate 2412 0\<rparr>))"
proof -
  let ?w = "pc0\<lparr>sCfg := replicate 2412 0\<rparr>"
  have l: "length (sCfg ?w) = SSysCfg_size" by (simp add: SSysCfg_size_def)
  have "cstr n (replicate m 0) = []" for n m by (simp add: cstr_def takeWhile_eq_Nil_iff)
  with Login_checks_accounts [OF l, of "0x10 # replicate 239 0" fpu0] show ?thesis
    by (simp add: accounts_def acc_off_def drop_Cons' drop_replicate)
qed

section \<open>Setting a tag\<close>

lemma send_message_more:
  assumes "owned l w" "msg_fits d n"
  shows "\<exists>ret w'. send_message c d n ack w = Some (ret, w') \<and> STrans.more w' = STrans.more w \<and> owned l w'"
proof -
  obtain r ms where m: "OSA_FixedMemMalloc (ucast n + 2) (mem w) = (r, ms)" by fastforce
  have s: "safe l w (map_option snd (send_message c d n ack w))" by (rule send_message_safe [OF assms])
  have "STrans.more w' = STrans.more w" if "send_message c d n ack w = Some (ret, w')" for ret w'
  proof (cases r)
    case None
    then show ?thesis using that m by (auto simp: send_message_def)
  next
    case (Some b)
    have o: "owned (b # l) (w\<lparr>mem := ms\<rparr>)" using malloc_owned [OF assms(1) m] Some by simp
    obtain sd where sd: "sdata_bytes c d n (poolJunk w) = Some sd" "length sd = unat n + 2" by (rule sdata_bytes_fits [OF assms(2)])
    from Trans_Send_keeps [OF o sd(2), of ack] show ?thesis using that m Some sd(1) by (auto simp: send_message_def)
  qed
  then show ?thesis using s by (auto simp: safe_def keeps_owned)
qed

text \<open>Fields of structs after a write.\<close>

lemma length_field_min: "length (field off n m) = min n (length m - off)"
  by (simp add: field_def)

lemma field_nth: "k < n \<Longrightarrow> off + k < length m \<Longrightarrow> field off n m ! k = m ! (off + k)"
  by (simp add: field_def)

lemma field_put_other:
  assumes "o' + n \<le> off \<or> off + length bs \<le> o'" "off + length bs \<le> length m"
  shows "field o' n (put_bytes off bs m) = field o' n m"
  using assms by (intro nth_equalityI) (auto simp: length_field_min field_nth put_bytes_nth put_bytes_length)

lemma field_put_same: "off + length bs \<le> length m \<Longrightarrow> n = length bs \<Longrightarrow> field off n (put_bytes off bs m) = bs"
  by (intro nth_equalityI) (auto simp: length_field_min field_nth put_bytes_nth put_bytes_length)

lemma cstr_field: "cstr n (drop off m) = takeWhile (\<lambda>b. b \<noteq> 0) (field off n m)"
  by (simp add: cstr_take field_def)

lemma length_cstr: "length (cstr n s) \<le> n"
  by (simp add: cstr_def)

lemma Str_Copy_N_put: "\<exists>bs. Str_Copy_N off src n m = put_bytes off bs m \<and> length bs \<le> n
    \<and> (bs = cstr n src \<and> length bs = n \<or> bs = cstr n src @ [0])"
proof (cases "length (cstr n src) < n")
  case True
  then show ?thesis by (intro exI [of _ "cstr n src @ [0]"]) (simp add: Str_Copy_N_def cstr_def Let_def)
next
  case False
  then show ?thesis using length_cstr [of n src] by (intro exI [of _ "cstr n src"]) (simp add: Str_Copy_N_def cstr_def Let_def)
qed

lemma field_Str_Copy_N_other:
  assumes "o' + k \<le> off \<or> off + n \<le> o'" "off + n \<le> length m"
  shows "field o' k (Str_Copy_N off src n m) = field o' k m"
proof -
  obtain bs where "Str_Copy_N off src n m = put_bytes off bs m" "length bs \<le> n" using Str_Copy_N_put by blast
  then show ?thesis using assms field_put_other [of o' k off bs m] by auto
qed

lemma takeWhile_cstr: "takeWhile (\<lambda>b. b \<noteq> 0) (cstr n s @ xs) = cstr n s @ takeWhile (\<lambda>b. b \<noteq> 0) xs"
  by (subst takeWhile_append2) (auto simp: cstr_take dest: set_takeWhileD)

lemma cstr_Str_Copy_N:
  assumes "off + n \<le> length m"
  shows "takeWhile (\<lambda>b. b \<noteq> 0) (field off n (Str_Copy_N off src n m)) = cstr n src"
proof -
  obtain bs where b: "Str_Copy_N off src n m = put_bytes off bs m" "length bs \<le> n"
    "bs = cstr n src \<and> length bs = n \<or> bs = cstr n src @ [0]" using Str_Copy_N_put by blast
  have "field off n (put_bytes off bs m) = bs @ take (n - length bs) (drop (off + length bs) m)"
    using assms b(2) by (simp add: field_def put_bytes_def)
  then show ?thesis using b(1,3) takeWhile_cstr [of n src "[]"] takeWhile_cstr [of n src "0 # xs" for xs] by auto
qed

lemma cstr_cong: "field off n m = field off' n m' \<Longrightarrow> cstr n (drop off m) = cstr n (drop off' m')"
  by (simp add: cstr_field)

text \<open>The header of a tag in terms of its 128 bytes.\<close>

lemma tag_header_cong:
  assumes "field (tag_off i) STag_size c = field (tag_off i) STag_size c'"
  shows "tag_header c i junk = tag_header c' i junk"
proof -
  let ?t = "drop (tag_off i) c" and ?t' = "drop (tag_off i) c'"
  have f: "field o' n ?t = field o' n ?t'" if "o' + n \<le> 128" for o' n
  proof -
    have "field o' n (drop off x) = take n (drop o' (field off STag_size x))" for off and x :: "u8 list"
      using that by (simp add: field_def STag_size_def drop_take min_def)
    then show ?thesis using assms by metis
  qed
  have s: "Str_Copy_N off (drop o' ?t) 15 m = Str_Copy_N off (drop o' ?t') 15 m" if "o' + 15 \<le> 128" for off o' m
    using cstr_cong [OF f [OF that]] by (simp add: Str_Copy_N_def cstr_def [symmetric])
  show ?thesis unfolding tag_header_def Let_def by (simp add: f s del: upt_Suc drop_drop)
qed

lemma tag_header_fields:
  fixes c :: SSysCfg and i and junk :: "nat \<Rightarrow> u8"
  defines "t \<equiv> drop (tag_off i) c" and "h \<equiv> tag_header c i junk"
  assumes "tag_off i + STag_size \<le> length c"
  shows "field 0 1 h = [of_nat i]" "field 1 2 h = field 0 2 t" "field 3 1 h = field 17 1 t" "field 49 4 h = field 100 4 t"
    "field 53 4 h = field 104 4 t" "field 57 4 h = field 124 4 t" "field 61 1 h = field 21 1 t"
    "cstr 15 (drop 4 h) = cstr 15 (drop 32 t)" "cstr 15 (drop 19 h) = cstr 15 (drop 47 t)" "cstr 15 (drop 34 h) = cstr 15 (drop 62 t)"
proof -
  have t: "128 \<le> length t" using assms(3) by (simp add: t_def STag_size_def)
  have f: "length (field o' n t) = n" if "o' + n \<le> 128" for o' n using t that by (simp add: field_def)
  define m0 where "m0 = (map junk [0..<STagHeader_size + 1])[0 := (of_nat i :: u8)]"
  define m1 where "m1 = put_bytes 1 (field 0 2 t) m0"
  define m2 where "m2 = put_bytes 3 (field 17 1 t) m1"
  define m3 where "m3 = put_bytes 49 (field 100 4 t) m2"
  define m4 where "m4 = put_bytes 53 (field 104 4 t) m3"
  define m5 where "m5 = put_bytes 57 (field 124 4 t) m4"
  define m6 where "m6 = put_bytes 61 (field 21 1 t) m5"
  define m7 where "m7 = Str_Copy_N 4 (drop 32 t) 15 m6"
  define m8 where "m8 = Str_Copy_N 19 (drop 47 t) 15 m7"
  have h: "h = Str_Copy_N 34 (drop 62 t) 15 m8"
    by (simp only: h_def tag_header_def Let_def t_def m0_def m1_def m2_def m3_def m4_def m5_def m6_def m7_def m8_def)
  have l0: "length m0 = 65" by (simp add: m0_def STagHeader_size_def del: upt_Suc)
  have l1: "length m1 = 65" unfolding m1_def by (rule len_put [OF l0]) (simp add: f)
  have l2: "length m2 = 65" unfolding m2_def by (rule len_put [OF l1]) (simp add: f)
  have l3: "length m3 = 65" unfolding m3_def by (rule len_put [OF l2]) (simp add: f)
  have l4: "length m4 = 65" unfolding m4_def by (rule len_put [OF l3]) (simp add: f)
  have l5: "length m5 = 65" unfolding m5_def by (rule len_put [OF l4]) (simp add: f)
  have l6: "length m6 = 65" unfolding m6_def by (rule len_put [OF l5]) (simp add: f)
  have l7: "length m7 = 65" unfolding m7_def by (rule len_Str_Copy_N [OF l6]) simp
  have l8: "length m8 = 65" unfolding m8_def by (rule len_Str_Copy_N [OF l7]) simp
  have num: "field o' n h = field o' n m6" if "o' + n \<le> 4 \<or> 49 \<le> o'" for o' n
    using that by (auto simp: h m8_def m7_def field_Str_Copy_N_other l8 [unfolded m8_def m7_def] l7 [unfolded m7_def] l6)
  have m0: "field 0 1 m0 = [of_nat i]"
    using l0 by (intro nth_equalityI) (auto simp: length_field_min field_nth m0_def STagHeader_size_def simp del: upt_Suc)
  have s: "field o' n m1 = field o' n m0" if "o' + n \<le> 1 \<or> 3 \<le> o'" for o' n
    unfolding m1_def by (rule field_put_other) (use that f l0 in auto)
  have s2: "field o' n m2 = field o' n m1" if "o' + n \<le> 3 \<or> 4 \<le> o'" for o' n
    unfolding m2_def by (rule field_put_other) (use that f l1 in simp_all)
  have s3: "field o' n m3 = field o' n m2" if "o' + n \<le> 49 \<or> 53 \<le> o'" for o' n
    unfolding m3_def by (rule field_put_other) (use that f l2 in simp_all)
  have s4: "field o' n m4 = field o' n m3" if "o' + n \<le> 53 \<or> 57 \<le> o'" for o' n
    unfolding m4_def by (rule field_put_other) (use that f l3 in simp_all)
  have s5: "field o' n m5 = field o' n m4" if "o' + n \<le> 57 \<or> 61 \<le> o'" for o' n
    unfolding m5_def by (rule field_put_other) (use that f l4 in simp_all)
  have s6: "field o' n m6 = field o' n m5" if "o' + n \<le> 61 \<or> 62 \<le> o'" for o' n
    unfolding m6_def by (rule field_put_other) (use that f l5 in simp_all)
  note S = s s2 s3 s4 s5 s6
  have e: "field 1 2 m1 = field 0 2 t" "field 3 1 m2 = field 17 1 t" "field 49 4 m3 = field 100 4 t" "field 53 4 m4 = field 104 4 t"
    "field 57 4 m5 = field 124 4 t" "field 61 1 m6 = field 21 1 t"
    unfolding m1_def m2_def m3_def m4_def m5_def m6_def
    by (rule field_put_same; use f l0 l1 [unfolded m1_def] l2 [unfolded m2_def m1_def] l3 [unfolded m3_def m2_def m1_def]
      l4 [unfolded m4_def m3_def m2_def m1_def] l5 [unfolded m5_def m4_def m3_def m2_def m1_def] in simp)+
  show "field 0 1 h = [of_nat i]" by (simp add: num S e m0 del: One_nat_def)
  show "field 1 2 h = field 0 2 t" by (simp add: num S e m0 del: One_nat_def)
  show "field 3 1 h = field 17 1 t" by (simp add: num S e m0 del: One_nat_def)
  show "field 49 4 h = field 100 4 t" by (simp add: num S e m0 del: One_nat_def)
  show "field 53 4 h = field 104 4 t" by (simp add: num S e m0 del: One_nat_def)
  show "field 57 4 h = field 124 4 t" by (simp add: num S e m0 del: One_nat_def)
  show "field 61 1 h = field 21 1 t" by (simp add: num S e m0 del: One_nat_def)
  have "field 4 15 h = field 4 15 m7" "field 19 15 h = field 19 15 m8"
    unfolding h m8_def by (simp_all add: field_Str_Copy_N_other l8 [unfolded m8_def] l7)
  then show "cstr 15 (drop 4 h) = cstr 15 (drop 32 t)" "cstr 15 (drop 19 h) = cstr 15 (drop 47 t)"
    unfolding cstr_field [of _ _ h] m7_def m8_def by (simp_all add: cstr_Str_Copy_N l6 l7 [unfolded m7_def])
  show "cstr 15 (drop 34 h) = cstr 15 (drop 62 t)"
    by (subst cstr_field) (simp add: h cstr_Str_Copy_N l8)
qed

text \<open>The command for one tag.\<close>

lemma SetConfig_tag:
  assumes "240 \<le> length data" "data ! 0 = 0x83" "data ! 1 = 129"
  shows "App_SetConfig data True w = map_option (\<lambda>(ret, w). (if ret then 1 else 0, w)) (App_SendPC 0x87 None 0 False
     (if unat (data ! 2) < SYSTEM_NUM_TAG
      then w\<lparr>sCfg := put_bytes (tag_off (unat (data ! 2))) (take STag_size (drop 3 data)) (sCfg w)\<rparr> else w))"
proof -
  have r: "rd data 0 = Some 0x83" "rd data (Suc 0) = Some 129" "rd data 2 = Some (data ! 2)" "rd_n data 3 128 = Some (take 128 (drop 3 data))"
    using assms by (auto simp: rd_def rd_n_def)
  have "(unat (data ! 2) \<le> 11) = (unat (data ! 2) < 12)" by auto
  then show ?thesis by (simp add: App_SetConfig_def set_element_def copy_cfg_def r layout_defs)
qed

text \<open>The command that sets a tag writes exactly the 128 bytes of that tag in the configuration, nothing else, and is
  acknowledged; with a number beyond the last tag nothing is written, but the same acknowledgement is sent.\<close>

theorem SetTag_writes_one_tag:
  assumes "owned l w" "length (sCfg w) = SSysCfg_size" "240 \<le> length data" "data ! 0 = 0x83" "data ! 1 = 129"
  shows "\<exists>w0 w' ret. App_SendPC 0x87 None 0 False w0 = Some (ret, w') \<and> App_SetConfig data True w = Some (if ret then 1 else 0, w')
     \<and> length (sCfg w') = SSysCfg_size
     \<and> (\<forall>k < SSysCfg_size. sCfg w' ! k =
          (if unat (data ! 2) < SYSTEM_NUM_TAG \<and> tag_off (unat (data ! 2)) \<le> k \<and> k < tag_off (unat (data ! 2)) + STag_size
           then data ! (3 + (k - tag_off (unat (data ! 2)))) else sCfg w ! k))"
proof -
  let ?i = "unat (data ! 2)"
  define w0 where "w0 = (if ?i < SYSTEM_NUM_TAG then w\<lparr>sCfg := put_bytes (tag_off ?i) (take STag_size (drop 3 data)) (sCfg w)\<rparr> else w)"
  have "owned l w0" using assms(1) by (simp add: w0_def)
  then obtain ret w' where w': "App_SendPC 0x87 None 0 False w0 = Some (ret, w')" "sCfg w' = sCfg w0"
    using send_message_more [of l w0 None 0 "0x87" False] more_sCfg by (fastforce simp: App_SendPC_def msg_fits_def)
  have fit: "tag_off ?i + length (take STag_size (drop 3 data)) \<le> length (sCfg w)" if "?i < SYSTEM_NUM_TAG"
    using that assms(2,3) by (simp add: layout_defs)
  have "length (sCfg w') = SSysCfg_size" using w'(2) assms(2) fit by (simp add: w0_def put_bytes_length)
  moreover have "\<forall>k < SSysCfg_size. sCfg w' ! k = (if ?i < SYSTEM_NUM_TAG \<and> tag_off ?i \<le> k \<and> k < tag_off ?i + STag_size
      then data ! (3 + (k - tag_off ?i)) else sCfg w ! k)"
    using w'(2) fit assms(2,3) by (auto simp: w0_def put_bytes_nth STag_size_def)
  moreover have "App_SetConfig data True w = Some (if ret then 1 else 0, w')"
    using SetConfig_tag [OF assms(3-5), of w] w'(1) by (simp add: w0_def)
  ultimately show ?thesis using w'(1) by blast
qed

lemma SetTag_writes_one_tag_witness:
  "\<exists>w' ret. App_SetConfig (0x83 # 129 # 2 # replicate 237 7) True pc0 = Some (ret, w') \<and> sCfg w' ! 472 = 7"
proof -
  let ?d = "0x83 # 129 # 2 # replicate 237 7 :: u8 list"
  have "\<exists>w0 w' ret. App_SendPC 0x87 None 0 False w0 = Some (ret, w') \<and> App_SetConfig ?d True pc0 = Some (if ret then 1 else 0, w')
     \<and> length (sCfg w') = SSysCfg_size
     \<and> (\<forall>k < SSysCfg_size. sCfg w' ! k =
          (if unat (?d ! 2) < SYSTEM_NUM_TAG \<and> tag_off (unat (?d ! 2)) \<le> k \<and> k < tag_off (unat (?d ! 2)) + STag_size
           then ?d ! (3 + (k - tag_off (unat (?d ! 2)))) else sCfg pc0 ! k))"
    by (rule SetTag_writes_one_tag [OF pc0(1,3)]) simp_all
  then obtain w' ret where w': "App_SetConfig ?d True pc0 = Some (ret, w')" "\<forall>k < 2412. sCfg w' ! k =
      (if 472 \<le> k \<and> k < 600 then ?d ! (3 + (k - 472)) else sCfg pc0 ! k)"
    by (auto simp: layout_defs)
  then have "sCfg w' ! 472 = ?d ! 3" by simp
  then show ?thesis using w'(1) by auto
qed

text \<open>C17: after a tag has been set, the header stream reports for it the number, limits, alarm and names that were set,
  and for every other tag the same header as before.\<close>

theorem SetTag_then_header:
  assumes "owned l w" "length (sCfg w) = SSysCfg_size" "240 \<le> length data" "data ! 0 = 0x83" "data ! 1 = 129"
    and "i = unat (data ! 2)" "i < SYSTEM_NUM_TAG" "App_SetConfig data True w = Some (ret, w')" "h = tag_header (sCfg w') i junk"
  shows "field 0 1 h = [data ! 2] \<and> field 1 2 h = field 3 2 data \<and> field 3 1 h = field 20 1 data \<and> field 49 8 h = field 103 8 data
     \<and> field 57 4 h = field 127 4 data \<and> field 61 1 h = field 24 1 data \<and> cstr 15 (drop 4 h) = cstr 15 (drop 35 data)
     \<and> cstr 15 (drop 19 h) = cstr 15 (drop 50 data) \<and> cstr 15 (drop 34 h) = cstr 15 (drop 65 data)
     \<and> (\<forall>j < SYSTEM_NUM_TAG. j \<noteq> i \<longrightarrow> tag_header (sCfg w') j junk = tag_header (sCfg w) j junk)"
proof -
  define t where "t = take STag_size (drop 3 data)"
  have t: "length t = STag_size" using assms(3) by (simp add: t_def STag_size_def)
  let ?w = "w\<lparr>sCfg := put_bytes (tag_off i) t (sCfg w)\<rparr>"
  have fit: "tag_off j + length t \<le> length (sCfg w)" if "j < SYSTEM_NUM_TAG" for j
    using that assms(2) t by (simp add: layout_defs)
  have "\<exists>r. App_SendPC 0x87 None 0 False ?w = Some (r, w')"
    using assms(8) SetConfig_tag [OF assms(3-5), of w] assms(6,7) by (auto simp: t_def)
  moreover have "owned l ?w" using assms(1) by simp
  ultimately have c: "sCfg w' = put_bytes (tag_off i) t (sCfg w)"
    using send_message_more [of l ?w None 0 "0x87" False] more_sCfg [of w' ?w] by (fastforce simp: App_SendPC_def msg_fits_def)
  have "tag_off i + STag_size \<le> length (sCfg w')" using fit [OF assms(7)] t by (simp add: c put_bytes_length)
  note H = tag_header_fields [OF this, of junk, folded assms(9)]
  have d: "field o' n (drop (tag_off i) (sCfg w')) = field (3 + o') n data" if "o' + n \<le> 128" for o' n
  proof -
    have "field o' n (drop (tag_off i) (sCfg w')) = take n (drop o' t)"
      using fit [OF assms(7)] that t by (simp add: c field_def put_bytes_def STag_size_def)
    then show ?thesis using that by (simp add: t_def field_def STag_size_def drop_take min_def add.commute)
  qed
  have n: "cstr 15 (drop o' (drop (tag_off i) (sCfg w'))) = cstr 15 (drop (3 + o') data)" if "o' + 15 \<le> 128" for o'
    by (rule cstr_cong [OF d [OF that]])
  have other: "tag_header (sCfg w') j junk = tag_header (sCfg w) j junk" if "j < SYSTEM_NUM_TAG" "j \<noteq> i" for j
  proof (rule tag_header_cong)
    have "tag_off j + STag_size \<le> tag_off i \<or> tag_off i + length t \<le> tag_off j"
      using that(2) t by (simp add: layout_defs) arith
    then show "field (tag_off j) STag_size (sCfg w') = field (tag_off j) STag_size (sCfg w)"
      unfolding c by (rule field_put_other [OF _ fit [OF assms(7)]])
  qed
  have split: "field 49 8 h = field 49 4 h @ field 53 4 h" "field 103 8 data = field 103 4 data @ field 107 4 data"
    using take_add [of 4 4 "drop 49 h"] take_add [of 4 4 "drop 103 data"] by (simp_all add: field_def)
  have "of_nat i = data ! 2" using assms(6) by simp
  then show ?thesis using H(1) H(2-7) [unfolded d [of 0 2, simplified] ] other n
    by (simp add: H d split)
qed

lemma SetTag_then_header_witness:
  "\<exists>ret w'. App_SetConfig (0x83 # 129 # 2 # replicate 237 7) True pc0 = Some (ret, w')
     \<and> field 49 8 (tag_header (sCfg w') 2 (\<lambda>_. 0)) = replicate 8 7
     \<and> tag_header (sCfg w') 5 (\<lambda>_. 0) = tag_header App_GenDefaultConfig 5 (\<lambda>_. 0)"
proof -
  let ?d = "0x83 # 129 # 2 # replicate 237 7 :: u8 list"
  have d: "240 \<le> length ?d" "?d ! 0 = 0x83" "?d ! 1 = 129" "2 = unat (?d ! 2)" by simp_all
  have "safe [] pc0 (map_option snd (App_SetConfig ?d True pc0))" by (rule App_SetConfig_safe [OF pc0(1) d(1)])
  then obtain ret w' where w': "App_SetConfig ?d True pc0 = Some (ret, w')" by (auto simp: safe_def)
  have n: "2 < SYSTEM_NUM_TAG" by (simp add: SYSTEM_NUM_TAG_def)
  have r: "field 103 8 ?d = replicate 8 7" by (simp add: field_def drop_Cons' drop_replicate)
  from SetTag_then_header [OF pc0(1,3) d n w' refl, of "\<lambda>_. 0"] show ?thesis
    using w' r by (auto simp: pc0(2) SYSTEM_NUM_TAG_def)
qed

text \<open>A set command whose length byte does not fit its kind, or of an unknown kind, is refused with a negative code:
  nothing is written and nothing is sent back.\<close>

theorem SetConfig_refuses:
  assumes "2 \<le> length data" "data ! 0 \<noteq> 0x88"
    and "(data ! 0, unat (data ! 1)) \<notin> {(0x82, SCommon_size), (0x83, STag_size + 1), (0x84, SInputPort_size + 1), (0x85, SCtrlPort_size + 1)}"
  shows "\<exists>k < 0. App_SetConfig data serial w = Some (k, w)"
proof -
  have r: "rd data 0 = Some (data ! 0)" "rd data (Suc 0) = Some (data ! 1)" using assms(1) by (auto simp: rd_def)
  show ?thesis using assms(2,3) by (auto simp: App_SetConfig_def set_element_def r)
qed

lemma SetConfig_refuses_witness:
  "\<exists>k < 0. App_SetConfig [0x83, 128, 0] True pc0 = Some (k, pc0)"
  by (rule SetConfig_refuses) (simp_all add: layout_defs)

section \<open>Calibration\<close>

lemma calib_loop_eq:
  assumes "distinct is" "set is \<subseteq> {..<ANALOG_INPUT_NUM_CHANNEL}" "length (sCfg w) = SSysCfg_size"
  shows "\<exists>c. calib_loop fl d2 is save w = (save \<or> d2 \<noteq> 0 \<and> (\<exists>i \<in> set is. aiStatus (sAI w i) = 0), w\<lparr>sCfg := c\<rparr>)
    \<and> length c = SSysCfg_size \<and> take (calib_off 0) c = take (calib_off 0) (sCfg w)
    \<and> (\<forall>i < ANALOG_INPUT_NUM_CHANNEL. field (calib_off i) SCalibNode_size c =
         (if i \<in> set is \<and> aiStatus (sAI w i) = 0 then calib_node fl d2 (field (calib_off i) SCalibNode_size (sCfg w))
          else field (calib_off i) SCalibNode_size (sCfg w)))"
  using assms
proof (induction "is" arbitrary: save w)
  case Nil
  show ?case by (intro exI [of _ "sCfg w"]) (simp add: Nil)
next
  case (Cons j "is")
  show ?case
  proof (cases "aiStatus (sAI w j) = 0")
    case False
    from Cons.IH [of w save] Cons.prems False show ?thesis by auto
  next
    case True
    let ?n = "field (calib_off j) SCalibNode_size (sCfg w)"
    let ?c1 = "put_bytes (calib_off j) (calib_node fl d2 ?n) (sCfg w)"
    let ?w1 = "w\<lparr>sCfg := ?c1\<rparr>"
    have j: "j < 12" using Cons.prems(2) by (simp add: layout_defs)
    have n: "length (calib_node fl d2 ?n) = 20" using j Cons.prems(3) by (simp add: layout_defs)
    have fit: "calib_off j + length (calib_node fl d2 ?n) \<le> length (sCfg w)" using j n Cons.prems(3) by (simp add: layout_defs)
    have l1: "length ?c1 = SSysCfg_size" using fit Cons.prems(3) by (simp add: put_bytes_length)
    from Cons.IH [of ?w1 "if d2 = 0 then save else True"] l1 Cons.prems(1,2) obtain c where c:
      "calib_loop fl d2 is (if d2 = 0 then save else True) ?w1 =
        ((if d2 = 0 then save else True) \<or> d2 \<noteq> 0 \<and> (\<exists>i \<in> set is. aiStatus (sAI w i) = 0), ?w1\<lparr>sCfg := c\<rparr>)"
      "length c = SSysCfg_size" "take (calib_off 0) c = take (calib_off 0) ?c1"
      "\<forall>i < ANALOG_INPUT_NUM_CHANNEL. field (calib_off i) SCalibNode_size c =
         (if i \<in> set is \<and> aiStatus (sAI w i) = 0 then calib_node fl d2 (field (calib_off i) SCalibNode_size ?c1)
          else field (calib_off i) SCalibNode_size ?c1)" by auto
    have low: "take (calib_off 0) ?c1 = take (calib_off 0) (sCfg w)"
      using field_put_other [of 0 "calib_off 0" "calib_off j", OF _ fit] by (simp add: field_def layout_defs)
    have f: "field (calib_off i) SCalibNode_size ?c1 = (if i = j then calib_node fl d2 ?n else field (calib_off i) SCalibNode_size (sCfg w))" for i
    proof (cases "i = j")
      case True
      then show ?thesis using field_put_same [OF fit] n by (simp add: SCalibNode_size_def)
    next
      case False
      then have "calib_off i + SCalibNode_size \<le> calib_off j \<or> calib_off j + length (calib_node fl d2 ?n) \<le> calib_off i"
        using n by (simp add: layout_defs) arith
      then show ?thesis using field_put_other [OF _ fit] False by simp
    qed
    have e: "calib_loop fl d2 (j # is) save w = calib_loop fl d2 is (if d2 = 0 then save else True) ?w1"
      using True by (simp add: calib_node_def Let_def)
    show ?thesis
    proof (intro exI [of _ c] conjI)
      show "calib_loop fl d2 (j # is) save w = (save \<or> d2 \<noteq> 0 \<and> (\<exists>i \<in> set (j # is). aiStatus (sAI w i) = 0), w\<lparr>sCfg := c\<rparr>)"
        unfolding e c(1) using True by simp
      show "\<forall>i < ANALOG_INPUT_NUM_CHANNEL. field (calib_off i) SCalibNode_size c =
         (if i \<in> set (j # is) \<and> aiStatus (sAI w i) = 0 then calib_node fl d2 (field (calib_off i) SCalibNode_size (sCfg w))
          else field (calib_off i) SCalibNode_size (sCfg w))"
        using c(4) True Cons.prems(1) by (auto simp: f)
    qed (use c low in simp_all)
  qed
qed

text \<open>A calibration command changes the calibration of exactly the channels whose last reading was good, one
  node each, and nothing else of the configuration; it is written to the card only at 20 mA and only when such a channel exists.\<close>

theorem Calib_changes_good_channels:
  assumes "length (sCfg w) = SSysCfg_size" "3 \<le> length data"
  shows "\<exists>c. App_CommCalibAi fl data w =
      Some (if data ! 2 \<noteq> 0 \<and> (\<exists>i < ANALOG_INPUT_NUM_CHANNEL. aiStatus (sAI w i) = 0)
            then w\<lparr>sCfg := c, cfgStore := snd (App_SaveConfig c (cfgStore w))\<rparr> else w\<lparr>sCfg := c\<rparr>)
    \<and> length c = SSysCfg_size \<and> take (calib_off 0) c = take (calib_off 0) (sCfg w)
    \<and> (\<forall>i < ANALOG_INPUT_NUM_CHANNEL. field (calib_off i) SCalibNode_size c =
         (let n = field (calib_off i) SCalibNode_size (sCfg w) in
          if aiStatus (sAI w i) \<noteq> 0 then n else if data ! 2 = 0 then calib_4mA fl n else calib_20mA fl n))"
proof -
  have "rd data 2 = Some (data ! 2)" using assms(2) by (simp add: rd_def)
  moreover from calib_loop_eq [of "[0..<ANALOG_INPUT_NUM_CHANNEL]" w fl "data ! 2" False, OF _ _ assms(1)]
  obtain c where "calib_loop fl (data ! 2) [0..<ANALOG_INPUT_NUM_CHANNEL] False w =
      (data ! 2 \<noteq> 0 \<and> (\<exists>i < ANALOG_INPUT_NUM_CHANNEL. aiStatus (sAI w i) = 0), w\<lparr>sCfg := c\<rparr>)"
    "length c = SSysCfg_size" "take (calib_off 0) c = take (calib_off 0) (sCfg w)"
    "\<forall>i < ANALOG_INPUT_NUM_CHANNEL. field (calib_off i) SCalibNode_size c =
         (if aiStatus (sAI w i) = 0 then calib_node fl (data ! 2) (field (calib_off i) SCalibNode_size (sCfg w))
          else field (calib_off i) SCalibNode_size (sCfg w))" by (auto simp: Bex_def atLeast0LessThan)
  ultimately show ?thesis
    by (intro exI [of _ c]) (auto simp: App_CommCalibAi_def calib_node_def Let_def)
qed

lemma Calib_changes_good_channels_witness:
  "\<exists>c. App_CommCalibAi fpu0 [0xA2, 1, 1] pc0 = Some (pc0\<lparr>sCfg := c, cfgStore := snd (App_SaveConfig c (cfgStore pc0))\<rparr>)
     \<and> field (calib_off 3) 20 c = calib_20mA fpu0 (field (calib_off 3) 20 App_GenDefaultConfig)"
proof -
  have some: "\<exists>i. i < (12 :: nat)" by (rule exI [of _ 0]) simp
  from Calib_changes_good_channels [OF pc0(3), of "[0xA2, 1, 1]" fpu0] obtain c where c:
    "App_CommCalibAi fpu0 [0xA2, 1, 1] pc0 = Some (pc0\<lparr>sCfg := c, cfgStore := snd (App_SaveConfig c (cfgStore pc0))\<rparr>)"
    "\<forall>i < ANALOG_INPUT_NUM_CHANNEL. field (calib_off i) SCalibNode_size c = calib_20mA fpu0 (field (calib_off i) SCalibNode_size App_GenDefaultConfig)"
    by (auto simp: pc0 some ANALOG_INPUT_NUM_CHANNEL_def Let_def)
  then have "field (calib_off 3) SCalibNode_size c = calib_20mA fpu0 (field (calib_off 3) SCalibNode_size App_GenDefaultConfig)"
    by (simp add: ANALOG_INPUT_NUM_CHANNEL_def)
  then show ?thesis using c(1) by (auto simp: SCalibNode_size_def)
qed

end
