(* ===== verification/AppStream.thy ===== *)
theory AppStream
  imports AppCommands
begin

text \<open>
  The stream of tag headers over the network, which the sender of the TCP server drives by its callback: what one
  callback does, and what any number of them have sent.
\<close>

section \<open>Free blocks for a header\<close>

text \<open>A header, its message and the message of the TCP server each take a block of 128 bytes.\<close>

definition free128 :: "mem_state \<Rightarrow> nat" where
  "free128 ms = card {i. i < 20 \<and> (P128, i) \<notin> used_blocks ms}"

lemma malloc128:
  assumes "mem_ok ms" "OSA_FixedMemMalloc sz ms = (r, ms')" "64 < unat sz" "unat sz \<le> 128"
  shows "case r of None \<Rightarrow> free128 ms = 0 | Some b \<Rightarrow> fst b = P128 \<and> free128 ms = Suc (free128 ms')"
proof -
  have p: "select_part sz = Some P128" using assms(3,4) by (simp add: select_part_nat)
  note m = Malloc_ok [OF assms(1,2)]
  show ?thesis
  proof (cases r)
    case None
    then have "\<forall>i < 20. (P128, i) \<in> used_blocks ms" using m p by (simp add: used_blocks_def)
    then have "{i. i < 20 \<and> (P128, i) \<notin> used_blocks ms} = {}" by auto
    then show ?thesis using None by (simp only: free128_def card.empty option.case)
  next
    case (Some b)
    then obtain i where b: "b = (P128, i)" "i < 20" "(P128, i) \<notin> used_blocks ms" "used_blocks ms' = insert (P128, i) (used_blocks ms)"
      using m p by (cases b) auto
    let ?A = "{j. j < 20 \<and> (P128, j) \<notin> used_blocks ms'}"
    have "{j. j < 20 \<and> (P128, j) \<notin> used_blocks ms} = insert i ?A" using b by auto
    moreover have "i \<notin> ?A" "finite ?A" using b(4) by auto
    ultimately show ?thesis using Some b(1) by (simp add: free128_def)
  qed
qed

lemma free_free128:
  assumes "mem_ok ms" "b \<in> used_blocks ms" "fst b = P128"
  shows "free128 (OSA_FixedMemFree b ms) = Suc (free128 ms)"
proof -
  obtain i where b: "b = (P128, i)" using assms(3) by (cases b) simp
  have i: "i < 20" using assms(2) by (simp add: b used_blocks_def)
  let ?A = "{j. j < 20 \<and> (P128, j) \<notin> used_blocks ms}"
  have "{j. j < 20 \<and> (P128, j) \<notin> used_blocks (OSA_FixedMemFree b ms)} = insert i ?A"
    using Free_ok [OF assms(1,2)] i b by auto
  moreover have "i \<notin> ?A" "finite ?A" using assms(2) b by auto
  ultimately show ?thesis by (simp add: free128_def)
qed

lemma owned_mem: "owned l w \<Longrightarrow> mem_ok (mem w)" "owned (b # l) w \<Longrightarrow> b \<in> used_blocks (mem w)"
proof -
  show "mem_ok (mem w)" if o: "owned l w"
  proof -
    obtain D C S where "tinv l w D C S" using o unfolding owned_def by blast
    from tinv_store [OF this] show ?thesis by (simp add: store_inv_def)
  qed
  show "b \<in> used_blocks (mem w)" if o: "owned (b # l) w"
  proof -
    obtain D C S where "tinv (b # l) w D C S" using o unfolding owned_def by blast
    from tinv_store [OF this] show ?thesis by (simp add: store_inv_def)
  qed
qed

section \<open>Sending over the network\<close>

lemma tcp_send_eq:
  fixes w :: "'a SApp_scheme"
  assumes "owned l w" "56 < length s" "length s \<le> 120"
  shows "\<exists>r m ps q. tcp_server_send_nonblocking s w = (r, w\<lparr>mem := m, netPosts := ps, netQueue := q\<rparr>)
    \<and> (map snd q = map snd (netQueue w) \<or> map snd q = map snd (netQueue w) @ [s])
    \<and> (netConnected w \<and> netPosts w = [] \<and> 0 < free128 (mem w) \<longrightarrow>
         ps = [] \<and> map snd q = map snd (netQueue w) @ [s] \<and> Suc (free128 m) = free128 (mem w))"
proof -
  obtain r ms where m: "OSA_FixedMemMalloc (8 + of_nat (length s)) (mem w) = (r, ms)" by fastforce
  have "unat (8 + of_nat (length s) :: u32) = 8 + length s" using assms(3) by (simp add: unat_word_ariths unat_of_nat)
  then have f: "case r of None \<Rightarrow> free128 (mem w) = 0 | Some b \<Rightarrow> fst b = P128 \<and> free128 (mem w) = Suc (free128 ms)"
    using malloc128 [OF owned_mem(1) [OF assms(1)] m] assms(2,3) by simp
  have same: "w = w\<lparr>mem := mem w, netPosts := netPosts w, netQueue := netQueue w\<rparr>" by simp
  have "netPosts w = [] \<or> hd (netPosts w) \<or> (\<exists>ps. netPosts w = False # ps)" by (cases "netPosts w") auto
  then consider "\<not> netConnected w" | "netConnected w" "r = None" | b ps where "netConnected w" "r = Some b" "netPosts w = False # ps"
    | b where "netConnected w" "r = Some b" "netPosts w = [] \<or> hd (netPosts w)"
    by (cases r) blast+
  then show ?thesis
  proof cases
    case 1
    then have "tcp_server_send_nonblocking s w = (- 3, w\<lparr>mem := mem w, netPosts := netPosts w, netQueue := netQueue w\<rparr>)"
      by (simp add: tcp_server_send_nonblocking_def)
    then show ?thesis using 1 by blast
  next
    case 2
    then have "tcp_server_send_nonblocking s w = (- 1, w\<lparr>mem := ms, netPosts := netPosts w, netQueue := netQueue w\<rparr>)"
      by (simp add: tcp_server_send_nonblocking_def m)
    then show ?thesis using 2 f by fastforce
  next
    case (3 b ps)
    then have "tcp_server_send_nonblocking s w = (- 2, w\<lparr>mem := ms, netPosts := ps, netQueue := netQueue w\<rparr>)"
      by (simp add: tcp_server_send_nonblocking_def m)
    then show ?thesis using 3 by fastforce
  next
    case (4 b)
    then have "tcp_server_send_nonblocking s w = (0, w\<lparr>mem := ms, netPosts := tl (netPosts w), netQueue := netQueue w @ [(b, s)]\<rparr>)"
      by (cases "netPosts w") (auto simp: tcp_server_send_nonblocking_def m)
    then show ?thesis using 4 f by fastforce
  qed
qed

lemma net_send_eq:
  fixes w :: "'a SApp_scheme"
  assumes o: "owned l w" and fit: "unat n \<le> length bs" "62 < unat n" "unat n \<le> 118"
  shows "\<exists>m ps q. map_option snd (App_SendPCNetworkClient c (Some bs) n w) = Some (w\<lparr>mem := m, netPosts := ps, netQueue := q\<rparr>)
    \<and> (map snd q = map snd (netQueue w) \<or> map snd q = map snd (netQueue w) @ [c # n # take (unat n) bs])
    \<and> (netConnected w \<and> netPosts w = [] \<and> 1 < free128 (mem w) \<longrightarrow>
         ps = [] \<and> map snd q = map snd (netQueue w) @ [c # n # take (unat n) bs] \<and> Suc (free128 m) = free128 (mem w))"
proof -
  let ?s = "c # n # take (unat n) bs"
  obtain r ms where m: "OSA_FixedMemMalloc (ucast n + 2) (mem w) = (r, ms)" by fastforce
  have len: "length ?s = unat n + 2" using fit(1) by simp
  have "unat (ucast n + 2 :: u32) = unat n + 2"
  proof -
    have "unat (ucast n :: u32) = unat n" 
      unfolding unsigned_ucast_eq by (rule take_bit_nat_eq_self) (rule less_trans [OF unat_u8_less], simp)
    then show ?thesis using fit(3) by (simp add: unat_word_ariths)
  qed
  then have f: "case r of None \<Rightarrow> free128 (mem w) = 0 | Some b \<Rightarrow> fst b = P128 \<and> free128 (mem w) = Suc (free128 ms)"
    using malloc128 [OF owned_mem(1) [OF o] m] fit by simp
  note a = malloc_owned [OF o m]
  show ?thesis
  proof (cases r)
    case None
    then have "map_option snd (App_SendPCNetworkClient c (Some bs) n w) = Some (w\<lparr>mem := ms, netPosts := netPosts w, netQueue := netQueue w\<rparr>)"
      by (simp add: App_SendPCNetworkClient_def m)
    moreover have "free128 (mem w) = 0" using None f by simp
    ultimately show ?thesis by (metis not_less_zero)
  next
    case (Some b)
    let ?w1 = "w\<lparr>mem := ms\<rparr>"
    have o1: "owned (b # l) ?w1" using a Some by simp
    from tcp_send_eq [OF o1, of ?s] obtain r' m' ps q where t:
      "tcp_server_send_nonblocking ?s ?w1 = (r', ?w1\<lparr>mem := m', netPosts := ps, netQueue := q\<rparr>)"
      "map snd q = map snd (netQueue w) \<or> map snd q = map snd (netQueue w) @ [?s]"
      "netConnected w \<and> netPosts w = [] \<and> 0 < free128 ms \<longrightarrow>
         ps = [] \<and> map snd q = map snd (netQueue w) @ [?s] \<and> Suc (free128 m') = free128 ms" using len fit by auto
    have o2: "owned (b # l) (?w1\<lparr>mem := m', netPosts := ps, netQueue := q\<rparr>)"
      using keeps_owned [OF tcp_send_keeps [OF o1, of ?s]] t(1) by simp
    from owned_mem [OF this] f Some have fr: "free128 (OSA_FixedMemFree b m') = Suc (free128 m')"
      by (simp add: free_free128 owned_mem(2) [OF o2, simplified])
    have "map_option snd (App_SendPCNetworkClient c (Some bs) n w)
        = Some (w\<lparr>mem := OSA_FixedMemFree b m', netPosts := ps, netQueue := q\<rparr>)"
      using m Some t(1) fit(1) by (simp add: App_SendPCNetworkClient_def sdata_bytes_def rd_n_def)
    moreover have "Suc (free128 (OSA_FixedMemFree b m')) = free128 (mem w)" if "Suc (free128 m') = free128 ms"
      using fr f Some that by simp
    moreover have "0 < free128 ms" if "1 < free128 (mem w)" using f Some that by simp
    ultimately show ?thesis using t(2,3) by blast
  qed
qed

section \<open>One callback\<close>

lemma CTRL_SEND_HEADER_set: "(x OR CTRL_SEND_HEADER) AND CTRL_SEND_HEADER \<noteq> 0"
  by (simp add: CTRL_SEND_HEADER_def word_bw_lcs)

text \<open>The message of the header of tag \<open>k\<close>.\<close>

abbreviation header_msg :: "'a SApp_scheme \<Rightarrow> nat \<Rightarrow> u8 list" where
  "header_msg w k \<equiv> 0x30 # 65 # tag_header (sCfg w) k (poolJunk w)"

lemma net_header_step:
  fixes w :: "'a SApp_scheme"
  assumes o: "owned l w" and fl: "eCtrlCode w AND CTRL_SEND_HEADER \<noteq> 0" and k: "unat (pcCounter w) < SYSTEM_NUM_TAG"
  shows "\<exists>w'. Clb_NetTcpServerSentData w = Some w' \<and> owned l w' \<and> sCfg w' = sCfg w \<and> poolJunk w' = poolJunk w
    \<and> eCtrlCode w' AND CTRL_SEND_HEADER \<noteq> 0 \<and> netConnected w' = netConnected w
    \<and> (pcCounter w' = pcCounter w \<and> netQueue w' = netQueue w
       \<or> pcCounter w' = pcCounter w + 1 \<and> (map snd (netQueue w') = map snd (netQueue w)
           \<or> map snd (netQueue w') = map snd (netQueue w) @ [header_msg w (unat (pcCounter w))]))
    \<and> (netConnected w \<and> netPosts w = [] \<and> 2 < free128 (mem w) \<longrightarrow>
         netPosts w' = [] \<and> pcCounter w' = pcCounter w + 1 \<and> Suc (free128 (mem w')) = free128 (mem w)
         \<and> map snd (netQueue w') = map snd (netQueue w) @ [header_msg w (unat (pcCounter w))])"
proof -
  obtain r ms where m: "OSA_FixedMemMalloc (of_nat (STagHeader_size + 1)) (mem w) = (r, ms)" by fastforce
  have n: "(of_nat (STagHeader_size + 1) :: u32) = 65" "(of_nat (STagHeader_size + 1) :: u8) = 65" by (simp_all add: STagHeader_size_def)
  have f: "case r of None \<Rightarrow> free128 (mem w) = 0 | Some b \<Rightarrow> fst b = P128 \<and> free128 (mem w) = Suc (free128 ms)"
    using malloc128 [OF owned_mem(1) [OF o] m [unfolded n]] by simp
  note a = malloc_owned [OF o m]
  have sf: "safe l w (Clb_NetTcpServerSentData w)"
    unfolding Clb_NetTcpServerSentData_def by (rule net_stream_safe [OF o])
  show ?thesis
  proof (cases r)
    case None
    then have "Clb_NetTcpServerSentData w = Some (w\<lparr>mem := ms\<rparr>)"
      using fl k m by (simp add: Clb_NetTcpServerSentData_def stream_header_def n)
    then show ?thesis using sf None f fl by (simp add: safe_def keeps_owned)
  next
    case (Some b)
    let ?w1 = "w\<lparr>mem := ms\<rparr>" and ?h = "tag_header (sCfg w) (unat (pcCounter w)) (poolJunk w)"
    have o1: "owned (b # l) ?w1" using a Some by simp
    have lh: "length ?h = 65" by (simp add: STagHeader_size_def)
    from net_send_eq [OF o1, of 65 ?h "0x30"] lh obtain m' ps q where t:
      "map_option snd (App_SendPCNetworkClient 0x30 (Some ?h) 65 ?w1) = Some (?w1\<lparr>mem := m', netPosts := ps, netQueue := q\<rparr>)"
      "map snd q = map snd (netQueue w) \<or> map snd q = map snd (netQueue w) @ [0x30 # 65 # ?h]"
      "netConnected w \<and> netPosts w = [] \<and> 1 < free128 ms \<longrightarrow>
         ps = [] \<and> map snd q = map snd (netQueue w) @ [0x30 # 65 # ?h] \<and> Suc (free128 m') = free128 ms" by auto
    have o2: "owned (b # l) (?w1\<lparr>mem := m', netPosts := ps, netQueue := q\<rparr>)"
    proof (rule keeps_owned)
      show "keeps (b # l) ?w1 (?w1\<lparr>mem := m', netPosts := ps, netQueue := q\<rparr>)"
        using net_safe [OF o1, of "Some ?h" 65 "0x30"] t(1) lh by (simp add: msg_fits_def safe_def)
    qed
    then have fr: "free128 (OSA_FixedMemFree b m') = Suc (free128 m')"
      using owned_mem(1) [OF o2] owned_mem(2) [OF o2] f Some by (simp add: free_free128)
    have w': "Clb_NetTcpServerSentData w = Some (w\<lparr>netPosts := ps, netQueue := q, eCtrlCode := eCtrlCode w OR CTRL_SEND_HEADER,
        pcCounter := pcCounter w + 1, mem := OSA_FixedMemFree b m'\<rparr>)" (is "_ = Some ?w'")
      using fl k m [unfolded n] Some t(1)
      by (simp add: Clb_NetTcpServerSentData_def stream_header_def [unfolded n] del: map_option_eq_Some)
    then have "owned l ?w'" using sf by (auto simp: safe_def keeps_owned)
    then show ?thesis using w' t(2,3) fr f Some CTRL_SEND_HEADER_set by simp
  qed
qed

section \<open>Any number of callbacks\<close>

fun sent_events :: "nat \<Rightarrow> 'a SApp_scheme \<Rightarrow> 'a SApp_scheme option" where
  "sent_events 0 w = Some w"
| "sent_events (Suc n) w = Option.bind (Clb_NetTcpServerSentData w) (sent_events n)"

lemma sent_events_off:
  assumes "eCtrlCode w AND CTRL_SEND_HEADER = 0"
  shows "sent_events n w = Some w"
  by (induction n) (simp_all add: Clb_NetTcpServerSentData_def stream_header_def assms)

lemma stream_ends:
  assumes "eCtrlCode w AND CTRL_SEND_HEADER \<noteq> 0" "SYSTEM_NUM_TAG \<le> unat (pcCounter w)"
  shows "Clb_NetTcpServerSentData w = Some (w\<lparr>eCtrlCode := eCtrlCode w AND NOT CTRL_SEND_HEADER, pcCounter := 0\<rparr>)"
  using assms by (simp add: Clb_NetTcpServerSentData_def stream_header_def)

lemma CTRL_SEND_HEADER_clear [simp]: "(x AND NOT CTRL_SEND_HEADER) AND CTRL_SEND_HEADER = 0"
  by (simp add: and.assoc)

lemma next_counter: "unat (k :: u32) < SYSTEM_NUM_TAG \<Longrightarrow> unat (k + 1) = Suc (unat k)"
  by (rule unat_Suc_word) (simp add: SYSTEM_NUM_TAG_def)

lemma header_stream:
  fixes w :: "'a SApp_scheme"
  assumes "owned l w" "eCtrlCode w AND CTRL_SEND_HEADER \<noteq> 0"
  shows "\<exists>w' ks. sent_events n w = Some w' \<and> map snd (netQueue w') = map snd (netQueue w) @ map (header_msg w) ks
    \<and> sorted_wrt (<) ks \<and> set ks \<subseteq> {unat (pcCounter w)..<SYSTEM_NUM_TAG}"
  using assms
proof (induction n arbitrary: w)
  case 0
  show ?case by (intro exI [of _ w] exI [of _ "[]"]) simp
next
  case (Suc n)
  show ?case
  proof (cases "unat (pcCounter w) < SYSTEM_NUM_TAG")
    case True
    from net_header_step [OF Suc.prems True] obtain w1 where w1: "Clb_NetTcpServerSentData w = Some w1" "owned l w1"
      "sCfg w1 = sCfg w" "poolJunk w1 = poolJunk w" "eCtrlCode w1 AND CTRL_SEND_HEADER \<noteq> 0"
      "pcCounter w1 = pcCounter w \<and> netQueue w1 = netQueue w \<or> pcCounter w1 = pcCounter w + 1 \<and>
        (map snd (netQueue w1) = map snd (netQueue w) \<or> map snd (netQueue w1) = map snd (netQueue w) @ [header_msg w (unat (pcCounter w))])"
      by blast
    from Suc.IH [OF w1(2,5)] obtain w' ks where w': "sent_events n w1 = Some w'"
      "map snd (netQueue w') = map snd (netQueue w1) @ map (header_msg w1) ks" "sorted_wrt (<) ks"
      "set ks \<subseteq> {unat (pcCounter w1)..<SYSTEM_NUM_TAG}" by blast
    have h: "header_msg w1 = header_msg w" using w1(3,4) by auto
    have c: "unat (pcCounter w + 1) = Suc (unat (pcCounter w))" by (rule next_counter [OF True])
    from w1(6) show ?thesis
    proof (elim disjE conjE)
      assume "pcCounter w1 = pcCounter w" "netQueue w1 = netQueue w"
      then show ?thesis using w1(1) w' h by (intro exI [of _ w'] exI [of _ ks]) simp
    next
      assume "pcCounter w1 = pcCounter w + 1" "map snd (netQueue w1) = map snd (netQueue w)"
      then show ?thesis using w1(1) w' h c by (intro exI [of _ w'] exI [of _ ks]) auto
    next
      assume "pcCounter w1 = pcCounter w + 1" "map snd (netQueue w1) = map snd (netQueue w) @ [header_msg w (unat (pcCounter w))]"
      then show ?thesis using w1(1) w' h c True by (intro exI [of _ w'] exI [of _ "unat (pcCounter w) # ks"]) auto
    qed
  next
    case False
    let ?w1 = "w\<lparr>eCtrlCode := eCtrlCode w AND NOT CTRL_SEND_HEADER, pcCounter := 0\<rparr>"
    have "sent_events (Suc n) w = Some ?w1"
      using stream_ends [OF Suc.prems(2)] False sent_events_off [of ?w1 n] by simp
    then show ?thesis by (intro exI [of _ ?w1] exI [of _ "[]"]) simp
  qed
qed

lemma header_stream_all:
  fixes w :: "'a SApp_scheme"
  assumes "owned l w" "eCtrlCode w AND CTRL_SEND_HEADER \<noteq> 0" "netConnected w" "netPosts w = []"
    and "unat (pcCounter w) + m = SYSTEM_NUM_TAG" "m + 2 \<le> free128 (mem w)"
  shows "\<exists>w'. sent_events (Suc m) w = Some w' \<and> eCtrlCode w' AND CTRL_SEND_HEADER = 0 \<and> pcCounter w' = 0
    \<and> map snd (netQueue w') = map snd (netQueue w) @ map (header_msg w) [unat (pcCounter w)..<SYSTEM_NUM_TAG]"
  using assms
proof (induction m arbitrary: w)
  case 0
  then show ?case using stream_ends [OF 0(2)] by simp
next
  case (Suc m)
  have k: "unat (pcCounter w) < SYSTEM_NUM_TAG" using Suc.prems(5) by linarith
  have "2 < free128 (mem w)" using Suc.prems(6) by simp
  then obtain w1 where w1: "Clb_NetTcpServerSentData w = Some w1" "owned l w1"
    "sCfg w1 = sCfg w" "poolJunk w1 = poolJunk w" "eCtrlCode w1 AND CTRL_SEND_HEADER \<noteq> 0" "netConnected w1" "netPosts w1 = []"
    "pcCounter w1 = pcCounter w + 1" "Suc (free128 (mem w1)) = free128 (mem w)"
    "map snd (netQueue w1) = map snd (netQueue w) @ [header_msg w (unat (pcCounter w))]"
    using net_header_step [OF Suc.prems(1,2) k] Suc.prems(3,4) by auto
  have c: "unat (pcCounter w1) = Suc (unat (pcCounter w))" using next_counter [OF k] w1(8) by simp
  have h: "header_msg w1 = header_msg w" using w1(3,4) by auto
  from Suc.IH [OF w1(2,5-7)] c w1(9) Suc.prems(5,6) obtain w' where "sent_events (Suc m) w1 = Some w'"
    "eCtrlCode w' AND CTRL_SEND_HEADER = 0" "pcCounter w' = 0"
    "map snd (netQueue w') = map snd (netQueue w1) @ map (header_msg w1) [Suc (unat (pcCounter w))..<SYSTEM_NUM_TAG]" by auto
  then show ?case using w1(1,10) h k by (intro exI [of _ w']) (simp add: upt_conv_Cons)
qed

text \<open>The command for the headers sends nothing itself: it arms the stream.\<close>

lemma GetHeader_arms:
  assumes "1 \<le> length data" "data ! 0 = 0x30"
  shows "App_NetRecvHandle fl data w = Some (w\<lparr>pcCounter := 0, eCtrlCode := eCtrlCode w OR CTRL_SEND_HEADER\<rparr>)"
  using assms by (cases data) (auto simp: App_NetRecvHandle_def recv_handle_def rd_def)

text \<open>After the command for the tag headers over the network, however many callbacks of the sender run and whatever
  allocations and posts fail, the messages queued are headers of tags in increasing order, none twice.\<close>

theorem Header_stream_in_order:
  assumes "owned l w" "1 \<le> length data" "data ! 0 = 0x30"
  shows "\<exists>w' ks. Option.bind (App_NetRecvHandle fl data w) (sent_events n) = Some w'
    \<and> map snd (netQueue w') = map snd (netQueue w) @ map (header_msg w) ks
    \<and> sorted_wrt (<) ks \<and> set ks \<subseteq> {..<SYSTEM_NUM_TAG}"
proof -
  let ?w = "w\<lparr>pcCounter := 0, eCtrlCode := eCtrlCode w OR CTRL_SEND_HEADER\<rparr>"
  have "owned l ?w" "eCtrlCode ?w AND CTRL_SEND_HEADER \<noteq> 0" using assms(1) CTRL_SEND_HEADER_set by simp_all
  from header_stream [OF this, of n] obtain w' ks where "sent_events n ?w = Some w'"
    "map snd (netQueue w') = map snd (netQueue w) @ map (header_msg w) ks" "sorted_wrt (<) ks" "set ks \<subseteq> {0..<SYSTEM_NUM_TAG}"
    by auto
  then show ?thesis
    by (intro exI [of _ w'] exI [of _ ks]) (simp add: GetHeader_arms [OF assms(2,3)] lessThan_atLeast0)
qed

lemma Header_stream_in_order_witness:
  "\<exists>w' ks. Option.bind (App_NetRecvHandle fpu0 (replicate 512 0x30) pc0) (sent_events 100) = Some w'
    \<and> map snd (netQueue w') = map (header_msg pc0) ks \<and> sorted_wrt (<) ks"
  using Header_stream_in_order [OF pc0(1), of "replicate 512 0x30" fpu0 100] by (auto simp: pc0(6))

text \<open>While the connection stands, the sender's queue takes every message and fourteen blocks are free, the command for
  the headers makes the next thirteen callbacks send the header of every tag once, in order, and end the stream.\<close>

theorem Header_stream_complete:
  assumes "owned l w" "1 \<le> length data" "data ! 0 = 0x30" "netConnected w" "netPosts w = []" "14 \<le> free128 (mem w)"
  shows "\<exists>w'. Option.bind (App_NetRecvHandle fl data w) (sent_events 13) = Some w' \<and> eCtrlCode w' AND CTRL_SEND_HEADER = 0
    \<and> map snd (netQueue w') = map snd (netQueue w) @ map (header_msg w) [0..<SYSTEM_NUM_TAG]"
proof -
  let ?w = "w\<lparr>pcCounter := 0, eCtrlCode := eCtrlCode w OR CTRL_SEND_HEADER\<rparr>"
  have o: "owned l ?w" "eCtrlCode ?w AND CTRL_SEND_HEADER \<noteq> 0" using assms(1) CTRL_SEND_HEADER_set by simp_all
  have "\<exists>w'. sent_events (Suc 12) ?w = Some w' \<and> eCtrlCode w' AND CTRL_SEND_HEADER = 0 \<and> pcCounter w' = 0
    \<and> map snd (netQueue w') = map snd (netQueue ?w) @ map (header_msg ?w) [unat (pcCounter ?w)..<SYSTEM_NUM_TAG]"
    by (rule header_stream_all [OF o]) (use assms(4-6) in \<open>simp_all add: SYSTEM_NUM_TAG_def\<close>)
  then show ?thesis by (auto simp: GetHeader_arms [OF assms(2,3)] simp del: sent_events.simps)
qed

lemma free128_start: "used_blocks ms = {(P272, 0)} \<Longrightarrow> free128 ms = 20"
  by (simp add: free128_def)

lemma Header_stream_complete_witness:
  "\<exists>w'. Option.bind (App_NetRecvHandle fpu0 (replicate 512 0x30) pc0) (sent_events 13) = Some w'
    \<and> map snd (netQueue w') = map (header_msg pc0) [0..<12]"
  using Header_stream_complete [OF pc0(1), of "replicate 512 0x30" fpu0] free128_start [OF pc0(9)]
  by (simp add: pc0 SYSTEM_NUM_TAG_def del: sent_events.simps upt_Suc) blast

end
