(* ===== verification/AppNode.thy ===== *)
theory AppNode
  imports AppStream
begin

text \<open>
  The two serial ports as nodes: transport layer 3 with the application on top, from power-up on, while the network
  task and the timer use the same pool and the other tasks change the application's data at will.  A locale states what
  a port is; the PC port and the port of the display interpret it.
\<close>

section \<open>A port and its reachable states\<close>

text \<open>
  The start is that of the port's task, with any configuration and any data.  Between two steps of the layer another
  operation of the application may run, and the tasks that measure, the network and the file system may have changed
  every field of the application.
\<close>

inductive port_reachable :: "SApp l3_clbs \<Rightarrow> (SApp \<Rightarrow> SApp option) set \<Rightarrow> SApp \<Rightarrow> bool"
  for app :: "SApp l3_clbs" and ops :: "(SApp \<Rightarrow> SApp option) set" where
  port_boot: "port_reachable app ops (l3_boot app x port baud)"
| port_step: "port_reachable app ops w \<Longrightarrow> l3_step app w w' \<Longrightarrow> port_reachable app ops w'"
| port_oper: "port_reachable app ops w \<Longrightarrow> f \<in> ops \<Longrightarrow> f w = Some w' \<Longrightarrow> port_reachable app ops w'"
| port_others: "port_reachable app ops w \<Longrightarrow> port_reachable app ops (STrans.more_update (\<lambda>_. x) w)"

lemma owned_others [simp]: "owned l (STrans.more_update (\<lambda>_. x) w) = owned l w"
  by (simp add: owned_def tinv_def rx_held_def tx_held_def qs_of_def rx_ok_def tx_ok_def clbs_on_def frm_def)

locale port = l3_app app for app :: "SApp l3_clbs" +
  fixes ops :: "(SApp \<Rightarrow> SApp option) set"
  assumes ops_safe: "f \<in> ops \<Longrightarrow> owned [] w \<Longrightarrow> safe [] w (f w)"
begin

lemma port_owned: "port_reachable app ops w \<Longrightarrow> owned [] w"
proof (induction rule: port_reachable.induct)
  case (port_boot x port baud)
  show ?case unfolding owned_def by (intro exI) (rule l3_boot_start(1))
next
  case (port_step w w')
  then show ?case using step_owned by blast
next
  case (port_oper w f w')
  then show ?case using ops_safe [of f w] by (auto simp: safe_def keeps_owned)
qed simp

lemma port_runs:
  assumes "port_reachable app ops w"
  shows "\<exists>w'. Trans_SendTask app w = Some w' \<and> owned [] w'"
    and "hL1TimeOutTimer w \<Longrightarrow> Clb_L1TimeOutTimer (l3_l2_clbs app) w \<noteq> None"
    and "f \<in> ops \<Longrightarrow> \<exists>w'. f w = Some w' \<and> owned [] w'"
proof -
  have o: "owned [] w" by (rule port_owned [OF assms])
  show "\<exists>w'. Trans_SendTask app w = Some w' \<and> owned [] w'" by (rule SendTask_owned [OF o])
  show "hL1TimeOutTimer w \<Longrightarrow> Clb_L1TimeOutTimer (l3_l2_clbs app) w \<noteq> None" using L1TimeOut_owned [OF o] by blast
  show "f \<in> ops \<Longrightarrow> \<exists>w'. f w = Some w' \<and> owned [] w'" using ops_safe [of f, OF _ o] keeps_owned by (fastforce simp: safe_def)
qed

end

section \<open>The two ports\<close>

text \<open>The receive buffer of the TCP server has 512 bytes and is not cleared between two segments.\<close>

definition pc_ops :: "fpu \<Rightarrow> (SApp \<Rightarrow> SApp option) set" where
  "pc_ops fl = insert Clb_NetTcpServerSentData {Clb_NetTcpServerRecvData fl d | d. length d = 512}"

interpretation pc_port: port "pc_clbs fl" "pc_ops fl" for fl
proof
  fix f :: "SApp \<Rightarrow> SApp option" and w :: SApp
  assume f: "f \<in> pc_ops fl" and o: "owned [] w"
  consider "f = Clb_NetTcpServerSentData" | d where "f = Clb_NetTcpServerRecvData fl d" "length d = 512"
    using f by (auto simp: pc_ops_def)
  then show "safe [] w (f w)"
  proof cases
    case 1
    show ?thesis unfolding 1 Clb_NetTcpServerSentData_def by (rule net_stream_safe [OF o])
  next
    case 2
    then show ?thesis using App_NetRecvHandle_safe [OF o, of d fl] by (simp add: Clb_NetTcpServerRecvData_def)
  qed
qed

interpretation ui_app: l3_app "ui_clbs :: SApp l3_clbs"
  by unfold_locales (simp_all add: ui_clbs_def Clb_TransUI_RecvEvent_def Clb_TransUI_SentEvent_def)

interpretation ui_port: port ui_clbs "{Clb_TimerControl}"
  by unfold_locales (use Clb_TimerControl_safe in auto)

section \<open>Properties\<close>

text \<open>C1: whatever frames, TCP segments, timers and interrupts arrive and whatever the other tasks write, in every
  reachable state of the PC port the frame buffers are owned once: the three queues are well-formed lists, no
  buffer is in two places, none in use has been given back, and the allocator's structures are intact.\<close>

theorem PC_owns_buffers:
  assumes "port_reachable (pc_clbs fl) (pc_ops fl) w"
  shows "\<exists>D C S. queue_rel (qSendingData w) (mem w) D \<and> queue_rel (qSendingCMD w) (mem w) C \<and> queue_rel (qSentQueue w) (mem w) S
    \<and> distinct (rx_held w @ tx_held w @ D @ C @ S) \<and> set (rx_held w @ tx_held w @ D @ C @ S) \<subseteq> used_blocks (mem w)
    \<and> mem_ok (mem w)"
  by (rule owned_summary [OF pc_port.port_owned [OF assms]])

lemma PC_owns_buffers_witness:
  "\<exists>D C S. distinct (rx_held (Clb_UpdateTimer pc0) @ tx_held (Clb_UpdateTimer pc0) @ D @ C @ S)
     \<and> queue_rel (qSentQueue (Clb_UpdateTimer pc0)) (mem (Clb_UpdateTimer pc0)) S"
proof -
  have "port_reachable (pc_clbs fpu0) (pc_ops fpu0) pc0" unfolding pc0_def by (rule port_boot)
  from PC_owns_buffers [OF port_step [OF this l3_step.tick]] show ?thesis by blast
qed





section \<open>The display\<close>

lemma more_timer:
  "STrans.more a = STrans.more b \<Longrightarrow> uiCounter a = uiCounter b \<and> timerCounter a = timerCounter b \<and> sDateTime a = sDateTime b"
  by (cases a; cases b) simp

lemma ui_block_more:
  fixes w :: "'a SApp_scheme"
  assumes "owned l w" "\<And>w :: 'a SApp_scheme. msg_fits (Some (d w)) n"
    and g: "\<And>a b :: 'a SApp_scheme. STrans.more a = STrans.more b \<Longrightarrow> STrans.more (g a) = STrans.more (g b)"
    and r: "(let (r, ms) = OSA_FixedMemMalloc k (mem w); w = w\<lparr>mem := ms\<rparr> in
      case r of None \<Rightarrow> Some w | Some b \<Rightarrow> do {
        (ret, w) \<leftarrow> App_SendUI c (Some (d w)) n False w;
        Some (g (w\<lparr>mem := OSA_FixedMemFree b (mem w)\<rparr>)) }) = Some w'"
  shows "STrans.more w' = STrans.more w \<or> STrans.more w' = STrans.more (g w)"
proof -
  obtain r ms where m: "OSA_FixedMemMalloc k (mem w) = (r, ms)" by fastforce
  show ?thesis
  proof (cases r)
    case None
    then show ?thesis using assms(4) m by auto
  next
    case (Some b)
    have "owned (b # l) (w\<lparr>mem := ms\<rparr>)" using malloc_owned [OF assms(1) m] Some by simp
    from send_message_more [OF this assms(2)] obtain ret v where v: "App_SendUI c (Some (d (w\<lparr>mem := ms\<rparr>))) n False (w\<lparr>mem := ms\<rparr>) = Some (ret, v)"
      "STrans.more v = STrans.more w" unfolding App_SendUI_def by fastforce
    then have "w' = g (v\<lparr>mem := OSA_FixedMemFree b (mem v)\<rparr>)" using assms(4) m Some by auto
    then show ?thesis using g [of "v\<lparr>mem := OSA_FixedMemFree b (mem v)\<rparr>" w] v(2) by simp
  qed
qed

lemma Clb_TimerControl_more:
  fixes w :: "'a SApp_scheme"
  assumes o: "owned l w" and r: "Clb_TimerControl w = Some w'"
  shows "timerCounter w' = timerCounter w + 1 \<and> sDateTime w' = App_GenerateFakeTime (sDateTime w)
    \<and> (let k = (if timerCounter w mod 15 = 0 then 0 else uiCounter w) in
       uiCounter w' = k \<or> unat k < SYSTEM_NUM_TAG \<and> uiCounter w' = k + 1)"
proof -
  let ?w0 = "w\<lparr>sDateTime := App_GenerateFakeTime (sDateTime w)\<rparr>"
  obtain w1 w2 where w1: "(if timerCounter ?w0 mod 15 = 0 then (let w = ?w0\<lparr>uiCounter := 0\<rparr>;
        (r, ms) = OSA_FixedMemMalloc (of_nat SSystemStatus_size) (mem w); w = w\<lparr>mem := ms\<rparr> in
      case r of None \<Rightarrow> Some w | Some b \<Rightarrow> do {
        (ret, w) \<leftarrow> App_SendUI 0x09 (Some (replicate 4 0 @ struct_tm (sDateTime w) (tmRest w))) (of_nat SSystemStatus_size) False w;
        Some (w\<lparr>mem := OSA_FixedMemFree b (mem w)\<rparr>) }) else Some ?w0) = Some w1"
    and w2: "(if unat (uiCounter w1) < SYSTEM_NUM_TAG then
        (let (r, ms) = OSA_FixedMemMalloc (of_nat (STagHeader_size + 1)) (mem w1); w = w1\<lparr>mem := ms\<rparr> in
         case r of None \<Rightarrow> Some w | Some b \<Rightarrow> do {
           (ret, w) \<leftarrow> App_SendUI 0x30 (Some (tag_header (sCfg w) (unat (uiCounter w)) (poolJunk w))) (of_nat (STagHeader_size + 1)) False w;
           let w = w\<lparr>mem := OSA_FixedMemFree b (mem w)\<rparr>;
           Some (w\<lparr>uiCounter := uiCounter w + 1\<rparr>) })
      else (let (r, ms) = OSA_FixedMemMalloc (of_nat STagVArray_size) (mem w1); w = w1\<lparr>mem := ms\<rparr> in
         case r of None \<Rightarrow> Some w | Some b \<Rightarrow> do {
           (ret, w) \<leftarrow> App_SendUI 0x31 (Some (value_bytes (sTagValue w) (poolJunk w))) (of_nat STagVArray_size) False w;
           Some (w\<lparr>mem := OSA_FixedMemFree b (mem w)\<rparr>) })) = Some w2"
    and w': "w' = w2\<lparr>timerCounter := timerCounter w2 + 1\<rparr>"
    using r unfolding Clb_TimerControl_def Let_def [of ?w0] Option.bind_eq_Some_conv by auto
  have o0: "owned l ?w0" using o by simp
  have t1: "STrans.more w1 = STrans.more (if timerCounter w mod 15 = 0 then ?w0\<lparr>uiCounter := 0\<rparr> else ?w0) \<and> owned l w1"
  proof (cases "timerCounter w mod 15 = 0")
    case True
    let ?v = "?w0\<lparr>uiCounter := 0\<rparr>"
    have ov: "owned l ?v" using o by simp
    have e: "(let (r, ms) = OSA_FixedMemMalloc (of_nat SSystemStatus_size) (mem ?v); w = ?v\<lparr>mem := ms\<rparr> in
      case r of None \<Rightarrow> Some w | Some b \<Rightarrow> do {
        (ret, w) \<leftarrow> App_SendUI 0x09 (Some (replicate 4 0 @ struct_tm (sDateTime w) (tmRest w))) (of_nat SSystemStatus_size) False w;
        Some (w\<lparr>mem := OSA_FixedMemFree b (mem w)\<rparr>) }) = Some w1"
      using w1 True unfolding Let_def [of ?v] by simp
    have "STrans.more w1 = STrans.more ?v"
      using ui_block_more [where g = "\<lambda>w. w", OF ov answers_fit(7) _ e] by simp
    moreover have "safe l ?v (Some w1)"
      unfolding e [symmetric] by (rule ui_block_safe [where g = "\<lambda>w. w", OF ov answers_fit(7)]) (simp_all add: keeps_refl)
    ultimately show ?thesis using True by (simp add: safe_def keeps_owned)
  next
    case False
    then show ?thesis using w1 o by auto
  qed
  have t2: "STrans.more w2 = STrans.more w1 \<or> unat (uiCounter w1) < SYSTEM_NUM_TAG \<and> STrans.more w2 = STrans.more (w1\<lparr>uiCounter := uiCounter w1 + 1\<rparr>)"
  proof (cases "unat (uiCounter w1) < SYSTEM_NUM_TAG")
    case True
    let ?g = "\<lambda>w :: 'a SApp_scheme. w\<lparr>uiCounter := uiCounter w + 1\<rparr>"
    have g: "STrans.more (?g a) = STrans.more (?g b)" if "STrans.more a = STrans.more b" for a b :: "'a SApp_scheme"
      using that by (cases a; cases b) simp
    note w2 [unfolded if_P [OF True] Let_def]
    from ui_block_more [where g = ?g, OF conjunct2 [OF t1] answers_fit(6) g, unfolded Let_def, OF _ this] True show ?thesis by simp
  next
    case False
    note w2 [unfolded if_not_P [OF False]]
    from ui_block_more [where g = "\<lambda>w. w", OF conjunct2 [OF t1] answers_fit(3) _ this] show ?thesis by simp
  qed
  have more1: "uiCounter w1 = (if timerCounter w mod 15 = 0 then 0 else uiCounter w) \<and> timerCounter w1 = timerCounter w
      \<and> sDateTime w1 = App_GenerateFakeTime (sDateTime w)"
    using more_timer [OF conjunct1 [OF t1]] by (simp split: if_splits)
  from t2 have "timerCounter w2 = timerCounter w1 \<and> sDateTime w2 = sDateTime w1
      \<and> (uiCounter w2 = uiCounter w1 \<or> unat (uiCounter w1) < SYSTEM_NUM_TAG \<and> uiCounter w2 = uiCounter w1 + 1)"
    using more_timer [of w2 w1] more_timer [of w2 "w1\<lparr>uiCounter := uiCounter w1 + 1\<rparr>"] by auto
  then show ?thesis using more1 by (simp add: w' Let_def)
qed

text \<open>In every reachable state of the display's port the tick of its timer runs to the end and keeps the buffers owned:
  the clock advances, every fifteenth tick starts over with the first tag, and a tick moves on by at most one tag, never beyond
  the last.\<close>

theorem Display_timer_schedule:
  assumes "port_reachable ui_clbs {Clb_TimerControl} w" "unat (uiCounter w) \<le> SYSTEM_NUM_TAG"
  shows "\<exists>w'. Clb_TimerControl w = Some w' \<and> port_reachable ui_clbs {Clb_TimerControl} w' \<and> mem_ok (mem w')
    \<and> timerCounter w' = timerCounter w + 1 \<and> sDateTime w' = App_GenerateFakeTime (sDateTime w)
    \<and> unat (uiCounter w') \<le> SYSTEM_NUM_TAG
    \<and> (timerCounter w mod 15 = 0 \<longrightarrow> unat (uiCounter w') \<le> 1)
    \<and> (timerCounter w mod 15 \<noteq> 0 \<longrightarrow> unat (uiCounter w') \<in> {unat (uiCounter w), Suc (unat (uiCounter w))})"
proof -
  have o: "owned [] w" by (rule ui_port.port_owned [OF assms(1)])
  from ui_port.port_runs(3) [OF assms(1), of Clb_TimerControl] obtain w' where w': "Clb_TimerControl w = Some w'" "owned [] w'" by auto
  have "port_reachable ui_clbs {Clb_TimerControl} w'" by (rule port_oper [of _ _ w Clb_TimerControl]) (use assms(1) w'(1) in simp_all)
  then show ?thesis
    using Clb_TimerControl_more [OF o w'(1)] w' owned_mem(1) [OF w'(2)] assms(2) next_counter [of "uiCounter w"] next_counter [of 0]
    by (intro exI [of _ w']) (auto simp: Let_def SYSTEM_NUM_TAG_def split: if_splits)
qed

lemma Display_timer_schedule_witness:
  "\<exists>w'. Clb_TimerControl (l3_boot ui_clbs (STrans.more pc0) 1 115200) = Some w' \<and> unat (uiCounter w') \<le> SYSTEM_NUM_TAG"
proof -
  let ?w = "l3_boot ui_clbs (STrans.more pc0) 1 115200"
  have "uiCounter ?w = 0" using more_timer [of ?w pc0] by (simp add: l3_boot_start(18) pc0(7))
  then have "unat (uiCounter ?w) \<le> SYSTEM_NUM_TAG" by simp
  from Display_timer_schedule [OF port_boot this] show ?thesis by blast
qed

end
