(* ===== verification/Shell.thy ===== *)
theory Shell
  imports Prelude "HOL-Library.Monad_Syntax"
begin

text \<open>
  The command shell (\<^verbatim>\<open>library/shell/shell.c\<close>): the line editor fed by the console interrupt, the splitting of a line
  into arguments, in place, and the look-up of the command.  \<open>None\<close> is an access outside the line buffer.
\<close>

section \<open>State\<close>

definition SHELL_CMDLINE_SIZE :: nat where "SHELL_CMDLINE_SIZE = 256"
definition SHELL_ARGS_MAX :: nat where "SHELL_ARGS_MAX = 16"

text \<open>The characters sent back to the console are an output of the operations.  \<open>cmd_ptr\<close> tells whether there is a function.\<close>

record shell_command =
  cmdName :: "u8 list"
  min_args :: "8 word"
  max_args :: "8 word"
  cmd_ptr :: bool

record shell =
  shell_cmdline :: "u8 list"
  shell_cmdline_pos :: u32
  isPwdMode :: bool
  shell_cmd_table :: "shell_command list"

text \<open>A write to the line buffer.\<close>

definition put_char :: "nat \<Rightarrow> u8 \<Rightarrow> shell \<Rightarrow> shell option" where
  "put_char i x s = (if i < length (shell_cmdline s) then Some (s\<lparr>shell_cmdline := (shell_cmdline s)[i := x]\<rparr>) else None)"

section \<open>The line editor\<close>

definition shell_push_command :: "u8 \<Rightarrow> shell \<Rightarrow> (bool \<times> shell \<times> u8 list) option" where
  "shell_push_command ch s =
     (if ch \<noteq> 0x0D \<and> ch \<noteq> 0x0A \<and> unat (shell_cmdline_pos s) < SHELL_CMDLINE_SIZE then
        (if ch = 0x08 \<or> ch = 0x7F then
           (if shell_cmdline_pos s > 0
            then Some (False, s\<lparr>shell_cmdline_pos := shell_cmdline_pos s - 1\<rparr>, [0x08, 0x20, 0x08])
            else Some (False, s, []))
         else if unat (shell_cmdline_pos s + 1) < SHELL_CMDLINE_SIZE then
           (if 0x20 \<le> ch \<and> ch \<le> 0x7F then do {
              s \<leftarrow> put_char (unat (shell_cmdline_pos s)) ch s;
              Some (False, s\<lparr>shell_cmdline_pos := shell_cmdline_pos s + 1\<rparr>, [if isPwdMode s then 0x2A else ch])
            }
            else Some (False, s, []))
         else Some (False, s, []))
      else do {
        s \<leftarrow> put_char (unat (shell_cmdline_pos s)) 0 s;
        Some (True, s, [0x0D, 0x0A])
      })"

text \<open>\<open>cmd\<close> is the memory at the pointer; \<open>shell_push_buffer\<close> has the same body.\<close>

definition shell_set_command :: "u8 list \<Rightarrow> u32 \<Rightarrow> shell \<Rightarrow> shell option" where
  "shell_set_command cmd sz s =
     (if unat sz > SHELL_CMDLINE_SIZE then Some s
      else if unat sz > length cmd then None
      else
        (let s = s\<lparr>shell_cmdline_pos := sz,
                   shell_cmdline := take (unat sz) cmd @ drop (unat sz) (shell_cmdline s)\<rparr>
         in put_char (unat sz) 0 s))"

definition shell_push_buffer :: "u8 list \<Rightarrow> u32 \<Rightarrow> shell \<Rightarrow> shell option" where
  "shell_push_buffer = shell_set_command"

definition shell_clear_buffer :: "shell \<Rightarrow> shell option" where
  "shell_clear_buffer s = put_char 0 0 (s\<lparr>shell_cmdline_pos := 0\<rparr>)"

definition shell_init :: "shell_command list \<Rightarrow> shell \<Rightarrow> shell option" where
  "shell_init cmd_table s = map_option (\<lambda>s. s\<lparr>shell_cmd_table := cmd_table\<rparr>) (shell_clear_buffer s)"

section \<open>Arguments\<close>

text \<open>The loop of \<open>shell_make_argv\<close> at \<open>cmdline[i]\<close>: arguments are positions in the buffer, their ends are written into it.\<close>

function make_argv_loop :: "u8 list \<Rightarrow> nat \<Rightarrow> bool \<Rightarrow> nat list \<Rightarrow> (u8 list \<times> nat list) option" where
  "make_argv_loop c i in_text argv =
     (if i < length c then
        (if c ! i = 0 then Some (c, argv)
         else if c ! i = 0x20 then make_argv_loop (c[i := 0]) (Suc i) False argv
         else if length argv < SHELL_ARGS_MAX then
           make_argv_loop c (Suc i) True (if in_text then argv else argv @ [i])
         else Some (c, argv))
      else None)"
  by pat_completeness auto
termination by (relation "measure (\<lambda>(c, i, _). length c - i)") auto

declare make_argv_loop.simps [simp del]

definition shell_make_argv :: "u8 list \<Rightarrow> (u8 list \<times> nat list) option" where
  "shell_make_argv cmdline = make_argv_loop cmdline 0 False []"

text \<open>The string at a position of the buffer.\<close>

definition str_at :: "u8 list \<Rightarrow> nat \<Rightarrow> u8 list" where
  "str_at c i = takeWhile (\<lambda>b. b \<noteq> 0) (drop i c)"

section \<open>Running a command\<close>

datatype shell_status = SHELL_CMD_ERR_NONE | SHELL_CMD_ERR_INVALID_SYNTAX | SHELL_CMD_ERR_INVALID_CMD

text \<open>
  The search of the table: the first command of that name decides.  The bounds are signed bytes compared with an
  unsigned count.  The call, if any, is the name and the arguments handed over.
\<close>

fun exec_loop :: "shell_command list \<Rightarrow> u8 list list \<Rightarrow> shell_status \<times> u8 list list option" where
  "exec_loop [] args = (SHELL_CMD_ERR_INVALID_CMD, None)"
| "exec_loop (k # ks) args =
     (if cmdName k = hd args then
        (if scast (min_args k) \<le> (of_nat (length args) - 1 :: u32) \<and> (of_nat (length args) - 1 :: u32) \<le> scast (max_args k)
         then (SHELL_CMD_ERR_NONE, if cmd_ptr k then Some args else None)
         else (SHELL_CMD_ERR_INVALID_SYNTAX, None))
      else exec_loop ks args)"

definition shell_exec :: "shell \<Rightarrow> (shell_status \<times> u8 list list option \<times> shell) option" where
  "shell_exec s = do {
     (c, argv) \<leftarrow> shell_make_argv (shell_cmdline s);
     let s = s\<lparr>shell_cmdline := c\<rparr>;
     (if argv \<noteq> [] then
        (let (e, call) = exec_loop (shell_cmd_table s) (map (str_at c) argv) in Some (e, call, s))
      else Some (SHELL_CMD_ERR_NONE, None, s))
   }"

definition shell_task :: "shell \<Rightarrow> (u8 list list option \<times> shell) option" where
  "shell_task s = do {
     (e, call, s) \<leftarrow> shell_exec s;
     s \<leftarrow> shell_clear_buffer s;
     Some (call, s)
   }"

section \<open>Specification\<close>

text \<open>The words of a line: it is split at the blanks, empty pieces are dropped.\<close>

fun split_blank :: "u8 list \<Rightarrow> u8 list list" where
  "split_blank [] = [[]]"
| "split_blank (x # xs) = (if x = 0x20 then [] # split_blank xs else (x # hd (split_blank xs)) # tl (split_blank xs))"

definition words :: "u8 list \<Rightarrow> u8 list list" where
  "words l = filter (\<lambda>w. w \<noteq> []) (split_blank l)"

text \<open>The line after a key: a printable character is added while there is room, backspace and delete take one away.\<close>

definition edit :: "u8 list \<Rightarrow> u8 \<Rightarrow> u8 list" where
  "edit l ch =
     (if ch = 0x08 \<or> ch = 0x7F then butlast l
      else if 0x20 \<le> ch \<and> ch < 0x7F \<and> length l < 255 then l @ [ch] else l)"

definition shell_line :: "shell \<Rightarrow> u8 list" where
  "shell_line s = take (unat (shell_cmdline_pos s)) (shell_cmdline s)"

definition shell_ok :: "shell \<Rightarrow> bool" where
  "shell_ok s \<longleftrightarrow> length (shell_cmdline s) = SHELL_CMDLINE_SIZE \<and> unat (shell_cmdline_pos s) < SHELL_CMDLINE_SIZE"

section \<open>Lemmas\<close>

text \<open>The words of a suffix, by whether it starts inside a word.\<close>

lemma split_blank_ne [simp]: "split_blank l \<noteq> []"
  by (cases l) simp_all

lemma hd_split_blank: "hd (split_blank l) = takeWhile (\<lambda>b. b \<noteq> 0x20) l"
  by (induction l) simp_all

definition rest_words :: "bool \<Rightarrow> u8 list \<Rightarrow> u8 list list" where
  "rest_words t s = (if t then filter (\<lambda>w. w \<noteq> []) (tl (split_blank s)) else words s)"

lemma rest_words_simps [simp]:
  "rest_words t [] = []"
  "rest_words t (0x20 # s) = rest_words False s"
  "x \<noteq> 0x20 \<Longrightarrow> rest_words True (x # s) = rest_words True s"
  "x \<noteq> 0x20 \<Longrightarrow> rest_words False (x # s) = (x # takeWhile (\<lambda>b. b \<noteq> 0x20) s) # rest_words True s"
  by (simp_all add: rest_words_def words_def hd_split_blank)

definition unblank :: "u8 \<Rightarrow> u8" where
  "unblank b = (if b = 0x20 then 0 else b)"

lemma unblank_simps [simp]: "unblank 0x20 = 0" "x \<noteq> 0x20 \<Longrightarrow> unblank x = x"
  by (simp_all add: unblank_def)

lemma takeWhile_unblank: "0 \<notin> set s \<Longrightarrow> takeWhile (\<lambda>b. b \<noteq> 0) (map unblank s @ 0 # r) = takeWhile (\<lambda>b. b \<noteq> 0x20) s"
  by (induction s) (auto simp: unblank_def)

lemma make_argv_words:
  assumes "0 \<notin> set s" "length av + length (rest_words t s) < SHELL_ARGS_MAX"
  shows "\<exists>av'. make_argv_loop (p @ s @ 0 # r) (length p) t av = Some (p @ map unblank s @ 0 # r, av @ av')
    \<and> map (str_at (p @ map unblank s @ 0 # r)) av' = rest_words t s"
  using assms
proof (induction s arbitrary: p t av)
  case Nil
  show ?case by (intro exI [of _ "[]"]) (simp add: make_argv_loop.simps nth_append)
next
  case (Cons x s)
  have x0: "x \<noteq> 0" "0 \<notin> set s" using Cons.prems(1) by auto
  show ?case
  proof (cases "x = 0x20")
    case True
    have "length av + length (rest_words False s) < SHELL_ARGS_MAX" using Cons.prems(2) True by simp
    from Cons.IH [OF x0(2) this, of "p @ [0]"] show ?thesis
      using True by (subst make_argv_loop.simps) (simp add: nth_append list_update_append)
  next
    case False
    let ?av = "if t then av else av @ [length p]"
    have lt: "length av < SHELL_ARGS_MAX" using Cons.prems(2) by linarith
    have "length ?av + length (rest_words True s) < SHELL_ARGS_MAX" using Cons.prems(2) False by (cases t) auto
    from Cons.IH [OF x0(2) this, of "p @ [x]"] obtain av' where av':
      "make_argv_loop (p @ x # s @ 0 # r) (Suc (length p)) True ?av = Some (p @ x # map unblank s @ 0 # r, ?av @ av')"
      "map (str_at (p @ x # map unblank s @ 0 # r)) av' = rest_words True s" by auto
    have str: "str_at (p @ x # map unblank s @ 0 # r) (length p) = x # takeWhile (\<lambda>b. b \<noteq> 0x20) s"
      using x0 by (simp add: str_at_def takeWhile_unblank)
    have "make_argv_loop (p @ (x # s) @ 0 # r) (length p) t av = Some (p @ x # map unblank s @ 0 # r, ?av @ av')"
      using x0(1) False lt av'(1) by (subst make_argv_loop.simps) (simp add: nth_append)
    then show ?thesis
      using av'(2) str False
      by (cases t) (auto intro: exI [of _ av'] exI [of _ "length p # av'"])
  qed
qed

lemma make_argv_line:
  assumes "0 \<notin> set l" "length (words l) < SHELL_ARGS_MAX"
  shows "\<exists>av c. shell_make_argv (l @ 0 # r) = Some (c, av) \<and> length c = Suc (length l + length r) \<and> map (str_at c) av = words l"
  using make_argv_words [of l "[]" False "[]" r] assms by (auto simp: shell_make_argv_def rest_words_def)

text \<open>The editor.\<close>

lemma line_nth: "shell_ok s \<Longrightarrow> length (shell_line s) = unat (shell_cmdline_pos s)"
  by (simp add: shell_ok_def shell_line_def)

lemma push_edit:
  assumes "shell_ok s" "ch \<noteq> 0x0D" "ch \<noteq> 0x0A"
  shows "\<exists>s' out. shell_push_command ch s = Some (False, s', out) \<and> shell_ok s' \<and> shell_line s' = edit (shell_line s) ch
    \<and> shell_cmd_table s' = shell_cmd_table s"
proof -
  let ?p = "shell_cmdline_pos s"
  have len: "length (shell_cmdline s) = 256" "unat ?p < 256" using assms(1) by (simp_all add: shell_ok_def SHELL_CMDLINE_SIZE_def)
  have ll: "length (shell_line s) = unat ?p" by (rule line_nth [OF assms(1)])
  have suc: "unat (?p + 1) = Suc (unat ?p)" by (rule unat_Suc_word) (use len(2) in simp)
  consider "ch = 0x08 \<or> ch = 0x7F" "?p = 0" | "ch = 0x08 \<or> ch = 0x7F" "?p \<noteq> 0"
    | "\<not> (ch = 0x08 \<or> ch = 0x7F)" "0x20 \<le> ch \<and> ch \<le> 0x7F \<and> unat ?p < 255"
    | "\<not> (ch = 0x08 \<or> ch = 0x7F)" "\<not> (0x20 \<le> ch \<and> ch \<le> 0x7F \<and> unat ?p < 255)" by blast
  then show ?thesis
  proof cases
    case 1
    then show ?thesis using assms len ll by (auto simp: shell_push_command_def SHELL_CMDLINE_SIZE_def edit_def shell_line_def)
  next
    case 2
    have p: "unat (?p - 1) = unat ?p - 1" by (rule unat_pred_word [OF 2(2)])
    have "take (unat ?p - 1) (shell_cmdline s) = butlast (shell_line s)"
      using len by (simp add: shell_line_def butlast_take)
    then show ?thesis using 2 assms len p
      by (auto simp: shell_push_command_def SHELL_CMDLINE_SIZE_def edit_def shell_line_def [of "s\<lparr>shell_cmdline_pos := x\<rparr>" for x] shell_ok_def word_gt_0)
  next
    case 3
    have "take (Suc (unat ?p)) ((shell_cmdline s)[unat ?p := ch]) = shell_line s @ [ch]"
      using len by (simp add: shell_line_def take_Suc_nth)
    moreover have "ch < 0x7F" using 3 by (simp add: less_le)
    ultimately show ?thesis using 3 assms len suc ll
      by (simp add: shell_push_command_def SHELL_CMDLINE_SIZE_def edit_def put_char_def shell_ok_def
          shell_line_def [of "s\<lparr>shell_cmdline := x, shell_cmdline_pos := y\<rparr>" for x y])
  next
    case 4
    then have "edit (shell_line s) ch = shell_line s" using ll by (auto simp: edit_def)
    moreover have "shell_push_command ch s = Some (False, s, [])"
      using 4 assms len suc by (auto simp: shell_push_command_def SHELL_CMDLINE_SIZE_def)
    ultimately show ?thesis using assms(1) by simp
  qed
qed

lemma push_end:
  assumes "shell_ok s" "ch = 0x0D \<or> ch = 0x0A"
  shows "\<exists>s'. shell_push_command ch s = Some (True, s', [0x0D, 0x0A]) \<and> shell_ok s' \<and> shell_cmd_table s' = shell_cmd_table s
    \<and> (\<exists>r. shell_cmdline s' = shell_line s @ 0 # r)"
proof -
  let ?i = "unat (shell_cmdline_pos s)"
  have len: "length (shell_cmdline s) = 256" "?i < 256" using assms(1) by (simp_all add: shell_ok_def SHELL_CMDLINE_SIZE_def)
  then have "(shell_cmdline s)[?i := 0] = shell_line s @ 0 # drop (Suc ?i) (shell_cmdline s)"
    by (simp add: shell_line_def upd_conv_take_nth_drop)
  then show ?thesis using assms len line_nth [OF assms(1)]
    by (intro exI [of _ "s\<lparr>shell_cmdline := (shell_cmdline s)[?i := 0]\<rparr>"])
      (auto simp: shell_push_command_def put_char_def shell_ok_def SHELL_CMDLINE_SIZE_def)
qed

text \<open>The keys one after the other.\<close>

fun push_keys :: "u8 list \<Rightarrow> shell \<Rightarrow> shell option" where
  "push_keys [] s = Some s"
| "push_keys (k # ks) s = do { (r, s, out) \<leftarrow> shell_push_command k s; push_keys ks s }"

lemma push_keys_edit:
  assumes "shell_ok s" "0x0D \<notin> set ks" "0x0A \<notin> set ks"
  shows "\<exists>s'. push_keys ks s = Some s' \<and> shell_ok s' \<and> shell_line s' = foldl edit (shell_line s) ks
    \<and> shell_cmd_table s' = shell_cmd_table s"
  using assms
proof (induction ks arbitrary: s)
  case (Cons k ks)
  from push_edit [of s k] Cons.prems obtain s1 out where s1: "shell_push_command k s = Some (False, s1, out)" "shell_ok s1"
    "shell_line s1 = edit (shell_line s) k" "shell_cmd_table s1 = shell_cmd_table s" by auto
  from Cons.IH [OF s1(2)] Cons.prems s1 show ?case by auto
qed simp

lemma push_keys_append: "push_keys (ks @ ks') s = Option.bind (push_keys ks s) (push_keys ks')"
proof (induction ks arbitrary: s)
  case (Cons k ks)
  then show ?case by (cases "shell_push_command k s") auto
qed simp

lemma edit_printable: "0 \<notin> set l \<Longrightarrow> 0 \<notin> set (edit l ch)"
  by (auto simp: edit_def dest: in_set_butlastD)

lemma edits_printable: "0 \<notin> set l \<Longrightarrow> 0 \<notin> set (foldl edit l ks)"
  by (induction ks arbitrary: l) (simp_all add: edit_printable)

section \<open>The table\<close>

definition command_spec :: "shell_command list \<Rightarrow> u8 list list \<Rightarrow> shell_status \<times> u8 list list option" where
  "command_spec tab ws =
     (if ws = [] then (SHELL_CMD_ERR_NONE, None)
      else case find (\<lambda>k. cmdName k = hd ws) tab of
        None \<Rightarrow> (SHELL_CMD_ERR_INVALID_CMD, None)
      | Some k \<Rightarrow>
          (if sint (min_args k) \<le> int (length (tl ws)) \<and> int (length (tl ws)) \<le> sint (max_args k)
           then (SHELL_CMD_ERR_NONE, if cmd_ptr k then Some ws else None)
           else (SHELL_CMD_ERR_INVALID_SYNTAX, None)))"

lemma uint_scast_nonneg: "0 \<le> sint (x :: 8 word) \<Longrightarrow> uint (scast x :: u32) = sint x"
proof -
  assume a: "0 \<le> sint x"
  have "sint x < 2 ^ 32" using sint_less [of x] by simp
  then have "sint x mod 2 ^ LENGTH(32) = sint x" using a by (intro mod_pos_pos_trivial) simp_all
  then show ?thesis by (simp only: scast_eq uint_word_of_int)
qed

lemma exec_loop_spec:
  assumes "\<forall>k \<in> set tab. 0 \<le> sint (min_args k) \<and> 0 \<le> sint (max_args k)" "ws \<noteq> []" "length ws \<le> 16"
  shows "exec_loop tab ws = command_spec tab ws"
  using assms(1)
proof (induction tab)
  case Nil
  then show ?case using assms(2) by (simp add: command_spec_def)
next
  case (Cons k tab)
  have "(of_nat (length ws) - 1 :: u32) = of_nat (length (tl ws))" using assms(2) by (cases ws) simp_all
  then have "uint (of_nat (length ws) - 1 :: u32) = int (length (tl ws))" using assms(3) by (simp add: uint_nat unat_of_nat)
  then show ?case using Cons assms(2) by (simp add: command_spec_def word_le_def uint_scast_nonneg)
qed

section \<open>Properties\<close>

text \<open>C25: the line editor is the editing of a line of at most 255 characters: every key but the line ends adds, removes or
  ignores a character as specified, a line end reports the line and puts its end behind it, and no key writes outside the buffer.\<close>

theorem Shell_edits_line:
  assumes "shell_ok s"
  shows "\<exists>s' out. shell_push_command ch s = Some (ch = 0x0D \<or> ch = 0x0A, s', out) \<and> shell_ok s'
    \<and> shell_line s' = (if ch = 0x0D \<or> ch = 0x0A then shell_line s else edit (shell_line s) ch)
    \<and> (ch = 0x0D \<or> ch = 0x0A \<longrightarrow> (\<exists>r. shell_cmdline s' = shell_line s @ 0 # r))"
proof (cases "ch = 0x0D \<or> ch = 0x0A")
  case True
  from push_end [OF assms True] obtain s' r where s': "shell_push_command ch s = Some (True, s', [0x0D, 0x0A])" "shell_ok s'"
    "shell_cmdline s' = shell_line s @ 0 # r" by blast
  moreover have "shell_cmdline_pos s' = shell_cmdline_pos s"
    using s'(1) True by (auto simp: shell_push_command_def put_char_def split: if_splits)
  then have "shell_line s' = shell_line s"
    using s'(3) line_nth [OF assms] by (simp add: shell_line_def [of s'])
  ultimately show ?thesis using True by auto
next
  case False
  then show ?thesis using push_edit [OF assms, of ch] by auto
qed

definition shell0 :: shell where
  "shell0 = \<lparr>shell_cmdline = replicate 256 0, shell_cmdline_pos = 0, isPwdMode = False,
     shell_cmd_table = [\<lparr>cmdName = [0x6C, 0x73], min_args = 0, max_args = 1, cmd_ptr = True\<rparr>]\<rparr>"

lemma shell0: "shell_ok shell0" "shell_line shell0 = []"
  by (simp_all add: shell0_def shell_ok_def shell_line_def SHELL_CMDLINE_SIZE_def)

lemma Shell_edits_line_witness:
  "\<exists>s' out. shell_push_command 0x41 shell0 = Some (False, s', out) \<and> shell_line s' = [0x41]"
  using Shell_edits_line [OF shell0(1), of "0x41"] shell0(2) by (auto simp: edit_def)

text \<open>A line that is typed and ended.\<close>

lemma typed_line_runs:
  assumes "shell_ok s" "shell_line s = []" "0x0D \<notin> set ks" "0x0A \<notin> set ks"
    and "\<forall>k \<in> set (shell_cmd_table s). 0 \<le> sint (min_args k) \<and> 0 \<le> sint (max_args k)"
    and "ws = words (foldl edit [] ks)" "length ws < SHELL_ARGS_MAX"
  shows "\<exists>s1 s2. push_keys (ks @ [0x0D]) s = Some s1
    \<and> shell_exec s1 = Some (fst (command_spec (shell_cmd_table s) ws), snd (command_spec (shell_cmd_table s) ws), s2)"
proof -
  let ?l = "foldl edit [] ks"
  from push_keys_edit [OF assms(1,3,4)] assms(2) obtain s0 where s0: "push_keys ks s = Some s0" "shell_ok s0" "shell_line s0 = ?l"
    "shell_cmd_table s0 = shell_cmd_table s" by auto
  from push_end [OF s0(2), of "0x0D"] s0(3) obtain s1 r where s1: "shell_push_command 0x0D s0 = Some (True, s1, [0x0D, 0x0A])"
    "shell_cmd_table s1 = shell_cmd_table s0" "shell_cmdline s1 = ?l @ 0 # r" by auto
  have "0 \<notin> set ?l" by (rule edits_printable) simp
  from make_argv_line [OF this, of r] assms(6,7) obtain av c where av: "shell_make_argv (shell_cmdline s1) = Some (c, av)"
    "map (str_at c) av = ws" using s1(3) by auto
  have "exec_loop (shell_cmd_table s) ws = command_spec (shell_cmd_table s) ws" if "ws \<noteq> []"
    by (rule exec_loop_spec [OF assms(5) that]) (use assms(7) in \<open>simp add: SHELL_ARGS_MAX_def\<close>)
  then have "shell_exec s1 = Some (fst (command_spec (shell_cmd_table s) ws), snd (command_spec (shell_cmd_table s) ws), s1\<lparr>shell_cmdline := c\<rparr>)"
  proof (cases "ws = []")
    case True
    then show ?thesis using av by (auto simp: shell_exec_def command_spec_def)
  next
    case False
    then have "av \<noteq> []" "exec_loop (shell_cmd_table s1) (map (str_at c) av) = command_spec (shell_cmd_table s) ws"
      using av(2) \<open>ws \<noteq> [] \<Longrightarrow> _\<close> s1(2) s0(4) by auto
    then show ?thesis using av(1) by (simp add: shell_exec_def split_def Let_def)
  qed
  moreover have "push_keys (ks @ [0x0D]) s = Some s1" using s0(1) s1(1) by (simp add: push_keys_append)
  ultimately show ?thesis by blast
qed

text \<open>Whatever keys are typed, when a line end follows the command run is the one the words of the edited line name: the
  first word is looked up in the table, the number of the others must lie in the bounds of the entry, and the function gets
  exactly the words; at most fifteen words are split.\<close>

theorem Shell_runs_typed_line:
  assumes "shell_ok s" "shell_line s = []" "0x0D \<notin> set ks" "0x0A \<notin> set ks"
    and "\<forall>k \<in> set (shell_cmd_table s). 0 \<le> sint (min_args k) \<and> 0 \<le> sint (max_args k)"
    and "ws = words (foldl edit [] ks)" "length ws < SHELL_ARGS_MAX"
  shows "\<exists>s1 s2. push_keys (ks @ [0x0D]) s = Some s1
    \<and> shell_exec s1 = Some (fst (command_spec (shell_cmd_table s) ws), snd (command_spec (shell_cmd_table s) ws), s2)"
  by (rule typed_line_runs [OF assms])

lemma Shell_runs_typed_line_witness:
  "\<exists>s1 s2. push_keys [0x6C, 0x74, 0x08, 0x73, 0x20, 0x20, 0x61, 0x0D] shell0 = Some s1
    \<and> shell_exec s1 = Some (SHELL_CMD_ERR_NONE, Some [[0x6C, 0x73], [0x61]], s2)"
proof -
  have w: "words (foldl edit [] [0x6C, 0x74, 0x08, 0x73, 0x20, 0x20, 0x61]) = [[0x6C, 0x73], [0x61]]"
    by (simp add: edit_def words_def)
  have t: "\<forall>k \<in> set (shell_cmd_table shell0). 0 \<le> sint (min_args k) \<and> 0 \<le> sint (max_args k)" by (simp add: shell0_def)
  have "command_spec (shell_cmd_table shell0) [[0x6C, 0x73], [0x61]] = (SHELL_CMD_ERR_NONE, Some [[0x6C, 0x73], [0x61]])"
    by (simp add: command_spec_def shell0_def)
  then show ?thesis
    using Shell_runs_typed_line [OF shell0 _ _ t w [symmetric]] by (simp add: SHELL_ARGS_MAX_def)
qed

text \<open>A line handed over as a whole is taken up to 255 characters and ignored above 256; a line of exactly 256 characters
  makes the end be written one byte behind the buffer.\<close>

theorem Shell_set_command_bounds:
  assumes "shell_ok s" "unat sz \<le> length cmd"
  shows "(shell_set_command cmd sz s = None \<longleftrightarrow> sz = 256)
    \<and> (\<forall>s'. shell_set_command cmd sz s = Some s' \<longrightarrow> shell_ok s' \<and> shell_line s' = (if sz < 256 then take (unat sz) cmd else shell_line s))"
proof -
  have len: "length (shell_cmdline s) = 256" "unat (shell_cmdline_pos s) < 256"
    using assms(1) by (simp_all add: shell_ok_def SHELL_CMDLINE_SIZE_def)
  have e: "sz = 256 \<longleftrightarrow> unat sz = 256" by (simp add: word_unat_eq_iff)
  consider "256 < unat sz" | "unat sz = 256" | "unat sz < 256" by linarith
  then show ?thesis
  proof cases
    case 1
    then show ?thesis using assms(1) e by (auto simp: shell_set_command_def SHELL_CMDLINE_SIZE_def word_less_nat_alt)
  next
    case 2
    then show ?thesis using assms(2) len e by (simp add: shell_set_command_def SHELL_CMDLINE_SIZE_def put_char_def Let_def)
  next
    case 3
    then show ?thesis using assms(2) len e
      by (auto simp: shell_set_command_def SHELL_CMDLINE_SIZE_def put_char_def Let_def word_less_nat_alt shell_ok_def shell_line_def)
  qed
qed

lemma Shell_set_command_bounds_witness:
  "shell_set_command (replicate 300 0x41) 256 shell0 = None"
  using Shell_set_command_bounds [OF shell0(1), of 256 "replicate 300 0x41"] by simp

end
