(* ===== verification/Analog.thy ===== *)
theory Analog
  imports Checksum AppCommands
begin

text \<open>
  The analog and digital inputs: the port of the analog input board (\<^verbatim>\<open>interface/analog.c\<close>) and the reading of the
  channels (\<^verbatim>\<open>App_InitAI\<close>, \<^verbatim>\<open>App_InitDI\<close>, \<^verbatim>\<open>App_DiReadAllPort\<close>, \<^verbatim>\<open>App_AiReadAllPort\<close> in \<^verbatim>\<open>app.c\<close>).  The levels of the pins
  and the bytes that arrive while the task sleeps are arguments.
\<close>

section \<open>The port of the board (analog.c)\<close>

record SAnalogReader =
  arUartInstance :: u32
  arBaudRate :: u32
  arRecvFIFO :: SFIFO

text \<open>\<open>buf\<close> is what the receive buffer of the struct holds; the set-up of the UART driver is not modelled.\<close>

definition Analog_Init :: "u8 list \<Rightarrow> u32 \<Rightarrow> u32 \<Rightarrow> SAnalogReader" where
  "Analog_Init buf uart baud = \<lparr>arUartInstance = uart, arBaudRate = baud, arRecvFIFO = FIFO_Create buf 30\<rparr>"

text \<open>The copy into the caller's buffer, \<open>None\<close> when it does not fit; \<open>arr\<close> are the bytes that arrive before each pop.\<close>

definition Analog_RecvData :: "u8 list list \<Rightarrow> SAnalogReader \<Rightarrow> u8 list \<Rightarrow> u16 \<Rightarrow> (u16 \<times> u8 list \<times> SAnalogReader) option" where
  "Analog_RecvData arr r pData sz =
     (let sz = (if sz > FIFO_GetCount (arRecvFIFO r) then FIFO_GetCount (arRecvFIFO r) else sz);
          (bs, ff) = pop_n FIFO_Push FIFO_Pop (unat sz) arr (arRecvFIFO r)
      in if length bs \<le> length pData then Some (sz, bs @ drop (length bs) pData, r\<lparr>arRecvFIFO := ff\<rparr>) else None)"

text \<open>A pulse on the trigger pin: the levels written, in order.  The channel is not told to the board.\<close>

definition Analog_SelectChannel :: "u8 \<Rightarrow> bool list" where
  "Analog_SelectChannel channel = [True, False]"

definition Analog_RecvFF_EnProtect :: "SAnalogReader \<Rightarrow> bool \<Rightarrow> SAnalogReader" where
  "Analog_RecvFF_EnProtect r bEn =
     (if bEn then r\<lparr>arRecvFIFO := FIFO_EnableProtect (arRecvFIFO r)\<rparr>
      else r\<lparr>arRecvFIFO := FIFO_DisableProtect (arRecvFIFO r)\<rparr>)"

definition Analog_RecvFF_RewindHead :: "SAnalogReader \<Rightarrow> SAnalogReader option" where
  "Analog_RecvFF_RewindHead r = map_option (\<lambda>ff. r\<lparr>arRecvFIFO := ff\<rparr>) (FIFO_RewindHead (arRecvFIFO r))"

definition Analog_RecvFF_Pop :: "SAnalogReader \<Rightarrow> u8 \<times> SAnalogReader" where
  "Analog_RecvFF_Pop r = (let (ok, b, ff) = FIFO_Pop (arRecvFIFO r) in (b, r\<lparr>arRecvFIFO := ff\<rparr>))"

definition Analog_GetRecvCount :: "SAnalogReader \<Rightarrow> u16" where
  "Analog_GetRecvCount r = FIFO_GetCount (arRecvFIFO r)"

definition Analog_RecvFF_Reset :: "SAnalogReader \<Rightarrow> SAnalogReader" where
  "Analog_RecvFF_Reset r = r\<lparr>arRecvFIFO := snd (FIFO_Reset (arRecvFIFO r))\<rparr>"

text \<open>The interrupts: a byte that finds the FIFO full is dropped.\<close>

definition analog_rx_handle :: "u8 \<Rightarrow> SAnalogReader \<Rightarrow> SAnalogReader" where
  "analog_rx_handle b r = r\<lparr>arRecvFIFO := snd (FIFO_Push (arRecvFIFO r) b)\<rparr>"

definition analog_tx_handle :: "uart_state \<Rightarrow> uart_state" where
  "analog_tx_handle us = (if txSize us > 0 then us\<lparr>txBuff := tl (txBuff us), txSize := txSize us - 1\<rparr> else us)"

section \<open>The inputs in the application (app.c)\<close>

text \<open>\<open>sDI\<close>: pin and level of each digital input.\<close>

record SAppIn = SApp +
  sAnalogReader :: SAnalogReader
  sDI :: "nat \<Rightarrow> u32 \<times> bool"
  aiReadCount :: u32

definition App_InitAI :: "u8 list \<Rightarrow> 'a SAppIn_scheme \<Rightarrow> 'a SAppIn_scheme" where
  "App_InitAI buf w =
     (let w = fold (\<lambda>i w. w\<lparr>sAI := (sAI w)(i := (sAI w i)\<lparr>aiEnable := 1\<rparr>)\<rparr>) [0..<ANALOG_INPUT_NUM_CHANNEL] w
      in w\<lparr>sAnalogReader := Analog_Init buf 1 9600\<rparr>)"

text \<open>\<open>pins\<close> is the table \<open>DigitalInputPin\<close> of the board.\<close>

definition App_InitDI :: "(nat \<Rightarrow> u32) \<Rightarrow> 'a SAppIn_scheme \<Rightarrow> 'a SAppIn_scheme" where
  "App_InitDI pins w =
     fold (\<lambda>i w. w\<lparr>sDI := (sDI w)(i := (pins i, snd (sDI w i)))\<rparr>) [0..<DIGITAL_INPUT_NUM_CHANNEL] w"

definition App_DiReadAllPort :: "(u32 \<Rightarrow> bool) \<Rightarrow> 'a SAppIn_scheme \<Rightarrow> 'a SAppIn_scheme" where
  "App_DiReadAllPort read_pin w =
     fold (\<lambda>i w. w\<lparr>sDI := (sDI w)(i := (fst (sDI w i), read_pin (fst (sDI w i))))\<rparr>) [0..<DIGITAL_INPUT_NUM_CHANNEL] w"

definition TAG_STT_OK :: u8 where "TAG_STT_OK = 0"
definition TAG_STT_AI_FAILED :: u8 where "TAG_STT_AI_FAILED = 2"

text \<open>The body of the branch for a good frame: \<open>i2f\<close> converts an integer to a float.\<close>

definition ai_measure :: "fpu \<Rightarrow> (int \<Rightarrow> u32) \<Rightarrow> nat \<Rightarrow> u8 list \<Rightarrow> 'a SAppIn_scheme \<Rightarrow> 'a SAppIn_scheme" where
  "ai_measure fl i2f i data w =
     (let adc_value = push_bit 8 (ucast (data ! 1)) OR ucast (data ! 2) :: u16;
          adc_value2 = push_bit 8 (ucast (data ! 3)) OR ucast (data ! 4) :: u16;
          w = w\<lparr>sCfg := put_bytes (calib_off i + 16) (enc32 (i2f (uint adc_value - uint adc_value2))) (sCfg w)\<rparr>;
          v = fl_add fl (dec32 (sCfg w) (calib_off i)) (fl_mul fl (dec32 (sCfg w) (calib_off i + 16)) (dec32 (sCfg w) (calib_off i + 4)))
      in w\<lparr>sAI := (sAI w)(i := (sAI w i)\<lparr>aiValue := v, aiStatus := TAG_STT_OK\<rparr>)\<rparr>)"

text \<open>
  One channel.  \<open>rx\<close> are the bytes that arrive while the task waits, \<open>arr\<close> those between the pops; \<open>data\<close> is the
  buffer on the stack, which keeps its content from channel to channel.
\<close>

definition ai_channel ::
  "fpu \<Rightarrow> (int \<Rightarrow> u32) \<Rightarrow> u8 list \<Rightarrow> u8 list list \<Rightarrow> nat \<Rightarrow> u8 list \<times> 'a SAppIn_scheme \<Rightarrow> (u8 list \<times> 'a SAppIn_scheme) option" where
  "ai_channel fl i2f rx arr i dw = (case dw of (data, w) \<Rightarrow>
     (if aiEnable (sAI w i) \<noteq> 0 then do {
        let r = Analog_RecvFF_Reset (sAnalogReader w);
        let r = fold analog_rx_handle rx r;
        (n, data, r) \<leftarrow> Analog_RecvData arr r data 10;
        let w = w\<lparr>sAnalogReader := r\<rparr>;
        let recvLen = (ucast n :: u8);
        let failed = w\<lparr>sAI := (sAI w)(i := (sAI w i)\<lparr>aiStatus := TAG_STT_AI_FAILED\<rparr>)\<rparr>;
        (if recvLen > 0 then do {
           crc8 \<leftarrow> crc_8 (Some data) (unat recvLen - 1);
           b \<leftarrow> rd data (unat recvLen - 1);
           (if crc8 = b then Some (data, if data ! 0 = 0x55 then ai_measure fl i2f i data w else failed)
            else Some (data, w))
         }
         else Some (data, failed))
      }
      else Some (data, w)))"

fun ai_channels ::
  "fpu \<Rightarrow> (int \<Rightarrow> u32) \<Rightarrow> (nat \<Rightarrow> u8 list) \<Rightarrow> (nat \<Rightarrow> u8 list list) \<Rightarrow> nat list \<Rightarrow> u8 list \<times> 'a SAppIn_scheme
     \<Rightarrow> (u8 list \<times> 'a SAppIn_scheme) option" where
  "ai_channels fl i2f rx arr [] dw = Some dw"
| "ai_channels fl i2f rx arr (i # is) dw = do { dw \<leftarrow> ai_channel fl i2f (rx i) (arr i) i dw; ai_channels fl i2f rx arr is dw }"

text \<open>\<open>data\<close>: what the ten bytes of the stack held.\<close>

definition App_AiReadAllPort ::
  "fpu \<Rightarrow> (int \<Rightarrow> u32) \<Rightarrow> (nat \<Rightarrow> u8 list) \<Rightarrow> (nat \<Rightarrow> u8 list list) \<Rightarrow> u8 list \<Rightarrow> 'a SAppIn_scheme \<Rightarrow> 'a SAppIn_scheme option" where
  "App_AiReadAllPort fl i2f rx arr data w = do {
     (data, w) \<leftarrow> ai_channels fl i2f rx arr [0..<ANALOG_INPUT_NUM_CHANNEL] (data, w);
     Some (w\<lparr>aiReadCount := aiReadCount w + 1\<rparr>)
   }"

section \<open>Specification\<close>

text \<open>The difference of the two 16-bit values of a frame, high byte first.\<close>

definition ai_diff :: "u8 list \<Rightarrow> int" where
  "ai_diff d = (256 * uint (d ! 1) + uint (d ! 2)) - (256 * uint (d ! 3) + uint (d ! 4))"

text \<open>What a frame makes of a channel, its node and its calibration node: measured, failed or unchanged.\<close>

definition ai_measured :: "fpu \<Rightarrow> (int \<Rightarrow> u32) \<Rightarrow> u8 list \<Rightarrow> SAiValueNode \<times> u8 list \<Rightarrow> SAiValueNode \<times> u8 list" where
  "ai_measured fl i2f d nc = (case nc of (nd, cn) \<Rightarrow>
     (nd\<lparr>aiValue := fl_add fl (dec32 cn 0) (fl_mul fl (i2f (ai_diff d)) (dec32 cn 4)), aiStatus := TAG_STT_OK\<rparr>,
      put_bytes 16 (enc32 (i2f (ai_diff d))) cn))"

definition ai_frame :: "fpu \<Rightarrow> (int \<Rightarrow> u32) \<Rightarrow> u8 list \<Rightarrow> SAiValueNode \<times> u8 list \<Rightarrow> SAiValueNode \<times> u8 list" where
  "ai_frame fl i2f f nc =
     (if f = [] then (fst nc\<lparr>aiStatus := TAG_STT_AI_FAILED\<rparr>, snd nc)
      else if last f \<noteq> crc8_of (butlast f) then nc
      else if hd f = 0x55 then ai_measured fl i2f f nc
      else (fst nc\<lparr>aiStatus := TAG_STT_AI_FAILED\<rparr>, snd nc))"

text \<open>The two nodes of a channel in the state.\<close>

definition ai_nodes :: "'a SAppIn_scheme \<Rightarrow> nat \<Rightarrow> SAiValueNode \<times> u8 list" where
  "ai_nodes w i = (sAI w i, field (calib_off i) SCalibNode_size (sCfg w))"

section \<open>Receiving\<close>

definition ar_ok :: "SAnalogReader \<Rightarrow> bool" where
  "ar_ok r \<longleftrightarrow> fifo_wf (arRecvFIFO r) \<and> u16MaxSize (arRecvFIFO r) = 30"

lemma ar_ok_Init: "30 \<le> length buf \<Longrightarrow> ar_ok (Analog_Init buf u b)"
  using FIFO_Create_wf [of 30 buf] by (simp add: ar_ok_def Analog_Init_def) (simp add: FIFO_Create_def)

lemma rx_handles: "fold analog_rx_handle rx r = r\<lparr>arRecvFIFO := push_all FIFO_Push rx (arRecvFIFO r)\<rparr>"
  by (induction rx arbitrary: r) (simp_all add: analog_rx_handle_def)

text \<open>The task gets the first bytes that arrived while it waited, at most ten.\<close>

lemma ai_recv:
  assumes "ar_ok r" "length data = 10"
  shows "\<exists>r'. Analog_RecvData arr (fold analog_rx_handle rx (Analog_RecvFF_Reset r)) data 10 =
      Some (of_nat (min 10 (length rx)), take 10 rx @ drop (length rx) data, r') \<and> ar_ok r'"
proof -
  let ?g = "snd (FIFO_Reset (arRecvFIFO r))"
  let ?f = "push_all FIFO_Push rx ?g"
  have m: "unat ff = 30 \<longleftrightarrow> ff = 30" for ff :: u16 by (auto simp: word_unat_eq_iff)
  have f0: "fifo_wf ?g" "fifo_list ?g = []" "u16MaxSize ?g = 30"
    using FIFO_Reset_wf assms(1) by (simp_all add: ar_ok_def) (simp add: FIFO_Reset_def)
  have f: "fifo_wf ?f" "u16MaxSize ?f = 30" "fifo_list ?f = take 30 rx"
    using ff.push_all_abs [OF f0(1), of rx] f0(2,3) by (simp_all add: m)
  have sz: "unat (u16Size ?f) = min 30 (length rx)" using length_fifo_list [of ?f] f(3) by simp
  define n where "n = (if 10 > u16Size ?f then u16Size ?f else 10)"
  have n: "unat n = min 10 (length rx)" using sz by (auto simp: n_def word_less_nat_alt min_def split: if_splits)
  obtain bs ff where p: "pop_n FIFO_Push FIFO_Pop (unat n) arr ?f = (bs, ff)" by fastforce
  have "take (min 10 (length rx)) rx = take 10 rx" by (simp add: min_def)
  with ff.pop_n_abs [OF f(1) _ p] n f(2,3) have bs: "bs = take 10 rx" "fifo_wf ff" "u16MaxSize ff = 30" by (auto simp: m)
  have "n = of_nat (min 10 (length rx))" using n by (simp add: word_unat_eq_iff unsigned_of_nat take_bit_nat_eq_self)
  moreover have "drop (min (length rx) 10) data = drop (length rx) data" using assms(2) by (simp add: min_def)
  moreover let ?q = "fold analog_rx_handle rx (Analog_RecvFF_Reset r)"
  have q: "arRecvFIFO ?q = ?f" by (simp add: rx_handles Analog_RecvFF_Reset_def)
  have "Analog_RecvData arr ?q data 10 = Some (n, bs @ drop (length bs) data, ?q\<lparr>arRecvFIFO := ff\<rparr>)"
    unfolding Analog_RecvData_def FIFO_GetCount_def q n_def [symmetric] Let_def using p bs(1) assms(2) by simp
  ultimately show ?thesis using bs by (simp add: ar_ok_def min.commute)
qed

text \<open>One channel on the bytes in the buffer after the receive.\<close>

lemma ai_channel_eq:
  assumes "ar_ok (sAnalogReader w)" "length data = 10" "aiEnable (sAI w i) \<noteq> 0"
    and "d = take 10 rx @ drop (length rx) data" "n = min 10 (length rx)"
  shows "\<exists>r'. ar_ok r' \<and> ai_channel fl i2f rx arr i (data, w) =
     (let w' = w\<lparr>sAnalogReader := r'\<rparr>; failed = w'\<lparr>sAI := (sAI w)(i := (sAI w i)\<lparr>aiStatus := TAG_STT_AI_FAILED\<rparr>)\<rparr> in
      Some (d, if n = 0 then failed else if d ! (n - 1) \<noteq> crc8_of (take (n - 1) d) then w'
               else if d ! 0 = 0x55 then ai_measure fl i2f i d w' else failed))"
proof -
  from ai_recv [OF assms(1,2)] obtain r' where r': "Analog_RecvData arr (fold analog_rx_handle rx (Analog_RecvFF_Reset (sAnalogReader w))) data 10 =
      Some (of_nat n, d, r')" "ar_ok r'" using assms(4,5) by blast
  have un: "unat (ucast (of_nat n :: u16) :: u8) = n"
    using assms(5) by (simp add: unsigned_ucast_eq unsigned_of_nat take_bit_nat_eq_self)
  have z: "(ucast (of_nat n :: u16) :: u8) > 0 \<longleftrightarrow> n \<noteq> 0"
    by (metis un unat_eq_0 word_gt_0)
  have ld: "length d = 10" using assms(2,4) by simp
  have "n \<noteq> 0 \<Longrightarrow> crc_8 (Some d) (n - 1) = Some (crc8_of (take (n - 1) d)) \<and> rd d (n - 1) = Some (d ! (n - 1))"
    using assms(5) ld by (simp add: crc_8_of rd_def)
  then show ?thesis using r' assms(3)
    by (intro exI [of _ r']) (auto simp: ai_channel_def z un Let_def)
qed

text \<open>The bytes of a calibration node within the configuration.\<close>

lemma put_in_field:
  assumes "k + length bs \<le> n" "off + n \<le> length m"
  shows "put_bytes (off + k) bs m = put_bytes off (put_bytes k bs (field off n m)) m"
  using assms by (intro nth_equalityI) (auto simp: put_bytes_nth put_bytes_length field_nth)

lemma dec32_field: "k + 4 \<le> n \<Longrightarrow> off + n \<le> length m \<Longrightarrow> dec32 m (off + k) = dec32 (field off n m) k"
  by (simp add: dec32_def field_nth add.assoc)

lemma dec32_put: "k + 4 \<le> length m \<Longrightarrow> dec32 (put_bytes k (enc32 x) m) k = x"
  by (simp add: dec32_def put_bytes_nth enc32_def dec32_enc32 del: One_nat_def) 

lemma dec32_put_other: "k + 4 \<le> j \<or> j + 4 \<le> k \<Longrightarrow> k + 4 \<le> length m \<Longrightarrow> j + 4 \<le> length m \<Longrightarrow> dec32 (put_bytes k (enc32 x) m) j = dec32 m j"
  by (auto simp: dec32_def put_bytes_nth)

lemma put_field_id: "off + n \<le> length m \<Longrightarrow> put_bytes off (field off n m) m = m"
  by (intro nth_equalityI) (auto simp: put_bytes_nth put_bytes_length field_nth)

section \<open>One channel\<close>

definition ai_store :: "nat \<Rightarrow> SAiValueNode \<times> u8 list \<Rightarrow> 'a SAppIn_scheme \<Rightarrow> 'a SAppIn_scheme" where
  "ai_store i nc w = w\<lparr>sAI := (sAI w)(i := fst nc), sCfg := put_bytes (calib_off i) (snd nc) (sCfg w)\<rparr>"

lemma calib_fits: "i < ANALOG_INPUT_NUM_CHANNEL \<Longrightarrow> calib_off i + SCalibNode_size \<le> SSysCfg_size"
  by (simp add: layout_defs)

lemma length_ai_nodes: "i < ANALOG_INPUT_NUM_CHANNEL \<Longrightarrow> length (sCfg w) = SSysCfg_size \<Longrightarrow> length (snd (ai_nodes w i)) = SCalibNode_size"
  using calib_fits [of i] by (simp add: ai_nodes_def)

lemma length_ai_frame: "length (snd nc) = SCalibNode_size \<Longrightarrow> length (snd (ai_frame fl i2f f nc)) = SCalibNode_size"
  by (cases nc) (auto simp: ai_frame_def ai_measured_def put_bytes_length SCalibNode_size_def)

lemma ai_measure_store:
  assumes "i < ANALOG_INPUT_NUM_CHANNEL" "length (sCfg w) = SSysCfg_size"
  shows "ai_measure fl i2f i d w = ai_store i (ai_measured fl i2f d (ai_nodes w i)) w"
proof -
  have w: "uint (push_bit 8 (ucast a) OR ucast b :: u16) = 256 * uint a + uint b" for a b :: u8
  proof -
    have "(push_bit 8 (ucast a) OR ucast b :: u16) = push_bit 8 (ucast a) + ucast b"
      by (rule disjunctive_add [symmetric]) (auto simp: bit_simps dest: bit_imp_le_length)
    moreover have "push_bit 8 (ucast a :: u16) = 256 * ucast a" by (simp add: push_bit_eq_mult)
    ultimately have "(push_bit 8 (ucast a) OR ucast b :: u16) = word_of_int (256 * uint a + uint b)" by simp
    moreover have "0 \<le> 256 * uint a + uint b" "256 * uint a + uint b < 65536"
      using uint_lt2p [of a] uint_lt2p [of b] by simp_all
    ultimately show ?thesis by (simp only: uint_word_of_int) simp
  qed
  note fit = calib_fits [OF assms(1), folded assms(2)]
  have c: "put_bytes (calib_off i + 16) (enc32 x) (sCfg w) = put_bytes (calib_off i) (put_bytes 16 (enc32 x) (snd (ai_nodes w i))) (sCfg w)" for x
    using put_in_field [OF _ fit, of 16 "enc32 x"] by (simp add: ai_nodes_def SCalibNode_size_def)
  have l: "length (put_bytes 16 (enc32 x) (snd (ai_nodes w i))) = SCalibNode_size" for x
    using length_ai_nodes [OF assms] by (simp add: put_bytes_length SCalibNode_size_def)
  have d: "dec32 (put_bytes (calib_off i) (put_bytes 16 (enc32 x) (snd (ai_nodes w i))) (sCfg w)) (calib_off i + k) =
      (if k = 16 then x else dec32 (snd (ai_nodes w i)) k)" if "k \<in> {0, 4, 16}" for x k
  proof -
    have "dec32 (put_bytes (calib_off i) (put_bytes 16 (enc32 x) (snd (ai_nodes w i))) (sCfg w)) (calib_off i + k)
        = dec32 (put_bytes 16 (enc32 x) (snd (ai_nodes w i))) k"
      using that fit l [of x] by (subst dec32_field [of k SCalibNode_size])
        (auto simp: put_bytes_length field_put_same SCalibNode_size_def)
    then show ?thesis using that length_ai_nodes [OF assms]
      by (auto simp: dec32_put dec32_put_other SCalibNode_size_def)
  qed
  show ?thesis
    using d [of 0] d [of 4] d [of 16] by (simp add: ai_measure_def w c Let_def ai_store_def ai_measured_def split_beta ai_diff_def)
      (simp add: ai_nodes_def)
qed

lemma ai_nodes_store:
  assumes "i < ANALOG_INPUT_NUM_CHANNEL" "j < ANALOG_INPUT_NUM_CHANNEL" "length (sCfg w) = SSysCfg_size" "length (snd nc) = SCalibNode_size"
  shows "ai_nodes (ai_store i nc w) j = (if j = i then nc else ai_nodes w j)"
    "length (sCfg (ai_store i nc w)) = SSysCfg_size" "take (calib_off 0) (sCfg (ai_store i nc w)) = take (calib_off 0) (sCfg w)"
proof -
  have fit: "calib_off i + length (snd nc) \<le> length (sCfg w)" using calib_fits [OF assms(1)] assms(3,4) by simp
  have "j \<noteq> i \<Longrightarrow> calib_off j + SCalibNode_size \<le> calib_off i \<or> calib_off i + length (snd nc) \<le> calib_off j"
    using assms(4) by (simp add: layout_defs) arith
  then show "ai_nodes (ai_store i nc w) j = (if j = i then nc else ai_nodes w j)"
    using field_put_same [OF fit] field_put_other [OF _ fit] assms(4) by (auto simp: ai_nodes_def ai_store_def)
  show "length (sCfg (ai_store i nc w)) = SSysCfg_size" using fit assms(3) by (simp add: ai_store_def put_bytes_length)
  show "take (calib_off 0) (sCfg (ai_store i nc w)) = take (calib_off 0) (sCfg w)"
    using field_put_other [of 0 "calib_off 0" "calib_off i", OF _ fit] by (simp add: ai_store_def field_def layout_defs)
qed

lemma ai_store_id: "i < ANALOG_INPUT_NUM_CHANNEL \<Longrightarrow> length (sCfg w) = SSysCfg_size \<Longrightarrow> ai_store i (ai_nodes w i) w = w"
  using calib_fits [of i] by (simp add: ai_store_def ai_nodes_def put_field_id)

lemma ai_store_fail: "i < ANALOG_INPUT_NUM_CHANNEL \<Longrightarrow> length (sCfg w) = SSysCfg_size \<Longrightarrow>
    ai_store i (nd, snd (ai_nodes w i)) w = w\<lparr>sAI := (sAI w)(i := nd)\<rparr>"
  using calib_fits [of i] by (simp add: ai_store_def ai_nodes_def put_field_id)

text \<open>The frame decides when it is empty or has at least the five bytes of the values.\<close>

lemma ai_channel_frame:
  assumes "ar_ok (sAnalogReader w)" "length data = 10" "aiEnable (sAI w i) \<noteq> 0"
    and "i < ANALOG_INPUT_NUM_CHANNEL" "length (sCfg w) = SSysCfg_size" "rx = [] \<or> 5 \<le> length rx"
  shows "\<exists>r' d. ar_ok r' \<and> length d = 10 \<and> ai_channel fl i2f rx arr i (data, w) =
     Some (d, ai_store i (ai_frame fl i2f (take 10 rx) (ai_nodes w i)) (w\<lparr>sAnalogReader := r'\<rparr>))"
proof -
  define d where "d = take 10 rx @ drop (length rx) data"
  define n where "n = min 10 (length rx)"
  from ai_channel_eq [OF assms(1-3) d_def n_def] obtain r' where r': "ar_ok r'"
    "ai_channel fl i2f rx arr i (data, w) =
     (let w' = w\<lparr>sAnalogReader := r'\<rparr>; failed = w'\<lparr>sAI := (sAI w)(i := (sAI w i)\<lparr>aiStatus := TAG_STT_AI_FAILED\<rparr>)\<rparr> in
      Some (d, if n = 0 then failed else if d ! (n - 1) \<noteq> crc8_of (take (n - 1) d) then w'
               else if d ! 0 = 0x55 then ai_measure fl i2f i d w' else failed))" by blast
  let ?w = "w\<lparr>sAnalogReader := r'\<rparr>"
  have nodes: "ai_nodes ?w i = ai_nodes w i" by (simp add: ai_nodes_def)
  note st = ai_store_id [OF assms(4), of ?w] ai_store_fail [OF assms(4), of ?w] ai_measure_store [OF assms(4), of ?w]
  have ld: "length d = 10" using assms(2) by (simp add: d_def)
  have f: "last (take 10 rx) = d ! (n - 1)" "butlast (take 10 rx) = take (n - 1) d" "hd (take 10 rx) = d ! 0" if "rx \<noteq> []"
    using that by (auto simp: d_def n_def last_conv_nth butlast_take nth_append hd_conv_nth min_def butlast_conv_take)
  have m: "ai_measured fl i2f d nc = ai_measured fl i2f (take 10 rx) nc" if "rx \<noteq> []" for nc
    using that assms(6) by (simp add: ai_measured_def ai_diff_def d_def nth_append split_beta)
  have "ai_channel fl i2f rx arr i (data, w) = Some (d, ai_store i (ai_frame fl i2f (take 10 rx) (ai_nodes w i)) ?w)"
  proof (cases "rx = []")
    case True
    then have "n = 0" by (simp add: n_def)
    then show ?thesis unfolding r'(2) Let_def using st(2) assms(5) True by (simp add: ai_frame_def nodes) (simp add: ai_nodes_def)
  next
    case False
    then have "n \<noteq> 0" by (simp add: n_def)
    then show ?thesis using st assms(5) f [OF False] m [OF False] False
      unfolding r'(2) Let_def by (simp add: ai_frame_def nodes) (simp add: ai_nodes_def)
  qed
  then show ?thesis using r'(1) ld by blast
qed

lemma ai_channels_frames:
  assumes "ar_ok (sAnalogReader w)" "length data = 10" "distinct is" "set is \<subseteq> {..<ANALOG_INPUT_NUM_CHANNEL}"
    and "length (sCfg w) = SSysCfg_size" "\<forall>i \<in> set is. rx i = [] \<or> 5 \<le> length (rx i)"
  shows "\<exists>d r a c. ai_channels fl i2f rx arr is (data, w) = Some (d, w\<lparr>sAnalogReader := r, sAI := a, sCfg := c\<rparr>)
    \<and> ar_ok r \<and> length c = SSysCfg_size \<and> take (calib_off 0) c = take (calib_off 0) (sCfg w)
    \<and> (\<forall>i < ANALOG_INPUT_NUM_CHANNEL. (a i, field (calib_off i) SCalibNode_size c) =
         (if i \<in> set is \<and> aiEnable (sAI w i) \<noteq> 0 then ai_frame fl i2f (take 10 (rx i)) (ai_nodes w i) else ai_nodes w i))"
  using assms
proof (induction "is" arbitrary: data w)
  case Nil
  have w: "w\<lparr>sAnalogReader := sAnalogReader w, sAI := sAI w, sCfg := sCfg w\<rparr> = w" by simp
  show ?case
    by (intro exI [of _ data] exI [of _ "sAnalogReader w"] exI [of _ "sAI w"] exI [of _ "sCfg w"])
      (use Nil(1,5) in \<open>simp add: w ai_nodes_def\<close>)
next
  case (Cons i "is")
  note N = ANALOG_INPUT_NUM_CHANNEL_def
  have i: "i < ANALOG_INPUT_NUM_CHANNEL" "i \<notin> set is" "rx i = [] \<or> 5 \<le> length (rx i)" using Cons.prems by auto
  show ?case
  proof (cases "aiEnable (sAI w i) = 0")
    case True
    then have "ai_channels fl i2f rx arr (i # is) (data, w) = ai_channels fl i2f rx arr is (data, w)" by (simp add: ai_channel_def)
    moreover have "j \<in> set (i # is) \<and> aiEnable (sAI w j) \<noteq> 0 \<longleftrightarrow> j \<in> set is \<and> aiEnable (sAI w j) \<noteq> 0" for j using True by auto
    ultimately show ?thesis using Cons.IH [of w data] Cons.prems by simp
  next
    case False
    let ?nc = "ai_frame fl i2f (take 10 (rx i)) (ai_nodes w i)"
    from ai_channel_frame [OF Cons.prems(1,2) False i(1) Cons.prems(5) i(3)] obtain r' d where c: "ar_ok r'" "length d = 10"
      "ai_channel fl i2f (rx i) (arr i) i (data, w) = Some (d, ai_store i ?nc (w\<lparr>sAnalogReader := r'\<rparr>))" by blast
    let ?w = "ai_store i ?nc (w\<lparr>sAnalogReader := r'\<rparr>)"
    have ln: "length (snd ?nc) = SCalibNode_size"
      by (rule length_ai_frame) (rule length_ai_nodes [OF i(1) Cons.prems(5)])
    have nodes: "ai_nodes ?w j = (if j = i then ?nc else ai_nodes w j)" if "j < ANALOG_INPUT_NUM_CHANNEL" for j
      using ai_nodes_store(1) [OF i(1) that _ ln, of "w\<lparr>sAnalogReader := r'\<rparr>"] Cons.prems(5) by (simp add: ai_nodes_def)
    have cfg: "length (sCfg ?w) = SSysCfg_size" "take (calib_off 0) (sCfg ?w) = take (calib_off 0) (sCfg w)"
      using ai_nodes_store(2,3) [OF i(1) i(1) _ ln, of "w\<lparr>sAnalogReader := r'\<rparr>"] Cons.prems(5) by simp_all
    have en: "aiEnable (sAI ?w j) = aiEnable (sAI w j)" if "j \<noteq> i" for j using that by (simp add: ai_store_def)
    have "ar_ok (sAnalogReader ?w)" using c(1) by (simp add: ai_store_def)
    from Cons.IH [OF this c(2)] Cons.prems cfg(1) obtain d' r a c' where h:
      "ai_channels fl i2f rx arr is (d, ?w) = Some (d', ?w\<lparr>sAnalogReader := r, sAI := a, sCfg := c'\<rparr>)" "ar_ok r"
      "length c' = SSysCfg_size" "take (calib_off 0) c' = take (calib_off 0) (sCfg ?w)"
      "\<forall>j < ANALOG_INPUT_NUM_CHANNEL. (a j, field (calib_off j) SCalibNode_size c') =
         (if j \<in> set is \<and> aiEnable (sAI ?w j) \<noteq> 0 then ai_frame fl i2f (take 10 (rx j)) (ai_nodes ?w j) else ai_nodes ?w j)"
      by auto
    show ?thesis
    proof (intro exI conjI allI impI)
      show "ai_channels fl i2f rx arr (i # is) (data, w) = Some (d', w\<lparr>sAnalogReader := r, sAI := a, sCfg := c'\<rparr>)"
        using c(3) h(1) by (simp add: ai_store_def)
      show "(a j, field (calib_off j) SCalibNode_size c') =
         (if j \<in> set (i # is) \<and> aiEnable (sAI w j) \<noteq> 0 then ai_frame fl i2f (take 10 (rx j)) (ai_nodes w j) else ai_nodes w j)"
        if j: "j < ANALOG_INPUT_NUM_CHANNEL" for j
        using h(5) [rule_format, OF j] nodes [OF j] en [of j] i(2) False by (cases "j = i") simp_all
    qed (use h cfg in simp_all)
  qed
qed

section \<open>A concrete node\<close>

text \<open>The node \<open>pc0\<close> with its inputs.\<close>

definition in0 :: SAppIn where
  "in0 = l3_boot (pc_clbs fpu0) (SApp_ext App_GenDefaultConfig no_config
     \<lparr>tm_sec = 0, tm_min = 0, tm_hour = 0, tm_mday = 1, tm_mon = 1, tm_year = 0, tm_wday = 0\<rparr> (0, 0)
     (\<lambda>_. \<lparr>aiEnable = 1, aiStatus = 0, aiId = 0, aiValue = 0\<rparr>)
     (\<lambda>_. \<lparr>mbnEnable = 1, mbnStatus = 0, mbnDataFormat = 0, mbnDataType = 0, mbnAddress = 1, mbnRegAddress = 0, mbnValue = 0\<rparr>)
     (\<lambda>_. \<lparr>tvScratch = 0, tvRaw = 0, tvStd = 0, tvStt = (48, 48, 0)\<rparr>) 0 0 0 False False 0 (\<lambda>_. 0) True [] []
     (SAppIn.fields (Analog_Init (replicate 30 0) 1 9600) (\<lambda>i. (of_nat i, False)) 0)) 1 115200"

lemma in0: "ar_ok (sAnalogReader in0)" "sCfg in0 = App_GenDefaultConfig" "aiEnable (sAI in0 i) = 1" "aiStatus (sAI in0 i) = 0"
    "sDI in0 = (\<lambda>i. (of_nat i, False))" "owned [] in0"
proof -
  have f: "sCfg w = a \<and> sAI w = ai \<and> sMB w = mb \<and> sTagValue w = tv \<and> SApp.more w = z"
    if "STrans.more w = SApp_ext a cs dt tr ai mb tv pcc uic ec rb sr tc pj nc np nq z"
    for w :: SAppIn and a cs dt tr ai mb tv pcc uic ec rb sr tc pj nc np nq z
    using that by (cases w) simp
  have g: "sAnalogReader w = r \<and> sDI w = d" if "SApp.more w = SAppIn.fields r d n" for w :: SAppIn and r d n
    using that by (cases w) (simp add: SAppIn.fields_def)
  note p = f [OF l3_boot_start(18)]
  show "sCfg in0 = App_GenDefaultConfig" "aiEnable (sAI in0 i) = 1" "aiStatus (sAI in0 i) = 0" by (simp_all add: in0_def p)
  have "SApp.more in0 = SAppIn.fields (Analog_Init (replicate 30 0) 1 9600) (\<lambda>i. (of_nat i, False)) 0" by (simp add: in0_def p)
  from g [OF this] show "ar_ok (sAnalogReader in0)" "sDI in0 = (\<lambda>i. (of_nat i, False))"
    using ar_ok_Init [of "replicate 30 0" 1 9600] by simp_all
  show "owned [] in0" unfolding owned_def in0_def by (intro exI) (rule l3_boot_start(1))
qed

lemma in0_length: "length (sCfg in0) = SSysCfg_size"
  by (simp add: in0(2))

section \<open>Properties\<close>

text \<open>C26: reading the analog inputs gives every channel what its own frame says, whatever was on the stack and whatever else
  arrives: a frame with a good checksum and the right first byte sets value, raw value and status, a silent channel or
  another first byte makes it failed, a bad checksum leaves it as it was; other fields, disabled channels and the rest of
  the configuration do not change.  (Frames are empty or have at least five bytes.)\<close>

theorem AI_reads_channels:
  assumes "ar_ok (sAnalogReader w)" "length data = 10" "length (sCfg w) = SSysCfg_size"
    and "\<forall>i < ANALOG_INPUT_NUM_CHANNEL. rx i = [] \<or> 5 \<le> length (rx i)"
  shows "\<exists>r a c. App_AiReadAllPort fl i2f rx arr data w =
      Some (w\<lparr>sAnalogReader := r, sAI := a, sCfg := c, aiReadCount := aiReadCount w + 1\<rparr>)
    \<and> ar_ok r \<and> length c = SSysCfg_size \<and> take (calib_off 0) c = take (calib_off 0) (sCfg w)
    \<and> (\<forall>i < ANALOG_INPUT_NUM_CHANNEL. (a i, field (calib_off i) SCalibNode_size c) =
         (if aiEnable (sAI w i) \<noteq> 0 then ai_frame fl i2f (take 10 (rx i)) (ai_nodes w i) else ai_nodes w i))"
proof -
  from ai_channels_frames [OF assms(1,2), of "[0..<ANALOG_INPUT_NUM_CHANNEL]" rx fl i2f arr] assms(3,4)
  obtain d r a c where "ai_channels fl i2f rx arr [0..<ANALOG_INPUT_NUM_CHANNEL] (data, w) = Some (d, w\<lparr>sAnalogReader := r, sAI := a, sCfg := c\<rparr>)"
    "ar_ok r" "length c = SSysCfg_size" "take (calib_off 0) c = take (calib_off 0) (sCfg w)"
    "\<forall>i < ANALOG_INPUT_NUM_CHANNEL. (a i, field (calib_off i) SCalibNode_size c) =
         (if aiEnable (sAI w i) \<noteq> 0 then ai_frame fl i2f (take 10 (rx i)) (ai_nodes w i) else ai_nodes w i)"
    by (auto simp: atLeast0LessThan)
  then show ?thesis by (intro exI [of _ r] exI [of _ a] exI [of _ c]) (simp add: App_AiReadAllPort_def)
qed

definition ai_frame0 :: "u8 list" where
  "ai_frame0 = [0x55, 1, 2, 0, 3, crc8_of [0x55, 1, 2, 0, 3]]"

lemma AI_reads_channels_witness:
  "\<exists>w'. App_AiReadAllPort fpu0 word_of_int (\<lambda>i. if i = 3 then ai_frame0 else []) (\<lambda>i. []) (replicate 10 0) in0 = Some w'
     \<and> aiStatus (sAI w' 3) = TAG_STT_OK \<and> dec32 (field (calib_off 3) SCalibNode_size (sCfg w')) 16 = 0xFF
     \<and> aiStatus (sAI w' 4) = TAG_STT_AI_FAILED"
proof -
  let ?rx = "\<lambda>i :: nat. if i = 3 then ai_frame0 else []"
  have fr: "take 10 ai_frame0 = ai_frame0" "ai_frame0 \<noteq> []" "last ai_frame0 = crc8_of (butlast ai_frame0)" "hd ai_frame0 = 0x55" "ai_diff ai_frame0 = 255"
    by (simp_all add: ai_frame0_def ai_diff_def)
  have h: "\<forall>i < ANALOG_INPUT_NUM_CHANNEL. ?rx i = [] \<or> 5 \<le> length (?rx i)" by (simp add: ai_frame0_def)
  have en: "aiEnable (sAI in0 i) \<noteq> 0" for i by (simp add: in0(3))
  from AI_reads_channels [OF in0(1) _ in0_length h, of "replicate 10 0" fpu0 word_of_int "\<lambda>i. []"] obtain r a c where
    w: "App_AiReadAllPort fpu0 word_of_int ?rx (\<lambda>i. []) (replicate 10 0) in0 =
      Some (in0\<lparr>sAnalogReader := r, sAI := a, sCfg := c, aiReadCount := aiReadCount in0 + 1\<rparr>)"
    and n: "\<And>i. i < ANALOG_INPUT_NUM_CHANNEL \<Longrightarrow> (a i, field (calib_off i) SCalibNode_size c) = ai_frame fpu0 word_of_int (take 10 (?rx i)) (ai_nodes in0 i)"
    by (auto simp: en)
  have l: "length (snd (ai_nodes in0 3)) = SCalibNode_size"
    by (rule length_ai_nodes [OF _ in0_length]) (simp add: ANALOG_INPUT_NUM_CHANNEL_def)
  have "(a 3, field (calib_off 3) SCalibNode_size c) = ai_measured fpu0 word_of_int ai_frame0 (ai_nodes in0 3)"
    using n [of 3] fr by (simp add: ai_frame_def ANALOG_INPUT_NUM_CHANNEL_def)
  then have "aiStatus (a 3) = TAG_STT_OK" "dec32 (field (calib_off 3) SCalibNode_size c) 16 = 0xFF"
    using l fr(5) by (simp_all add: ai_measured_def split_beta dec32_put SCalibNode_size_def)
  moreover have "aiStatus (a 4) = TAG_STT_AI_FAILED"
    using n [of 4] by (simp add: ai_frame_def ANALOG_INPUT_NUM_CHANNEL_def)
  ultimately show ?thesis using w by simp
qed

text \<open>A frame of two bytes whose checksum fits is taken for a reading: the channel is reported good, with a value made of
  the checksum and of bytes the buffer still holds from an earlier channel.\<close>

theorem AI_short_frame_stale:
  assumes "ar_ok (sAnalogReader w)" "length data = 10" "aiEnable (sAI w i) \<noteq> 0"
    and "i < ANALOG_INPUT_NUM_CHANNEL" "length (sCfg w) = SSysCfg_size" "k = crc8_of [0x55]"
  shows "\<exists>r' d. ai_channel fl i2f [0x55, k] arr i (data, w) =
     Some (d, ai_store i (ai_measured fl i2f [0x55, k, data ! 2, data ! 3, data ! 4] (ai_nodes w i)) (w\<lparr>sAnalogReader := r'\<rparr>))"
proof -
  let ?d = "[0x55, k] @ drop 2 data"
  from ai_channel_eq [OF assms(1-3), of ?d "[0x55, k]" 2 fl i2f arr] obtain r' where
    "ai_channel fl i2f [0x55, k] arr i (data, w) = Some (?d, ai_measure fl i2f i ?d (w\<lparr>sAnalogReader := r'\<rparr>))"
    by (auto simp: assms(6) Let_def numeral_2_eq_2)
  moreover have "ai_diff ?d = ai_diff [0x55, k, data ! 2, data ! 3, data ! 4]"
    using assms(2) by (simp add: ai_diff_def nth_append numeral_eq_Suc)
  then have "ai_measured fl i2f ?d nc = ai_measured fl i2f [0x55, k, data ! 2, data ! 3, data ! 4] nc" for nc
    by (simp add: ai_measured_def)
  ultimately show ?thesis using ai_measure_store [OF assms(4), of "w\<lparr>sAnalogReader := r'\<rparr>"] assms(5)
    by (intro exI [of _ r'] exI [of _ ?d]) (simp add: ai_nodes_def)
qed

lemma AI_short_frame_stale_witness:
  "\<exists>d w'. ai_channel fpu0 word_of_int [0x55, crc8_of [0x55]] [] 4 (ai_frame0 @ [0, 0, 0, 0], in0) = Some (d, w') \<and> aiStatus (sAI w' 4) = TAG_STT_OK"
  using AI_short_frame_stale [OF in0(1), of "ai_frame0 @ [0, 0, 0, 0]" 4 _ fpu0 word_of_int "[]"] in0_length
  by (auto simp: ai_frame0_def in0(3) ANALOG_INPUT_NUM_CHANNEL_def ai_store_def ai_measured_def split_beta)

end
