(* ===== verification/TagValues.thy ===== *)
theory TagValues
  imports Analog
begin

text \<open>
  The values of the tags (\<^verbatim>\<open>App_UpdateTagContent\<close> in \<^verbatim>\<open>app.c\<close>): scaling, state of measurement and compensation.  The
  floating-point unit is an argument; each operation of the code is one of its operations.  \<open>None\<close> is a read
  outside one of the arrays.
\<close>

section \<open>The floating-point unit\<close>

text \<open>Comparison of floats, the conversions, and the operations on doubles.\<close>

record fpu2 = fpu +
  fl_lt :: "u32 \<Rightarrow> u32 \<Rightarrow> bool"
  fl_d :: "u32 \<Rightarrow> 64 word"
  d_fl :: "64 word \<Rightarrow> u32"
  d_sub :: "64 word \<Rightarrow> 64 word \<Rightarrow> 64 word"
  d_mul :: "64 word \<Rightarrow> 64 word \<Rightarrow> 64 word"
  d_div :: "64 word \<Rightarrow> 64 word \<Rightarrow> 64 word"
  d_zero :: "64 word \<Rightarrow> bool"

text \<open>The constants 20.9 and 1 as doubles, 273 as a float.\<close>

definition d_20_9 :: "64 word" where "d_20_9 = 0x4034E66666666666"
definition d_1 :: "64 word" where "d_1 = 0x3FF0000000000000"
definition fl_273 :: u32 where "fl_273 = 0x43888000"

section \<open>Reads by index\<close>

definition App_GetAIValueByIndex :: "(nat \<Rightarrow> SAiValueNode) \<Rightarrow> u16 \<Rightarrow> u32 option" where
  "App_GetAIValueByIndex h idx = (if unat idx < ANALOG_INPUT_NUM_CHANNEL then Some (aiValue (h (unat idx))) else None)"

definition App_GetMBValueByIndex :: "(nat \<Rightarrow> SMbNode) \<Rightarrow> u16 \<Rightarrow> u32 option" where
  "App_GetMBValueByIndex h idx = (if unat idx < SYSTEM_NUM_TAG then Some (mbnValue (h (unat idx))) else None)"

definition App_GetDILevelByIndex :: "(nat \<Rightarrow> u32 \<times> bool) \<Rightarrow> u16 \<Rightarrow> bool option" where
  "App_GetDILevelByIndex h idx = (if unat idx < DIGITAL_INPUT_NUM_CHANNEL then Some (snd (h (unat idx))) else None)"

definition raw_value :: "(nat \<Rightarrow> STagNode) \<Rightarrow> u16 \<Rightarrow> u32 option" where
  "raw_value tv idx = (if unat idx < SYSTEM_NUM_TAG then Some (tvRaw (tv (unat idx))) else None)"

section \<open>Measuring a tag\<close>

text \<open>The state of measurement: an empty text or two digits.\<close>

definition stt :: "u8 \<Rightarrow> u8 \<times> u8 \<times> u8" where "stt d = (0x30, d, 0)"

text \<open>One round of the first loop on the node of tag \<open>i\<close>; \<open>t\<close> are the bytes of its configuration.\<close>

definition measure_tag :: "'f fpu2_scheme \<Rightarrow> u8 list \<Rightarrow> nat \<Rightarrow> 'a SAppIn_scheme \<Rightarrow> STagNode \<Rightarrow> STagNode option" where
  "measure_tag fp t i w v = do {
     let v = v\<lparr>tvStt := (0, snd (tvStt v))\<rparr>;
     (x, status) \<leftarrow>
       (if t ! 22 = 0
        then map_option (\<lambda>x. (x, aiStatus (sAI w i))) (App_GetAIValueByIndex (sAI w) (dec16 t 0))
        else map_option (\<lambda>x. (x, mbnStatus (sMB w i))) (App_GetMBValueByIndex (sMB w) (dec16 t 0)));
     let v = v\<lparr>tvScratch := x\<rparr>;
     let range = fl_sub fp (dec32 t 112) (dec32 t 108);
     let v = (if \<not> fl_zero fp range then
                v\<lparr>tvRaw := fl_add fp (fl_div fp (fl_mul fp (fl_sub fp (tvScratch v) (dec32 t 108)) (fl_sub fp (dec32 t 104) (dec32 t 100))) range)
                   (dec32 t 100)\<rparr>
              else v);
     let v = v\<lparr>tvRaw := fl_add fp (dec32 t 116) (fl_mul fp (tvRaw v) (dec32 t 120))\<rparr>;
     (if status = TAG_STT_OK then do {
        let v = (if t ! 19 \<noteq> 0 \<or> t ! 20 \<noteq> 0 then v\<lparr>tvStt := stt 0x30\<rparr> else v);
        v \<leftarrow> (if t ! 19 \<noteq> 0 then
               map_option (\<lambda>calib. if calib then v\<lparr>tvStt := stt 0x31, tvRaw := 0\<rparr> else v) (App_GetDILevelByIndex (sDI w) (dec16 t 78))
             else Some v);
        v \<leftarrow> (if t ! 20 \<noteq> 0 then
               map_option (\<lambda>error. if error then v\<lparr>tvStt := stt 0x32, tvRaw := 0\<rparr> else v) (App_GetDILevelByIndex (sDI w) (dec16 t 80))
             else Some v);
        Some (if fl_lt fp (dec32 t 112) (tvScratch v) \<or> fl_lt fp (tvScratch v) (dec32 t 108) then v\<lparr>tvStt := stt 0x32, tvRaw := 0\<rparr> else v)
      }
      else Some (v\<lparr>tvStt := stt 0x32, tvRaw := 0\<rparr>))
   }"

text \<open>One round of the second loop: the factors for oxygen, temperature and pressure.\<close>

definition comp_factors :: "'f fpu2_scheme \<Rightarrow> u8 list \<Rightarrow> (nat \<Rightarrow> STagNode) \<Rightarrow> (64 word \<times> 64 word \<times> 64 word) option" where
  "comp_factors fp t tv =
     (if t ! 31 = 1 then do {
        r \<leftarrow> raw_value tv (dec16 t 82);
        Some (if \<not> d_zero fp (d_sub fp d_20_9 (fl_d fp r)) \<and> \<not> d_zero fp (d_sub fp d_20_9 (fl_d fp (dec32 t 88)))
              then d_div fp (d_sub fp d_20_9 (fl_d fp (dec32 t 88))) (d_sub fp d_20_9 (fl_d fp r)) else d_1, d_1, d_1)
      }
      else if t ! 31 = 2 then do {
        temp \<leftarrow> raw_value tv (dec16 t 84);
        let ft = (if \<not> fl_zero fp (fl_add fp fl_273 temp) \<and> \<not> fl_zero fp (fl_add fp fl_273 (dec32 t 92))
                  then fl_d fp (fl_div fp (fl_add fp fl_273 temp) (fl_add fp fl_273 (dec32 t 92))) else d_1);
        press \<leftarrow> raw_value tv (dec16 t 86);
        let pr = (if \<not> fl_zero fp press \<and> \<not> fl_zero fp press then fl_d fp (fl_div fp (dec32 t 96) press) else d_1);
        Some (d_1, ft, pr)
      }
      else Some (d_1, d_1, d_1))"

definition std_of :: "'f fpu2_scheme \<Rightarrow> u32 \<Rightarrow> 64 word \<times> 64 word \<times> 64 word \<Rightarrow> u32" where
  "std_of fp raw f = (case f of (o2, ft, pr) \<Rightarrow> d_fl fp (d_mul fp (d_mul fp (d_mul fp (fl_d fp raw) o2) ft) pr))"

fun measure_loop :: "'f fpu2_scheme \<Rightarrow> nat list \<Rightarrow> 'a SAppIn_scheme \<Rightarrow> 'a SAppIn_scheme option" where
  "measure_loop fp [] w = Some w"
| "measure_loop fp (i # is) w = do {
     v \<leftarrow> measure_tag fp (drop (tag_off i) (sCfg w)) i w (sTagValue w i);
     measure_loop fp is (w\<lparr>sTagValue := (sTagValue w)(i := v)\<rparr>)
   }"

fun compensate_loop :: "'f fpu2_scheme \<Rightarrow> nat list \<Rightarrow> 'a SAppIn_scheme \<Rightarrow> 'a SAppIn_scheme option" where
  "compensate_loop fp [] w = Some w"
| "compensate_loop fp (i # is) w = do {
     f \<leftarrow> comp_factors fp (drop (tag_off i) (sCfg w)) (sTagValue w);
     compensate_loop fp is (w\<lparr>sTagValue := (sTagValue w)(i := (sTagValue w i)\<lparr>tvStd := std_of fp (tvRaw (sTagValue w i)) f\<rparr>)\<rparr>)
   }"

definition App_UpdateTagContent :: "'f fpu2_scheme \<Rightarrow> 'a SAppIn_scheme \<Rightarrow> 'a SAppIn_scheme option" where
  "App_UpdateTagContent fp w = do {
     w \<leftarrow> measure_loop fp [0..<SYSTEM_NUM_TAG] w;
     compensate_loop fp [0..<SYSTEM_NUM_TAG] w
   }"

section \<open>Specification\<close>

text \<open>What the references of a tag must satisfy; the pins are looked at only when the input is good.\<close>

definition tag_status :: "u8 list \<Rightarrow> 'a SAppIn_scheme \<Rightarrow> nat \<Rightarrow> u8" where
  "tag_status t w i = (if t ! 22 = 0 then aiStatus (sAI w i) else mbnStatus (sMB w i))"

definition input_refs :: "u8 list \<Rightarrow> 'a SAppIn_scheme \<Rightarrow> nat \<Rightarrow> bool" where
  "input_refs t w i \<longleftrightarrow> unat (dec16 t 0) < 12
     \<and> (tag_status t w i = TAG_STT_OK \<longrightarrow> (t ! 19 \<noteq> 0 \<longrightarrow> unat (dec16 t 78) < 8) \<and> (t ! 20 \<noteq> 0 \<longrightarrow> unat (dec16 t 80) < 8))"

definition comp_refs :: "u8 list \<Rightarrow> bool" where
  "comp_refs t \<longleftrightarrow> (t ! 31 = 1 \<longrightarrow> unat (dec16 t 82) < 12) \<and> (t ! 31 = 2 \<longrightarrow> unat (dec16 t 84) < 12 \<and> unat (dec16 t 86) < 12)"

definition tag_refs :: "'a SAppIn_scheme \<Rightarrow> nat \<Rightarrow> bool" where
  "tag_refs w i \<longleftrightarrow> input_refs (drop (tag_off i) (sCfg w)) w i \<and> comp_refs (drop (tag_off i) (sCfg w))"

text \<open>The value of the input, and the digit of the state of measurement: 2 before 1 before 0, none without a pin.\<close>

definition tag_input :: "u8 list \<Rightarrow> 'a SAppIn_scheme \<Rightarrow> u32" where
  "tag_input t w = (if t ! 22 = 0 then aiValue (sAI w (unat (dec16 t 0))) else mbnValue (sMB w (unat (dec16 t 0))))"

definition pin_high :: "'a SAppIn_scheme \<Rightarrow> u16 \<Rightarrow> bool" where
  "pin_high w p = snd (sDI w (unat p))"

definition tag_digit :: "'f fpu2_scheme \<Rightarrow> u8 list \<Rightarrow> 'a SAppIn_scheme \<Rightarrow> nat \<Rightarrow> u8 option" where
  "tag_digit fp t w i =
     (if tag_status t w i \<noteq> TAG_STT_OK \<or> fl_lt fp (dec32 t 112) (tag_input t w) \<or> fl_lt fp (tag_input t w) (dec32 t 108)
         \<or> t ! 20 \<noteq> 0 \<and> pin_high w (dec16 t 80) then Some 0x32
      else if t ! 19 \<noteq> 0 \<and> pin_high w (dec16 t 78) then Some 0x31
      else if t ! 19 \<noteq> 0 \<or> t ! 20 \<noteq> 0 then Some 0x30 else None)"

text \<open>The scaled value; with an empty range the value of the last round takes the place of the linear part.\<close>

definition tag_scaled :: "'f fpu2_scheme \<Rightarrow> u8 list \<Rightarrow> u32 \<Rightarrow> u32 \<Rightarrow> u32" where
  "tag_scaled fp t x prev =
     (let range = fl_sub fp (dec32 t 112) (dec32 t 108);
          y = (if fl_zero fp range then prev
               else fl_add fp (fl_div fp (fl_mul fp (fl_sub fp x (dec32 t 108)) (fl_sub fp (dec32 t 104) (dec32 t 100))) range) (dec32 t 100))
      in fl_add fp (dec32 t 116) (fl_mul fp y (dec32 t 120)))"

definition measured :: "'f fpu2_scheme \<Rightarrow> 'a SAppIn_scheme \<Rightarrow> nat \<Rightarrow> STagNode" where
  "measured fp w i =
     (let t = drop (tag_off i) (sCfg w); v = sTagValue w i; d = tag_digit fp t w i in
      v\<lparr>tvScratch := tag_input t w,
        tvRaw := (if d = Some 0x31 \<or> d = Some 0x32 then 0 else tag_scaled fp t (tag_input t w) (tvRaw v)),
        tvStt := (case d of None \<Rightarrow> (0, snd (tvStt v)) | Some c \<Rightarrow> stt c)\<rparr>)"

text \<open>The compensation uses the raw values of this round.\<close>

definition factors :: "'f fpu2_scheme \<Rightarrow> u8 list \<Rightarrow> (nat \<Rightarrow> u32) \<Rightarrow> 64 word \<times> 64 word \<times> 64 word" where
  "factors fp t raw =
     (if t ! 31 = 1 then
        (let m = d_sub fp d_20_9 (fl_d fp (raw (unat (dec16 t 82)))); s = d_sub fp d_20_9 (fl_d fp (dec32 t 88))
         in (if d_zero fp m \<or> d_zero fp s then d_1 else d_div fp s m, d_1, d_1))
      else if t ! 31 = 2 then
        (let m = fl_add fp fl_273 (raw (unat (dec16 t 84))); s = fl_add fp fl_273 (dec32 t 92); p = raw (unat (dec16 t 86))
         in (d_1, if fl_zero fp m \<or> fl_zero fp s then d_1 else fl_d fp (fl_div fp m s),
             if fl_zero fp p then d_1 else fl_d fp (fl_div fp (dec32 t 96) p)))
      else (d_1, d_1, d_1))"

definition updated :: "'f fpu2_scheme \<Rightarrow> 'a SAppIn_scheme \<Rightarrow> nat \<Rightarrow> STagNode" where
  "updated fp w i = (measured fp w i)\<lparr>tvStd :=
     std_of fp (tvRaw (measured fp w i)) (factors fp (drop (tag_off i) (sCfg w)) (\<lambda>k. tvRaw (measured fp w k)))\<rparr>"

section \<open>The loops\<close>

lemma measure_tag_spec:
  "measure_tag fp (drop (tag_off i) (sCfg w)) i w (sTagValue w i) =
     (if input_refs (drop (tag_off i) (sCfg w)) w i then Some (measured fp w i) else None)"
proof -
  define t where "t = drop (tag_off i) (sCfg w)"
  have src: "(if t ! 22 = 0 then map_option (\<lambda>x. (x, aiStatus (sAI w i))) (App_GetAIValueByIndex (sAI w) (dec16 t 0))
      else map_option (\<lambda>x. (x, mbnStatus (sMB w i))) (App_GetMBValueByIndex (sMB w) (dec16 t 0)))
    = (if unat (dec16 t 0) < 12 then Some (tag_input t w, tag_status t w i) else None)"
    by (simp add: App_GetAIValueByIndex_def App_GetMBValueByIndex_def tag_input_def tag_status_def layout_defs)
  have di: "App_GetDILevelByIndex (sDI w) p = (if unat p < 8 then Some (pin_high w p) else None)" for p
    by (simp add: App_GetDILevelByIndex_def pin_high_def layout_defs)
  have r: "measure_tag fp t i w (sTagValue w i) = (if input_refs t w i then Some (measured fp w i) else None)"
  proof (cases "unat (dec16 t 0) < 12")
    case False
    then show ?thesis unfolding measure_tag_def src by (simp add: input_refs_def Let_def)
  next
    case True
    show ?thesis
    proof (cases "tag_status t w i = TAG_STT_OK")
      case False
      then show ?thesis using True unfolding measure_tag_def src
        by (simp add: input_refs_def Let_def measured_def t_def [symmetric] tag_digit_def)
    next
      case s: True
      show ?thesis using True s unfolding measure_tag_def src di
        by (cases "t ! 19 = 0"; cases "t ! 20 = 0"; simp add: input_refs_def Let_def measured_def t_def [symmetric] tag_digit_def tag_scaled_def stt_def)
    qed
  qed
  then show ?thesis by (simp add: t_def)
qed

text \<open>Other tags do not matter in the first loop, and in the second only their raw values, which it keeps.\<close>

lemma tags_other [simp]:
  "tag_status t (w\<lparr>sTagValue := tv\<rparr>) j = tag_status t w j" "tag_input t (w\<lparr>sTagValue := tv\<rparr>) = tag_input t w"
  "pin_high (w\<lparr>sTagValue := tv\<rparr>) p = pin_high w p"
  by (simp_all add: tag_status_def tag_input_def pin_high_def)

lemma digit_other [simp]:
  "tag_digit fp t (w\<lparr>sTagValue := tv\<rparr>) j = tag_digit fp t w j" "input_refs t (w\<lparr>sTagValue := tv\<rparr>) j = input_refs t w j"
  unfolding tag_digit_def input_refs_def tags_other by (rule refl)+

lemma measured_other [simp]: "j \<noteq> i \<Longrightarrow> measured fp (w\<lparr>sTagValue := (sTagValue w)(i := v)\<rparr>) j = measured fp w j"
  unfolding measured_def Let_def by (simp cong: if_cong option.case_cong)

lemma measure_loop_spec:
  assumes "distinct is"
  shows "measure_loop fp is w =
     (if \<forall>i \<in> set is. input_refs (drop (tag_off i) (sCfg w)) w i
      then Some (w\<lparr>sTagValue := (\<lambda>i. if i \<in> set is then measured fp w i else sTagValue w i)\<rparr>) else None)"
  using assms
proof (induction "is" arbitrary: w)
  case (Cons i "is")
  let ?w = "w\<lparr>sTagValue := (sTagValue w)(i := measured fp w i)\<rparr>"
  have i: "i \<notin> set is" "distinct is" using Cons.prems by auto
  have m: "measured fp ?w j = measured fp w j" if "j \<in> set is" for j
    by (rule measured_other) (use that i in auto)
  have "(\<lambda>j. if j \<in> set is then measured fp ?w j else sTagValue ?w j)
      = (\<lambda>j. if j \<in> set (i # is) then measured fp w j else sTagValue w j)"
    using i(1) m by (intro ext) auto
  then show ?case using Cons.IH [OF i(2), of ?w] by (simp add: measure_tag_spec cong: if_cong)
qed simp

lemma comp_factors_spec:
  "comp_factors fp t tv = (if comp_refs t then Some (factors fp t (\<lambda>k. tvRaw (tv k))) else None)"
  by (auto simp: comp_factors_def comp_refs_def factors_def raw_value_def SYSTEM_NUM_TAG_def Let_def)

lemma factors_cong: "(\<And>k. tvRaw (tv' k) = tvRaw (tv k)) \<Longrightarrow> factors fp t (\<lambda>k. tvRaw (tv' k)) = factors fp t (\<lambda>k. tvRaw (tv k))"
  by simp

lemma compensate_loop_spec:
  assumes "distinct is"
  shows "compensate_loop fp is w =
     (if \<forall>i \<in> set is. comp_refs (drop (tag_off i) (sCfg w))
      then Some (w\<lparr>sTagValue := (\<lambda>i. if i \<in> set is then (sTagValue w i)\<lparr>tvStd := std_of fp (tvRaw (sTagValue w i))
             (factors fp (drop (tag_off i) (sCfg w)) (\<lambda>k. tvRaw (sTagValue w k)))\<rparr> else sTagValue w i)\<rparr>) else None)"
  using assms
proof (induction "is" arbitrary: w)
  case (Cons i "is")
  let ?F = "\<lambda>w j. (sTagValue w j)\<lparr>tvStd := std_of fp (tvRaw (sTagValue w j))
             (factors fp (drop (tag_off j) (sCfg w)) (\<lambda>k. tvRaw (sTagValue w k)))\<rparr>"
  let ?w = "w\<lparr>sTagValue := (sTagValue w)(i := ?F w i)\<rparr>"
  have i: "i \<notin> set is" "distinct is" using Cons.prems by auto
  have raw: "(\<lambda>k. tvRaw (sTagValue ?w k)) = (\<lambda>k. tvRaw (sTagValue w k))" by auto
  have "?F ?w j = ?F w j" if "j \<noteq> i" for j
    unfolding raw using that by simp
  then have "(\<lambda>j. if j \<in> set is then ?F ?w j else sTagValue ?w j) = (\<lambda>j. if j \<in> set (i # is) then ?F w j else sTagValue w j)"
    using i(1) by (intro ext) auto
  then show ?case using Cons.IH [OF i(2), of ?w] by (simp add: comp_factors_spec cong: if_cong)
qed simp

section \<open>The default configuration\<close>

lemma default_tags_field:
  assumes "i + n \<le> SYSTEM_NUM_TAG" "length c = SSysCfg_size"
  shows "field (tag_off j) STag_size (default_tags n i c) =
     (if i \<le> j \<and> j < i + n then App_DefaultTag (of_nat j) (field (tag_off j) STag_size c) else field (tag_off j) STag_size c)"
  using assms
proof (induction n arbitrary: i c)
  case (Suc n)
  let ?t = "App_DefaultTag (of_nat i) (field (tag_off i) STag_size c)"
  have t: "length ?t = STag_size" using Suc.prems by (simp add: layout_defs)
  have fit: "tag_off i + length ?t \<le> length c" unfolding t using Suc.prems by (simp add: layout_defs)
  have f: "field (tag_off k) STag_size (put_bytes (tag_off i) ?t c) = (if k = i then ?t else field (tag_off k) STag_size c)" for k
  proof (cases "k = i")
    case True
    then show ?thesis using field_put_same [OF fit, of STag_size] t by simp
  next
    case False
    then have "tag_off k + STag_size \<le> tag_off i \<or> tag_off i + length ?t \<le> tag_off k"
      unfolding t by (simp add: layout_defs) arith
    then show ?thesis using field_put_other [OF _ fit] False by simp
  qed
  have "length (put_bytes (tag_off i) ?t c) = SSysCfg_size" using fit Suc.prems(2) by (simp add: put_bytes_length)
  from Suc.IH [OF _ this, of "Suc i"] Suc.prems(1) show ?case by (auto simp: f)
qed auto

text \<open>The default tags: their own input of the same number, no pins, no compensation.\<close>

text \<open>What every write of \<open>App_DefaultTag\<close> after the first keeps.\<close>

definition plain_tag :: "u8 \<Rightarrow> u8 list \<Rightarrow> bool" where
  "plain_tag x t \<longleftrightarrow> length t = 128 \<and> dec16 t 0 = ucast x \<and> t ! 19 = 0 \<and> t ! 20 = 0 \<and> t ! 31 = 0"

lemma plain_tag_intros:
  "plain_tag x a \<Longrightarrow> (\<And>y. plain_tag x y \<Longrightarrow> plain_tag x (f y)) \<Longrightarrow> plain_tag x (Let a f)"
  "plain_tag x t \<Longrightarrow> 2 \<le> n \<and> n + length bs \<le> 19 \<or> 21 \<le> n \<and> n + length bs \<le> 31 \<or> 32 \<le> n \<and> n + length bs \<le> 128 \<Longrightarrow> plain_tag x (put_bytes n bs t)"
  "plain_tag x t \<Longrightarrow> k \<noteq> 0 \<and> k \<noteq> Suc 0 \<and> k \<noteq> 31 \<and> (k = 19 \<or> k = 20 \<longrightarrow> v = 0) \<Longrightarrow> plain_tag x (t[k := v])"
  "plain_tag x t \<Longrightarrow> 32 \<le> n \<and> n + 15 \<le> 128 \<Longrightarrow> plain_tag x (Str_Copy_N n src 15 t)"
proof -
  show put: "plain_tag x (put_bytes n bs t)" if "plain_tag x t"
    "2 \<le> n \<and> n + length bs \<le> 19 \<or> 21 \<le> n \<and> n + length bs \<le> 31 \<or> 32 \<le> n \<and> n + length bs \<le> 128" for t n and bs :: "u8 list"
    using that by (auto simp: plain_tag_def put_bytes_nth put_bytes_length dec16_def)
  show "plain_tag x (Str_Copy_N n src 15 t)" if "plain_tag x t" "32 \<le> n \<and> n + 15 \<le> 128"
    unfolding Str_Copy_N_def Let_def by (rule put [OF that(1)]) (use that(2) in auto)
  show "plain_tag x (t[k := v])" if "plain_tag x t" "k \<noteq> 0 \<and> k \<noteq> Suc 0 \<and> k \<noteq> 31 \<and> (k = 19 \<or> k = 20 \<longrightarrow> v = 0)"
    using that by (cases "k = 19"; cases "k = 20"; simp add: plain_tag_def dec16_def)
qed simp

lemma plain_tag_first: "length t = 128 \<Longrightarrow> t ! 19 = 0 \<Longrightarrow> t ! 20 = 0 \<Longrightarrow> t ! 31 = 0 \<Longrightarrow> plain_tag x (put_bytes 0 (enc16 (ucast x)) t)"
  by (simp add: plain_tag_def put_bytes_nth put_bytes_length dec16_def enc16_def dec16_enc16)

lemma plain_DefaultTag:
  assumes "length t = 128" "t ! 19 = 0" "t ! 20 = 0" "t ! 31 = 0"
  shows "plain_tag x (App_DefaultTag x t)"
  unfolding App_DefaultTag_def by (rule plain_tag_intros plain_tag_first assms | assumption | simp)+

text \<open>The bytes of the tags are zero before.\<close>

definition tags_zero :: "SSysCfg \<Rightarrow> bool" where
  "tags_zero c \<longleftrightarrow> length c = SSysCfg_size \<and> (\<forall>k. 216 \<le> k \<and> k < 1752 \<longrightarrow> c ! k = 0)"

lemma tags_zero_intros:
  "tags_zero (replicate SSysCfg_size 0)"
  "tags_zero c \<Longrightarrow> n + length bs \<le> 216 \<or> 1752 \<le> n \<and> n + length bs \<le> 2412 \<Longrightarrow> tags_zero (put_bytes n bs c)"
  "tags_zero c \<Longrightarrow> n + Suc (length s) \<le> 216 \<or> 1752 \<le> n \<and> n + Suc (length s) \<le> 2412 \<Longrightarrow> tags_zero (Str_Copy n s c)"
proof -
  show put: "tags_zero (put_bytes n bs c)" if "tags_zero c" "n + length bs \<le> 216 \<or> 1752 \<le> n \<and> n + length bs \<le> 2412"
    for n and bs :: "u8 list" and c
    using that by (auto simp: tags_zero_def put_bytes_nth put_bytes_length SSysCfg_size_def)
  show "tags_zero (Str_Copy n s c)" if "tags_zero c" "n + Suc (length s) \<le> 216 \<or> 1752 \<le> n \<and> n + Suc (length s) \<le> 2412"
    unfolding Str_Copy_def by (rule put [OF that(1)]) (use that(2) in \<open>simp add: chars_def\<close>)
qed (simp add: tags_zero_def layout_defs)

lemma default_calib_field:
  assumes "j < SYSTEM_NUM_TAG" "i + n \<le> ANALOG_INPUT_NUM_CHANNEL" "length c = SSysCfg_size"
  shows "field (tag_off j) STag_size (default_calib n i c) = field (tag_off j) STag_size c"
  using assms(2,3)
proof (induction n arbitrary: i c)
  case (Suc n)
  have fit: "calib_off i + 8 \<le> length c" "tag_off j + STag_size \<le> calib_off i" using Suc.prems assms(1) by (simp_all add: layout_defs)
  have "field (tag_off j) STag_size (put_bytes (calib_off i + 4) (enc32 x) (put_bytes (calib_off i) (enc32 y) c)) = field (tag_off j) STag_size c" for x y
    using fit by (simp add: field_put_other put_bytes_length)
  moreover have "length (put_bytes (calib_off i + 4) (enc32 x) (put_bytes (calib_off i) (enc32 y) c)) = SSysCfg_size" for x y
    using fit Suc.prems(2) by (simp add: put_bytes_length)
  ultimately show ?case using Suc.IH [of "Suc i"] Suc.prems(1) by simp
qed simp

lemma let_zero: "tags_zero a \<Longrightarrow> (\<And>y. tags_zero y \<Longrightarrow> R (f y)) \<Longrightarrow> R (Let a f)"
  by simp

lemma default_plain:
  assumes "j < SYSTEM_NUM_TAG"
  shows "plain_tag (of_nat j) (field (tag_off j) STag_size App_GenDefaultConfig)"
proof -
  have last: "plain_tag (of_nat j) (field (tag_off j) STag_size (let c = default_tags SYSTEM_NUM_TAG 0 c in default_calib ANALOG_INPUT_NUM_CHANNEL 0 c))"
    if "tags_zero c" for c
  proof -
    have l: "length c = SSysCfg_size" using that by (simp add: tags_zero_def)
    have d: "length (default_tags SYSTEM_NUM_TAG 0 c) = SSysCfg_size"
      by (rule length_default_tags [OF l]) (simp add: layout_defs)
    have z: "field (tag_off j) STag_size c ! k = 0" if "k < 128" for k
      using that assms \<open>tags_zero c\<close> l by (simp add: field_nth tags_zero_def layout_defs)
    have "field (tag_off j) STag_size (default_tags SYSTEM_NUM_TAG 0 c) = App_DefaultTag (of_nat j) (field (tag_off j) STag_size c)"
      using default_tags_field [OF _ l, of 0 SYSTEM_NUM_TAG j] assms by simp
    moreover have "plain_tag (of_nat j) (App_DefaultTag (of_nat j) (field (tag_off j) STag_size c))"
      using assms l z by (intro plain_DefaultTag) (simp_all add: layout_defs)
    ultimately show ?thesis using default_calib_field [OF assms _ d, of 0 ANALOG_INPUT_NUM_CHANNEL] by (simp add: Let_def)
  qed
  show ?thesis
    unfolding App_GenDefaultConfig_def
    by ((rule let_zero [where R = "\<lambda>c. plain_tag (of_nat j) (field (tag_off j) STag_size c)"], (rule tags_zero_intros(1) | (rule tags_zero_intros(2,3), assumption, simp add: acc_off_def)))+) (rule last)
qed

lemma plain_tag_refs:
  assumes "plain_tag x (field (tag_off i) STag_size (sCfg w))" "unat x < 12" "tag_off i + STag_size \<le> length (sCfg w)"
  shows "tag_refs w i"
proof -
  let ?t = "drop (tag_off i) (sCfg w)"
  have n: "?t ! k = field (tag_off i) STag_size (sCfg w) ! k" if "k < 128" for k
    using that assms(3) by (simp add: field_nth STag_size_def)
  have "?t ! 19 = 0" "?t ! 20 = 0" "?t ! 31 = 0" "dec16 ?t 0 = ucast x"
    using assms(1) n [of 0] n [of 1] n [of 19] n [of 20] n [of 31] by (simp_all add: plain_tag_def dec16_def)
  then show ?thesis using assms(2) by (simp add: tag_refs_def input_refs_def comp_refs_def)
qed

lemma tags_update:
  "App_UpdateTagContent fp w =
     (if \<forall>i < SYSTEM_NUM_TAG. tag_refs w i
      then Some (w\<lparr>sTagValue := (\<lambda>i. if i < SYSTEM_NUM_TAG then updated fp w i else sTagValue w i)\<rparr>) else None)"
proof -
  note N = SYSTEM_NUM_TAG_def
  let ?is = "[0..<SYSTEM_NUM_TAG]"
  let ?w = "w\<lparr>sTagValue := (\<lambda>i. if i \<in> set ?is then measured fp w i else sTagValue w i)\<rparr>"
  have f: "factors fp (drop (tag_off i) (sCfg w)) (\<lambda>k. tvRaw (sTagValue ?w k))
      = factors fp (drop (tag_off i) (sCfg w)) (\<lambda>k. tvRaw (measured fp w k))" if "comp_refs (drop (tag_off i) (sCfg w))" for i
    using that by (auto simp: factors_def comp_refs_def N Let_def)
  have "(\<forall>i \<in> set ?is. comp_refs (drop (tag_off i) (sCfg w))) \<Longrightarrow>
     (\<lambda>i. if i \<in> set ?is then (sTagValue ?w i)\<lparr>tvStd := std_of fp (tvRaw (sTagValue ?w i))
             (factors fp (drop (tag_off i) (sCfg w)) (\<lambda>k. tvRaw (sTagValue ?w k)))\<rparr> else sTagValue ?w i)
     = (\<lambda>i. if i < SYSTEM_NUM_TAG then updated fp w i else sTagValue w i)"
    using f by (intro ext) (auto simp: updated_def)
  moreover have "(\<forall>i < SYSTEM_NUM_TAG. tag_refs w i) \<longleftrightarrow>
     (\<forall>i \<in> set ?is. input_refs (drop (tag_off i) (sCfg w)) w i) \<and> (\<forall>i \<in> set ?is. comp_refs (drop (tag_off i) (sCfg w)))"
    by (auto simp: tag_refs_def)
  ultimately show ?thesis
    using measure_loop_spec [of ?is fp w] compensate_loop_spec [of ?is fp ?w] unfolding App_UpdateTagContent_def
    by (simp cong: if_cong)
qed

section \<open>Properties\<close>

definition fpu1 :: fpu2 where
  "fpu1 = fpu.extend fpu0 (fpu2.fields (\<lambda>x y. x < y) ucast ucast (\<lambda>x y. x) (\<lambda>x y. x) (\<lambda>x y. x) (\<lambda>x. x = 0))"

text \<open>C27: one update of the tags either reads outside an array, exactly when the references of some tag are out of range, or
  gives every tag its value by the specification: the input selected by its identifier, scaled; state 2 and value 0 when
  the input failed, is out of range or the error pin is set, else state 1 and value 0 under the calibration pin; and the
  standard value is compensated with the raw values of the same round, whatever the order of the tags.\<close>

theorem Tags_update_spec:
  "App_UpdateTagContent fp w =
     (if \<forall>i < SYSTEM_NUM_TAG. tag_refs w i
      then Some (w\<lparr>sTagValue := (\<lambda>i. if i < SYSTEM_NUM_TAG then updated fp w i else sTagValue w i)\<rparr>) else None)"
  by (rule tags_update)

lemma Tags_update_spec_witness: "App_UpdateTagContent fpu1 in0 \<noteq> None"
proof -
  have "tag_refs in0 i" if "i < SYSTEM_NUM_TAG" for i
    by (rule plain_tag_refs [of "of_nat i"])
      (use default_plain [OF that] that in0(2) in \<open>simp_all add: layout_defs unsigned_of_nat take_bit_nat_eq_self\<close>)
  then show ?thesis using Tags_update_spec [of fpu1 in0] by simp
qed

text \<open>C28: with the configuration the logger generates the update runs, whatever the inputs are; once the PC has set a tag to an
  identifier that is not the number of a channel, which the command accepts, every update reads outside the array.\<close>

theorem Tags_identifier_unchecked:
  fixes fp :: "'f fpu2_scheme"
  assumes "owned l w" "sCfg w = App_GenDefaultConfig" "240 \<le> length data" "data ! 0 = 0x83" "data ! 1 = 129" "unat (data ! 2) < SYSTEM_NUM_TAG"
    and "SYSTEM_NUM_TAG \<le> unat (dec16 data 3)"
  shows "App_UpdateTagContent fp w \<noteq> None
    \<and> (\<exists>r w'. App_SetConfig data True w = Some (r, w') \<and> (\<forall>fp :: 'f fpu2_scheme. App_UpdateTagContent fp w' = None))"
proof
  have "tag_refs w i" if "i < SYSTEM_NUM_TAG" for i
    by (rule plain_tag_refs [of "of_nat i"]) (use default_plain [OF that] that assms(2) in \<open>simp_all add: layout_defs unsigned_of_nat take_bit_nat_eq_self\<close>)
  then show "App_UpdateTagContent fp w \<noteq> None" by (simp add: tags_update)
next
  let ?i = "unat (data ! 2)"
  let ?w = "w\<lparr>sCfg := put_bytes (tag_off ?i) (take STag_size (drop 3 data)) (sCfg w)\<rparr>"
  have o: "owned l ?w" using assms(1) by simp
  then obtain ret w' where w': "App_SendPC 0x87 None 0 False ?w = Some (ret, w')" "sCfg w' = sCfg ?w"
    using send_message_more [OF o, of None 0 "0x87" False] more_sCfg by (fastforce simp: App_SendPC_def msg_fits_def)
  have fit: "tag_off ?i + length (take STag_size (drop 3 data)) \<le> length (sCfg w)"
    using assms(2,3,6) by (simp add: layout_defs)
  have "dec16 (drop (tag_off ?i) (sCfg w')) 0 = dec16 data 3"
    using fit assms(3) by (simp add: w'(2) dec16_def put_bytes_nth put_bytes_length STag_size_def)
  then have "\<not> tag_refs w' ?i" using assms(7) by (simp add: tag_refs_def input_refs_def SYSTEM_NUM_TAG_def)
  then have "\<forall>fp :: 'f fpu2_scheme. App_UpdateTagContent fp w' = None" using assms(6) by (auto simp: tags_update)
  moreover have "App_SetConfig data True w = Some (if ret then 1 else 0, w')"
    using SetConfig_tag [OF assms(3-5), of w] w'(1) assms(6) by simp
  ultimately show "\<exists>r w'. App_SetConfig data True w = Some (r, w') \<and> (\<forall>fp :: 'f fpu2_scheme. App_UpdateTagContent fp w' = None)" by blast
qed

lemma Tags_identifier_unchecked_witness:
  "\<exists>r w'. App_SetConfig (0x83 # 129 # 2 # replicate 237 7) True in0 = Some (r, w') \<and> (\<forall>fp :: fpu2. App_UpdateTagContent fp w' = None)"
proof -
  let ?d = "0x83 # 129 # 2 # replicate 237 7 :: u8 list"
  have d: "dec16 ?d 3 = 0x0707" by (simp add: dec16_def)
  show ?thesis
    using Tags_identifier_unchecked [OF in0(6,2), where fp = fpu1 and data = ?d] by (simp add: d SYSTEM_NUM_TAG_def)
qed

end
