(* ===== verification/LogFile.thy ===== *)
theory LogFile
  imports TagValues
begin

text \<open>
  The log file (\<^verbatim>\<open>App_GenerateLogFile\<close>, \<^verbatim>\<open>App_GenerateLogFileByName\<close> in \<^verbatim>\<open>app.c\<close>) and the hand-over to the FTP client
  (\<^verbatim>\<open>ftp_add_filename\<close> in \<^verbatim>\<open>network/ftp_client.c\<close>).  The conversion of a float to text is an argument.  \<open>None\<close> is a
  string without end or a text longer than its buffer.
\<close>

section \<open>The card\<close>

text \<open>Paths that exist, the bytes of the files, and the outcomes of the next calls of FatFs.\<close>

record card =
  cardExists :: "u8 list \<Rightarrow> bool"
  cardData :: "u8 list \<Rightarrow> u8 list"
  cardOutcomes :: "fs_outcome list"

definition card_next :: "card \<Rightarrow> fs_outcome \<times> card" where
  "card_next c = (case cardOutcomes c of [] \<Rightarrow> (FsOk, c) | x # xs \<Rightarrow> (x, c\<lparr>cardOutcomes := xs\<rparr>))"

definition obj_existed :: "u8 list \<Rightarrow> card \<Rightarrow> bool \<times> card" where
  "obj_existed p c = (let (r, c) = card_next c in (r \<noteq> FsErr \<and> cardExists c p, c))"

text \<open>The calls return whether they failed.\<close>

definition f_mkdir :: "u8 list \<Rightarrow> card \<Rightarrow> bool \<times> card" where
  "f_mkdir p c = (let (r, c) = card_next c in
     if r = FsErr \<or> cardExists c p then (True, c) else (False, c\<lparr>cardExists := (cardExists c)(p := True)\<rparr>))"

text \<open>\<open>FA_OPEN_ALWAYS\<close>: an existing file is opened at its start and keeps its bytes.\<close>

definition f_open_always :: "u8 list \<Rightarrow> card \<Rightarrow> FIL option \<times> card" where
  "f_open_always p c = (let (r, c) = card_next c in
     if r = FsErr then (None, c)
     else (Some \<lparr>fdata = (if cardExists c p then cardData c p else []), fptr = 0, outcomes = cardOutcomes c\<rparr>,
           c\<lparr>cardExists := (cardExists c)(p := True)\<rparr>))"

text \<open>What the file holds is on the card.\<close>

definition f_sync :: "u8 list \<Rightarrow> FIL \<Rightarrow> card \<Rightarrow> card" where
  "f_sync p f c = c\<lparr>cardData := (cardData c)(p := fdata f), cardOutcomes := outcomes f\<rparr>"

section \<open>Text\<close>

text \<open>\<open>sprintf\<close> with \<open>%0wd\<close>, \<open>%-ws\<close> and \<open>%ws\<close>.\<close>

fun dec_digits :: "nat \<Rightarrow> u8 list" where
  "dec_digits n = (if n < 10 then [0x30 + of_nat n] else dec_digits (n div 10) @ [0x30 + of_nat (n mod 10)])"

declare dec_digits.simps [simp del]

definition pad_left :: "u8 \<Rightarrow> nat \<Rightarrow> u8 list \<Rightarrow> u8 list" where
  "pad_left c w s = replicate (w - length s) c @ s"

definition pad_right :: "nat \<Rightarrow> u8 list \<Rightarrow> u8 list" where
  "pad_right w s = s @ replicate (w - length s) 0x20"

definition fmt_0d :: "nat \<Rightarrow> int \<Rightarrow> u8 list" where
  "fmt_0d w x = (if x < 0 then 0x2D # pad_left 0x30 (w - 1) (dec_digits (nat (- x))) else pad_left 0x30 w (dec_digits (nat x)))"

text \<open>The string at an address of the configuration: it ends at the next zero, wherever that is.\<close>

definition str_in :: "u8 list \<Rightarrow> nat \<Rightarrow> u8 list option" where
  "str_in m off = (if 0 \<in> set (drop off m) then Some (takeWhile (\<lambda>b. b \<noteq> 0) (drop off m)) else None)"

text \<open>A text goes into a buffer of \<open>n\<close> bytes with its end.\<close>

definition sprintf_to :: "nat \<Rightarrow> u8 list \<Rightarrow> u8 list option" where
  "sprintf_to n s = (if length s < n then Some s else None)"

section \<open>State\<close>

record FtpMsg =
  local_path :: "u8 list"
  file_name :: "u8 list"

text \<open>\<open>ftpPosts\<close>: the outcomes of the next posts to the queue of the FTP client.\<close>

record SAppLog = SAppIn +
  eStatus :: u32
  sdCard :: card
  currFileName :: "u8 list"
  ftpPosts :: "bool list"
  ftpQueue :: "(blk \<times> FtpMsg) list"

definition SYS_ERR_SDCARD_1 :: u32 where "SYS_ERR_SDCARD_1 = 4"

section \<open>Hand-over to the FTP client\<close>

definition ftp_add_filename :: "u8 list \<Rightarrow> u8 list \<Rightarrow> 'a SAppLog_scheme \<Rightarrow> int \<times> 'a SAppLog_scheme" where
  "ftp_add_filename lpath fname w =
     (let (r, ms) = OSA_FixedMemMalloc 256 (mem w);
          w = w\<lparr>mem := ms\<rparr>
      in (case r of
            None \<Rightarrow> (- 1, w)
          | Some b \<Rightarrow>
              (let m = \<lparr>local_path = Str_Copy_N 0 (lpath @ [0]) 128 (map (poolJunk w) [0..<128]),
                        file_name = Str_Copy_N 0 (fname @ [0]) 128 (map (poolJunk w) [128..<256])\<rparr>
               in (case ftpPosts w of
                     False # ps \<Rightarrow> (- 2, w\<lparr>ftpPosts := ps\<rparr>)
                   | True # ps \<Rightarrow> (0, w\<lparr>ftpPosts := ps, ftpQueue := ftpQueue w @ [(b, m)]\<rparr>)
                   | [] \<Rightarrow> (0, w\<lparr>ftpQueue := ftpQueue w @ [(b, m)]\<rparr>)))))"

definition Network_FtpClient_Send :: "u8 list \<Rightarrow> u8 list \<Rightarrow> 'a SAppLog_scheme \<Rightarrow> int \<times> 'a SAppLog_scheme" where
  "Network_FtpClient_Send = ftp_add_filename"

section \<open>Writing the log file\<close>

text \<open>The buffers for the texts: when one is missing those before it are given back; \<open>Inr k\<close> is the number of the missing one.\<close>

fun malloc_seq :: "u32 list \<Rightarrow> blk list \<Rightarrow> mem_state \<Rightarrow> (blk list + nat) \<times> mem_state" where
  "malloc_seq [] bs ms = (Inl bs, ms)"
| "malloc_seq (n # ns) bs ms =
     (case OSA_FixedMemMalloc n ms of
        (None, ms) \<Rightarrow> (Inr (length bs), fold OSA_FixedMemFree bs ms)
      | (Some b, ms) \<Rightarrow> malloc_seq ns (bs @ [b]) ms)"

text \<open>The three directories: the result is that of the last \<open>f_mkdir\<close>; every error of FatFs is 1.\<close>

fun make_dirs :: "u8 list list \<Rightarrow> int \<Rightarrow> card \<Rightarrow> int \<times> card" where
  "make_dirs [] ret c = (ret, c)"
| "make_dirs (p # ps) ret c =
     (let (ex, c) = obj_existed p c in
      if \<not> ex then (let (r, c) = f_mkdir p c in make_dirs ps (if r then 1 else 0) c) else make_dirs ps ret c)"

text \<open>One row: name, value, unit, time and state of measurement.\<close>

definition log_row :: "(u32 \<Rightarrow> u8 list) \<Rightarrow> SSysCfg \<Rightarrow> STagNode \<Rightarrow> u8 list \<Rightarrow> nat \<Rightarrow> u8 list option" where
  "log_row fmt c v time i = do {
     name \<leftarrow> str_in c (tag_off i + 32);
     unit \<leftarrow> str_in c (tag_off i + 62);
     stt \<leftarrow> str_in (case tvStt v of (a, b, c) \<Rightarrow> [a, b, c]) 0;
     sprintf_to 256 (pad_right 12 name @ [0x20] @ fmt (tvStd v) @ [0x20] @ pad_left 0x20 12 unit @ [0x20]
       @ pad_left 0x20 15 time @ [0x20] @ pad_left 0x20 12 stt @ [0x0D, 0x0A])
   }"

text \<open>The loop over the tags that \<open>sel\<close> picks: it stops at a failed or an empty write.  The result is that of the last
  write, with the number of rows.\<close>

fun log_rows ::
  "(u32 \<Rightarrow> u8 list) \<Rightarrow> (nat \<Rightarrow> bool) \<Rightarrow> u8 list \<Rightarrow> nat list \<Rightarrow> 'a SAppLog_scheme \<Rightarrow> int \<Rightarrow> nat \<Rightarrow> FIL
     \<Rightarrow> (int \<times> nat \<times> FIL) option" where
  "log_rows fmt sel time [] w ret k f = Some (ret, k, f)"
| "log_rows fmt sel time (i # is) w ret k f =
     (if sel i then do {
        row \<leftarrow> log_row fmt (sCfg w) (sTagValue w i) time i;
        let (r, written, f) = f_write row f;
        (if r then Some (1, k, f) else if written = 0 then Some (0, k, f)
         else log_rows fmt sel time is w 0 (k + 1) f)
      }
      else log_rows fmt sel time is w ret k f)"

definition log_time :: "SDateTime \<Rightarrow> u8 list" where
  "log_time t = fmt_0d 4 (tm_year t) @ fmt_0d 2 (tm_mon t) @ fmt_0d 2 (tm_mday t) @ fmt_0d 2 (tm_hour t) @ fmt_0d 2 (tm_min t)
     @ fmt_0d 2 (tm_sec t)"

definition log_year :: "SDateTime \<Rightarrow> u8 list" where "log_year t = fmt_0d 4 (tm_year t)"
definition log_mon :: "SDateTime \<Rightarrow> u8 list" where "log_mon t = log_year t @ [0x2F] @ fmt_0d 2 (tm_mon t)"
definition log_day :: "SDateTime \<Rightarrow> u8 list" where "log_day t = log_mon t @ [0x2F] @ fmt_0d 2 (tm_mday t)"

text \<open>The name of the file: province, plant and station from the configuration, and the time.\<close>

definition log_name :: "SSysCfg \<Rightarrow> u8 list \<Rightarrow> u8 list option" where
  "log_name c time = do {
     tinh \<leftarrow> str_in c 38;
     coso \<leftarrow> str_in c 44;
     tram \<leftarrow> str_in c 50;
     sprintf_to 64 ([0x2F] @ tinh @ [0x5F] @ coso @ [0x5F] @ tram @ [0x5F] @ time @ chars ''.txt'')
   }"

definition report :: "SSysCfg \<Rightarrow> nat \<Rightarrow> bool" where
  "report c i \<longleftrightarrow> c ! (tag_off i + 18) \<noteq> 0"

text \<open>The file with its rows.  The first \<open>f_close\<close> comes before the hand-over, the second does nothing on a closed file.\<close>

definition write_log :: "(u32 \<Rightarrow> u8 list) \<Rightarrow> u8 list \<Rightarrow> 'a SAppLog_scheme \<Rightarrow> (int \<times> 'a SAppLog_scheme) option" where
  "write_log fmt time w = do {
     fname \<leftarrow> log_name (sCfg w) time;
     let day = log_day (sDateTime w);
     let path = day @ fname;
     let w = w\<lparr>currFileName := path @ replicate (256 - length path) 0\<rparr>;
     (case f_open_always path (sdCard w) of
        (None, c) \<Rightarrow> Some (1, w\<lparr>sdCard := c\<rparr>)
      | (Some f, c) \<Rightarrow>
          (case OSA_FixedMemMalloc 256 (mem w) of
             (None, ms) \<Rightarrow> Some (0, w\<lparr>mem := ms, sdCard := f_sync path (snd (f_close f)) c\<rparr>)
           | (Some b, ms) \<Rightarrow> do {
               let w = w\<lparr>mem := ms\<rparr>;
               (ret, k, f) \<leftarrow> log_rows fmt (report (sCfg w)) time [0..<SYSTEM_NUM_TAG] w 0 0 f;
               let w = w\<lparr>mem := OSA_FixedMemFree b (mem w)\<rparr>;
               (if ret = 0 then
                  (let (r, f) = f_close f in
                   if r then Some (1, w\<lparr>sdCard := f_sync path (snd (f_close f)) c\<rparr>)
                   else Some (0, snd (Network_FtpClient_Send day fname (w\<lparr>sdCard := f_sync path f c\<rparr>))))
                else Some (ret, w\<lparr>sdCard := f_sync path (snd (f_close f)) c\<rparr>))
             }))
   }"

definition App_GenerateLogFile :: "(u32 \<Rightarrow> u8 list) \<Rightarrow> 'a SAppLog_scheme \<Rightarrow> (int \<times> 'a SAppLog_scheme) option" where
  "App_GenerateLogFile fmt w =
     (if eStatus w AND SYS_ERR_SDCARD_1 \<noteq> 0 then Some (- 1, w)
      else
        (let (r, ms) = malloc_seq [64, 64, 16, 32, 32] [] (mem w);
             w = w\<lparr>mem := ms\<rparr>
         in (case r of
               Inr k \<Rightarrow> Some (- 1 - int k, w)
             | Inl bs \<Rightarrow> do {
                 year \<leftarrow> sprintf_to 16 (log_year (sDateTime w));
                 mon \<leftarrow> sprintf_to 32 (log_mon (sDateTime w));
                 day \<leftarrow> sprintf_to 32 (log_day (sDateTime w));
                 time \<leftarrow> sprintf_to 64 (log_time (sDateTime w));
                 let (ret, c) = make_dirs [year, mon, day] 0 (sdCard w);
                 let w = w\<lparr>sdCard := c\<rparr>;
                 (ret, w) \<leftarrow> (if ret = 0 then write_log fmt time w else Some (ret, w));
                 Some (ret, w\<lparr>mem := fold OSA_FixedMemFree bs (mem w)\<rparr>)
               })))"

section \<open>The log file of one tag\<close>

text \<open>\<open>Str_Cmp\<close> of a string in memory with a name is 0.\<close>

definition Str_Cmp_eq :: "u8 list \<Rightarrow> u8 list \<Rightarrow> bool" where
  "Str_Cmp_eq m name \<longleftrightarrow> take (length name + 1) m = name @ [0]"

definition App_CheckNameExisted :: "u8 list \<Rightarrow> SSysCfg \<Rightarrow> bool" where
  "App_CheckNameExisted name c \<longleftrightarrow> (\<exists>i \<in> set [0..<SYSTEM_NUM_TAG]. report c i \<and> Str_Cmp_eq (drop (tag_off i + 32) c) name)"

definition write_log_by_name :: "(u32 \<Rightarrow> u8 list) \<Rightarrow> u8 list \<Rightarrow> u8 list \<Rightarrow> 'a SAppLog_scheme \<Rightarrow> (int \<times> 'a SAppLog_scheme) option" where
  "write_log_by_name fmt name time w = do {
     fname \<leftarrow> log_name (sCfg w) time;
     let path = log_day (sDateTime w) @ fname;
     let w = w\<lparr>currFileName := path @ replicate (256 - length path) 0\<rparr>;
     (case f_open_always path (sdCard w) of
        (None, c) \<Rightarrow> Some (1, w\<lparr>sdCard := c\<rparr>)
      | (Some f, c) \<Rightarrow>
          (case OSA_FixedMemMalloc 256 (mem w) of
             (None, ms) \<Rightarrow> Some (0, w\<lparr>mem := ms, sdCard := f_sync path (snd (f_close f)) c\<rparr>)
           | (Some b, ms) \<Rightarrow> do {
               let w = w\<lparr>mem := ms\<rparr>;
               (ret, k, f) \<leftarrow> log_rows fmt (\<lambda>i. report (sCfg w) i \<and> Str_Cmp_eq (drop (tag_off i + 32) (sCfg w)) name)
                                time [0..<SYSTEM_NUM_TAG] w 0 0 f;
               Some (ret, w\<lparr>mem := OSA_FixedMemFree b (mem w), sdCard := f_sync path (snd (f_close f)) c\<rparr>)
             }))
   }"

definition App_GenerateLogFileByName :: "(u32 \<Rightarrow> u8 list) \<Rightarrow> u8 list \<Rightarrow> 'a SAppLog_scheme \<Rightarrow> (int \<times> 'a SAppLog_scheme) option" where
  "App_GenerateLogFileByName fmt name w =
     (if eStatus w AND SYS_ERR_SDCARD_1 \<noteq> 0 then Some (- 1, w)
      else if \<not> App_CheckNameExisted name (sCfg w) then Some (- 2, w)
      else
        (let (r, ms) = malloc_seq [64, 64, 16, 32, 32] [] (mem w);
             w = w\<lparr>mem := ms\<rparr>
         in (case r of
               Inr k \<Rightarrow> Some (if k = 4 then - 4 else - 1 - int k, w)
             | Inl bs \<Rightarrow> do {
                 year \<leftarrow> sprintf_to 16 (log_year (sDateTime w));
                 mon \<leftarrow> sprintf_to 32 (log_mon (sDateTime w));
                 day \<leftarrow> sprintf_to 32 (log_day (sDateTime w));
                 time \<leftarrow> sprintf_to 64 (log_time (sDateTime w));
                 let (ret, c) = make_dirs [year, mon, day] 0 (sdCard w);
                 let w = w\<lparr>sdCard := c\<rparr>;
                 (ret, w) \<leftarrow> (if ret = 0 then write_log_by_name fmt name time w else Some (ret, w));
                 Some (ret, w\<lparr>mem := fold OSA_FixedMemFree bs (mem w)\<rparr>)
               })))"

section \<open>The blocks\<close>

lemma malloc_seq_ok:
  assumes "mem_ok ms" "distinct bs" "set bs \<subseteq> used_blocks ms" "malloc_seq ns bs ms = (r, ms')"
  shows "mem_ok ms' \<and> (case r of
      Inl bs' \<Rightarrow> distinct bs' \<and> set bs \<subseteq> set bs' \<and> used_blocks ms' = used_blocks ms \<union> set bs' \<and> set bs' \<inter> used_blocks ms = set bs
    | Inr k \<Rightarrow> used_blocks ms' = used_blocks ms - set bs)"
  using assms
proof (induction ns arbitrary: bs ms)
  case Nil
  then show ?case by auto
next
  case (Cons n ns)
  obtain x ms1 where m: "OSA_FixedMemMalloc n ms = (x, ms1)" by fastforce
  show ?case
  proof (cases x)
    case None
    then have "ms1 = ms" using fm.alloc_none [OF Cons.prems(1)] m by simp
    then show ?thesis using fm.dealloc_all_ok [OF Cons.prems(1-3)] Cons.prems(4) m None by auto
  next
    case (Some b)
    note a = fm.alloc_some [OF Cons.prems(1) m [unfolded Some]]
    have "distinct (bs @ [b])" "set (bs @ [b]) \<subseteq> used_blocks ms1" "malloc_seq ns (bs @ [b]) ms1 = (r, ms')"
      using a Cons.prems m Some by auto
    from Cons.IH [OF _ this] a Cons.prems(3) show ?thesis by (cases r) (auto simp: subset_iff)
  qed
qed

text \<open>What a hand-over leaves of the blocks: one more in the queue, or one lost.\<close>

definition handed :: "blk set \<Rightarrow> bool list \<Rightarrow> (blk \<times> FtpMsg) list \<Rightarrow> 'a SAppLog_scheme \<Rightarrow> bool" where
  "handed U ps q w \<longleftrightarrow> mem_ok (mem w) \<and>
     (used_blocks (mem w) = U \<and> ftpQueue w = q
      \<or> (\<exists>b m. b \<notin> U \<and> used_blocks (mem w) = insert b U \<and> ftpQueue w = q @ [(b, m)] \<and> hd (ps @ [True]))
      \<or> (\<exists>b. b \<notin> U \<and> used_blocks (mem w) = insert b U \<and> ftpQueue w = q \<and> ps \<noteq> [] \<and> \<not> hd ps))"

lemma ftp_add_handed:
  assumes "mem_ok (mem w)"
  shows "handed (used_blocks (mem w)) (ftpPosts w) (ftpQueue w) (snd (ftp_add_filename l n w))"
proof -
  obtain r ms where m: "OSA_FixedMemMalloc 256 (mem w) = (r, ms)" by fastforce
  show ?thesis
  proof (cases r)
    case None
    then show ?thesis using fm.alloc_none [OF assms] m assms by (auto simp: ftp_add_filename_def handed_def)
  next
    case (Some b)
    note a = fm.alloc_some [OF assms m [unfolded Some]]
    show ?thesis using m Some a
      by (cases b; cases "ftpPosts w" rule: list.exhaust; cases "hd (ftpPosts w)")
        (auto simp: ftp_add_filename_def handed_def Let_def)
  qed
qed

lemma write_log_handed:
  assumes "mem_ok (mem w)" "write_log fmt time w = Some (ret, w')"
  shows "handed (used_blocks (mem w)) (ftpPosts w) (ftpQueue w) w'"
proof -
  have same: "handed (used_blocks (mem w)) (ftpPosts w) (ftpQueue w) v" if "mem_ok (mem v)" "used_blocks (mem v) = used_blocks (mem w)" "ftpQueue v = ftpQueue w" for v :: "'a SAppLog_scheme"
    using that by (simp add: handed_def)
  from assms(2) obtain fname where n: "log_name (sCfg w) time = Some fname" by (auto simp: write_log_def bind_eq_Some_conv)
  let ?path = "log_day (sDateTime w) @ fname"
  let ?w = "w\<lparr>currFileName := ?path @ replicate (256 - length ?path) 0\<rparr>"
  obtain fo c where o: "f_open_always ?path (sdCard w) = (fo, c)" by fastforce
  obtain r ms where m: "OSA_FixedMemMalloc 256 (mem w) = (r, ms)" by fastforce
  show ?thesis
  proof (cases fo)
    case None
    then show ?thesis using assms n o by (auto simp: write_log_def Let_def intro: same)
  next
    case f: (Some f)
    show ?thesis
    proof (cases r)
      case None
      then have "ms = mem w" using fm.alloc_none [OF assms(1)] m by simp
      then show ?thesis using assms n o f m None by (auto simp: write_log_def Let_def intro: same)
    next
      case (Some b)
      have d: "mem_ok (OSA_FixedMemFree b ms)" "used_blocks (OSA_FixedMemFree b ms) = used_blocks (mem w)"
        using fm.alloc_dealloc [OF assms(1) m [unfolded Some]] by auto
      let ?w1 = "?w\<lparr>mem := ms\<rparr>"
      from assms(2) n o f m Some obtain rt k f' where
        l: "log_rows fmt (report (sCfg w)) time [0..<SYSTEM_NUM_TAG] ?w1 0 0 f = Some (rt, k, f')"
        by (auto simp: write_log_def bind_eq_Some_conv Let_def)
      let ?w2 = "?w1\<lparr>mem := OSA_FixedMemFree b ms\<rparr>"
      obtain rc fc where c: "f_close f' = (rc, fc)" by fastforce
      have e: "(ret, w') = (if rt = 0 then (if rc then (1, ?w2\<lparr>sdCard := f_sync ?path (snd (f_close fc)) c\<rparr>)
              else (0, snd (ftp_add_filename (log_day (sDateTime w)) fname (?w2\<lparr>sdCard := f_sync ?path fc c\<rparr>))))
            else (rt, ?w2\<lparr>sdCard := f_sync ?path (snd (f_close f')) c\<rparr>))"
        using assms(2) n o f m Some l c
        by (simp add: write_log_def Network_FtpClient_Send_def Let_def split: if_splits)
      have h: "handed (used_blocks (mem w)) (ftpPosts w) (ftpQueue w) (snd (ftp_add_filename (log_day (sDateTime w)) fname (?w2\<lparr>sdCard := f_sync ?path fc c\<rparr>)))"
        using ftp_add_handed [of "?w2\<lparr>sdCard := f_sync ?path fc c\<rparr>"] d by simp
      show ?thesis using e d h by (auto split: if_splits intro: same)
    qed
  qed
qed

lemma fold_free_handed:
  assumes "handed (U \<union> set bs) ps q w" "distinct bs" "set bs \<inter> U = {}"
  shows "handed U ps q (w\<lparr>mem := fold OSA_FixedMemFree bs (mem w)\<rparr>)"
proof -
  have sub: "mem_ok (mem w)" "set bs \<subseteq> used_blocks (mem w)" using assms(1) by (auto simp: handed_def)
  from fm.dealloc_all_ok [OF sub(1) assms(2) sub(2)] have f: "mem_ok (fold OSA_FixedMemFree bs (mem w))"
    "used_blocks (fold OSA_FixedMemFree bs (mem w)) = used_blocks (mem w) - set bs" by simp_all
  have d: "(U \<union> set bs) - set bs = U" "b \<notin> U \<union> set bs \<Longrightarrow> insert b (U \<union> set bs) - set bs = insert b U" for b using assms(3) by auto
  from assms(1) consider "used_blocks (mem w) = U \<union> set bs" "ftpQueue w = q"
    | b m where "b \<notin> U \<union> set bs" "used_blocks (mem w) = insert b (U \<union> set bs)" "ftpQueue w = q @ [(b, m)]" "hd (ps @ [True])"
    | b where "b \<notin> U \<union> set bs" "used_blocks (mem w) = insert b (U \<union> set bs)" "ftpQueue w = q" "ps \<noteq> []" "\<not> hd ps"
    unfolding handed_def by blast
  then show ?thesis
  proof cases
    case 1
    then show ?thesis using f d(1) by (simp add: handed_def)
  next
    case 2
    then show ?thesis unfolding handed_def using f d(2) [OF 2(1)] by (cases b) auto
  next
    case 3
    then show ?thesis unfolding handed_def using f d(2) [OF 3(1)] by (cases b) auto
  qed
qed

lemma generate_handed:
  assumes "mem_ok (mem w)" "App_GenerateLogFile fmt w = Some (ret, w')"
  shows "handed (used_blocks (mem w)) (ftpPosts w) (ftpQueue w) w'"
proof (cases "eStatus w AND SYS_ERR_SDCARD_1 = 0")
  case False
  then have "w' = w" using assms(2) by (simp add: App_GenerateLogFile_def)
  then show ?thesis using assms(1) by (simp add: handed_def)
next
  case st: True
  obtain r ms where m: "malloc_seq [64, 64, 16, 32, 32] [] (mem w) = (r, ms)" by fastforce
  note a = malloc_seq_ok [OF assms(1) _ _ m, simplified]
  show ?thesis
  proof (cases r)
    case (Inr k)
    then have "w' = w\<lparr>mem := ms\<rparr>" using assms(2) st m by (simp add: App_GenerateLogFile_def)
    then show ?thesis using a Inr by (simp add: handed_def)
  next
    case (Inl bs)
    let ?w = "w\<lparr>mem := ms\<rparr>"
    from a Inl have b: "mem_ok ms" "distinct bs" "used_blocks ms = used_blocks (mem w) \<union> set bs" "set bs \<inter> used_blocks (mem w) = {}" by simp_all
    from assms(2) st m Inl obtain time ret1 c v where
      g: "(if ret1 = 0 then write_log fmt time (?w\<lparr>sdCard := c\<rparr>) else Some (ret1, ?w\<lparr>sdCard := c\<rparr>)) = Some (ret, v)"
        "w' = v\<lparr>mem := fold OSA_FixedMemFree bs (mem v)\<rparr>"
      by (auto simp: App_GenerateLogFile_def bind_eq_Some_conv Let_def split_beta simp del: malloc_seq.simps make_dirs.simps)
    have "handed (used_blocks (mem w) \<union> set bs) (ftpPosts w) (ftpQueue w) v"
    proof (cases "ret1 = 0")
      case True
      then show ?thesis using write_log_handed [of "?w\<lparr>sdCard := c\<rparr>" fmt time ret v] g(1) b by simp
    next
      case False
      then have "v = ?w\<lparr>sdCard := c\<rparr>" using g(1) by simp
      then show ?thesis using b by (simp add: handed_def)
    qed
    from fold_free_handed [OF this b(2,4)] g(2) show ?thesis by simp
  qed
qed

section \<open>The content\<close>

lemma put_after: "put_bytes (length xs) bs (xs @ drop (length xs) old) = (xs @ bs) @ drop (length (xs @ bs)) old"
  by (simp add: put_bytes_def add.commute)

text \<open>The rows of the picked tags, one after the other.\<close>

lemma log_row_ne: "log_row fmt c v time i = Some row \<Longrightarrow> row \<noteq> []"
  by (auto simp: log_row_def bind_eq_Some_conv sprintf_to_def split: if_splits)

lemma log_rows_ok:
  assumes "outcomes f = []" "fptr f = length xs" "fdata f = xs @ drop (length xs) old"
    and "\<And>i. i \<in> set is \<Longrightarrow> sel i \<Longrightarrow> log_row fmt (sCfg w) (sTagValue w i) time i = Some (row i)"
  shows "\<exists>k' f'. log_rows fmt sel time is w 0 k f = Some (0, k', f') \<and> outcomes f' = []
    \<and> fdata f' = (xs @ concat (map row (filter sel is))) @ drop (length (xs @ concat (map row (filter sel is)))) old"
  using assms
proof (induction "is" arbitrary: f xs k)
  case Nil
  then show ?case by simp
next
  case (Cons i "is")
  show ?case
  proof (cases "sel i")
    case False
    then show ?thesis using Cons.IH [OF Cons.prems(1-3), of k] Cons.prems(4) by simp
  next
    case True
    then have r: "log_row fmt (sCfg w) (sTagValue w i) time i = Some (row i)" using Cons.prems(4) by simp
    let ?f = "f\<lparr>fdata := put_bytes (fptr f) (row i) (fdata f), fptr := fptr f + length (row i)\<rparr>"
    have wr: "f_write (row i) f = (False, length (row i), ?f)" by (rule fs_ok(4) [OF Cons.prems(1)])
    have f: "outcomes ?f = []" "fptr ?f = length (xs @ row i)" "fdata ?f = (xs @ row i) @ drop (length (xs @ row i)) old"
      using Cons.prems(1-3) put_after [of xs "row i" old] by simp_all
    from Cons.IH [OF f, of "k + 1"] Cons.prems(4) show ?thesis using True r wr log_row_ne [OF r] by auto
  qed
qed

lemma make_dirs_ok:
  assumes "cardOutcomes c = []"
  shows "\<exists>c'. make_dirs ps 0 c = (0, c') \<and> cardOutcomes c' = [] \<and> cardData c' = cardData c
    \<and> (\<forall>q. cardExists c' q \<longleftrightarrow> cardExists c q \<or> q \<in> set ps)"
  using assms
proof (induction ps arbitrary: c)
  case (Cons p ps)
  let ?c = "c\<lparr>cardExists := (cardExists c)(p := True)\<rparr>"
  have "make_dirs (p # ps) 0 c = make_dirs ps 0 (if cardExists c p then c else ?c)"
    using Cons.prems by (simp add: obj_existed_def f_mkdir_def card_next_def)
  moreover have "cardOutcomes (if cardExists c p then c else ?c) = []" using Cons.prems by simp
  ultimately show ?case using Cons.IH [of "if cardExists c p then c else ?c"] by (auto split: if_splits)
qed simp

text \<open>Digits and times have fixed widths.\<close>

lemma length_dec_digits: "0 < k \<Longrightarrow> n < 10 ^ k \<Longrightarrow> length (dec_digits n) \<le> k"
proof (induction k arbitrary: n)
  case (Suc k)
  show ?case
  proof (cases "n < 10")
    case True
    then show ?thesis by (simp add: dec_digits.simps)
  next
    case False
    then have "0 < k" "n div 10 < 10 ^ k" using Suc.prems(2) by (cases k; simp)+
    then show ?thesis using Suc.IH [of "n div 10"] False by (subst dec_digits.simps) simp
  qed
qed simp

lemma length_fmt_0d: "0 < w \<Longrightarrow> 0 \<le> x \<Longrightarrow> x < 10 ^ w \<Longrightarrow> length (fmt_0d w x) = w"
  using length_dec_digits [of w "nat x"] by (simp add: fmt_0d_def pad_left_def nat_less_iff zless_nat_eq_int_zless)

definition time_ok :: "SDateTime \<Rightarrow> bool" where
  "time_ok t \<longleftrightarrow> 0 \<le> tm_year t \<and> tm_year t < 10000 \<and> (\<forall>x \<in> {tm_mon t, tm_mday t, tm_hour t, tm_min t, tm_sec t}. 0 \<le> x \<and> x < 100)"

lemma length_times:
  assumes "time_ok t"
  shows "length (log_year t) = 4" "length (log_mon t) = 7" "length (log_day t) = 10" "length (log_time t) = 14"
  using assms by (simp_all add: time_ok_def log_year_def log_mon_def log_day_def log_time_def length_fmt_0d)

section \<open>Enough memory\<close>

lemma malloc_free_list:
  assumes "mem_ok ms" "select_part n = Some p" "free_list p ms \<noteq> []"
  shows "\<exists>b ms'. OSA_FixedMemMalloc n ms = (Some b, ms') \<and> mem_ok ms'
    \<and> (\<forall>q. free_list q ms' = (if q = p then tl (free_list q ms) else free_list q ms))"
proof -
  have p: "part_ok p ms" using assms(1) by (simp add: mem_ok_def)
  have "NbrFree (parts ms p) \<noteq> 0" using p assms(3) by (auto simp: part_ok_def)
  with OSMemGet_ok [OF p] obtain b ms1 r where g: "OSMemGet p ms = (Some b, ms1)" "free_list p ms = b # r" "free_list p ms1 = r"
    "\<forall>q. q \<noteq> p \<longrightarrow> parts ms1 q = parts ms q" "blkLink ms1 = blkLink ms" by auto
  obtain ms' where m: "OSA_FixedMemMalloc n ms = (Some (p, b), ms')" "parts ms' = parts ms1" "blkLink ms' = blkLink ms1"
    using assms(2) g(1) by (simp add: OSA_FixedMemMalloc_def Let_def)
  have "free_list q ms' = free_list q ms1" for q by (rule free_list_other) (simp_all add: m)
  moreover have "free_list q ms1 = free_list q ms" if "q \<noteq> p" for q by (rule free_list_other) (use that g in simp_all)
  ultimately have "free_list q ms' = (if q = p then tl (free_list q ms) else free_list q ms)" for q using g(2,3) by simp
  then show ?thesis using m(1) fm.alloc_some [OF assms(1) m(1)] by blast
qed

lemma free_list_unused: "(p, i) \<notin> used_blocks ms \<Longrightarrow> i < unat (pcount p) \<Longrightarrow> free_list p ms \<noteq> []"
  by (auto simp: used_blocks_def)

definition log_memory :: "mem_state \<Rightarrow> bool" where
  "log_memory ms \<longleftrightarrow> mem_ok ms \<and> 2 \<le> length (free_list P64 ms) \<and> free_list P16 ms \<noteq> [] \<and> 2 \<le> length (free_list P32 ms)
     \<and> free_list P272 ms \<noteq> []"

lemma log_buffers:
  assumes "log_memory ms"
  shows "\<exists>bs ms'. malloc_seq [64, 64, 16, 32, 32] [] ms = (Inl bs, ms') \<and> mem_ok ms' \<and> free_list P272 ms' \<noteq> []"
proof -
  have s: "select_part 64 = Some P64" "select_part 16 = Some P16" "select_part 32 = Some P32" by (simp_all add: select_part_def)
  from assms have h: "mem_ok ms" "free_list P64 ms \<noteq> []" "tl (free_list P64 ms) \<noteq> []" "free_list P16 ms \<noteq> []"
    "free_list P32 ms \<noteq> []" "tl (free_list P32 ms) \<noteq> []" "free_list P272 ms \<noteq> []"
    by (auto simp: log_memory_def Suc_le_length_iff numeral_2_eq_2)
  from malloc_free_list [OF h(1) s(1) h(2)] obtain b1 m1 where 1: "OSA_FixedMemMalloc 64 ms = (Some b1, m1)" "mem_ok m1"
    "\<And>q. free_list q m1 = (if q = P64 then tl (free_list q ms) else free_list q ms)" by blast
  have "free_list P64 m1 \<noteq> []" using 1(3) h by simp
  from malloc_free_list [OF 1(2) s(1) this] obtain b2 m2 where 2: "OSA_FixedMemMalloc 64 m1 = (Some b2, m2)" "mem_ok m2"
    "\<And>q. free_list q m2 = (if q = P64 then tl (free_list q m1) else free_list q m1)" by blast
  have "free_list P16 m2 \<noteq> []" using 1(3) 2(3) h by simp
  from malloc_free_list [OF 2(2) s(2) this] obtain b3 m3 where 3: "OSA_FixedMemMalloc 16 m2 = (Some b3, m3)" "mem_ok m3"
    "\<And>q. free_list q m3 = (if q = P16 then tl (free_list q m2) else free_list q m2)" by blast
  have "free_list P32 m3 \<noteq> []" using 1(3) 2(3) 3(3) h by simp
  from malloc_free_list [OF 3(2) s(3) this] obtain b4 m4 where 4: "OSA_FixedMemMalloc 32 m3 = (Some b4, m4)" "mem_ok m4"
    "\<And>q. free_list q m4 = (if q = P32 then tl (free_list q m3) else free_list q m3)" by blast
  have "free_list P32 m4 \<noteq> []" using 1(3) 2(3) 3(3) 4(3) h by simp
  from malloc_free_list [OF 4(2) s(3) this] obtain b5 m5 where 5: "OSA_FixedMemMalloc 32 m4 = (Some b5, m5)" "mem_ok m5"
    "\<And>q. free_list q m5 = (if q = P32 then tl (free_list q m4) else free_list q m4)" by blast
  have "free_list P272 m5 \<noteq> []" using 1(3) 2(3) 3(3) 4(3) 5(3) h by simp
  then show ?thesis using 1(1) 2(1) 3(1) 4(1) 5(1,2) by simp
qed

text \<open>The message for the FTP client.\<close>

lemma cstr_copied: "0 \<notin> set s \<Longrightarrow> length s < 128 \<Longrightarrow> length j = 128 \<Longrightarrow> cstr 128 (Str_Copy_N 0 (s @ [0]) 128 j) = s"
proof -
  assume a: "0 \<notin> set s" "length s < 128" "length j = 128"
  have t: "takeWhile (\<lambda>b. b \<noteq> 0) (s @ 0 # r) = s" for r using a(1) by (induction s) auto
  have "Str_Copy_N 0 (s @ [0]) 128 j = s @ 0 # drop (length s + 1) j"
    using a(2) by (simp add: Str_Copy_N_def t Let_def put_bytes_def)
  then show ?thesis using a(2) by (simp add: cstr_def t)
qed

definition msg_for :: "u8 list \<Rightarrow> u8 list \<Rightarrow> FtpMsg \<Rightarrow> bool" where
  "msg_for d n m \<longleftrightarrow> cstr 128 (local_path m) = d \<and> cstr 128 (file_name m) = n"

lemma ftp_add_ok:
  assumes "mem_ok (mem w)" "free_list P272 (mem w) \<noteq> []" "hd (ftpPosts w @ [True])"
    and "0 \<notin> set d" "length d < 128" "0 \<notin> set n" "length n < 128"
  shows "\<exists>b m ms ps. ftp_add_filename d n w = (0, w\<lparr>mem := ms, ftpPosts := ps, ftpQueue := ftpQueue w @ [(b, m)]\<rparr>)
    \<and> msg_for d n m \<and> used_blocks ms = insert b (used_blocks (mem w))"
proof -
  have s: "select_part 256 = Some P272" by (simp add: select_part_def)
  from malloc_free_list [OF assms(1) s assms(2)] obtain b ms where m: "OSA_FixedMemMalloc 256 (mem w) = (Some b, ms)" by blast
  let ?m = "\<lparr>local_path = Str_Copy_N 0 (d @ [0]) 128 (map (poolJunk w) [0..<128]), file_name = Str_Copy_N 0 (n @ [0]) 128 (map (poolJunk w) [128..<256])\<rparr>"
  have "msg_for d n ?m" using assms(4-7) by (simp add: msg_for_def cstr_copied)
  moreover have "ftp_add_filename d n w = (0, w\<lparr>mem := ms, ftpPosts := tl (ftpPosts w), ftpQueue := ftpQueue w @ [(b, ?m)]\<rparr>)"
    using m assms(3) by (cases "ftpPosts w" rule: list.exhaust) (auto simp: ftp_add_filename_def)
  ultimately show ?thesis using fm.alloc_some [OF assms(1) m] by blast
qed

text \<open>No zero among the characters.\<close>

lemma dec_digits_ne0: "0 \<notin> set (dec_digits n)"
proof (induction n rule: dec_digits.induct)
  case (1 n)
  have z: "(0x30 + of_nat k :: u8) \<noteq> 0" if "k < 10" for k :: nat
  proof -
    have "unat (0x30 + of_nat k :: u8) = 48 + k" using that by (simp add: unat_word_ariths unsigned_of_nat take_bit_nat_eq_self)
    then show ?thesis by (metis add_is_0 unat_0 zero_neq_numeral)
  qed
  show ?case
  proof (cases "n < 10")
    case True
    then show ?thesis using z [of n] by (simp add: dec_digits.simps)
  next
    case False
    then show ?thesis using 1 z [of "n mod 10"] by (subst dec_digits.simps) simp
  qed
qed

lemma fmt_ne0: "0 \<notin> set (fmt_0d w x)"
  using dec_digits_ne0 by (auto simp: fmt_0d_def pad_left_def)

lemma log_texts_ne0: "0 \<notin> set (log_day t)" "0 \<notin> set (log_time t)"
  using fmt_ne0 by (auto simp: log_day_def log_mon_def log_year_def log_time_def)

lemma log_name_text: "log_name c (log_time t) = Some fname \<Longrightarrow> 0 \<notin> set fname \<and> length fname < 64"
  using log_texts_ne0(2) [of t]
  by (auto simp: log_name_def bind_eq_Some_conv sprintf_to_def str_in_def chars_def dest: set_takeWhileD split: if_splits)

lemma write_log_ok:
  assumes "mem_ok (mem w)" "free_list P272 (mem w) \<noteq> []" "hd (ftpPosts w @ [True])" "cardOutcomes (sdCard w) = []" "time_ok (sDateTime w)"
    and "log_name (sCfg w) (log_time (sDateTime w)) = Some fname" "path = log_day (sDateTime w) @ fname"
    and "\<forall>i < SYSTEM_NUM_TAG. report (sCfg w) i \<longrightarrow> log_row fmt (sCfg w) (sTagValue w i) (log_time (sDateTime w)) i = Some (row i)"
    and "rows = concat (map row (filter (report (sCfg w)) [0..<SYSTEM_NUM_TAG]))"
  shows "\<exists>w' b m. write_log fmt (log_time (sDateTime w)) w = Some (0, w')
    \<and> cardData (sdCard w') = (cardData (sdCard w))(path := rows @ drop (length rows) (if cardExists (sdCard w) path then cardData (sdCard w) path else []))
    \<and> cardExists (sdCard w') path
    \<and> ftpQueue w' = ftpQueue w @ [(b, m)] \<and> msg_for (log_day (sDateTime w)) fname m"
proof -
  let ?old = "if cardExists (sdCard w) path then cardData (sdCard w) path else []"
  let ?f = "\<lparr>fdata = ?old, fptr = 0, outcomes = []\<rparr>"
  let ?c = "(sdCard w)\<lparr>cardExists := (cardExists (sdCard w))(path := True)\<rparr>"
  have o: "f_open_always path (sdCard w) = (Some ?f, ?c)" using assms(4) by (simp add: f_open_always_def card_next_def)
  have s: "select_part 256 = Some P272" by (simp add: select_part_def)
  from malloc_free_list [OF assms(1) s assms(2)] obtain b ms where m: "OSA_FixedMemMalloc 256 (mem w) = (Some b, ms)" by blast
  let ?w1 = "w\<lparr>currFileName := path @ replicate (256 - length path) 0, mem := ms\<rparr>"
  have r: "\<And>i. i \<in> set [0..<SYSTEM_NUM_TAG] \<Longrightarrow> report (sCfg w) i \<Longrightarrow>
      log_row fmt (sCfg ?w1) (sTagValue ?w1 i) (log_time (sDateTime w)) i = Some (row i)" using assms(8) by simp
  obtain k f where l: "log_rows fmt (report (sCfg w)) (log_time (sDateTime w)) [0..<SYSTEM_NUM_TAG] ?w1 0 0 ?f = Some (0, k, f)"
    "outcomes f = []" "fdata f = rows @ drop (length rows) ?old"
    using log_rows_ok [of ?f "[]" ?old "[0..<SYSTEM_NUM_TAG]" "report (sCfg w)" fmt ?w1 "log_time (sDateTime w)" row 0, OF _ _ _ r]
    by (auto simp: assms(9))
  let ?w2 = "?w1\<lparr>mem := OSA_FixedMemFree b ms, sdCard := f_sync path f ?c\<rparr>"
  have d: "mem_ok (OSA_FixedMemFree b ms)" "used_blocks (OSA_FixedMemFree b ms) = used_blocks (mem w)"
    using fm.alloc_dealloc [OF assms(1) m] by auto
  obtain i where i: "b = (P272, i)" "(P272, i) \<notin> used_blocks (mem w)" "i < unat (pcount P272)"
    using Malloc_ok [OF assms(1) m] s by (cases b) auto
  have n: "log_day (sDateTime w) @ fname = path" "0 \<notin> set (log_day (sDateTime w))" "length (log_day (sDateTime w)) < 128"
    "0 \<notin> set fname" "length fname < 128"
    using log_name_text [OF assms(6)] log_texts_ne0(1) length_times(3) [OF assms(5)] assms(7) by auto
  have fl: "free_list P272 (mem ?w2) \<noteq> []" by (rule free_list_unused [of _ i]) (use i d in simp_all)
  obtain b' m' ms' ps where a: "ftp_add_filename (log_day (sDateTime w)) fname ?w2
      = (0, ?w2\<lparr>mem := ms', ftpPosts := ps, ftpQueue := ftpQueue w @ [(b', m')]\<rparr>)" "msg_for (log_day (sDateTime w)) fname m'"
    using ftp_add_ok [OF _ fl, of "log_day (sDateTime w)" fname] d(1) assms(3) n by auto
  have cl: "f_close f = (False, f)" by (rule fs_ok(2) [OF l(2)])
  have "write_log fmt (log_time (sDateTime w)) w = Some (0, ?w2\<lparr>mem := ms', ftpPosts := ps, ftpQueue := ftpQueue w @ [(b', m')]\<rparr>)"
    unfolding write_log_def assms(6) using o m l(1) cl a(1) n(1) by (simp add: Let_def Network_FtpClient_Send_def)
  then show ?thesis using a(2) l(3) by (auto simp: f_sync_def)
qed

section \<open>Properties\<close>

text \<open>C29: when the card works and there are buffers, a call writes one row for each tag that reports, in their order, to the
  file named by the station and the time in the directory of the day, and hands exactly this file over to the FTP client; an
  older file of that name keeps what lies behind the new rows.\<close>

theorem LogFile_written:
  assumes "log_memory (mem w)" "hd (ftpPosts w @ [True])" "cardOutcomes (sdCard w) = []" "time_ok (sDateTime w)"
    and "eStatus w AND SYS_ERR_SDCARD_1 = 0"
    and "log_name (sCfg w) (log_time (sDateTime w)) = Some fname" "path = log_day (sDateTime w) @ fname"
    and "\<forall>i < SYSTEM_NUM_TAG. report (sCfg w) i \<longrightarrow> log_row fmt (sCfg w) (sTagValue w i) (log_time (sDateTime w)) i = Some (row i)"
    and "rows = concat (map row (filter (report (sCfg w)) [0..<SYSTEM_NUM_TAG]))"
  shows "\<exists>w' b m. App_GenerateLogFile fmt w = Some (0, w') \<and> cardExists (sdCard w') path
    \<and> cardData (sdCard w') path = rows @ drop (length rows) (if cardExists (sdCard w) path then cardData (sdCard w) path else [])
    \<and> (\<forall>q. q \<noteq> path \<longrightarrow> cardData (sdCard w') q = cardData (sdCard w) q)
    \<and> ftpQueue w' = ftpQueue w @ [(b, m)] \<and> msg_for (log_day (sDateTime w)) fname m"
proof -
  let ?t = "sDateTime w"
  from log_buffers [OF assms(1)] obtain bs ms where b: "malloc_seq [64, 64, 16, 32, 32] [] (mem w) = (Inl bs, ms)" "mem_ok ms"
    "free_list P272 ms \<noteq> []" by blast
  from make_dirs_ok [OF assms(3)] obtain c where c: "make_dirs [log_year ?t, log_mon ?t, log_day ?t] 0 (sdCard w) = (0, c)"
    "cardOutcomes c = []" "cardData c = cardData (sdCard w)"
    "\<And>q. cardExists c q \<longleftrightarrow> cardExists (sdCard w) q \<or> q \<in> {log_year ?t, log_mon ?t, log_day ?t}"
    by (metis list.set(1) list.set(2))
  let ?w = "w\<lparr>mem := ms, sdCard := c\<rparr>"
  have "\<exists>w' b m. write_log fmt (log_time ?t) ?w = Some (0, w')
    \<and> cardData (sdCard w') = (cardData (sdCard ?w))(path := rows @ drop (length rows) (if cardExists (sdCard ?w) path then cardData (sdCard ?w) path else []))
    \<and> cardExists (sdCard w') path \<and> ftpQueue w' = ftpQueue ?w @ [(b, m)] \<and> msg_for (log_day ?t) fname m"
    using write_log_ok [of ?w fname path fmt row rows] b c(2) assms by simp
  then obtain w' b' m where w': "write_log fmt (log_time ?t) ?w = Some (0, w')" "cardExists (sdCard w') path"
    "cardData (sdCard w') = (cardData c)(path := rows @ drop (length rows) (if cardExists c path then cardData c path else []))"
    "ftpQueue w' = ftpQueue w @ [(b', m)]" "msg_for (log_day ?t) fname m" by auto
  have f: "sprintf_to 16 (log_year ?t) = Some (log_year ?t)" "sprintf_to 32 (log_mon ?t) = Some (log_mon ?t)"
    "sprintf_to 32 (log_day ?t) = Some (log_day ?t)" "sprintf_to 64 (log_time ?t) = Some (log_time ?t)"
    using length_times [OF assms(4)] by (simp_all add: sprintf_to_def)
  have "fname \<noteq> []" using assms(6) by (auto simp: log_name_def bind_eq_Some_conv sprintf_to_def split: if_splits)
  then have "path \<notin> {log_year ?t, log_mon ?t, log_day ?t}"
    using length_times [OF assms(4)] assms(7) by (auto dest: arg_cong [where f = length])
  moreover have "App_GenerateLogFile fmt w = Some (0, w'\<lparr>mem := fold OSA_FixedMemFree bs (mem w')\<rparr>)"
    unfolding App_GenerateLogFile_def using assms(5) b(1) f c(1) w'(1) by (simp del: malloc_seq.simps make_dirs.simps)
  ultimately show ?thesis using w' c(3,4) by (intro exI [of _ "w'\<lparr>mem := fold OSA_FixedMemFree bs (mem w')\<rparr>"]) auto
qed

definition log0 :: SAppLog where
  "log0 = (SAppIn.extend in0 (SAppLog.fields 0 \<lparr>cardExists = (\<lambda>_. False), cardData = (\<lambda>_. []), cardOutcomes = []\<rparr> [] [] []))
     \<lparr>mem := OSA_FixedMemInit mem_bss, sCfg := (replicate SSysCfg_size 0)[234 := 1],
      sTagValue := (\<lambda>_. \<lparr>tvScratch = 0, tvRaw = 0, tvStd = 0, tvStt = (48, 48, 0)\<rparr>),
      sDateTime := \<lparr>tm_sec = 0, tm_min = 5, tm_hour = 0, tm_mday = 1, tm_mon = 1, tm_year = 2018, tm_wday = 0\<rparr>\<rparr>"

lemma log0: "ftpPosts log0 = []" "ftpQueue log0 = []" "eStatus log0 = 0" "sdCard log0 = \<lparr>cardExists = (\<lambda>_. False), cardData = (\<lambda>_. []), cardOutcomes = []\<rparr>"
    "mem log0 = OSA_FixedMemInit mem_bss" "sCfg log0 = (replicate SSysCfg_size 0)[234 := 1]"
    "sTagValue log0 = (\<lambda>_. \<lparr>tvScratch = 0, tvRaw = 0, tvStd = 0, tvStt = (48, 48, 0)\<rparr>)"
    "sDateTime log0 = \<lparr>tm_sec = 0, tm_min = 5, tm_hour = 0, tm_mday = 1, tm_mon = 1, tm_year = 2018, tm_wday = 0\<rparr>"
  unfolding log0_def by (cases in0; simp add: SAppIn.extend_def SAppLog.fields_def)+

lemma log0_memory: "log_memory (mem log0)"
  by (simp add: log_memory_def log0 OSA_FixedMemInit_ok OSA_FixedMemInit_free)

lemma str_in_empty: "off < length m \<Longrightarrow> m ! off = 0 \<Longrightarrow> str_in m off = Some []"
  by (simp add: str_in_def Cons_nth_drop_Suc [symmetric])

lemma LogFile_written_witness:
  "\<exists>w'. App_GenerateLogFile (\<lambda>_. []) log0 = Some (0, w') \<and> length (ftpQueue w') = 1
     \<and> length (cardData (sdCard w') (chars ''2018/01/01/___20180101000500.txt'')) = 57"
proof -
  let ?t = "sDateTime log0" and ?c = "sCfg log0"
  have c: "length ?c = 2412" "\<And>k. k < 2412 \<Longrightarrow> k \<noteq> 234 \<Longrightarrow> ?c ! k = 0" "?c ! 234 = 1"
    by (simp_all add: log0 SSysCfg_size_def)
  have t: "log_time ?t = chars ''20180101000500''" "log_day ?t = chars ''2018/01/01''"
    by (simp_all add: log0 log_time_def log_day_def log_mon_def log_year_def fmt_0d_def pad_left_def dec_digits.simps chars_def)
  have ok: "time_ok ?t" by (simp add: log0 time_ok_def)
  have n: "log_name ?c (log_time ?t) = Some (chars ''/___20180101000500.txt'')"
    by (simp add: log_name_def str_in_empty c t chars_def sprintf_to_def)
  let ?row = "\<lambda>i :: nat. pad_right 12 [] @ [0x20] @ [] @ [0x20] @ pad_left 0x20 12 [] @ [0x20] @ pad_left 0x20 15 (log_time ?t) @ [0x20]
    @ pad_left 0x20 12 [0x30, 0x30] @ [0x0D, 0x0A :: u8]"
  have rep: "report ?c i \<longleftrightarrow> i = 0" if "i < 12" for i
    using that c by (cases "i = 0") (auto simp: report_def layout_defs)
  have s: "str_in ?c (tag_off 0 + 32) = Some []" "str_in ?c (tag_off 0 + 62) = Some []" "str_in [0x30, 0x30, 0] 0 = Some [0x30, 0x30]"
    by (simp_all add: str_in_empty c layout_defs) (simp add: str_in_def)
  have l: "length (?row i) = 57" for i by (simp add: pad_left_def pad_right_def t chars_def)
  then have "sprintf_to 256 (?row i) = Some (?row i)" for i by (simp only: sprintf_to_def) simp
  then have r0: "log_row (\<lambda>_. []) ?c (sTagValue log0 0) (log_time ?t) 0 = Some (?row 0)"
    by (simp add: log_row_def s log0(7))
  have row: "\<forall>i < SYSTEM_NUM_TAG. report ?c i \<longrightarrow> log_row (\<lambda>_. []) ?c (sTagValue log0 i) (log_time ?t) i = Some (?row i)"
  proof (intro allI impI)
    fix i assume "i < SYSTEM_NUM_TAG" "report ?c i"
    then have "i = 0" using rep by (simp add: SYSTEM_NUM_TAG_def)
    then show "log_row (\<lambda>_. []) ?c (sTagValue log0 i) (log_time ?t) i = Some (?row i)" using r0 by simp
  qed
  have f: "filter (report ?c) [0..<SYSTEM_NUM_TAG] = [0]"
    using rep by (simp add: SYSTEM_NUM_TAG_def upt_rec)
  from LogFile_written [OF log0_memory _ _ ok _ n refl row refl]
  obtain w' where "App_GenerateLogFile (\<lambda>_. []) log0 = Some (0, w')" "length (ftpQueue w') = 1"
    "cardData (sdCard w') (log_day ?t @ chars ''/___20180101000500.txt'') = ?row 0"
    by (auto simp: f log0(1-4))
  moreover have "log_day ?t @ chars ''/___20180101000500.txt'' = chars ''2018/01/01/___20180101000500.txt''" by (simp add: t chars_def)
  ultimately show ?thesis using l by auto
qed



end
