(* ===== verification/FtpClient.thy ===== *)
theory FtpClient
  imports LogFile
begin

text \<open>
  The FTP client (\<^verbatim>\<open>network/ftp_client.c\<close>): the dialogue that stores one file of the card on the server.  The sockets
  are environment: the outcomes of the calls of lwIP are taken from lists, and the bytes accepted by \<open>send\<close> are recorded.
  Strings are their characters without the end.  \<open>None\<close> is a text longer than its buffer.
\<close>

section \<open>State (ftp\_client.h)\<close>

text \<open>Outcomes: of opening a connection (with the sets after \<open>select\<close>: error, writable, readable), of a send, of a receive.\<close>

datatype conn = LinkDown | NoSocket | ConnOk | SelFail bool | SelReady bool bool bool | SelTimeout
datatype snd_out = NotWritable | SendRet int
datatype rcv_out = NotReadable | RecvRet "u8 list" | RecvFail

record ServerInfo =
  svEnable :: bool
  username :: "u8 list"
  passwd :: "u8 list"
  prefix :: "u8 list"

record FtpClient =
  ctrlOpen :: bool
  dataOpen :: bool
  status_ctrl :: bool
  status_data :: bool
  rx_buff_ctrl :: "u8 list"
  curr_sv_idx :: nat
  server_list :: "ServerInfo list"
  conns :: "conn list"
  sends :: "snd_out list"
  recvs :: "rcv_out list"
  ctrlSent :: "u8 list list"
  dataSent :: "u8 list"
  ftpMem :: mem_state
  ftpCard :: card

definition FTP_ERR_NONE :: int where "FTP_ERR_NONE = 0"
definition FTP_ERR_FILE :: int where "FTP_ERR_FILE = 1"
definition FTP_ERR_PUT :: int where "FTP_ERR_PUT = 2"
definition FTP_ERR_CD :: int where "FTP_ERR_CD = 4"
definition FTP_ERR_OPEN_CTRL_CONN :: int where "FTP_ERR_OPEN_CTRL_CONN = 8"
definition FTP_ERR_OPEN_DATA_CONN :: int where "FTP_ERR_OPEN_DATA_CONN = 9"
definition FTP_ERR_RECV_CTRL_MSG :: int where "FTP_ERR_RECV_CTRL_MSG = 10"
definition FTP_ERR_SEND_CTRL_MSG :: int where "FTP_ERR_SEND_CTRL_MSG = 12"
definition FTP_ERR_SEND_DATA_MSG :: int where "FTP_ERR_SEND_DATA_MSG = 13"
definition FTP_ERR_PASV :: int where "FTP_ERR_PASV = 15"
definition FTP_ERR_CODE :: int where "FTP_ERR_CODE = 16"

lemmas ftp_err_defs = FTP_ERR_NONE_def FTP_ERR_FILE_def FTP_ERR_PUT_def FTP_ERR_CD_def FTP_ERR_OPEN_CTRL_CONN_def
  FTP_ERR_OPEN_DATA_CONN_def FTP_ERR_RECV_CTRL_MSG_def FTP_ERR_SEND_CTRL_MSG_def FTP_ERR_SEND_DATA_MSG_def FTP_ERR_PASV_def FTP_ERR_CODE_def

section \<open>Sockets\<close>

text \<open>What the code makes of the outcome of a connection attempt; readable alone leaves the count of \<open>select\<close>.\<close>

fun conn_err :: "conn \<Rightarrow> int" where
  "conn_err LinkDown = - 3"
| "conn_err NoSocket = - 3"
| "conn_err ConnOk = 0"
| "conn_err (SelFail eintr) = (if \<not> eintr then - 4 else - 1)"
| "conn_err (SelReady e wr re) = (if e then - 5 else if wr \<and> re then - 6 else if wr then 0 else 1)"
| "conn_err SelTimeout = - 8"

definition next_conn :: "'a FtpClient_scheme \<Rightarrow> conn \<times> 'a FtpClient_scheme" where
  "next_conn s = (case conns s of [] \<Rightarrow> (NoSocket, s) | x # xs \<Rightarrow> (x, s\<lparr>conns := xs\<rparr>))"

definition ftp_close_ctrl_sock :: "'a FtpClient_scheme \<Rightarrow> 'a FtpClient_scheme" where
  "ftp_close_ctrl_sock s = s\<lparr>ctrlOpen := False, status_ctrl := False\<rparr>"

definition ftp_close_data_sock :: "'a FtpClient_scheme \<Rightarrow> 'a FtpClient_scheme" where
  "ftp_close_data_sock s = s\<lparr>dataOpen := False, status_data := False\<rparr>"

definition ftp_start_ctrl_sock :: "'a FtpClient_scheme \<Rightarrow> int \<times> 'a FtpClient_scheme" where
  "ftp_start_ctrl_sock s =
     (let (c, s) = next_conn s; err = conn_err c in
      if c = LinkDown then (err, s)
      else if c = NoSocket then (err, s\<lparr>ctrlOpen := False\<rparr>)
      else
        (let s = s\<lparr>ctrlOpen := True\<rparr>;
             s = (if err \<noteq> 0 then ftp_close_ctrl_sock s else s)
         in (err, if err = 0 then s\<lparr>status_ctrl := True\<rparr> else s)))"

definition ftp_start_data_sock :: "'a FtpClient_scheme \<Rightarrow> int \<times> 'a FtpClient_scheme" where
  "ftp_start_data_sock s =
     (let (c, s) = next_conn s; err = conn_err c in
      if c = LinkDown then (err, s)
      else if c = NoSocket then (err, s\<lparr>dataOpen := False\<rparr>)
      else
        (let s = s\<lparr>dataOpen := True\<rparr>;
             s = (if err \<noteq> 0 then ftp_close_data_sock s else s)
         in (err, if err = 0 then s\<lparr>status_data := True\<rparr> else s)))"

definition ftp_destroy_channel :: "'a FtpClient_scheme \<Rightarrow> 'a FtpClient_scheme" where
  "ftp_destroy_channel s = ftp_close_ctrl_sock (ftp_close_data_sock s)"

text \<open>\<open>send\<close> takes at most the bytes it gets and returns their number, or a negative result.\<close>

definition next_send :: "'a FtpClient_scheme \<Rightarrow> snd_out \<times> 'a FtpClient_scheme" where
  "next_send s = (case sends s of [] \<Rightarrow> (NotWritable, s) | x # xs \<Rightarrow> (x, s\<lparr>sends := xs\<rparr>))"

definition ftp_send_ctrl_msg :: "u8 list \<Rightarrow> 'a FtpClient_scheme \<Rightarrow> int \<times> 'a FtpClient_scheme" where
  "ftp_send_ctrl_msg msg s =
     (if \<not> status_ctrl s then (- 1, s)
      else
        (let len = min 100 (length msg); (r, s) = next_send s in
         case r of
           NotWritable \<Rightarrow> (- 3, s)
         | SendRet n \<Rightarrow> (let n = min n (int len) in (n, s\<lparr>ctrlSent := ctrlSent s @ [take (nat n) msg]\<rparr>))))"

definition ftp_remote_send_data :: "u8 list \<Rightarrow> 'a FtpClient_scheme \<Rightarrow> int \<times> 'a FtpClient_scheme" where
  "ftp_remote_send_data d s =
     (if \<not> status_data s then (- 1, s)
      else if d = [] then (- 2, s)
      else
        (let (r, s) = next_send s in
         case r of
           NotWritable \<Rightarrow> (- 3, s)
         | SendRet n \<Rightarrow> (let n = min n (int (length d)) in (n, s\<lparr>dataSent := dataSent s @ take (nat n) d\<rparr>))))"

text \<open>Only the first 256 bytes of the receive buffer are cleared and filled.\<close>

definition fill_rx :: "u8 list \<Rightarrow> 'a FtpClient_scheme \<Rightarrow> 'a FtpClient_scheme" where
  "fill_rx bs s = s\<lparr>rx_buff_ctrl := take 256 (bs @ replicate 256 0) @ drop 256 (rx_buff_ctrl s)\<rparr>"

definition ftp_recv_ctrl_msg :: "'a FtpClient_scheme \<Rightarrow> int \<times> 'a FtpClient_scheme" where
  "ftp_recv_ctrl_msg s =
     (let (r, s) = (case recvs s of [] \<Rightarrow> (NotReadable, s) | x # xs \<Rightarrow> (x, s\<lparr>recvs := xs\<rparr>)) in
      case r of
        NotReadable \<Rightarrow> (- 1, s)
      | RecvRet bs \<Rightarrow> (int (length (take 256 bs)), fill_rx (take 256 bs) s)
      | RecvFail \<Rightarrow> (- 1, fill_rx [] s))"

definition ftp_remote_send_recv_ctrl :: "u8 list \<Rightarrow> 'a FtpClient_scheme \<Rightarrow> int \<times> 'a FtpClient_scheme" where
  "ftp_remote_send_recv_ctrl msg s =
     (let (err, s) = ftp_send_ctrl_msg msg s in
      if err \<le> 0 then (FTP_ERR_SEND_CTRL_MSG, s)
      else
        (let (err, s) = ftp_recv_ctrl_msg s in
         if err \<le> 0 then (FTP_ERR_RECV_CTRL_MSG, s) else (FTP_ERR_NONE, s)))"

section \<open>Reading a reply\<close>

text \<open>The string in the receive buffer; whether it contains a word; its leading number.\<close>

definition reply :: "'a FtpClient_scheme \<Rightarrow> u8 list" where
  "reply s = takeWhile (\<lambda>b. b \<noteq> 0) (rx_buff_ctrl s)"

fun contains :: "u8 list \<Rightarrow> u8 list \<Rightarrow> bool" where
  "contains sub [] = (sub = [])"
| "contains sub (x # xs) = (take (length sub) (x # xs) = sub \<or> contains sub xs)"

definition is_digit :: "u8 \<Rightarrow> bool" where "is_digit b \<longleftrightarrow> 0x30 \<le> b \<and> b \<le> 0x39"
definition is_space :: "u8 \<Rightarrow> bool" where "is_space b \<longleftrightarrow> b = 0x20 \<or> 0x09 \<le> b \<and> b \<le> 0x0D"

definition dec_value :: "u8 list \<Rightarrow> nat" where
  "dec_value s = foldl (\<lambda>n b. 10 * n + unat (b - 0x30)) 0 (takeWhile is_digit s)"

text \<open>\<open>Str_ParseNbr_Int32U (s, NULL, 10)\<close>: a number too large gives the largest.\<close>

definition reply_code :: "u8 list \<Rightarrow> u32" where
  "reply_code r = of_nat (min (dec_value (dropWhile is_space r)) 4294967295)"

definition ftp_get_code :: "'a FtpClient_scheme \<Rightarrow> u32" where
  "ftp_get_code s = reply_code (reply s)"

definition atoi :: "u8 list \<Rightarrow> int" where
  "atoi s =
     (case dropWhile is_space s of
        [] \<Rightarrow> 0
      | c # r \<Rightarrow> (if c = 0x2D then - int (dec_value r) else if c = 0x2B then int (dec_value r) else int (dec_value (c # r))))"

text \<open>\<open>strtok\<close>: the next token and what follows the delimiter behind it.\<close>

definition strtok :: "u8 list \<Rightarrow> u8 list \<Rightarrow> (u8 list \<times> u8 list) option" where
  "strtok delim s =
     (let s = dropWhile (\<lambda>b. b \<in> set delim) s in
      if s = [] then None
      else Some (takeWhile (\<lambda>b. b \<notin> set delim) s, drop 1 (dropWhile (\<lambda>b. b \<notin> set delim) s)))"

lemma strtok_shorter: "strtok delim s = Some (t, r) \<Longrightarrow> length r < length s"
proof -
  assume a: "strtok delim s = Some (t, r)"
  let ?s = "dropWhile (\<lambda>b. b \<in> set delim) s"
  have s: "?s \<noteq> []" "r = drop 1 (dropWhile (\<lambda>b. b \<notin> set delim) ?s)" "t = takeWhile (\<lambda>b. b \<notin> set delim) ?s"
    using a by (auto simp: strtok_def Let_def split: if_splits)
  have "hd ?s \<notin> set delim" using hd_dropWhile [OF s(1)] by simp
  then have "dropWhile (\<lambda>b. b \<notin> set delim) ?s = dropWhile (\<lambda>b. b \<notin> set delim) (tl ?s)" using s(1) by (cases ?s) auto
  then have "length r \<le> length (tl ?s)" using s(2) length_dropWhile_le [of "\<lambda>b. b \<notin> set delim" "tl ?s"] by simp
  moreover have "length ?s \<le> length s" by (rule length_dropWhile_le)
  ultimately show ?thesis using s(1) by (cases ?s) auto
qed

text \<open>The loop over the tokens of the reply to \<open>PASV\<close>: the fifth and the sixth after the first are the bytes of the port.\<close>

function pasv_loop :: "u8 list \<Rightarrow> nat \<Rightarrow> u8 \<Rightarrow> u8 \<Rightarrow> u8 \<times> u8" where
  "pasv_loop s i hi lo =
     (case strtok (chars ''.,()'') s of
        None \<Rightarrow> (hi, lo)
      | Some (t, r) \<Rightarrow>
          pasv_loop r (i + 1) (if i + 1 = 5 then of_int (atoi t) else hi) (if i + 1 = 6 then of_int (atoi t) else lo))"
  by pat_completeness auto
termination by (relation "measure (\<lambda>(s, _). length s)") (auto dest: strtok_shorter)

declare pasv_loop.simps [simp del]

definition pasv_port :: "u8 list \<Rightarrow> int" where
  "pasv_port r =
     (case strtok (chars ''.,()'') r of
        None \<Rightarrow> 0
      | Some (t, r) \<Rightarrow> (let (hi, lo) = pasv_loop r 0 0 0 in 256 * uint hi + uint lo))"

text \<open>The tokens are cut out of the buffer itself, which is filled anew before it is read again.\<close>

definition ftp_get_pasv_port :: "'a FtpClient_scheme \<Rightarrow> int" where
  "ftp_get_pasv_port s = pasv_port (reply s)"

section \<open>The dialogue\<close>

definition CRLF :: "u8 list" where "CRLF = [0x0D, 0x0A]"

definition server :: "'a FtpClient_scheme \<Rightarrow> ServerInfo option" where
  "server s = (if curr_sv_idx s < length (server_list s) then Some (server_list s ! curr_sv_idx s) else None)"

definition ftp_start_data_channel :: "'a FtpClient_scheme \<Rightarrow> int \<times> 'a FtpClient_scheme" where
  "ftp_start_data_channel s =
     (let (err, s) = ftp_remote_send_recv_ctrl (chars ''PASV'' @ CRLF) s in
      if err \<noteq> FTP_ERR_NONE then (err, s)
      else
        (let port = ftp_get_pasv_port s in
         if port \<noteq> 0 then
           (let (err, s) = ftp_start_data_sock s in (if err \<noteq> 0 then FTP_ERR_OPEN_DATA_CONN else FTP_ERR_NONE, s))
         else (FTP_ERR_PASV, s)))"

text \<open>The log-in: greeting, user name, password; the codes of the replies are not looked at.\<close>

definition ftp_setup_channel :: "nat \<Rightarrow> 'a FtpClient_scheme \<Rightarrow> (int \<times> 'a FtpClient_scheme) option" where
  "ftp_setup_channel idx s = do {
     let s = s\<lparr>curr_sv_idx := idx\<rparr>;
     sv \<leftarrow> server s;
     let (err, s) = ftp_start_ctrl_sock s;
     (if err = 0 then
        (let (err, s) = ftp_recv_ctrl_msg s in
         if err \<le> 0 then Some (FTP_ERR_RECV_CTRL_MSG, s)
         else do {
           user \<leftarrow> sprintf_to 512 (chars ''USER '' @ username sv @ CRLF);
           let (err, s) = ftp_send_ctrl_msg user s;
           (if err \<le> 0 then Some (FTP_ERR_SEND_CTRL_MSG, s)
            else
              (let (err, s) = ftp_recv_ctrl_msg s in
               if err \<le> 0 then Some (FTP_ERR_RECV_CTRL_MSG, s)
               else do {
                 pass \<leftarrow> sprintf_to 512 (chars ''PASS '' @ passwd sv @ CRLF);
                 let (err, s) = ftp_send_ctrl_msg pass s;
                 (if err \<le> 0 then Some (FTP_ERR_SEND_CTRL_MSG, s)
                  else
                    (let (err, s) = ftp_recv_ctrl_msg s in
                     if err \<le> 0 then Some (FTP_ERR_RECV_CTRL_MSG, s) else Some (ftp_start_data_channel s)))
               }))
         })
      else Some (FTP_ERR_OPEN_CTRL_CONN, s))
   }"

definition ftp_remote_cwd :: "u8 list \<Rightarrow> 'a FtpClient_scheme \<Rightarrow> (int \<times> 'a FtpClient_scheme) option" where
  "ftp_remote_cwd path s = map_option (\<lambda>m. ftp_remote_send_recv_ctrl m s) (sprintf_to 256 (chars ''CWD '' @ path @ CRLF))"

definition ftp_remote_mkd :: "u8 list \<Rightarrow> 'a FtpClient_scheme \<Rightarrow> (int \<times> 'a FtpClient_scheme) option" where
  "ftp_remote_mkd path s = map_option (\<lambda>m. ftp_remote_send_recv_ctrl m s) (sprintf_to 256 (chars ''MKD '' @ path @ CRLF))"

definition cwd_done :: "int \<Rightarrow> 'a FtpClient_scheme \<Rightarrow> bool" where
  "cwd_done err s \<longleftrightarrow> err = FTP_ERR_NONE \<and> contains (chars ''successful'') (reply s)"

text \<open>The loop that makes the directories on the way; \<open>path\<close> is a block of 128 bytes.\<close>

function mkd_loop :: "u8 list \<Rightarrow> u8 list \<Rightarrow> int \<Rightarrow> 'a FtpClient_scheme \<Rightarrow> (u8 list \<times> int \<times> 'a FtpClient_scheme) option" where
  "mkd_loop rest path err s =
     (case strtok (chars ''/'') rest of
        None \<Rightarrow> Some (path, err, s)
      | Some (t, r) \<Rightarrow>
          (if length (path @ t @ chars ''/'') < 128 then
             (case ftp_remote_mkd (path @ t @ chars ''/'') s of
                None \<Rightarrow> None
              | Some (err, s) \<Rightarrow> mkd_loop r (path @ t @ chars ''/'') err s)
           else None))"
  by pat_completeness auto
termination by (relation "measure (\<lambda>(rest, _). length rest)") (auto dest: strtok_shorter)

declare mkd_loop.simps [simp del]

text \<open>To the directory of the prefix; \<open>Inl\<close> ends the operation with that result.\<close>

definition enter_prefix :: "u8 list \<Rightarrow> 'a FtpClient_scheme \<Rightarrow> ((int + int) \<times> 'a FtpClient_scheme) option" where
  "enter_prefix pre s =
     (if pre \<noteq> [] then do {
        (err, s) \<leftarrow> ftp_remote_cwd pre s;
        (if cwd_done err s then Some (Inr err, s)
         else do {
           (err, s) \<leftarrow> ftp_remote_mkd pre s;
           (if err \<noteq> FTP_ERR_NONE then Some (Inl err, s)
            else do {
              (err, s) \<leftarrow> ftp_remote_cwd pre s;
              Some (if cwd_done err s then Inr err else Inl err, s)
            })
         })
      }
      else do {
        (err, s) \<leftarrow> ftp_remote_cwd (chars ''/'') s;
        Some (if err \<noteq> FTP_ERR_NONE then Inl err else Inr err, s)
      })"

text \<open>The new directory, made step by step.\<close>

definition make_remote :: "u8 list \<Rightarrow> int \<Rightarrow> 'a FtpClient_scheme \<Rightarrow> (int \<times> 'a FtpClient_scheme) option" where
  "make_remote remote_path err s =
     (let (r, ms) = OSA_FixedMemMalloc 128 (ftpMem s); s = s\<lparr>ftpMem := ms\<rparr> in
      case r of
        None \<Rightarrow> Some (FTP_ERR_CD, s)
      | Some b \<Rightarrow> do {
          (path, err, s) \<leftarrow> mkd_loop remote_path [] err s;
          (err, s) \<leftarrow> (if err = FTP_ERR_NONE \<and> path \<noteq> [] then do {
                          (err, s) \<leftarrow> ftp_remote_cwd path s;
                          Some (if cwd_done err s then FTP_ERR_NONE else FTP_ERR_CD, s)
                        }
                        else Some (err, s));
          Some (err, s\<lparr>ftpMem := OSA_FixedMemFree b (ftpMem s)\<rparr>)
        })"

definition ftp_remote_mkd_recursive :: "u8 list \<Rightarrow> 'a FtpClient_scheme \<Rightarrow> (int \<times> 'a FtpClient_scheme) option" where
  "ftp_remote_mkd_recursive remote_path s = do {
     sv \<leftarrow> server s;
     (r, s) \<leftarrow> enter_prefix (prefix sv) s;
     (case r of
        Inl err \<Rightarrow> Some (err, s)
      | Inr err \<Rightarrow> do {
          (err, s) \<leftarrow> ftp_remote_cwd remote_path s;
          (if cwd_done err s then Some (FTP_ERR_NONE, s)
           else do {
             (err, s) \<leftarrow> (if prefix sv = [] then ftp_remote_cwd (chars ''/'') s else Some (err, s));
             (if prefix sv = [] \<and> err \<noteq> FTP_ERR_NONE then Some (err, s) else make_remote remote_path err s)
           })
        })
   }"

section \<open>Storing a file\<close>

text \<open>The loop that reads and sends: a failed read ends it like the end of the file.\<close>

function send_loop :: "FIL \<Rightarrow> int \<Rightarrow> 'a FtpClient_scheme \<Rightarrow> int \<times> FIL \<times> 'a FtpClient_scheme" where
  "send_loop f err s =
     (case f_read 256 f of
        (fr, bs, f') \<Rightarrow>
          (if bs \<noteq> [] then
             (case ftp_remote_send_data bs s of
                (ret, s) \<Rightarrow> (if ret \<le> 0 then (FTP_ERR_SEND_DATA_MSG, f', s) else if \<not> fr then send_loop f' err s else (err, f', s)))
           else (err, f', s)))"
  by pat_completeness auto
termination
  by (relation "measure (\<lambda>(f, _). length (fdata f) - fptr f)")
    (auto simp: f_read_def next_outcome_def Let_def split: if_splits list.splits)

declare send_loop.simps [simp del]

definition f_open_existing :: "u8 list \<Rightarrow> card \<Rightarrow> FIL option \<times> card" where
  "f_open_existing p c = (let (r, c) = card_next c in
     if r = FsErr \<or> \<not> cardExists c p then (None, c) else (Some \<lparr>fdata = cardData c p, fptr = 0, outcomes = cardOutcomes c\<rparr>, c))"

text \<open>After \<open>STOR\<close>: the file, the end of the data connection, and the last reply.\<close>

definition put_file :: "u8 list \<Rightarrow> 'a FtpClient_scheme \<Rightarrow> int \<times> 'a FtpClient_scheme" where
  "put_file path s =
     (let (ex, c) = obj_existed path (ftpCard s); s = s\<lparr>ftpCard := c\<rparr> in
      if \<not> ex then (FTP_ERR_FILE, s)
      else
        (let (fo, c) = f_open_existing path (ftpCard s);
             s = s\<lparr>ftpCard := c\<rparr>;
             (err, s) = (case fo of
                None \<Rightarrow> (FTP_ERR_FILE, s)
              | Some f \<Rightarrow> (let (err, f, s) = send_loop f FTP_ERR_NONE s in (err, s\<lparr>ftpCard := (ftpCard s)\<lparr>cardOutcomes := outcomes f\<rparr>\<rparr>)));
             s = ftp_close_data_sock s
         in if err = FTP_ERR_NONE then
              (let (ret, s) = ftp_recv_ctrl_msg s in
               if ret \<le> 0 then (FTP_ERR_RECV_CTRL_MSG, s)
               else if \<not> contains (chars ''complete'') (reply s) then (FTP_ERR_PUT, s)
               else (err, s))
            else (err, s)))"

definition ftp_remote_put :: "nat \<Rightarrow> u8 list \<Rightarrow> u8 list \<Rightarrow> u8 list \<Rightarrow> 'a FtpClient_scheme \<Rightarrow> (int \<times> 'a FtpClient_scheme) option" where
  "ftp_remote_put index filename lpath remote_path s = do {
     (err, s) \<leftarrow> ftp_setup_channel index s;
     (if err \<noteq> FTP_ERR_NONE then Some (err, s)
      else do {
        (err, s) \<leftarrow> ftp_remote_mkd_recursive remote_path s;
        (if err \<noteq> FTP_ERR_NONE then Some (err, s)
         else do {
           stor \<leftarrow> sprintf_to 512 (chars ''STOR '' @ drop 1 filename @ CRLF);
           let (err, s) = ftp_remote_send_recv_ctrl stor s;
           (if err \<noteq> FTP_ERR_NONE then Some (err, s)
            else if ftp_get_code s \<noteq> 125 \<and> ftp_get_code s \<noteq> 150 then Some (FTP_ERR_CODE, s)
            else Some (put_file (lpath @ filename) s))
         })
      })
   }"

end
