(* ===== verification/FtpPut.thy ===== *)
theory FtpPut
  imports FtpClient
begin

text \<open>
  What the FTP dialogue achieves: the port read from a reply to \<open>PASV\<close> is the one the server wrote, and a transfer that
  ends without error has sent the file.
\<close>

section \<open>Decimal numbers\<close>

lemma dec_digit:
  assumes "b \<in> set (dec_digits n)"
  shows "is_digit b"
  using assms
proof (induction n rule: dec_digits.induct)
  case (1 n)
  have d: "is_digit (0x30 + of_nat k)" if "k < 10" for k
  proof -
    have "unat (0x30 + of_nat k :: u8) = 0x30 + k" using that by (simp add: unat_word_ariths unat_of_nat)
    then show ?thesis using that by (simp add: is_digit_def word_le_nat_alt)
  qed
  show ?case
  proof (cases "n < 10")
    case True
    then show ?thesis using 1 d [of n] by (subst (asm) (2) dec_digits.simps) auto
  next
    case False
    then show ?thesis using 1 d [of "n mod 10"] by (subst (asm) (2) dec_digits.simps) auto
  qed
qed

lemma dec_digits_cons: "\<exists>b r. dec_digits n = b # r \<and> is_digit b"
proof -
  have "dec_digits n \<noteq> []" by (subst dec_digits.simps) simp
  then obtain b r where "dec_digits n = b # r" by (cases "dec_digits n") auto
  then show ?thesis using dec_digit [of b n] by auto
qed

lemma dec_value_digits [simp]: "dec_value (dec_digits n) = n"
proof -
  have t: "takeWhile is_digit (dec_digits k) = dec_digits k" for k using dec_digit by (simp add: takeWhile_eq_all_conv)
  have v: "unat (of_nat k :: u8) = k" if "k < 10" for k using that by (simp add: unat_of_nat)
  show ?thesis
    unfolding dec_value_def t
  proof (induction n rule: dec_digits.induct)
    case (1 n)
    show ?case
    proof (cases "n < 10")
      case True
      then show ?thesis by (subst dec_digits.simps) (simp add: v)
    next
      case False
      then show ?thesis using 1 by (subst dec_digits.simps) (simp add: v)
    qed
  qed
qed

lemma atoi_digits [simp]: "atoi (dec_digits n) = int n"
proof -
  obtain b r where b: "dec_digits n = b # r" "is_digit b" using dec_digits_cons by blast
  have "\<not> is_space b" "b \<noteq> 0x2D" "b \<noteq> 0x2B"
    using b(2) by (auto simp: is_digit_def is_space_def word_le_nat_alt dest: order_trans)
  then show ?thesis using b(1) dec_value_digits [of n] by (simp add: atoi_def)
qed

section \<open>The port of the data connection\<close>

lemma pasv_delims: "set (chars ''.,()'') = {0x2E, 0x2C, 0x28, 0x29}"
  by (simp add: chars_def)

lemma digit_delims: "set (dec_digits n) \<inter> set (chars ''.,()'') = {}"
proof -
  have "b \<notin> {0x2E, 0x2C, 0x28, 0x29}" if "b \<in> set (dec_digits n)" for b
    using dec_digit [OF that] by (auto simp: is_digit_def word_le_nat_alt)
  then show ?thesis unfolding pasv_delims by blast
qed

lemma strtok_token:
  assumes "t \<noteq> []" "set t \<inter> set delim = {}" "c \<in> set delim"
  shows "strtok delim (t @ c # r) = Some (t, r)"
proof -
  have "dropWhile (\<lambda>b. b \<in> set delim) (t @ c # r) = t @ c # r" using assms by (cases t) auto
  moreover have "takeWhile (\<lambda>b. b \<notin> set delim) (t @ c # r) = t" using assms by (subst takeWhile_append2) auto
  moreover have "dropWhile (\<lambda>b. b \<notin> set delim) (t @ c # r) = c # r" using assms by (subst dropWhile_append2) auto
  ultimately show ?thesis using assms(1) by (simp add: strtok_def)
qed

lemma strtok_number: "c \<in> {0x2E, 0x2C, 0x28, 0x29} \<Longrightarrow> strtok (chars ''.,()'') (dec_digits n @ c # r) = Some (dec_digits n, r)"
  by (rule strtok_token) (use dec_digits_cons [of n] digit_delims pasv_delims in auto)

lemma pasv_loop_end: "6 \<le> i \<Longrightarrow> pasv_loop s i hi lo = (hi, lo)"
proof (induction s i hi lo rule: pasv_loop.induct)
  case (1 s i hi lo)
  then show ?case by (subst pasv_loop.simps) (auto split: option.splits)
qed

lemma pasv_loop_number:
  "c \<in> {0x2E, 0x2C, 0x28, 0x29} \<Longrightarrow> pasv_loop (dec_digits n @ c # r) i hi lo
     = pasv_loop r (i + 1) (if i + 1 = 5 then of_nat n else hi) (if i + 1 = 6 then of_nat n else lo)"
  by (subst pasv_loop.simps) (simp add: strtok_number)

lemma pasv_port_number:
  assumes "pre \<noteq> []" "set pre \<inter> set (chars ''.,()'') = {}" "hi < 256" "lo < 256"
    and "reply s = pre @ chars ''('' @ dec_digits a @ chars '','' @ dec_digits b @ chars '','' @ dec_digits c @ chars '','' @ dec_digits d
      @ chars '','' @ dec_digits hi @ chars '','' @ dec_digits lo @ chars '')'' @ rest"
  shows "ftp_get_pasv_port s = int (256 * hi + lo)"
proof -
  have k: "chars ''('' = [0x28]" "chars '','' = [0x2C]" "chars '')'' = [0x29]" by (simp_all add: chars_def)
  have "strtok (chars ''.,()'') (reply s) = Some (pre, dec_digits a @ 0x2C # dec_digits b @ 0x2C # dec_digits c @ 0x2C # dec_digits d
      @ 0x2C # dec_digits hi @ 0x2C # dec_digits lo @ 0x29 # rest)"
    using strtok_token [OF assms(1,2), of "0x28"] assms(5) pasv_delims by (simp add: k)
  moreover have "pasv_loop (dec_digits a @ 0x2C # dec_digits b @ 0x2C # dec_digits c @ 0x2C # dec_digits d
      @ 0x2C # dec_digits hi @ 0x2C # dec_digits lo @ 0x29 # rest) 0 0 0 = (of_nat hi, of_nat lo)"
    by (simp add: pasv_loop_number pasv_loop_end)
  ultimately show ?thesis using assms(3,4) by (simp add: ftp_get_pasv_port_def pasv_port_def unsigned_of_nat take_bit_nat_eq_self)
qed

text \<open>Whatever the server says around it, the port read from a reply to PASV is the one it wrote: its two bytes are the
  fifth and the sixth number in the brackets.  The text before the bracket must hold no dot, comma or bracket.\<close>

theorem Pasv_port_roundtrip:
  assumes "pre \<noteq> []" "set pre \<inter> set (chars ''.,()'') = {}" "hi < 256" "lo < 256"
    and "reply s = pre @ chars ''('' @ dec_digits a @ chars '','' @ dec_digits b @ chars '','' @ dec_digits c @ chars '','' @ dec_digits d
      @ chars '','' @ dec_digits hi @ chars '','' @ dec_digits lo @ chars '')'' @ rest"
  shows "ftp_get_pasv_port s = int (256 * hi + lo)"
  by (rule pasv_port_number [OF assms])

section \<open>The dialogue sends no data and gives every block back\<close>

definition ctrl_only :: "'a FtpClient_scheme \<Rightarrow> 'a FtpClient_scheme \<Rightarrow> bool" where
  "ctrl_only s s' \<longleftrightarrow> dataSent s' = dataSent s \<and> ftpCard s' = ftpCard s \<and> set (sends s') \<subseteq> set (sends s)
     \<and> FtpClient.more s' = FtpClient.more s
     \<and> (mem_ok (ftpMem s) \<longrightarrow> mem_ok (ftpMem s') \<and> used_blocks (ftpMem s') = used_blocks (ftpMem s))"

lemma ctrl_only_refl [simp]: "ctrl_only s s"
  by (simp add: ctrl_only_def)

lemma ctrl_only_trans: "ctrl_only s t \<Longrightarrow> ctrl_only t u \<Longrightarrow> ctrl_only s u"
  by (auto simp: ctrl_only_def)

lemma ctrl_only_upd [simp]: "ctrl_only s (t\<lparr>curr_sv_idx := i\<rparr>) = ctrl_only s t"
  by (simp add: ctrl_only_def)

lemma ctrl_only_steps [simp]:
  assumes "ctrl_only s t"
  shows "ctrl_only s (snd (ftp_start_ctrl_sock t))" "ctrl_only s (snd (ftp_start_data_sock t))"
    "ctrl_only s (snd (ftp_send_ctrl_msg m t))" "ctrl_only s (snd (ftp_recv_ctrl_msg t))"
  using assms
  by (auto simp: ctrl_only_def ftp_start_ctrl_sock_def ftp_start_data_sock_def ftp_send_ctrl_msg_def ftp_recv_ctrl_msg_def
      ftp_close_ctrl_sock_def ftp_close_data_sock_def fill_rx_def next_conn_def next_send_def Let_def
      split: list.splits snd_out.splits rcv_out.splits)

lemma ctrl_only_exchange [simp]: "ctrl_only s t \<Longrightarrow> ctrl_only s (snd (ftp_remote_send_recv_ctrl m t))"
  by (simp add: ftp_remote_send_recv_ctrl_def split_beta Let_def)

lemma ctrl_only_data_channel [simp]: "ctrl_only s t \<Longrightarrow> ctrl_only s (snd (ftp_start_data_channel t))"
  by (simp add: ftp_start_data_channel_def split_beta Let_def)

lemma ctrl_only_exchanged: "ftp_remote_send_recv_ctrl m t = (e, u) \<Longrightarrow> ctrl_only s t \<Longrightarrow> ctrl_only s u"
  using ctrl_only_exchange [of s t m] by simp

lemma ctrl_only_cwd: "ftp_remote_cwd p t = Some (e, u) \<Longrightarrow> ctrl_only s t \<Longrightarrow> ctrl_only s u"
  by (auto simp: ftp_remote_cwd_def dest: ctrl_only_exchanged)

lemma ctrl_only_mkd: "ftp_remote_mkd p t = Some (e, u) \<Longrightarrow> ctrl_only s t \<Longrightarrow> ctrl_only s u"
  by (auto simp: ftp_remote_mkd_def dest: ctrl_only_exchanged)

lemma ctrl_only_opened: "ftp_start_data_channel t = (e, u) \<Longrightarrow> ctrl_only s t \<Longrightarrow> ctrl_only s u"
  using ctrl_only_data_channel [of s t] by simp

lemma ctrl_only_setup: "ftp_setup_channel i t = Some (e, u) \<Longrightarrow> ctrl_only t u"
  by (auto simp: ftp_setup_channel_def bind_eq_Some_conv Let_def split_beta split: if_splits elim!: ctrl_only_opened)

lemma ctrl_only_mkd_loop: "mkd_loop rest p e t = Some (q, e', u) \<Longrightarrow> ctrl_only s t \<Longrightarrow> ctrl_only s u"
proof (induction rest p e t rule: mkd_loop.induct)
  case (1 rest p e t)
  note l = 1(2) [unfolded mkd_loop.simps [of rest p e t]]
  from l 1(1,3) show ?case by (fastforce split: option.splits if_splits dest: ctrl_only_mkd)
qed

lemma ctrl_only_prefix: "enter_prefix p t = Some (r, u) \<Longrightarrow> ctrl_only s t \<Longrightarrow> ctrl_only s u"
  by (auto simp: enter_prefix_def bind_eq_Some_conv split: if_splits dest!: ctrl_only_cwd [of _ _ _ _ s] ctrl_only_mkd [of _ _ _ _ s])

lemma ctrl_only_free:
  assumes "OSA_FixedMemMalloc n (ftpMem s) = (Some b, ms)" "ctrl_only (s\<lparr>ftpMem := ms\<rparr>) u"
  shows "ctrl_only s (u\<lparr>ftpMem := OSA_FixedMemFree b (ftpMem u)\<rparr>)"
proof -
  have "mem_ok (OSA_FixedMemFree b (ftpMem u)) \<and> used_blocks (OSA_FixedMemFree b (ftpMem u)) = used_blocks (ftpMem s)"
    if "mem_ok (ftpMem s)"
    using fm.alloc_some [OF that assms(1)] fm.dealloc_used [of "ftpMem u" b] assms(2) by (simp add: ctrl_only_def)
  then show ?thesis using assms(2) by (simp add: ctrl_only_def)
qed

lemma ctrl_only_make_remote:
  assumes "make_remote p e t = Some (e', u)"
  shows "ctrl_only t u"
proof -
  obtain r ms where m: "OSA_FixedMemMalloc 128 (ftpMem t) = (r, ms)" by fastforce
  show ?thesis
  proof (cases r)
    case None
    then show ?thesis using assms m fm.alloc_none [of "ftpMem t" 128 ms] by (auto simp: make_remote_def ctrl_only_def)
  next
    case (Some b)
    obtain path e1 v e2 w where v: "mkd_loop p [] e (t\<lparr>ftpMem := ms\<rparr>) = Some (path, e1, v)"
      and w: "(if e1 = FTP_ERR_NONE \<and> path \<noteq> [] then do {
                 (err, s) \<leftarrow> ftp_remote_cwd path v; Some (if cwd_done err s then FTP_ERR_NONE else FTP_ERR_CD, s) } else Some (e1, v)) = Some (e2, w)"
      and u: "u = w\<lparr>ftpMem := OSA_FixedMemFree b (ftpMem w)\<rparr>"
      using assms m Some by (auto simp: make_remote_def bind_eq_Some_conv Let_def)
    have "ctrl_only (t\<lparr>ftpMem := ms\<rparr>) v" using ctrl_only_mkd_loop [OF v] by simp
    then have "ctrl_only (t\<lparr>ftpMem := ms\<rparr>) w"
      using w by (auto simp: bind_eq_Some_conv split: if_splits dest: ctrl_only_cwd)
    then show ?thesis using ctrl_only_free m Some u by blast
  qed
qed

lemma ctrl_only_mkd_recursive:
  assumes "ftp_remote_mkd_recursive p t = Some (e, u)" "ctrl_only s t"
  shows "ctrl_only s u"
proof -
  obtain sv r v where v: "server t = Some sv" "enter_prefix (prefix sv) t = Some (r, v)"
    using assms(1) by (auto simp: ftp_remote_mkd_recursive_def bind_eq_Some_conv)
  note c = ctrl_only_prefix [OF v(2) assms(2)]
  show ?thesis
  proof (cases r)
    case (Inl a)
    then show ?thesis using assms(1) v c by (auto simp: ftp_remote_mkd_recursive_def)
  next
    case (Inr a)
    then show ?thesis using assms(1) v c
      by (auto simp: ftp_remote_mkd_recursive_def bind_eq_Some_conv split: if_splits
          dest!: ctrl_only_cwd [of _ _ _ _ s] dest: ctrl_only_trans [OF _ ctrl_only_make_remote])
  qed
qed

section \<open>The file\<close>

text \<open>Every send takes all it gets or nothing.\<close>

definition sends_all :: "'a FtpClient_scheme \<Rightarrow> bool" where
  "sends_all s \<longleftrightarrow> (\<forall>n. SendRet n \<in> set (sends s) \<longrightarrow> n \<le> 0 \<or> 256 \<le> n)"

lemma f_read_ok:
  assumes "f_read n f = (r, bs, f')" "FsErr \<notin> set (outcomes f)"
  shows "\<not> r \<and> bs = take n (drop (fptr f) (fdata f)) \<and> fdata f' = fdata f \<and> fptr f' = fptr f + length bs
     \<and> FsErr \<notin> set (outcomes f')"
  using assms by (auto simp: f_read_def next_outcome_def Let_def split: list.splits if_splits)

lemma ftp_send_all:
  assumes "ftp_remote_send_data d s = (ret, s')" "0 < ret" "sends_all s" "length d \<le> 256"
  shows "dataSent s' = dataSent s @ d" "sends_all s'"
  using assms
  by (auto simp: ftp_remote_send_data_def next_send_def sends_all_def Let_def split: if_splits list.splits snd_out.splits)

lemma send_loop_all:
  assumes "send_loop f FTP_ERR_NONE s = (FTP_ERR_NONE, f', s')" "sends_all s" "FsErr \<notin> set (outcomes f)"
  shows "dataSent s' = dataSent s @ drop (fptr f) (fdata f)"
  using assms
proof (induction f "FTP_ERR_NONE" s rule: send_loop.induct)
  case (1 f s)
  obtain r bs g where rd: "f_read 256 f = (r, bs, g)" by (metis prod_cases3)
  note g = f_read_ok [OF rd 1(4)]
  show ?case
  proof (cases "bs = []")
    case True
    then show ?thesis using 1(2) [unfolded send_loop.simps [of f]] rd g by auto
  next
    case False
    obtain ret t where sd: "ftp_remote_send_data bs s = (ret, t)" by fastforce
    have ret: "0 < ret" "send_loop g FTP_ERR_NONE t = (FTP_ERR_NONE, f', s')"
      using 1(2) [unfolded send_loop.simps [of f]] rd g sd False by (auto simp: ftp_err_defs split: if_splits)
    note snt = ftp_send_all [OF sd ret(1) 1(3)]
    have "length bs \<le> 256" using g by simp
    then have "dataSent s' = dataSent t @ drop (fptr g) (fdata g)"
      using 1(1) [OF rd [symmetric] refl False sd [symmetric]] False ret g snt by simp
    then show ?thesis using snt \<open>length bs \<le> 256\<close> g append_take_drop_id [of 256 "drop (fptr f) (fdata f)"]
      by (auto simp: add.commute min_def)
  qed
qed

text \<open>Storing leaves the memory and what extends the record as they are.\<close>

definition data_only :: "'a FtpClient_scheme \<Rightarrow> 'a FtpClient_scheme \<Rightarrow> bool" where
  "data_only s s' \<longleftrightarrow> ftpMem s' = ftpMem s \<and> FtpClient.more s' = FtpClient.more s"

lemma data_only_send: "ftp_remote_send_data d t = (r, u) \<Longrightarrow> data_only s t \<Longrightarrow> data_only s u"
  by (auto simp: data_only_def ftp_remote_send_data_def next_send_def Let_def split: if_splits list.splits snd_out.splits)

lemma data_only_loop: "send_loop f e t = (e', f', u) \<Longrightarrow> data_only s t \<Longrightarrow> data_only s u"
proof (induction f e t rule: send_loop.induct)
  case (1 f e t)
  note l = 1(2) [unfolded send_loop.simps [of f e t]]
  from l 1(1,3) show ?case by (fastforce split: prod.splits if_splits dest: data_only_send)
qed

lemma data_only_file: "put_file p s = (e, s') \<Longrightarrow> data_only s s'"
  by (auto simp: put_file_def Let_def ftp_close_data_sock_def ftp_recv_ctrl_msg_def fill_rx_def split: prod.splits if_splits option.splits
        list.splits rcv_out.splits dest!: data_only_loop [of _ _ _ _ _ _ s]) (auto simp: data_only_def)

text \<open>A transfer gives every block back, whatever its result.\<close>

lemma put_frame:
  assumes "ftp_remote_put i name lpath rpath s = Some (e, s')"
  shows "FtpClient.more s' = FtpClient.more s
    \<and> (mem_ok (ftpMem s) \<longrightarrow> mem_ok (ftpMem s') \<and> used_blocks (ftpMem s') = used_blocks (ftpMem s))"
proof -
  obtain e1 s1 where s1: "ftp_setup_channel i s = Some (e1, s1)" using assms by (auto simp: ftp_remote_put_def bind_eq_Some_conv)
  note c1 = ctrl_only_setup [OF s1]
  show ?thesis
  proof (cases "e1 = FTP_ERR_NONE")
    case False
    then show ?thesis using assms s1 c1 by (simp add: ftp_remote_put_def ctrl_only_def)
  next
    case True
    obtain e2 s2 where s2: "ftp_remote_mkd_recursive rpath s1 = Some (e2, s2)" using assms s1 True by (auto simp: ftp_remote_put_def bind_eq_Some_conv)
    note c2 = ctrl_only_mkd_recursive [OF s2 c1]
    show ?thesis
    proof (cases "e2 = FTP_ERR_NONE")
      case False
      then show ?thesis using assms s1 True s2 c2 by (simp add: ftp_remote_put_def ctrl_only_def)
    next
      case e2: True
      obtain y where y: "sprintf_to 512 (chars ''STOR '' @ drop 1 name @ CRLF) = Some y"
        using assms s1 True s2 e2 by (auto simp: ftp_remote_put_def bind_eq_Some_conv)
      obtain e3 s3 where s3: "ftp_remote_send_recv_ctrl y s2 = (e3, s3)" by fastforce
      have "s' = s3 \<or> (\<exists>e. put_file (lpath @ name) s3 = (e, s'))"
        using assms s1 True s2 e2 y s3 by (auto simp: ftp_remote_put_def split: if_splits)
      then show ?thesis using ctrl_only_exchanged [OF s3 c2] data_only_file [of "lpath @ name" s3] by (auto simp: ctrl_only_def data_only_def)
    qed
  qed
qed

lemma put_file_ok:
  assumes "put_file p s = (FTP_ERR_NONE, s')" "sends_all s" "FsErr \<notin> set (cardOutcomes (ftpCard s))"
  shows "cardExists (ftpCard s) p \<and> dataSent s' = dataSent s @ cardData (ftpCard s) p \<and> \<not> dataOpen s'
     \<and> contains (chars ''complete'') (reply s')"
proof -
  obtain ex c where ex: "obj_existed p (ftpCard s) = (ex, c)" by fastforce
  have c: "cardExists c = cardExists (ftpCard s)" "cardData c = cardData (ftpCard s)" "FsErr \<notin> set (cardOutcomes c)"
    "ex \<longrightarrow> cardExists (ftpCard s) p"
    using ex assms(3) by (auto simp: obj_existed_def card_next_def Let_def split: list.splits)
  have x: "ex" using assms(1) ex by (cases ex) (simp_all add: put_file_def ftp_err_defs)
  obtain fo c' where fo: "f_open_existing p c = (fo, c')" by fastforce
  show ?thesis
  proof (cases fo)
    case None
    then show ?thesis using assms(1) ex x fo by (simp add: put_file_def ftp_err_defs)
  next
    case (Some f)
    have f: "fdata f = cardData (ftpCard s) p" "fptr f = 0" "FsErr \<notin> set (outcomes f)"
      using fo Some c by (auto simp: f_open_existing_def card_next_def Let_def split: list.splits if_splits)
    let ?s = "s\<lparr>ftpCard := c'\<rparr>"
    obtain e g t where lp: "send_loop f FTP_ERR_NONE ?s = (e, g, t)" by (metis prod_cases3)
    have e: "e = FTP_ERR_NONE"
      using assms(1) ex x fo Some lp by (auto simp: put_file_def Let_def split: if_splits)
    have "dataSent t = dataSent s @ cardData (ftpCard s) p"
      using send_loop_all [of f ?s g t] lp e f assms(2) by (simp add: sends_all_def)
    then show ?thesis
      using assms(1) ex x fo Some lp e c
      by (auto simp: put_file_def Let_def split_beta ftp_recv_ctrl_msg_def ftp_close_data_sock_def fill_rx_def reply_def ftp_err_defs
          split: if_splits list.splits rcv_out.splits)
  qed
qed

text \<open>C31: a transfer that reports success has opened the file of the record on the card, has sent all of it on the data
  connection, and has the server's word that the transfer is complete; the data connection is closed.  It relies on sends that
  take all they get or nothing and on a card that does not fail: a short send and a failed read both pass as success.\<close>

theorem Ftp_put_delivers:
  assumes "ftp_remote_put i name lpath rpath s = Some (FTP_ERR_NONE, s')"
    and "sends_all s" "FsErr \<notin> set (cardOutcomes (ftpCard s))"
  shows "cardExists (ftpCard s) (lpath @ name) \<and> dataSent s' = dataSent s @ cardData (ftpCard s) (lpath @ name)
     \<and> \<not> dataOpen s' \<and> contains (chars ''complete'') (reply s')"
proof -
  obtain s1 where s1: "ftp_setup_channel i s = Some (FTP_ERR_NONE, s1)"
    using assms(1) by (auto simp: ftp_remote_put_def bind_eq_Some_conv split: if_splits)
  obtain s2 where s2: "ftp_remote_mkd_recursive rpath s1 = Some (FTP_ERR_NONE, s2)"
    using assms(1) s1 by (auto simp: ftp_remote_put_def bind_eq_Some_conv split: if_splits)
  obtain stor where p: "put_file (lpath @ name) (snd (ftp_remote_send_recv_ctrl stor s2)) = (FTP_ERR_NONE, s')"
    using assms(1) s1 s2 by (auto simp: ftp_remote_put_def bind_eq_Some_conv Let_def split_beta ftp_err_defs split: if_splits)
  have c: "ctrl_only s (snd (ftp_remote_send_recv_ctrl stor s2))"
    using ctrl_only_mkd_recursive [OF s2 ctrl_only_setup [OF s1]] by simp
  then have "sends_all (snd (ftp_remote_send_recv_ctrl stor s2))"
    "FsErr \<notin> set (cardOutcomes (ftpCard (snd (ftp_remote_send_recv_ctrl stor s2))))"
    using assms(2,3) by (auto simp: ctrl_only_def sends_all_def)
  from put_file_ok [OF p this] c show ?thesis by (simp add: ctrl_only_def)
qed

section \<open>A server that accepts\<close>

definition live :: "conn list \<Rightarrow> snd_out list \<Rightarrow> rcv_out list \<Rightarrow> ServerInfo \<Rightarrow> card \<Rightarrow> u8 list \<Rightarrow> 'a FtpClient_scheme \<Rightarrow> bool" where
  "live cs ns rs sv c d s \<longleftrightarrow> conns s = cs \<and> sends s = ns \<and> recvs s = rs \<and> server s = Some sv \<and> ftpCard s = c
     \<and> dataSent s = d \<and> status_ctrl s"

definition is_text :: "u8 list \<Rightarrow> bool" where "is_text r \<longleftrightarrow> r \<noteq> [] \<and> length r < 256 \<and> 0 \<notin> set r"

lemma server_upd [simp]:
  "server (s\<lparr>sends := x1\<rparr>) = server s" "server (s\<lparr>ctrlSent := x2\<rparr>) = server s" "server (s\<lparr>recvs := x3\<rparr>) = server s"
  "server (s\<lparr>rx_buff_ctrl := x4\<rparr>) = server s" "server (s\<lparr>conns := x5\<rparr>) = server s" "server (s\<lparr>ctrlOpen := b\<rparr>) = server s"
  "server (s\<lparr>status_ctrl := b\<rparr>) = server s" "server (s\<lparr>dataOpen := b\<rparr>) = server s" "server (s\<lparr>status_data := b\<rparr>) = server s"
  "server (s\<lparr>dataSent := x6\<rparr>) = server s" "server (s\<lparr>ftpCard := x7\<rparr>) = server s"
  by (simp_all add: server_def)

lemma send_ctrl_ok:
  assumes "live cs (SendRet n # ns) rs sv c d s" "0 < n" "m \<noteq> []"
  shows "\<exists>r s'. ftp_send_ctrl_msg m s = (r, s') \<and> 0 < r \<and> live cs ns rs sv c d s' \<and> status_data s' = status_data s"
  using assms by (auto simp: live_def ftp_send_ctrl_msg_def next_send_def Let_def)

lemma recv_ctrl_ok:
  assumes "live cs ns (RecvRet b # rs) sv c d s" "is_text b"
  shows "\<exists>r s'. ftp_recv_ctrl_msg s = (r, s') \<and> 0 < r \<and> live cs ns rs sv c d s' \<and> status_data s' = status_data s \<and> reply s' = b"
proof -
  have "takeWhile (\<lambda>x. x \<noteq> 0) (take 256 (b @ replicate 256 0) @ x) = b" for x
  proof -
    obtain k where k: "256 - length b = Suc k" using assms(2) by (cases "256 - length b") (auto simp: is_text_def)
    have k255: "k \<le> 255" using k by simp
    have "take 256 (b @ replicate 256 0) = b @ 0 # replicate k 0" using assms(2) k k255 by (simp add: is_text_def)
    moreover have "takeWhile (\<lambda>x. x \<noteq> 0) (b @ 0 # y) = b" for y using assms(2) by (subst takeWhile_append2) (auto simp: is_text_def)
    ultimately show ?thesis by simp
  qed
  then show ?thesis
    using assms by (auto simp: live_def ftp_recv_ctrl_msg_def fill_rx_def reply_def is_text_def)
qed

lemma exchange_ok:
  assumes "live cs (SendRet n # ns) (RecvRet b # rs) sv c d s" "0 < n" "m \<noteq> []" "is_text b"
  shows "\<exists>s'. ftp_remote_send_recv_ctrl m s = (FTP_ERR_NONE, s') \<and> live cs ns rs sv c d s' \<and> status_data s' = status_data s \<and> reply s' = b"
  using send_ctrl_ok [OF assms(1-3)] recv_ctrl_ok [OF _ assms(4)] by (fastforce simp: ftp_remote_send_recv_ctrl_def)

lemma cwd_ok:
  assumes "live cs (SendRet n # ns) (RecvRet b # rs) sv c d s" "0 < n" "is_text b" "length p < 250"
  shows "\<exists>s'. ftp_remote_cwd p s = Some (FTP_ERR_NONE, s') \<and> live cs ns rs sv c d s' \<and> status_data s' = status_data s \<and> reply s' = b"
proof -
  have m: "sprintf_to 256 (chars ''CWD '' @ p @ CRLF) = Some (chars ''CWD '' @ p @ CRLF)" using assms(4) by (simp add: sprintf_to_def chars_def CRLF_def)
  have "chars ''CWD '' @ p @ CRLF \<noteq> []" by (simp add: CRLF_def)
  from exchange_ok [OF assms(1,2) this assms(3)] show ?thesis by (auto simp: ftp_remote_cwd_def m)
qed

text \<open>The replies of a server that lets the client in, knows the directory, and takes the file.\<close>

fun accepting :: "u8 list \<Rightarrow> u8 list list \<Rightarrow> bool" where
  "accepting pre [hello, usr, pas, pasv, cwd1, cwd2, stor, fin] =
     ((\<forall>r \<in> set [hello, usr, pas, pasv, cwd1, cwd2, stor, fin]. is_text r) \<and> pasv_port pasv \<noteq> 0
      \<and> (pre \<noteq> [] \<longrightarrow> contains (chars ''successful'') cwd1) \<and> contains (chars ''successful'') cwd2
      \<and> (reply_code stor = 125 \<or> reply_code stor = 150) \<and> contains (chars ''complete'') fin)"
| "accepting pre _ = False"

lemma setup_ok:
  assumes "conns s = ConnOk # ConnOk # cs" "sends s = SendRet n1 # SendRet n2 # SendRet n3 # ns" "0 < n1" "0 < n2" "0 < n3"
    and "recvs s = RecvRet hello # RecvRet usr # RecvRet pas # RecvRet pasv # rs" "is_text hello" "is_text usr" "is_text pas" "is_text pasv"
    and "pasv_port pasv \<noteq> 0" "i < length (server_list s)" "length (username (server_list s ! i)) < 500" "length (passwd (server_list s ! i)) < 500"
  shows "\<exists>s'. ftp_setup_channel i s = Some (FTP_ERR_NONE, s') \<and> status_data s'
     \<and> live cs ns rs (server_list s ! i) (ftpCard s) (dataSent s) s'"
proof -
  let ?sv = "server_list s ! i" and ?s = "s\<lparr>curr_sv_idx := i\<rparr>"
  let ?live = "\<lambda>cs ns rs. live cs ns rs ?sv (ftpCard s) (dataSent s)"
  have sv: "server ?s = Some ?sv" using assms(12) by (simp add: server_def)
  let ?user = "chars ''USER '' @ username ?sv @ CRLF" and ?pass = "chars ''PASS '' @ passwd ?sv @ CRLF"
  have m: "sprintf_to 512 ?user = Some ?user" "?user \<noteq> []" "sprintf_to 512 ?pass = Some ?pass" "?pass \<noteq> []" "chars ''PASV'' @ CRLF \<noteq> []"
    using assms(13,14) by (simp_all add: sprintf_to_def chars_def CRLF_def)
  obtain s0 where s0: "ftp_start_ctrl_sock ?s = (0, s0)"
    "?live (ConnOk # cs) (SendRet n1 # SendRet n2 # SendRet n3 # ns) (RecvRet hello # RecvRet usr # RecvRet pas # RecvRet pasv # rs) s0"
    using assms(1,2,6) sv by (simp add: ftp_start_ctrl_sock_def next_conn_def live_def Let_def)
  from recv_ctrl_ok [OF s0(2) assms(7)] obtain r1 s1 where s1: "ftp_recv_ctrl_msg s0 = (r1, s1)" "0 < r1"
    "?live (ConnOk # cs) (SendRet n1 # SendRet n2 # SendRet n3 # ns) (RecvRet usr # RecvRet pas # RecvRet pasv # rs) s1" by blast
  from send_ctrl_ok [OF s1(3) assms(3) m(2)] obtain r2 s2 where s2: "ftp_send_ctrl_msg ?user s1 = (r2, s2)" "0 < r2"
    "?live (ConnOk # cs) (SendRet n2 # SendRet n3 # ns) (RecvRet usr # RecvRet pas # RecvRet pasv # rs) s2" by blast
  from recv_ctrl_ok [OF s2(3) assms(8)] obtain r3 s3 where s3: "ftp_recv_ctrl_msg s2 = (r3, s3)" "0 < r3"
    "?live (ConnOk # cs) (SendRet n2 # SendRet n3 # ns) (RecvRet pas # RecvRet pasv # rs) s3" by blast
  from send_ctrl_ok [OF s3(3) assms(4) m(4)] obtain r4 s4 where s4: "ftp_send_ctrl_msg ?pass s3 = (r4, s4)" "0 < r4"
    "?live (ConnOk # cs) (SendRet n3 # ns) (RecvRet pas # RecvRet pasv # rs) s4" by blast
  from recv_ctrl_ok [OF s4(3) assms(9)] obtain r5 s5 where s5: "ftp_recv_ctrl_msg s4 = (r5, s5)" "0 < r5"
    "?live (ConnOk # cs) (SendRet n3 # ns) (RecvRet pasv # rs) s5" by blast
  from exchange_ok [OF s5(3) assms(5) m(5) assms(10)] obtain s6 where s6: "ftp_remote_send_recv_ctrl (chars ''PASV'' @ CRLF) s5 = (FTP_ERR_NONE, s6)"
    "reply s6 = pasv" "?live (ConnOk # cs) ns rs s6" by blast
  obtain s7 where s7: "ftp_start_data_sock s6 = (0, s7)" "status_data s7" "?live cs ns rs s7"
    using s6(3) by (simp add: ftp_start_data_sock_def next_conn_def live_def Let_def)
  have "ftp_start_data_channel s5 = (FTP_ERR_NONE, s7)"
    using s6(1,2) s7(1) assms(11) by (simp add: ftp_start_data_channel_def ftp_get_pasv_port_def)
  then show ?thesis
    using sv s0(1) s1(1,2) s2(1,2) s3(1,2) s4(1,2) s5(1,2) s7(2,3) m(1,3) by (simp add: ftp_setup_channel_def)
qed

lemma enter_ok:
  assumes "live cs (SendRet n1 # SendRet n2 # ns) (RecvRet cwd1 # RecvRet cwd2 # rs) sv c d s" "0 < n1" "0 < n2" "is_text cwd1" "is_text cwd2"
    and "prefix sv \<noteq> [] \<longrightarrow> contains (chars ''successful'') cwd1" "contains (chars ''successful'') cwd2"
    and "length (prefix sv) < 250" "length p < 250"
  shows "\<exists>s'. ftp_remote_mkd_recursive p s = Some (FTP_ERR_NONE, s') \<and> live cs ns rs sv c d s' \<and> status_data s' = status_data s"
proof -
  let ?p = "if prefix sv = [] then chars ''/'' else prefix sv"
  have "length ?p < 250" using assms(8) by (simp add: chars_def)
  from cwd_ok [OF assms(1,2,4) this] obtain s1 where s1: "ftp_remote_cwd ?p s = Some (FTP_ERR_NONE, s1)"
    "live cs (SendRet n2 # ns) (RecvRet cwd2 # rs) sv c d s1" "status_data s1 = status_data s" "reply s1 = cwd1" by blast
  from cwd_ok [OF s1(2) assms(3,5,9)] obtain s2 where s2: "ftp_remote_cwd p s1 = Some (FTP_ERR_NONE, s2)"
    "live cs ns rs sv c d s2" "status_data s2 = status_data s1" "reply s2 = cwd2" by blast
  have "server s = Some sv" using assms(1) by (simp add: live_def)
  then have "ftp_remote_mkd_recursive p s = Some (FTP_ERR_NONE, s2)"
    using s1 s2 assms(6,7) by (auto simp: ftp_remote_mkd_recursive_def enter_prefix_def cwd_done_def split: if_splits)
  then show ?thesis using s1 s2 by auto
qed

lemma send_data_ok:
  assumes "live cs (SendRet n # ns) rs sv c d s" "status_data s" "b \<noteq> []" "int (length b) \<le> n"
  shows "\<exists>t. ftp_remote_send_data b s = (int (length b), t) \<and> live cs ns rs sv c (d @ b) t \<and> status_data t"
  using assms by (auto simp: live_def ftp_remote_send_data_def next_send_def Let_def min_def)

lemma send_loop_ok:
  assumes "live cs (map SendRet ns) rs sv c d s" "status_data s" "\<forall>n \<in> set ns. 256 \<le> n" "outcomes f = []"
    and "length (fdata f) - fptr f \<le> 256 * length ns"
  shows "\<exists>f' s' ns'. send_loop f FTP_ERR_NONE s = (FTP_ERR_NONE, f', s') \<and> outcomes f' = []
     \<and> live cs (map SendRet ns') rs sv c (d @ drop (fptr f) (fdata f)) s'"
  using assms
proof (induction ns arbitrary: d s f)
  case Nil
  then show ?case by (intro exI [of _ f] exI [of _ s] exI [of _ "[]"]) (subst send_loop.simps, simp add: fs_ok)
next
  case (Cons n ns)
  let ?b = "take 256 (drop (fptr f) (fdata f))" and ?g = "f\<lparr>fptr := fptr f + length (take 256 (drop (fptr f) (fdata f)))\<rparr>"
  have rd: "f_read 256 f = (False, ?b, ?g)" using Cons.prems(4) by (simp add: fs_ok)
  show ?case
  proof (cases "?b = []")
    case True
    then show ?thesis using Cons.prems
      by (intro exI [of _ ?g] exI [of _ s] exI [of _ "n # ns"]) (subst send_loop.simps, simp add: rd)
  next
    case False
    have "length ?b \<le> 256" "256 \<le> n" using Cons.prems(3) by simp_all
    then have "int (length ?b) \<le> n" by linarith
    then obtain t where t: "ftp_remote_send_data ?b s = (int (length ?b), t)" "live cs (map SendRet ns) rs sv c (d @ ?b) t" "status_data t"
      using send_data_ok [OF Cons.prems(1) [unfolded list.map] Cons.prems(2) False] by blast
    have "length (fdata ?g) - fptr ?g \<le> 256 * length ns" using Cons.prems(5) by simp
    from Cons.IH [OF t(2,3) _ _ this] Cons.prems(3,4) obtain f' s' ns' where
      "send_loop ?g FTP_ERR_NONE t = (FTP_ERR_NONE, f', s')" "outcomes f' = []"
      "live cs (map SendRet ns') rs sv c ((d @ ?b) @ drop (fptr ?g) (fdata ?g)) s'" by fastforce
    moreover have "?b @ drop (fptr ?g) (fdata ?g) = drop (fptr f) (fdata f)"
      using append_take_drop_id [of 256 "drop (fptr f) (fdata f)"] by (simp add: add.commute min_def)
    moreover have "send_loop f FTP_ERR_NONE s = send_loop ?g FTP_ERR_NONE t"
      using False t(1) by (subst send_loop.simps) (auto simp: rd min_def)
    ultimately show ?thesis by auto
  qed
qed

lemma put_file_succeeds:
  assumes "live cs (map SendRet ns) (RecvRet fin # rs) sv c d s" "status_data s" "\<forall>n \<in> set ns. 256 \<le> n"
    and "cardExists c p" "cardOutcomes c = []" "length (cardData c p) \<le> 256 * length ns" "is_text fin" "contains (chars ''complete'') fin"
  shows "\<exists>s'. put_file p s = (FTP_ERR_NONE, s') \<and> dataSent s' = d @ cardData c p"
proof -
  let ?f = "\<lparr>fdata = cardData c p, fptr = 0, outcomes = []\<rparr>"
  have s: "ftpCard s = c" "s\<lparr>ftpCard := c\<rparr> = s" using assms(1) by (auto simp: live_def)
  have c: "obj_existed p c = (True, c)" "f_open_existing p c = (Some ?f, c)"
    using assms(4,5) by (simp_all add: obj_existed_def f_open_existing_def card_next_def)
  from send_loop_ok [OF assms(1-3), of ?f] assms(6) obtain f' t ns' where t: "send_loop ?f FTP_ERR_NONE s = (FTP_ERR_NONE, f', t)"
    "live cs (map SendRet ns') (RecvRet fin # rs) sv c (d @ cardData c p) t" by auto
  let ?t = "ftp_close_data_sock (t\<lparr>ftpCard := (ftpCard t)\<lparr>cardOutcomes := outcomes f'\<rparr>\<rparr>)"
  have "live cs (map SendRet ns') (RecvRet fin # rs) sv (ftpCard ?t) (d @ cardData c p) ?t"
    using t(2) by (simp add: live_def ftp_close_data_sock_def)
  from recv_ctrl_ok [OF this assms(7)] obtain r u where u: "ftp_recv_ctrl_msg ?t = (r, u)" "0 < r" "dataSent u = d @ cardData c p" "reply u = fin"
    by (auto simp: live_def)
  have "put_file p s = (FTP_ERR_NONE, u)" using assms(8) u(2) by (simp add: put_file_def Let_def s c t(1) u(1,3,4))
  then show ?thesis using u(3) by blast
qed

lemma put_succeeds:
  assumes "conns s = ConnOk # ConnOk # cs" "sends s = map SendRet ns" "\<forall>n \<in> set ns. 256 \<le> n" "recvs s = map RecvRet rs" "accepting (prefix sv) rs"
    and "i < length (server_list s)" "sv = server_list s ! i" "length (username sv) < 500" "length (passwd sv) < 500" "length (prefix sv) < 250"
    and "length rpath < 250" "length name < 500" "cardExists (ftpCard s) (lpath @ name)" "cardOutcomes (ftpCard s) = []"
    and "length (cardData (ftpCard s) (lpath @ name)) + 6 * 256 \<le> 256 * length ns"
  shows "\<exists>s'. ftp_remote_put i name lpath rpath s = Some (FTP_ERR_NONE, s') \<and> dataSent s' = dataSent s @ cardData (ftpCard s) (lpath @ name)"
proof -
  let ?live = "\<lambda>ns rs. live cs ns rs sv (ftpCard s) (dataSent s)"
  obtain hello usr pas pasv cwd1 cwd2 stor fin where rs: "rs = [hello, usr, pas, pasv, cwd1, cwd2, stor, fin]"
    using assms(5) by (cases "(prefix sv, rs)" rule: accepting.cases) auto
  have "6 \<le> length ns" using assms(15) by simp
  then obtain n1 n2 n3 n4 n5 n6 ns' where ns: "ns = n1 # n2 # n3 # n4 # n5 # n6 # ns'"
    by (auto simp: Suc_le_length_iff numeral_eq_Suc)
  have n: "0 < n1" "0 < n2" "0 < n3" "0 < n4" "0 < n5" "0 < n6" "\<forall>n \<in> set ns'. 256 \<le> n" using assms(3) by (auto simp: ns)
  note a = assms(5) [unfolded rs, simplified]
  obtain s1 where s1: "ftp_setup_channel i s = Some (FTP_ERR_NONE, s1)" "status_data s1"
    "?live (SendRet n4 # SendRet n5 # SendRet n6 # map SendRet ns') (map RecvRet [cwd1, cwd2, stor, fin]) s1"
    using setup_ok [OF assms(1), of n1 n2 n3 "SendRet n4 # SendRet n5 # SendRet n6 # map SendRet ns'" hello usr pas pasv
        "map RecvRet [cwd1, cwd2, stor, fin]" i] a n assms(2,4,6-9) by (auto simp: ns rs)
  obtain s2 where s2: "ftp_remote_mkd_recursive rpath s1 = Some (FTP_ERR_NONE, s2)" "status_data s2"
    "?live (SendRet n6 # map SendRet ns') (RecvRet stor # [RecvRet fin]) s2"
    using enter_ok [OF s1(3) [simplified], of rpath] s1(2) a n assms(10,11) by auto
  let ?m = "chars ''STOR '' @ drop 1 name @ CRLF"
  have m: "sprintf_to 512 ?m = Some ?m" "?m \<noteq> []" using assms(12) by (simp_all add: sprintf_to_def chars_def CRLF_def)
  from exchange_ok [OF s2(3) n(6) m(2)] a obtain s3 where s3: "ftp_remote_send_recv_ctrl ?m s2 = (FTP_ERR_NONE, s3)" "status_data s3"
    "?live (map SendRet ns') [RecvRet fin] s3" "reply s3 = stor" using s2(2) by auto
  have "length (cardData (ftpCard s) (lpath @ name)) \<le> 256 * length ns'" using assms(15) by (simp add: ns)
  from put_file_succeeds [OF s3(3,2) n(7) assms(13,14) this] a obtain s4 where
    "put_file (lpath @ name) s3 = (FTP_ERR_NONE, s4)" "dataSent s4 = dataSent s @ cardData (ftpCard s) (lpath @ name)" by auto
  then show ?thesis using s1(1) s2(1) s3(1,4) m a by (auto simp: ftp_remote_put_def ftp_get_code_def)
qed

text \<open>C32: with a link, a server that lets the client in, enters the directory and takes the file, and sends that take what they
  get, the transfer succeeds and sends the whole file, whatever the length of the file.\<close>

theorem Ftp_put_succeeds:
  assumes "conns s = ConnOk # ConnOk # cs" "sends s = map SendRet ns" "\<forall>n \<in> set ns. 256 \<le> n" "recvs s = map RecvRet rs" "accepting (prefix sv) rs"
    and "i < length (server_list s)" "sv = server_list s ! i" "length (username sv) < 500" "length (passwd sv) < 500" "length (prefix sv) < 250"
    and "length rpath < 250" "length name < 500" "cardExists (ftpCard s) (lpath @ name)" "cardOutcomes (ftpCard s) = []"
    and "length (cardData (ftpCard s) (lpath @ name)) + 6 * 256 \<le> 256 * length ns"
  shows "\<exists>s'. ftp_remote_put i name lpath rpath s = Some (FTP_ERR_NONE, s') \<and> dataSent s' = dataSent s @ cardData (ftpCard s) (lpath @ name)"
  by (rule put_succeeds [OF assms])

section \<open>A session\<close>

definition ftp_replies :: "u8 list list" where
  "ftp_replies = [chars ''220 hello'', chars ''331 password'', chars ''230 logged in'', chars ''227 Passive (10,0,0,1,4,1)'',
     chars ''250 successful'', chars ''250 successful'', chars ''150 go'', chars ''226 complete'']"

definition ftp_session :: FtpClient where
  "ftp_session = \<lparr>ctrlOpen = False, dataOpen = False, status_ctrl = False, status_data = False, rx_buff_ctrl = replicate 512 0,
     curr_sv_idx = 0, server_list = [\<lparr>svEnable = True, username = chars ''u'', passwd = chars ''p'', prefix = []\<rparr>],
     conns = [ConnOk, ConnOk], sends = map SendRet (replicate 7 256), recvs = map RecvRet ftp_replies,
     ctrlSent = [], dataSent = [], ftpMem = OSA_FixedMemInit mem_bss,
     ftpCard = \<lparr>cardExists = (\<lambda>p. p = chars ''2018/a.txt''), cardData = (\<lambda>_. chars ''row''), cardOutcomes = []\<rparr>\<rparr>"

lemma ftp_passive: "pasv_port (chars ''227 Passive (10,0,0,1,4,1)'') = 1025"
proof -
  have d: "dec_digits 10 = [0x31, 0x30]" "dec_digits 0 = [0x30]" "dec_digits 1 = [0x31]" "dec_digits 4 = [0x34]"
    by (simp_all add: dec_digits.simps del: One_nat_def)
  have "ftp_get_pasv_port (ftp_session\<lparr>rx_buff_ctrl := chars ''227 Passive (10,0,0,1,4,1)''\<rparr>) = int (256 * 4 + 1)"
    by (rule pasv_port_number [where pre = "chars ''227 Passive ''" and a = 10 and b = 0 and c = 0 and d = 1 and rest = "[]"])
      (simp_all add: chars_def reply_def d del: One_nat_def)
  then show ?thesis by (simp add: ftp_get_pasv_port_def reply_def chars_def)
qed

lemma ftp_accepting: "accepting [] ftp_replies"
  by (simp add: ftp_replies_def ftp_passive) (simp add: is_text_def chars_def reply_code_def dec_value_def is_digit_def is_space_def)

lemma Pasv_port_roundtrip_witness:
  "ftp_get_pasv_port (ftp_session\<lparr>rx_buff_ctrl := chars ''227 ('' @ dec_digits 2 @ chars '','' @ dec_digits 2 @ chars '','' @ dec_digits 2
     @ chars '','' @ dec_digits 2 @ chars '','' @ dec_digits 4 @ chars '','' @ dec_digits 7 @ chars '')''\<rparr>) = 1031"
proof -
  have d: "dec_digits 2 = [0x32]" "dec_digits 4 = [0x34]" "dec_digits 7 = [0x37]" by (simp_all add: dec_digits.simps)
  show ?thesis
    using Pasv_port_roundtrip [where pre = "chars ''227 ''" and a = 2 and b = 2 and c = 2 and d = 2 and hi = 4 and lo = 7 and rest = "[]"
        and s = "ftp_session\<lparr>rx_buff_ctrl := chars ''227 (2,2,2,2,4,7)''\<rparr>"] by (simp add: chars_def reply_def d)
qed

lemma ftp_session_path: "chars ''2018'' @ chars ''/a.txt'' = chars ''2018/a.txt''"
  by (simp add: chars_def)

lemma ftp_session_hyps:
  "cardExists (ftpCard ftp_session) (chars ''2018'' @ chars ''/a.txt'')" "length (cardData (ftpCard ftp_session) p) + 6 * 256 \<le> 256 * length (replicate 7 (256 :: int))"
  "cardData (ftpCard ftp_session) p = chars ''row''" "dataSent ftp_session = []" "conns ftp_session = [ConnOk, ConnOk]"
  "sends ftp_session = map SendRet (replicate 7 256)" "recvs ftp_session = map RecvRet ftp_replies" "server_list ftp_session \<noteq> []"
  "prefix (server_list ftp_session ! 0) = []" "length (username (server_list ftp_session ! 0)) < 500"
  "length (passwd (server_list ftp_session ! 0)) < 500" "cardOutcomes (ftpCard ftp_session) = []"
proof -
  have "length (chars ''row'') = 3" "length (chars ''u'') = 1" "length (chars ''p'') = 1" by (simp_all add: chars_def)
  then show "cardExists (ftpCard ftp_session) (chars ''2018'' @ chars ''/a.txt'')" "length (cardData (ftpCard ftp_session) p) + 6 * 256 \<le> 256 * length (replicate 7 (256 :: int))"
    "length (username (server_list ftp_session ! 0)) < 500" "length (passwd (server_list ftp_session ! 0)) < 500"
    by (simp_all add: ftp_session_def ftp_session_path)
qed (simp_all add: ftp_session_def)

lemma Ftp_put_succeeds_witness:
  "\<exists>s'. ftp_remote_put 0 (chars ''/a.txt'') (chars ''2018'') (chars ''2018'') ftp_session = Some (FTP_ERR_NONE, s') \<and> dataSent s' = chars ''row''"
  using Ftp_put_succeeds [OF ftp_session_hyps(5,6) _ ftp_session_hyps(7) _ _ refl ftp_session_hyps(10,11) _ _ _ ftp_session_hyps(1,12,2), of "chars ''2018''"]
    ftp_accepting ftp_session_hyps(3,4,8,9) by (simp add: chars_def)

lemma Ftp_put_delivers_witness:
  "\<exists>s'. ftp_remote_put 0 (chars ''/a.txt'') (chars ''2018'') (chars ''2018'') ftp_session = Some (FTP_ERR_NONE, s') \<and> dataSent s' = chars ''row''
     \<and> contains (chars ''complete'') (reply s')"
proof -
  obtain s' where s': "ftp_remote_put 0 (chars ''/a.txt'') (chars ''2018'') (chars ''2018'') ftp_session = Some (FTP_ERR_NONE, s')"
    using put_succeeds [OF ftp_session_hyps(5,6) _ ftp_session_hyps(7) _ _ refl ftp_session_hyps(10,11) _ _ _ ftp_session_hyps(1,12,2), of "chars ''2018''"]
      ftp_accepting ftp_session_hyps(8,9) by (auto simp: chars_def)
  have "sends_all ftp_session" "FsErr \<notin> set (cardOutcomes (ftpCard ftp_session))" by (simp_all add: sends_all_def ftp_session_def)
  from Ftp_put_delivers [OF s' this] s' show ?thesis by (auto simp: ftp_session_hyps(3,4))
qed

end
