(* ===== verification/FtpSender.thy ===== *)
theory FtpSender
  imports FtpPut RingFile
begin

text \<open>
  The thread of the FTP client (\<^verbatim>\<open>ftp_client_sender\<close> in \<^verbatim>\<open>network/ftp_client.c\<close>): one step for a message in its queue, one for
  a second without a message, over the dialogue and the retry table on the card.
\<close>

section \<open>State and steps\<close>

text \<open>\<open>senderRet\<close> is \<open>retVal\<close>, which lives as long as the thread and starts without a value; \<open>retry\<close> is \<open>g_retryTable\<close>.\<close>

record FtpTask = FtpClient +
  senderRet :: int
  retry :: ring_file_handle
  crc16st :: crc16_state

text \<open>The record of 259 bytes up to its checksum: directory, name, and flag 1.\<close>

definition retry_body :: "u8 list \<Rightarrow> u8 list \<Rightarrow> u8 list" where
  "retry_body lpath name = lpath @ replicate (128 - length lpath) 0 @ name @ replicate (128 - length name) 0 @ [1]"

text \<open>After a failed transfer.\<close>

definition sender_failed :: "u8 list \<Rightarrow> u8 list \<Rightarrow> 'a FtpTask_scheme \<Rightarrow> 'a FtpTask_scheme option" where
  "sender_failed lpath name s =
     (let (r, ms) = OSA_FixedMemMalloc 259 (ftpMem s); s = s\<lparr>ftpMem := ms\<rparr> in
      case r of
        None \<Rightarrow> Some s
      | Some q \<Rightarrow>
          (let (c, st) = crc_16 (crc16st s) (Some (retry_body lpath name @ [0, 0])) 257; s = s\<lparr>crc16st := st\<rparr> in
           case c of
             None \<Rightarrow> None
           | Some crc \<Rightarrow>
               (let (pushed, h) = ring_file_push_back (retry_body lpath name @ enc16 crc) (retry s)
                in Some (s\<lparr>retry := h, ftpMem := OSA_FixedMemFree q (ftpMem s)\<rparr>))))"

definition sender_put :: "u8 list \<Rightarrow> u8 list \<Rightarrow> 'a FtpTask_scheme \<Rightarrow> 'a FtpTask_scheme option" where
  "sender_put lpath name s =
     (if server_list s = [] then None
      else if svEnable (server_list s ! 0) then do {
        (ret, s) \<leftarrow> ftp_remote_put 0 name lpath lpath s;
        let s = s\<lparr>senderRet := ret\<rparr>;
        s \<leftarrow> (if ret \<noteq> FTP_ERR_NONE then sender_failed lpath name s else Some s);
        Some (ftp_destroy_channel s)
      }
      else Some s)"

text \<open>A message: the block \<open>b\<close> and what it holds.\<close>

definition sender_msg :: "blk \<Rightarrow> FtpMsg \<Rightarrow> 'a FtpTask_scheme \<Rightarrow> 'a FtpTask_scheme option" where
  "sender_msg b m s = do {
     let (r, ms) = OSA_FixedMemMalloc 256 (ftpMem s);
     let s = s\<lparr>ftpMem := ms\<rparr>;
     s \<leftarrow> (case r of
             None \<Rightarrow> Some s
           | Some q \<Rightarrow> do {
               lpath \<leftarrow> str_in (local_path m) 0;
               name \<leftarrow> str_in (file_name m) 0;
               temp \<leftarrow> sprintf_to 256 (lpath @ name);
               let (stat, c) = obj_existed temp (ftpCard s);
               let s = s\<lparr>ftpCard := c, ftpMem := OSA_FixedMemFree q (ftpMem s)\<rparr>;
               (if stat then sender_put lpath name s else Some s)
             });
     Some (s\<lparr>ftpMem := OSA_FixedMemFree b (ftpMem s)\<rparr>)
   }"

text \<open>A second without a message.\<close>

definition sender_timeout :: "'a FtpTask_scheme \<Rightarrow> 'a FtpTask_scheme option" where
  "sender_timeout s =
     (if ring_file_get_count (retry s) = 0 then Some s
      else
        (let (r, ms) = OSA_FixedMemMalloc 259 (ftpMem s); s = s\<lparr>ftpMem := ms\<rparr> in
         case r of
           None \<Rightarrow> Some s
         | Some q \<Rightarrow>
             (let ((ok, rec), h) = ring_file_get_front (replicate 259 0) (retry s); s = s\<lparr>retry := h\<rparr> in
              if \<not> ok then Some (s\<lparr>ftpMem := OSA_FixedMemFree q (ftpMem s)\<rparr>)
              else
                (let (c, st) = crc_16 (crc16st s) (Some rec) 257; s = s\<lparr>crc16st := st\<rparr> in
                 case c of
                   None \<Rightarrow> None
                 | Some crc \<Rightarrow>
                     (if crc \<noteq> dec16 rec 257 then Some (s\<lparr>ftpMem := OSA_FixedMemFree q (ftpMem s)\<rparr>)
                      else
                        (let s = (if senderRet s = FTP_ERR_NONE
                                  then (let ((popped, rec, ms), h) = ring_file_pop_front rec (retry s) (ftpMem s)
                                        in s\<lparr>retry := h, ftpMem := ms\<rparr>)
                                  else s)
                         in Some (s\<lparr>ftpMem := OSA_FixedMemFree q (ftpMem s)\<rparr>)))))))"

section \<open>Blocks for records\<close>

definition spare :: "mem_state \<Rightarrow> nat \<Rightarrow> bool" where
  "spare ms n \<longleftrightarrow> mem_ok ms \<and> n \<le> card (Pair P272 ` {..<15} - used_blocks ms)"

lemma spare_alloc:
  assumes "spare ms (Suc n)"
  shows "\<exists>b ms1. OSA_FixedMemMalloc 259 ms = (Some b, ms1) \<and> spare ms1 n"
proof -
  let ?all = "Pair P272 ` {..<15 :: nat}"
  obtain r ms1 where m: "OSA_FixedMemMalloc 259 ms = (r, ms1)" by fastforce
  have ok: "mem_ok ms" and c: "Suc n \<le> card (?all - used_blocks ms)" using assms by (simp_all add: spare_def)
  note a = Malloc_ok [OF ok m]
  have sel: "select_part 259 = Some P272" by (simp add: select_part_def)
  show ?thesis
  proof (cases r)
    case None
    then have "free_list P272 ms = []" using a sel by simp
    then have "?all \<subseteq> used_blocks ms" by (auto simp: used_blocks_def)
    then show ?thesis using c by (simp add: Diff_eq_empty_iff [THEN iffD2])
  next
    case (Some b)
    note u = fm.alloc_some [OF ok m [unfolded Some]]
    have "?all - used_blocks ms1 = (?all - used_blocks ms) - {b}" using u by auto
    moreover have "card (?all - used_blocks ms) - 1 \<le> card ((?all - used_blocks ms) - {b})" by (simp add: card_Diff_singleton_if)
    ultimately have "spare ms1 n" using u c by (simp add: spare_def)
    then show ?thesis using m Some by blast
  qed
qed

lemma spare_used: "spare ms n \<Longrightarrow> mem_ok ms' \<Longrightarrow> used_blocks ms' = used_blocks ms \<Longrightarrow> spare ms' n"
  by (simp add: spare_def)

lemma spare_mono: "spare ms n \<Longrightarrow> m \<le> n \<Longrightarrow> spare ms m"
  by (simp add: spare_def)

section \<open>One step\<close>

text \<open>A record whose checksum fits.\<close>

definition record_ok :: "u8 list \<Rightarrow> bool" where
  "record_ok r \<longleftrightarrow> length r = 259 \<and> dec16 r 257 = crc16_of (take 257 r)"

lemma retry_body_length: "length lpath < 128 \<Longrightarrow> length name < 128 \<Longrightarrow> length (retry_body lpath name) = 257"
  by (simp add: retry_body_def)

lemma sender_failed_ok:
  assumes "length lpath < 128" "length name < 128" "crc16_ok (crc16st s)" "spare (ftpMem s) 1" "ring_rel (retry s) rs"
    and "length rs < unat (u16_max_record_count (header (retry s)))" "unat (u16_buffer_push_index (header (retry s))) < 65535"
  shows "\<exists>s' rec. sender_failed lpath name s = Some s' \<and> ring_rel (retry s') (rs @ [rec]) \<and> record_ok rec \<and> take 257 rec = retry_body lpath name"
proof -
  let ?b = "retry_body lpath name" and ?rec = "retry_body lpath name @ enc16 (crc16_of (retry_body lpath name))"
  note l = retry_body_length [OF assms(1,2)]
  obtain q ms where m: "OSA_FixedMemMalloc 259 (ftpMem s) = (Some q, ms)" using spare_alloc [of "ftpMem s" 0] assms(4) by auto
  have c: "crc_16 (crc16st s) (Some (?b @ [0, 0])) 257 = (Some (crc16_of ?b), ensure_crc16_tab (crc16st s))"
    using crc_16_of [OF assms(3), of 257 "?b @ [0, 0]"] l by simp
  have p: "ring_file_push_back ?rec (retry s) = (True, pushed ?rec (retry s))" "ring_rel (pushed ?rec (retry s)) (rs @ [?rec])"
    using ring_push [OF assms(5) _ assms(6,7), of ?rec] l by (simp_all add: enc16_def)
  have "dec16 ?rec 257 = crc16_of ?b" using l by (simp add: dec16_def nth_append enc16_def dec16_enc16)
  then have "record_ok ?rec" "take 257 ?rec = ?b" using l by (simp_all add: record_ok_def enc16_def)
  then show ?thesis using p by (auto simp: sender_failed_def m c)
qed

text \<open>A second without a message neither sends nor receives; what it does to the table.\<close>

lemma timeout_step:
  assumes "ring_rel (retry s) rs" "\<forall>r \<in> set rs. record_ok r" "crc16_ok (crc16st s)" "spare (ftpMem s) 2"
  shows "\<exists>s'. sender_timeout s = Some s' \<and> dataSent s' = dataSent s \<and> ctrlSent s' = ctrlSent s \<and> senderRet s' = senderRet s
    \<and> crc16_ok (crc16st s') \<and> spare (ftpMem s') 2 \<and> ring_rel (retry s') (if senderRet s = FTP_ERR_NONE then drop 1 rs else rs)"
proof (cases rs)
  case Nil
  then have "ring_file_get_count (retry s) = 0" using assms(1) by (simp add: ring_rel_def Let_def ring_file_get_count_def unat_eq_0)
  then show ?thesis using assms Nil by (simp add: sender_timeout_def)
next
  case (Cons r rs')
  have nz: "ring_file_get_count (retry s) \<noteq> 0" using assms(1) Cons by (auto simp: ring_rel_def Let_def ring_file_get_count_def)
  obtain q ms where m: "OSA_FixedMemMalloc 259 (ftpMem s) = (Some q, ms)" "spare ms 1"
    using spare_alloc [of "ftpMem s" 1] assms(4) by (auto simp: numeral_2_eq_2)
  have ok: "mem_ok (ftpMem s)" using assms(4) by (simp add: spare_def)
  have fr: "spare (OSA_FixedMemFree q ms') 2" if "mem_ok ms'" "used_blocks ms' = used_blocks ms" for ms'
    by (rule spare_used [OF assms(4)]) (use fm.alloc_some [OF ok m(1)] fm.dealloc_used [of ms' q] that in auto)
  obtain h where h: "ring_file_get_front (replicate 259 0) (retry s) = ((True, r), h)" "ring_rel h (r # rs')"
    using ring_front [OF assms(1) [unfolded Cons], of "replicate 259 0"] by auto
  have r: "length r = 259" "dec16 r 257 = crc16_of (take 257 r)" using assms(2) Cons by (simp_all add: record_ok_def)
  have c: "crc_16 (crc16st s) (Some r) 257 = (Some (dec16 r 257), ensure_crc16_tab (crc16st s))"
    using crc_16_of [OF assms(3), of 257 r] r by simp
  obtain b ms1 where b: "OSA_FixedMemMalloc 259 ms = (Some b, ms1)" using spare_alloc [of ms 0] m(2) by auto
  obtain h' where h': "ring_file_pop_front r h ms = ((True, r, OSA_FixedMemFree b ms1), h')" "ring_rel h' rs'"
    using ring_pop [OF h(2) r(1) b] by auto
  have mo: "mem_ok ms" using m(2) by (simp add: spare_def)
  have c': "crc16_ok (ensure_crc16_tab (crc16st s))" using assms(3) by (rule ensure_crc16_tab_ok)
  show ?thesis
  proof (cases "senderRet s = FTP_ERR_NONE")
    case True
    then show ?thesis using nz m(1) h h' c c' fr [OF fm.alloc_dealloc [OF mo b, THEN conjunct1] fm.alloc_dealloc [OF mo b, THEN conjunct2]] Cons
      by (simp add: sender_timeout_def)
  next
    case False
    then show ?thesis using nz m(1) h c c' fr [OF mo refl] Cons by (simp add: sender_timeout_def)
  qed
qed

section \<open>Properties\<close>

lemma task_more: "FtpClient.more s1 = FtpClient.more s \<Longrightarrow> retry s1 = retry s \<and> crc16st s1 = crc16st s \<and> senderRet s1 = senderRet s"
  by (cases s; cases s1) simp

text \<open>C34: a file the server did not take is noted: the retry table gets one more record at its end, with the directory, the name
  and a checksum that fits, and both connections are closed.  The record needs a block, room in the table, and a card that
  does not fail.\<close>

theorem Sender_records_failure:
  assumes "ftp_remote_put 0 name lpath lpath s = Some (e, s1)" "e \<noteq> FTP_ERR_NONE" "server_list s \<noteq> []" "svEnable (server_list s ! 0)"
    and "length lpath < 128" "length name < 128" "crc16_ok (crc16st s)" "spare (ftpMem s) 1" "ring_rel (retry s) rs"
    and "length rs < unat (u16_max_record_count (header (retry s)))" "unat (u16_buffer_push_index (header (retry s))) < 65535"
  shows "\<exists>s' rec. sender_put lpath name s = Some s' \<and> ring_rel (retry s') (rs @ [rec]) \<and> record_ok rec
     \<and> take 257 rec = retry_body lpath name \<and> \<not> ctrlOpen s' \<and> \<not> dataOpen s'"
proof -
  note f = put_frame [OF assms(1)]
  then have m: "retry s1 = retry s" "crc16st s1 = crc16st s" using task_more by blast+
  have "spare (ftpMem (s1\<lparr>senderRet := e\<rparr>)) 1" using f spare_used [OF assms(8)] assms(8) by (simp add: spare_def)
  then obtain s2 rec where "sender_failed lpath name (s1\<lparr>senderRet := e\<rparr>) = Some s2" "ring_rel (retry s2) (rs @ [rec])" "record_ok rec"
    "take 257 rec = retry_body lpath name"
    using sender_failed_ok [OF assms(5,6), of "s1\<lparr>senderRet := e\<rparr>" rs] m assms(7,9-11) by auto
  then show ?thesis
    using assms(1-4) by (auto simp: sender_put_def ftp_destroy_channel_def ftp_close_ctrl_sock_def ftp_close_data_sock_def)
qed

fun timeouts :: "nat \<Rightarrow> 'a FtpTask_scheme \<Rightarrow> 'a FtpTask_scheme option" where
  "timeouts 0 s = Some s"
| "timeouts (Suc n) s = Option.bind (sender_timeout s) (timeouts n)"

text \<open>C33: the files in the retry table are never sent again: seconds without a message send nothing at all.  When the last
  transfer succeeded each of them takes the oldest record out of the table, so that after as many seconds as there are
  records every note of an unsent file is gone; when it failed the table stays as it is.\<close>

theorem Retry_drains_unsent:
  assumes "ring_rel (retry s) rs" "\<forall>r \<in> set rs. record_ok r" "crc16_ok (crc16st s)" "spare (ftpMem s) 2"
  shows "\<exists>s'. timeouts n s = Some s' \<and> dataSent s' = dataSent s \<and> ctrlSent s' = ctrlSent s
    \<and> ring_rel (retry s') (if senderRet s = FTP_ERR_NONE then drop n rs else rs)"
  using assms
proof (induction n arbitrary: s rs)
  case (Suc n)
  from timeout_step [OF Suc.prems] obtain t where t: "sender_timeout s = Some t" "dataSent t = dataSent s" "ctrlSent t = ctrlSent s"
    "senderRet t = senderRet s" "crc16_ok (crc16st t)" "spare (ftpMem t) 2" "ring_rel (retry t) (if senderRet s = FTP_ERR_NONE then drop 1 rs else rs)" by blast
  have "\<forall>r \<in> set (if senderRet s = FTP_ERR_NONE then drop 1 rs else rs). record_ok r" using Suc.prems(2) by (auto dest: in_set_dropD)
  from Suc.IH [OF t(7) this t(5,6)] t show ?case by (auto split: if_splits)
qed simp

lemma ring_pop_mem:
  assumes "ring_file_pop_front d h ms = ((r, d', ms'), h')" "mem_ok ms"
  shows "mem_ok ms' \<and> used_blocks ms' = used_blocks ms"
proof -
  obtain x ms1 where m: "OSA_FixedMemMalloc (of_nat ring_file_record_size) ms = (x, ms1)" by fastforce
  show ?thesis
  proof (cases x)
    case None
    then have "ms1 = ms" using fm.alloc_none [OF assms(2)] m by simp
    then show ?thesis using assms m None
      by (auto simp: ring_file_pop_front_def with_seek_def close_with_def read_back_def Let_def split: prod.splits if_splits)
  next
    case (Some b)
    note a = fm.alloc_dealloc [OF assms(2) m [unfolded Some]]
    show ?thesis using assms m Some a
      by (auto simp: ring_file_pop_front_def with_seek_def close_with_def read_back_def Let_def split: prod.splits if_splits)
  qed
qed

lemma failed_mem:
  assumes "sender_failed lpath name s = Some s'" "mem_ok (ftpMem s)"
  shows "mem_ok (ftpMem s') \<and> used_blocks (ftpMem s') = used_blocks (ftpMem s)"
proof -
  obtain x ms where m: "OSA_FixedMemMalloc 259 (ftpMem s) = (x, ms)" by fastforce
  show ?thesis
  proof (cases x)
    case None
    then have "ms = ftpMem s" using fm.alloc_none [OF assms(2)] m by simp
    then show ?thesis using assms m None by (auto simp: sender_failed_def)
  next
    case (Some b)
    obtain c st where c: "crc_16 (crc16st s) (Some (retry_body lpath name @ [0, 0])) 257 = (c, st)" by fastforce
    have "c \<noteq> None" using assms(1) by (cases c) (simp_all add: sender_failed_def m Some c)
    then have "map_option ftpMem (sender_failed lpath name s) = Some (OSA_FixedMemFree b ms)"
      by (cases c) (simp_all add: sender_failed_def m Some c split_beta Let_def)
    then show ?thesis using assms(1) fm.alloc_dealloc [OF assms(2) m [unfolded Some]] by simp
  qed
qed

lemma sender_put_mem:
  assumes "sender_put lpath name s = Some s'" "mem_ok (ftpMem s)"
  shows "mem_ok (ftpMem s') \<and> used_blocks (ftpMem s') = used_blocks (ftpMem s)"
proof (cases "svEnable (server_list s ! 0)")
  case True
  have ne: "server_list s \<noteq> []" using assms(1) by (auto simp: sender_put_def)
  obtain e s1 where s1: "ftp_remote_put 0 name lpath lpath s = Some (e, s1)"
    using assms(1) by (auto simp: sender_put_def ne True bind_eq_Some_conv)
  have "Option.bind (if e \<noteq> FTP_ERR_NONE then sender_failed lpath name (s1\<lparr>senderRet := e\<rparr>) else Some (s1\<lparr>senderRet := e\<rparr>))
      (\<lambda>s. Some (ftp_destroy_channel s)) = Some s'" using assms(1) by (simp add: sender_put_def ne True s1 Let_def)
  then obtain s2 where s2: "(if e \<noteq> FTP_ERR_NONE then sender_failed lpath name (s1\<lparr>senderRet := e\<rparr>) else Some (s1\<lparr>senderRet := e\<rparr>)) = Some s2"
    "ftp_destroy_channel s2 = s'" unfolding bind_eq_Some_conv option.inject by blast
  have "ftpMem s' = ftpMem s2" unfolding s2(2) [symmetric] by (simp add: ftp_destroy_channel_def ftp_close_ctrl_sock_def ftp_close_data_sock_def)
  moreover have "mem_ok (ftpMem s2) \<and> used_blocks (ftpMem s2) = used_blocks (ftpMem s1)"
  proof (cases "e = FTP_ERR_NONE")
    case True
    then have "s1\<lparr>senderRet := e\<rparr> = s2" using s2(1) by simp
    from arg_cong [OF this, of ftpMem] show ?thesis using put_frame [OF s1] assms(2) by simp
  next
    case False
    then have "sender_failed lpath name (s1\<lparr>senderRet := e\<rparr>) = Some s2" using s2(1) by simp
    from failed_mem [OF this] put_frame [OF s1] assms(2) show ?thesis by simp
  qed
  ultimately show ?thesis using put_frame [OF s1] assms(2) by simp
qed (use assms in \<open>auto simp: sender_put_def split: if_splits\<close>)

lemma sender_msg_mem:
  assumes "sender_msg b m s = Some s'" "mem_ok (ftpMem s)" "b \<in> used_blocks (ftpMem s)"
  shows "mem_ok (ftpMem s') \<and> used_blocks (ftpMem s') = used_blocks (ftpMem s) - {b}"
proof -
  obtain x ms where x: "OSA_FixedMemMalloc 256 (ftpMem s) = (x, ms)" by fastforce
  obtain t where t: "mem_ok (ftpMem t)" "used_blocks (ftpMem t) = used_blocks (ftpMem s)" "s' = t\<lparr>ftpMem := OSA_FixedMemFree b (ftpMem t)\<rparr>"
  proof (cases x)
    case None
    then have "ms = ftpMem s" using fm.alloc_none [OF assms(2)] x by simp
    then show ?thesis using that [of s] assms x None by (auto simp: sender_msg_def bind_eq_Some_conv)
  next
    case (Some q)
    note a = fm.alloc_dealloc [OF assms(2) x [unfolded Some]]
    obtain lpath name temp where n: "str_in (local_path m) 0 = Some lpath" "str_in (file_name m) 0 = Some name" "sprintf_to 256 (lpath @ name) = Some temp"
      using assms(1) x Some by (auto simp: sender_msg_def bind_eq_Some_conv)
    obtain stat c where e: "obj_existed temp (ftpCard s) = (stat, c)" by fastforce
    let ?u = "s\<lparr>ftpCard := c, ftpMem := OSA_FixedMemFree q ms\<rparr>"
    have "Option.bind (if stat then sender_put lpath name ?u else Some ?u) (\<lambda>t. Some (t\<lparr>ftpMem := OSA_FixedMemFree b (ftpMem t)\<rparr>)) = Some s'"
      using assms(1) by (simp add: sender_msg_def x Some n e Let_def)
    then obtain t where u: "(if stat then sender_put lpath name ?u else Some ?u) = Some t" "t\<lparr>ftpMem := OSA_FixedMemFree b (ftpMem t)\<rparr> = s'"
      unfolding bind_eq_Some_conv option.inject by blast
    have "mem_ok (ftpMem t) \<and> used_blocks (ftpMem t) = used_blocks (ftpMem s)"
    proof (cases stat)
      case True
      then have "sender_put lpath name ?u = Some t" using u(1) by simp
      from sender_put_mem [OF this] a show ?thesis by simp
    next
      case False
      then have "?u = t" using u(1) by simp
      from arg_cong [OF this, of ftpMem] show ?thesis using a by simp
    qed
    then show ?thesis using that u(2) by metis
  qed
  then show ?thesis using fm.dealloc_used [of "ftpMem t" b] assms(3) by simp
qed

lemma sender_timeout_mem:
  assumes "sender_timeout s = Some s'" "mem_ok (ftpMem s)"
  shows "mem_ok (ftpMem s') \<and> used_blocks (ftpMem s') = used_blocks (ftpMem s)"
proof -
  obtain x ms where x: "OSA_FixedMemMalloc 259 (ftpMem s) = (x, ms)" by fastforce
  show ?thesis
  proof (cases x)
    case None
    then have "ms = ftpMem s" using fm.alloc_none [OF assms(2)] x by simp
    then show ?thesis using assms x None by (auto simp: sender_timeout_def split: if_splits)
  next
    case (Some q)
    note a = fm.alloc_some [OF assms(2) x [unfolded Some]]
    have "\<exists>ms'. mem_ok ms' \<and> used_blocks ms' = used_blocks ms \<and> (ftpMem s' = OSA_FixedMemFree q ms' \<or> ftpMem s' = ftpMem s)"
      using assms(1) x Some a ring_pop_mem [of _ _ ms]
      by (auto simp: sender_timeout_def Let_def split: prod.splits option.splits if_splits) blast+
    then show ?thesis using a assms(2) fm.dealloc_used [of _ q] by fastforce
  qed
qed

text \<open>The thread gives every block back: a message its own block, whatever happens to the file, and a second without a
  message keeps the blocks in use.\<close>

theorem Sender_frees_blocks:
  assumes "mem_ok (ftpMem s)"
  shows "(sender_msg b m s = Some s' \<and> b \<in> used_blocks (ftpMem s)
      \<longrightarrow> mem_ok (ftpMem s') \<and> used_blocks (ftpMem s') = used_blocks (ftpMem s) - {b})
    \<and> (sender_timeout s = Some s'' \<longrightarrow> mem_ok (ftpMem s'') \<and> used_blocks (ftpMem s'') = used_blocks (ftpMem s))"
  using sender_msg_mem sender_timeout_mem assms by blast

section \<open>Witnesses\<close>

definition ftp_task :: FtpTask where
  "ftp_task = FtpClient.extend (ftp_session\<lparr>conns := []\<rparr>) (FtpTask.fields 0 (ring_file_init 5000 259 ring_bss) crc16_state0)"

lemma ftp_task:
  "crc16_ok (crc16st ftp_task)" "mem_ok (ftpMem ftp_task)" "used_blocks (ftpMem ftp_task) = {}" "ring_rel (retry ftp_task) []"
  "u16_max_record_count (header (retry ftp_task)) = 5000" "u16_buffer_push_index (header (retry ftp_task)) = 0"
  "server_list ftp_task \<noteq> []" "svEnable (server_list ftp_task ! 0)" "conns ftp_task = []" "senderRet ftp_task = FTP_ERR_NONE"
  using ring_init [of 5000]
  by (simp_all add: ftp_task_def ftp_session_def FtpClient.defs FtpTask.defs crc16_ok_state0 OSA_FixedMemInit_ok FTP_ERR_NONE_def)

lemma ftp_task_spare: "n \<le> 15 \<Longrightarrow> spare (ftpMem ftp_task) n"
  using ftp_task(2,3) by (simp add: spare_def card_image inj_on_def)

lemma ftp_no_socket:
  "\<exists>s1. ftp_remote_put 0 name lpath lpath ftp_task = Some (FTP_ERR_OPEN_CTRL_CONN, s1)"
  using ftp_task(7,9)
  by (simp add: ftp_remote_put_def ftp_setup_channel_def server_def ftp_start_ctrl_sock_def next_conn_def Let_def ftp_err_defs)

lemma Sender_records_failure_witness:
  "\<exists>s' rec. sender_put (chars ''2018'') (chars ''/a.txt'') ftp_task = Some s' \<and> ring_rel (retry s') [rec] \<and> record_ok rec"
proof -
  have l: "length (chars ''2018'') < 128" "length (chars ''/a.txt'') < 128" "FTP_ERR_OPEN_CTRL_CONN \<noteq> FTP_ERR_NONE"
    by (simp_all add: chars_def ftp_err_defs)
  obtain s1 where s1: "ftp_remote_put 0 (chars ''/a.txt'') (chars ''2018'') (chars ''2018'') ftp_task = Some (FTP_ERR_OPEN_CTRL_CONN, s1)"
    using ftp_no_socket by blast
  from Sender_records_failure [OF s1 l(3) ftp_task(7,8) l(1,2) ftp_task(1) ftp_task_spare ftp_task(4)] ftp_task(5,6) show ?thesis by auto
qed

lemma Retry_drains_unsent_witness:
  "\<exists>s s' rec. ring_rel (retry s) [rec] \<and> timeouts 1 s = Some s' \<and> ring_rel (retry s') [] \<and> dataSent s' = dataSent (s :: FtpTask)"
proof -
  have l: "length (chars ''2018'') < 128" "length (chars ''/a.txt'') < 128" by (simp_all add: chars_def)
  obtain s rec where s: "sender_failed (chars ''2018'') (chars ''/a.txt'') ftp_task = Some s" "ring_rel (retry s) [rec]" "record_ok rec"
    using sender_failed_ok [OF l ftp_task(1) ftp_task_spare ftp_task(4)] ftp_task(5,6) by auto
  let ?s = "ftp_task\<lparr>retry := retry s\<rparr>"
  have "ring_rel (retry ?s) [rec]" "crc16_ok (crc16st ?s)" "spare (ftpMem ?s) 2" "senderRet ?s = FTP_ERR_NONE" using s(2) ftp_task(1,10) ftp_task_spare by simp_all
  with Retry_drains_unsent [of ?s "[rec]" 1] s(3) obtain s' where "timeouts 1 ?s = Some s'" "dataSent s' = dataSent ?s" "ring_rel (retry s') []"
    by auto
  with \<open>ring_rel (retry ?s) [rec]\<close> show ?thesis by blast
qed

lemma Sender_frees_blocks_witness:
  "\<exists>s'. sender_timeout ftp_task = Some s' \<and> used_blocks (ftpMem s') = {}"
proof -
  obtain s' where "sender_timeout ftp_task = Some s'"
    using timeout_step [OF ftp_task(4) _ ftp_task(1) ftp_task_spare] by auto
  with Sender_frees_blocks [OF ftp_task(2)] ftp_task(3) show ?thesis by blast
qed

end
