(* ===== verification/TcpLink.thy ===== *)
theory TcpLink
  imports AppStream
begin

text \<open>
  The TCP server (\<^verbatim>\<open>network/tcp_server.c\<close>) under the application, with the waiting for a socket
  (\<^verbatim>\<open>network/socket_common.c\<close>): its two threads, one step for each message sent and for each wait for data.  The outcomes of
  \<open>select\<close>, \<open>send\<close> and \<open>recv\<close> are arguments.
\<close>

section \<open>Waiting for a socket (socket\_common.c)\<close>

text \<open>What \<open>select\<close> says: no link, an error (interrupted or not), the sets with an error, readable, writable, or time over.\<close>

datatype sel = NetDown | SelectErr bool | SelectSets bool bool bool | SelectTimeout

definition Event_Timeout :: nat where "Event_Timeout = 0"
definition Event_Readable :: nat where "Event_Readable = 1"
definition Event_Writeable :: nat where "Event_Writeable = 2"
definition Event_Error :: nat where "Event_Error = 4"

lemmas event_defs = Event_Timeout_def Event_Readable_def Event_Writeable_def Event_Error_def

text \<open>At most one of the events is reported.\<close>

fun wait_event :: "sel \<Rightarrow> bool \<Rightarrow> bool \<Rightarrow> nat" where
  "wait_event NetDown r w = Event_Error"
| "wait_event (SelectErr eintr) r w = (if \<not> eintr then Event_Error else Event_Timeout)"
| "wait_event (SelectSets e rs ws) r w =
     (if e then Event_Error else if r \<and> rs then Event_Readable else if w \<and> ws then Event_Writeable else 0)"
| "wait_event SelectTimeout r w = Event_Timeout"

section \<open>The server (tcp\_server.c)\<close>

text \<open>\<open>netRx\<close> is \<open>rx_buffer\<close>, \<open>netWire\<close> what \<open>send\<close> took of each message, \<open>netNotes\<close> the notifications (connected or not);
  \<open>netPhase\<close> is the loop the listener is in, \<open>netSockets\<close> and \<open>netListening\<close> count the sockets it holds of lwIP, and those that listen
  at its port.\<close>

datatype net_phase = LStart | LAccept | LServe

record SAppNet = SApp +
  netRx :: "u8 list"
  netWire :: "u8 list list"
  netNotes :: "bool list"
  netPhase :: net_phase
  netSockets :: nat
  netListening :: nat

definition tcp_server_send_blocking :: "sel \<Rightarrow> int \<Rightarrow> u8 list \<Rightarrow> 'a SAppNet_scheme \<Rightarrow> int \<times> 'a SAppNet_scheme" where
  "tcp_server_send_blocking sl n d w =
     (if \<not> netConnected w then (- 1, w)
      else if d = [] then (- 2, w)
      else if wait_event sl False True = Event_Writeable
      then (let n = min n (int (length d)) in (n, w\<lparr>netWire := netWire w @ [take (nat n) d]\<rparr>))
      else (- 3, w))"

definition Clb_NetTcpServerError :: "'a SAppNet_scheme \<Rightarrow> 'a SAppNet_scheme option" where
  "Clb_NetTcpServerError w = Some w"

text \<open>One round of the sender; without a message it waits on.\<close>

definition tcp_server_sender :: "sel \<Rightarrow> int \<Rightarrow> 'a SAppNet_scheme \<Rightarrow> 'a SAppNet_scheme option" where
  "tcp_server_sender sl n w =
     (case netQueue w of
        [] \<Rightarrow> Some w
      | (b, d) # q \<Rightarrow> do {
          let (ret, w) = tcp_server_send_blocking sl n d (w\<lparr>netQueue := q\<rparr>);
          w \<leftarrow> (if 0 < ret then Clb_NetTcpServerSentData w else Clb_NetTcpServerError w);
          Some (w\<lparr>mem := OSA_FixedMemFree b (mem w)\<rparr>)
        })"

text \<open>The three loops of the listener.  First the listening socket: where the set-up fails it is not closed.\<close>

datatype setup_out = SetupDown | NoSocket | NoBind | NoListen | SetupOk

fun tcp_server_setup :: "setup_out \<Rightarrow> 'a SAppNet_scheme \<Rightarrow> 'a SAppNet_scheme" where
  "tcp_server_setup SetupDown w = w"
| "tcp_server_setup NoSocket w = w"
| "tcp_server_setup NoBind w = w\<lparr>netSockets := netSockets w + 1\<rparr>"
| "tcp_server_setup NoListen w = w\<lparr>netSockets := netSockets w + 1\<rparr>"
| "tcp_server_setup SetupOk w = w\<lparr>netSockets := netSockets w + 1, netListening := netListening w + 1, netPhase := LAccept\<rparr>"

text \<open>Then a client; without a link the loop is left, and the listening socket stays open.\<close>

datatype accept_out = AcceptDown | AcceptFails | AcceptOk

fun tcp_server_accept :: "accept_out \<Rightarrow> 'a SAppNet_scheme \<Rightarrow> 'a SAppNet_scheme" where
  "tcp_server_accept AcceptDown w = w\<lparr>netPhase := LStart\<rparr>"
| "tcp_server_accept AcceptFails w = w"
| "tcp_server_accept AcceptOk w =
     w\<lparr>netSockets := netSockets w + 1, netConnected := True, netNotes := netNotes w @ [True], netPhase := LServe\<rparr>"

definition tcp_server_close :: "'a SAppNet_scheme \<Rightarrow> 'a SAppNet_scheme" where
  "tcp_server_close w = w\<lparr>netSockets := netSockets w - 1, netConnected := False, netNotes := netNotes w @ [False], netPhase := LAccept\<rparr>"

text \<open>Then the data of the client; \<open>rcv\<close> is what \<open>recv\<close> put into the buffer, the handler gets the whole buffer.\<close>

definition tcp_server_serve :: "fpu \<Rightarrow> sel \<Rightarrow> u8 list option \<Rightarrow> 'a SAppNet_scheme \<Rightarrow> 'a SAppNet_scheme option" where
  "tcp_server_serve fl sl rcv w =
     (let event = wait_event sl True False in
      if event = Event_Readable then
        (case rcv of
           None \<Rightarrow> Some (tcp_server_close w)
         | Some bs \<Rightarrow>
             (let bs = take 512 bs in
              if bs = [] then Some (tcp_server_close w)
              else (let w = w\<lparr>netRx := bs @ drop (length bs) (netRx w)\<rparr> in Clb_NetTcpServerRecvData fl (netRx w) w)))
      else if event = Event_Error then Some (tcp_server_close w)
      else Some w)"

text \<open>One round of the loop the listener is in.\<close>

fun tcp_server_listener ::
  "fpu \<Rightarrow> setup_out \<Rightarrow> accept_out \<Rightarrow> sel \<times> u8 list option \<Rightarrow> 'a SAppNet_scheme \<Rightarrow> 'a SAppNet_scheme option" where
  "tcp_server_listener fl su ac (sl, rcv) w =
     (case netPhase w of
        LStart \<Rightarrow> Some (tcp_server_setup su w)
      | LAccept \<Rightarrow> Some (tcp_server_accept ac w)
      | LServe \<Rightarrow> tcp_server_serve fl sl rcv w)"

section \<open>The blocks of the messages\<close>

text \<open>The loose blocks and those of the messages in the queue, each owned once.\<close>

definition netowned :: "blk list \<Rightarrow> 'a SApp_scheme \<Rightarrow> bool" where
  "netowned l w \<longleftrightarrow> owned (l @ map fst (netQueue w)) w"

lemma owned_perm: "owned l w \<Longrightarrow> mset l = mset l' \<Longrightarrow> owned l' w"
  unfolding owned_def tinv_def by (subst (asm) store_inv_perm [OF _ refl, where l' = "l' @ rx_held w @ tx_held w"]) auto

lemma net_malloc:
  assumes "netowned l w" "OSA_FixedMemMalloc n (mem w) = (r, ms)"
  shows "case r of None \<Rightarrow> ms = mem w | Some b \<Rightarrow> netowned (b # l) (w\<lparr>mem := ms\<rparr>)"
  using malloc_owned [OF assms(1) [unfolded netowned_def] assms(2)] by (auto simp: netowned_def split: option.splits)

lemma net_free: "netowned (b # l) w \<Longrightarrow> netowned l (w\<lparr>mem := OSA_FixedMemFree b (mem w)\<rparr>)"
  using keeps_owned [OF free_keeps [of b "l @ map fst (netQueue w)" w]] by (simp add: netowned_def)

lemma net_post: "netowned (b # l) w \<Longrightarrow> netowned l (w\<lparr>netQueue := netQueue w @ [(b, d)]\<rparr>)"
  by (auto simp: netowned_def elim!: owned_perm)

lemma net_post_ps: "netowned (b # l) w \<Longrightarrow> netowned l (w\<lparr>netPosts := ps, netQueue := netQueue w @ [(b, d)]\<rparr>)"
  by (auto simp: netowned_def elim!: owned_perm)

lemma net_pop: "netowned l w \<Longrightarrow> netQueue w = (b, d) # q \<Longrightarrow> netowned (b # l) (w\<lparr>netQueue := q\<rparr>)"
  by (auto simp: netowned_def elim!: owned_perm)

lemma netowned_upd [simp]:
  "netowned l (w\<lparr>netPosts := ps\<rparr>) = netowned l w" "netowned l (w\<lparr>eCtrlCode := e\<rparr>) = netowned l w"
  "netowned l (w\<lparr>pcCounter := k\<rparr>) = netowned l w" "netowned l (w\<lparr>netConnected := c\<rparr>) = netowned l w"
  "netowned l (w\<lparr>sCfg := cf\<rparr>) = netowned l w" "netowned l (w\<lparr>cfgStore := p\<rparr>) = netowned l w" "netowned l (w\<lparr>reboot := r\<rparr>) = netowned l w"
  "netowned l (w\<lparr>sDateTime := t\<rparr>) = netowned l w" "netowned l (w\<lparr>tmRest := y\<rparr>) = netowned l w"
  by (simp_all add: netowned_def owned_def tinv_def rx_held_def tx_held_def qs_of_def rx_ok_def tx_ok_def clbs_on_def frm_def)

lemma netowned_net [simp]:
  "netowned l (w\<lparr>netWire := x\<rparr>) = netowned l w" "netowned l (w\<lparr>netNotes := y\<rparr>) = netowned l w" "netowned l (w\<lparr>netRx := z\<rparr>) = netowned l w"
  "netowned l (w\<lparr>netPhase := p\<rparr>) = netowned l w" "netowned l (w\<lparr>netSockets := n\<rparr>) = netowned l w" "netowned l (w\<lparr>netListening := n\<rparr>) = netowned l w"
  by (simp_all add: netowned_def owned_def tinv_def rx_held_def tx_held_def qs_of_def rx_ok_def tx_ok_def clbs_on_def frm_def)

text \<open>Posting a message: its block goes to the queue, or nothing is taken, or (a failed post) the block is lost.\<close>

lemma net_weaken: "netowned (b # l) w \<Longrightarrow> netowned l w"
  unfolding netowned_def owned_def by (auto intro: tinv_weaken)

lemma tcp_send_netowned:
  assumes "netowned l w"
  shows "netowned l (snd (tcp_server_send_nonblocking d w))"
    "\<exists>qs. netQueue (snd (tcp_server_send_nonblocking d w)) = netQueue w @ qs"
    "SApp.more (snd (tcp_server_send_nonblocking d w)) = SApp.more w"
    "netConnected (snd (tcp_server_send_nonblocking d w)) = netConnected w"
proof -
  obtain r ms where m: "OSA_FixedMemMalloc (8 + of_nat (length d)) (mem w) = (r, ms)" by fastforce
  note a = net_malloc [OF assms m]
  have "netowned l (snd (tcp_server_send_nonblocking d w)) \<and> (\<exists>qs. netQueue (snd (tcp_server_send_nonblocking d w)) = netQueue w @ qs)
      \<and> SApp.more (snd (tcp_server_send_nonblocking d w)) = SApp.more w \<and> netConnected (snd (tcp_server_send_nonblocking d w)) = netConnected w"
  proof (cases "netConnected w")
    case False
    then show ?thesis using assms by (simp add: tcp_server_send_nonblocking_def)
  next
    case c: True
    show ?thesis
    proof (cases r)
      case None
      then show ?thesis using assms a m c by (simp add: tcp_server_send_nonblocking_def)
    next
      case (Some b)
      then have o: "netowned (b # l) (w\<lparr>mem := ms\<rparr>)" using a by simp
      from net_post [OF o, of d] net_post_ps [OF o, where d = d] net_weaken [OF o] show ?thesis
        using Some m c by (cases "netPosts w" rule: list.exhaust; cases "hd (netPosts w)") (auto simp: tcp_server_send_nonblocking_def)
    qed
  qed
  then show "netowned l (snd (tcp_server_send_nonblocking d w))" "\<exists>qs. netQueue (snd (tcp_server_send_nonblocking d w)) = netQueue w @ qs"
    "SApp.more (snd (tcp_server_send_nonblocking d w)) = SApp.more w" "netConnected (snd (tcp_server_send_nonblocking d w)) = netConnected w" by blast+
qed

text \<open>What a step of the application over the network keeps.\<close>

definition net_keeps :: "blk list \<Rightarrow> 'a SApp_scheme \<Rightarrow> 'a SApp_scheme \<Rightarrow> bool" where
  "net_keeps l w w' \<longleftrightarrow> netowned l w' \<and> (\<exists>qs. netQueue w' = netQueue w @ qs) \<and> netConnected w' = netConnected w
     \<and> SApp.more w' = SApp.more w"

lemma net_send_keeps: "netowned l w \<Longrightarrow> net_keeps l w (snd (tcp_server_send_nonblocking d w))"
  using tcp_send_netowned [of l w d] by (simp add: net_keeps_def)

lemma net_block_returns:
  fixes w :: "'a SApp_scheme"
  assumes "netowned l w"
    and f: "\<And>b w1. netowned (b # l) w1 \<Longrightarrow> STrans.more w1 = STrans.more w \<Longrightarrow> returns (net_keeps (b # l) w1) (f w1)"
  shows "returns (net_keeps l w) (let (r, ms) = OSA_FixedMemMalloc n (mem w); w = w\<lparr>mem := ms\<rparr> in
      case r of None \<Rightarrow> Some w | Some b \<Rightarrow> Option.bind (f w) (\<lambda>w. Some (w\<lparr>mem := OSA_FixedMemFree b (mem w)\<rparr>)))"
proof -
  obtain r ms where m: "OSA_FixedMemMalloc n (mem w) = (r, ms)" by fastforce
  note a = net_malloc [OF assms(1) m]
  show ?thesis
  proof (cases r)
    case None
    then show ?thesis using a m assms(1) by (simp add: net_keeps_def)
  next
    case (Some b)
    have o: "netowned (b # l) (w\<lparr>mem := ms\<rparr>)" using a Some by simp
    obtain w2 where w2: "f (w\<lparr>mem := ms\<rparr>) = Some w2" "net_keeps (b # l) (w\<lparr>mem := ms\<rparr>) w2"
      using f [OF o] by (auto simp: returns_def)
    have "netowned (b # l) w2" using w2(2) by (simp add: net_keeps_def)
    from net_free [OF this] show ?thesis using w2 m Some by (simp add: net_keeps_def)
  qed
qed

lemma net_answer_returns:
  fixes w :: "'a SApp_scheme"
  assumes "netowned l w" "msg_fits d n"
  shows "returns (net_keeps l w) (map_option snd (App_SendPCNetworkClient c d n w))"
  unfolding net_block
proof (rule net_block_returns [OF assms(1)])
  fix b and w1 :: "'a SApp_scheme"
  assume o: "netowned (b # l) w1"
  obtain s where s: "sdata_bytes c d n (poolJunk w1) = Some s" by (rule sdata_bytes_fits [OF assms(2)])
  show "returns (net_keeps (b # l) w1) (Option.bind (sdata_bytes c d n (poolJunk w1)) (\<lambda>s. Some (snd (tcp_server_send_nonblocking s w1))))"
    using net_send_keeps [OF o] by (simp add: s)
qed

text \<open>So the handlers of the application serve the network too.\<close>

interpretation net: handler netowned net_keeps False
proof
  fix l and w w1 w2 :: "'a SApp_scheme" and f :: "'a SApp_scheme \<Rightarrow> 'a SApp_scheme option" and n :: u32
  show "net_keeps l w w1 \<Longrightarrow> net_keeps l w1 w2 \<Longrightarrow> net_keeps l w w2" by (auto simp: net_keeps_def)
  show "netowned l w \<Longrightarrow> (\<And>b w1. netowned (b # l) w1 \<Longrightarrow> STrans.more w1 = STrans.more w \<Longrightarrow> returns (net_keeps (b # l) w1) (f w1)) \<Longrightarrow>
      returns (net_keeps l w) (let (r, ms) = OSA_FixedMemMalloc n (mem w); w = w\<lparr>mem := ms\<rparr> in
        case r of None \<Rightarrow> Some w | Some b \<Rightarrow> Option.bind (f w) (\<lambda>w. Some (w\<lparr>mem := OSA_FixedMemFree b (mem w)\<rparr>)))"
    by (rule net_block_returns)
  show "netowned l w \<Longrightarrow> msg_fits d k \<Longrightarrow> returns (net_keeps l w) (answer_to False c d k w)" for d k c
    unfolding answer_to_eq by (rule net_answer_returns)
qed (simp_all add: net_keeps_def)

lemma sent_keeps_net: "netowned l w \<Longrightarrow> \<exists>w'. Clb_NetTcpServerSentData w = Some w' \<and> net_keeps l w w'"
  using net.streams [of l w] by (simp add: Clb_NetTcpServerSentData_def returns_def answer_to_eq)

lemma recv_keeps_net: "netowned l w \<Longrightarrow> length d = 512 \<Longrightarrow> \<exists>w'. Clb_NetTcpServerRecvData fl d w = Some w' \<and> net_keeps l w w'"
  using net.handles [of l w d fl] by (simp add: Clb_NetTcpServerRecvData_def App_NetRecvHandle_def returns_def answer_to_eq)

section \<open>The sender\<close>

lemma send_blocking_app [simp]:
  "netowned l (snd (tcp_server_send_blocking sl n d w)) = netowned l w" "netQueue (snd (tcp_server_send_blocking sl n d w)) = netQueue w"
  by (simp_all add: tcp_server_send_blocking_def Let_def)

text \<open>A round of the sender takes one message from the queue, frees its block, and changes nothing else the listener sees.\<close>

definition same_link :: "'a SAppNet_scheme \<Rightarrow> 'a SAppNet_scheme \<Rightarrow> bool" where
  "same_link w w' \<longleftrightarrow> netConnected w' = netConnected w \<and> netRx w' = netRx w \<and> netNotes w' = netNotes w
     \<and> netPhase w' = netPhase w \<and> netSockets w' = netSockets w \<and> netListening w' = netListening w"

lemma net_keeps_link: "net_keeps l w w' \<Longrightarrow> same_link w w' \<and> netWire w' = netWire w"
  unfolding net_keeps_def same_link_def by (cases w; cases w') auto

lemma send_blocking_link: "same_link w (snd (tcp_server_send_blocking sl n d w))"
  by (simp add: same_link_def tcp_server_send_blocking_def Let_def)

lemma same_link_upd [simp]: "same_link w (w'\<lparr>mem := m\<rparr>) = same_link w w'" "same_link (w\<lparr>netQueue := q\<rparr>) w' = same_link w w'"
  by (simp_all add: same_link_def)

lemma same_link_trans: "same_link w w1 \<Longrightarrow> same_link w1 w2 \<Longrightarrow> same_link w w2"
  by (simp add: same_link_def)

lemma sender_keeps_net:
  assumes "netowned l w"
  shows "\<exists>w'. tcp_server_sender sl n w = Some w' \<and> netowned l w' \<and> same_link w w'"
proof (cases "netQueue w")
  case Nil
  then show ?thesis using assms by (simp add: tcp_server_sender_def same_link_def)
next
  case (Cons m q)
  obtain b d where m: "m = (b, d)" by (cases m)
  obtain ret w1 where w1: "tcp_server_send_blocking sl n d (w\<lparr>netQueue := q\<rparr>) = (ret, w1)" by fastforce
  have o: "netowned (b # l) w1"
    using net_pop [OF assms Cons [unfolded m]] send_blocking_app(1) [of "b # l" sl n d "w\<lparr>netQueue := q\<rparr>"] by (simp add: w1)
  have l1: "same_link w w1" using send_blocking_link [of "w\<lparr>netQueue := q\<rparr>" sl n d] by (simp add: w1)
  have "\<exists>w2. (if 0 < ret then Clb_NetTcpServerSentData w1 else Clb_NetTcpServerError w1) = Some w2 \<and> netowned (b # l) w2 \<and> same_link w1 w2"
  proof (cases "0 < ret")
    case True
    obtain w2 where w2: "Clb_NetTcpServerSentData w1 = Some w2" "net_keeps (b # l) w1 w2" using sent_keeps_net [OF o] by blast
    then have "netowned (b # l) w2" by (simp add: net_keeps_def)
    then show ?thesis using True w2(1) net_keeps_link [OF w2(2)] by simp
  next
    case False
    then show ?thesis using o by (simp add: Clb_NetTcpServerError_def same_link_def)
  qed
  then obtain w2 where w2: "(if 0 < ret then Clb_NetTcpServerSentData w1 else Clb_NetTcpServerError w1) = Some w2" "netowned (b # l) w2"
    "same_link w1 w2" by blast
  show ?thesis using Cons m w1 w2(1) net_free [OF w2(2)] same_link_trans [OF l1 w2(3)] by (simp add: tcp_server_sender_def)
qed

section \<open>The link\<close>

text \<open>What happens to the link: any thread posts a message, the sender or the listener makes a round.\<close>

datatype net_op = Post "u8 list" | Send sel int | Listen fpu setup_out accept_out "sel \<times> u8 list option"

fun net_do :: "net_op \<Rightarrow> 'a SAppNet_scheme \<Rightarrow> 'a SAppNet_scheme option" where
  "net_do (Post d) w = Some (snd (tcp_server_send_nonblocking d w))"
| "net_do (Send sl n) w = tcp_server_sender sl n w"
| "net_do (Listen fl su ac sr) w = tcp_server_listener fl su ac sr w"

text \<open>lwIP lets only one socket listen at a port: with another one, \<open>bind\<close> or \<open>listen\<close> fails.\<close>

fun port_rule :: "net_op \<Rightarrow> 'a SAppNet_scheme \<Rightarrow> bool" where
  "port_rule (Listen fl su ac sr) w \<longleftrightarrow> (su = SetupOk \<longrightarrow> netListening w = 0)"
| "port_rule _ w \<longleftrightarrow> True"

text \<open>Between two rounds the other tasks may change everything but the link's own data, as long as each block keeps one owner.\<close>

definition net_rely :: "'a SAppNet_scheme \<Rightarrow> 'a SAppNet_scheme \<Rightarrow> bool" where
  "net_rely w w' \<longleftrightarrow> netowned [] w' \<and> same_link w w'"

text \<open>A step of the serial port of the PC that leaves the link alone is such a change: the layer keeps the blocks of others.\<close>

lemma serial_step_rely:
  "l3_step (pc_clbs fl) w w' \<Longrightarrow> netowned [] w \<Longrightarrow> netQueue w' = netQueue w \<Longrightarrow> same_link w w' \<Longrightarrow> net_rely w w'"
  using pc.step_owned [of fl w w' "map fst (netQueue w)"] by (simp add: net_rely_def netowned_def)

inductive net_reach :: "'a SAppNet_scheme \<Rightarrow> 'a SAppNet_scheme \<Rightarrow> bool" for w0 where
  net_refl: "net_reach w0 w0"
| net_step: "net_reach w0 w \<Longrightarrow> port_rule x w \<Longrightarrow> net_do x w = Some w' \<Longrightarrow> net_reach w0 w'"
| net_others: "net_reach w0 w \<Longrightarrow> net_rely w w' \<Longrightarrow> net_reach w0 w'"

definition net_start :: "'a SAppNet_scheme \<Rightarrow> bool" where
  "net_start w \<longleftrightarrow> netowned [] w \<and> length (netRx w) = 512 \<and> \<not> netConnected w \<and> netNotes w = [] \<and> netPhase w = LStart
     \<and> netSockets w = 0 \<and> netListening w = 0"

text \<open>The invariant: ownership; one listening socket in the inner loops; the status follows the phase, and every change of
  it is notified; the peer's socket is open while it is served.\<close>

definition net_inv :: "'a SAppNet_scheme \<Rightarrow> bool" where
  "net_inv w \<longleftrightarrow> netowned [] w \<and> length (netRx w) = 512 \<and> (netConnected w \<longleftrightarrow> netPhase w = LServe)
     \<and> netNotes w = map even [0..<length (netNotes w)] \<and> (odd (length (netNotes w)) \<longleftrightarrow> netPhase w = LServe)
     \<and> netListening w \<le> 1 \<and> (netPhase w \<noteq> LStart \<longrightarrow> netListening w = 1)
     \<and> netListening w + (if netConnected w then 1 else 0) \<le> netSockets w"

lemma same_link_inv: "net_inv w \<Longrightarrow> same_link w w' \<Longrightarrow> netowned [] w' \<Longrightarrow> net_inv w'"
  by (cases "netConnected w") (auto simp: net_inv_def same_link_def)

lemma notes_flip: "ns = map even [0..<length ns] \<Longrightarrow> b = even (length ns) \<Longrightarrow> ns @ [b] = map even [0..<length (ns @ [b])]"
  by simp

lemma setup_inv: "net_inv w \<Longrightarrow> netPhase w = LStart \<Longrightarrow> (su = SetupOk \<longrightarrow> netListening w = 0) \<Longrightarrow> net_inv (tcp_server_setup su w)"
  by (cases su) (auto simp: net_inv_def)

lemma accept_inv: "net_inv w \<Longrightarrow> netPhase w = LAccept \<Longrightarrow> net_inv (tcp_server_accept ac w)"
  by (cases ac) (auto simp: net_inv_def intro: notes_flip)

lemma close_inv: "net_inv w \<Longrightarrow> netPhase w = LServe \<Longrightarrow> net_inv (tcp_server_close w)"
  by (auto simp: net_inv_def tcp_server_close_def intro: notes_flip)

lemma serve_cases:
  assumes "netowned [] w" "length (netRx w) = 512"
  shows "\<exists>w'. tcp_server_serve fl sl rcv w = Some w' \<and>
    (w' = tcp_server_close w \<or> w' = w \<or> (\<exists>bs. length bs = 512 \<and> Clb_NetTcpServerRecvData fl bs (w\<lparr>netRx := bs\<rparr>) = Some w'
       \<and> net_keeps [] (w\<lparr>netRx := bs\<rparr>) w'))"
proof -
  have r: "\<exists>w'. Clb_NetTcpServerRecvData fl bs (w\<lparr>netRx := bs\<rparr>) = Some w' \<and> net_keeps [] (w\<lparr>netRx := bs\<rparr>) w'" if "length bs = 512" for bs
    using recv_keeps_net [OF _ that, of "[]" "w\<lparr>netRx := bs\<rparr>" fl] assms(1) by simp
  have l: "length (take 512 bs @ drop (length (take 512 bs)) (netRx w)) = 512" for bs using assms(2) by simp
  show ?thesis
  proof (cases rcv)
    case None
    then show ?thesis by (auto simp: tcp_server_serve_def Let_def)
  next
    case (Some bs)
    from r [OF l, of bs] l [of bs] show ?thesis using Some by (auto simp: tcp_server_serve_def Let_def)
  qed
qed

lemma serve_inv:
  assumes "net_inv w" "netPhase w = LServe"
  shows "\<exists>w'. tcp_server_serve fl sl rcv w = Some w' \<and> net_inv w'"
proof -
  have o: "netowned [] w" "length (netRx w) = 512" using assms(1) by (simp_all add: net_inv_def)
  obtain w' where w': "tcp_server_serve fl sl rcv w = Some w'"
    "w' = tcp_server_close w \<or> w' = w \<or> (\<exists>bs. length bs = 512 \<and> Clb_NetTcpServerRecvData fl bs (w\<lparr>netRx := bs\<rparr>) = Some w'
       \<and> net_keeps [] (w\<lparr>netRx := bs\<rparr>) w')" using serve_cases [OF o] by blast
  have "net_inv w'" if "length bs = 512" "net_keeps [] (w\<lparr>netRx := bs\<rparr>) w'" for bs
  proof -
    have "net_inv (w\<lparr>netRx := bs\<rparr>)" using assms(1) that(1) by (auto simp: net_inv_def)
    then show ?thesis using same_link_inv net_keeps_link [OF that(2)] that(2) by (auto simp: net_keeps_def)
  qed
  then show ?thesis using w' assms close_inv by blast
qed

lemma net_do_inv:
  assumes "net_inv w"
  shows "net_do x w \<noteq> None" "port_rule x w \<Longrightarrow> net_do x w = Some w' \<Longrightarrow> net_inv w'"
proof -
  have o: "netowned [] w" using assms by (simp add: net_inv_def)
  have "\<exists>w'. net_do x w = Some w' \<and> (port_rule x w \<longrightarrow> net_inv w')"
  proof (cases x)
    case (Post d)
    have k: "net_keeps [] w (snd (tcp_server_send_nonblocking d w))" by (rule net_send_keeps [OF o])
    then have "netowned [] (snd (tcp_server_send_nonblocking d w))" by (simp add: net_keeps_def)
    then show ?thesis using Post same_link_inv [OF assms] net_keeps_link [OF k] by simp
  next
    case (Send sl n)
    then show ?thesis using sender_keeps_net [OF o] same_link_inv [OF assms] by fastforce
  next
    case (Listen fl su ac sr)
    then show ?thesis using assms setup_inv accept_inv serve_inv [OF assms] by (cases sr; cases "netPhase w") (auto, blast)
  qed
  then show "net_do x w \<noteq> None" "port_rule x w \<Longrightarrow> net_do x w = Some w' \<Longrightarrow> net_inv w'" by auto
qed

lemma net_reach_inv: "net_reach w0 w \<Longrightarrow> net_start w0 \<Longrightarrow> net_inv w"
  by (induction rule: net_reach.induct) (simp add: net_start_def net_inv_def, blast intro: net_do_inv(2), auto simp: net_rely_def intro: same_link_inv)

section \<open>A lost link\<close>

text \<open>The sockets of a listener that has lost its link while a socket listens at the port.\<close>

definition net_dead :: "nat \<Rightarrow> 'a SAppNet_scheme \<Rightarrow> bool" where
  "net_dead n w \<longleftrightarrow> net_inv w \<and> netPhase w = LStart \<and> netListening w = 1 \<and> n \<le> netSockets w"

lemma dead_stays:
  assumes "net_dead n w" "port_rule x w" "net_do x w = Some w'"
  shows "net_dead n w'"
proof -
  have i: "net_inv w" "netPhase w = LStart" "netListening w = 1" "n \<le> netSockets w" "netowned [] w"
    using assms(1) by (simp_all add: net_dead_def net_inv_def)
  have i': "net_inv w'" by (rule net_do_inv(2) [OF i(1) assms(2,3)])
  show ?thesis
  proof (cases x)
    case (Post d)
    then show ?thesis using i i' assms(3) net_keeps_link [OF net_send_keeps [OF i(5)], of d] by (auto simp: net_dead_def same_link_def)
  next
    case (Send sl k)
    then show ?thesis using i i' assms(3) sender_keeps_net [OF i(5), of sl k] by (auto simp: net_dead_def same_link_def)
  next
    case (Listen fl su ac sr)
    obtain sl rcv where "sr = (sl, rcv)" by (cases sr)
    then show ?thesis using Listen i i' assms(2,3) by (cases su) (auto simp: net_dead_def)
  qed
qed

lemma dead_rely: "net_dead n w \<Longrightarrow> net_rely w w' \<Longrightarrow> net_dead n w'"
  using same_link_inv [of w w'] by (auto simp: net_dead_def net_rely_def same_link_def)

lemma dead_forever: "net_reach w w' \<Longrightarrow> net_dead n w \<Longrightarrow> net_dead n w'"
  by (induction rule: net_reach.induct) (blast intro: dead_stays dead_rely)+

section \<open>Properties\<close>


text \<open>C36: when the listener finds the link down while it waits for a client it leaves its socket listening; as a port takes one
  listening socket only, the server never accepts a client again, and no socket it holds is ever given back.\<close>

theorem Net_lost_link_is_final:
  assumes "net_start w0" "net_reach w0 w" "netPhase w = LAccept"
    and "net_do (Listen fl su AcceptDown sr) w = Some w1" "net_reach w1 w2"
  shows "\<not> netConnected w2 \<and> netPhase w2 = LStart \<and> netSockets w \<le> netSockets w2"
proof -
  obtain sl rcv where "sr = (sl, rcv)" by (cases sr)
  then have w1: "w1 = w\<lparr>netPhase := LStart\<rparr>" using assms(3,4) by simp
  have "net_dead (netSockets w) w1" using net_reach_inv [OF assms(2,1)] assms(3) by (simp add: net_dead_def net_inv_def w1)
  from dead_forever [OF assms(5) this] show ?thesis by (simp add: net_dead_def net_inv_def)
qed

section \<open>Witnesses\<close>

text \<open>A node after power-up, before its listener has run, or while it serves a client.\<close>

definition net_node :: "bool \<Rightarrow> SAppNet" where
  "net_node c = l3_boot (pc_clbs fpu0) (SApp_ext App_GenDefaultConfig no_config
     \<lparr>tm_sec = 0, tm_min = 0, tm_hour = 0, tm_mday = 1, tm_mon = 1, tm_year = 0, tm_wday = 0\<rparr> (0, 0)
     (\<lambda>_. \<lparr>aiEnable = 1, aiStatus = 0, aiId = 0, aiValue = 0\<rparr>)
     (\<lambda>_. \<lparr>mbnEnable = 1, mbnStatus = 0, mbnDataFormat = 0, mbnDataType = 0, mbnAddress = 1, mbnRegAddress = 0, mbnValue = 0\<rparr>)
     (\<lambda>_. \<lparr>tvScratch = 0, tvRaw = 0, tvStd = 0, tvStt = (48, 48, 0)\<rparr>) 0 0 0 False False 0 (\<lambda>_. 0) c [] []
     (SAppNet.fields (replicate 512 0) [] [] (if c then LServe else LStart) (if c then 2 else 0) (if c then 1 else 0))) 1 115200"

lemma net_node: "netowned [] (net_node c)" "netConnected (net_node c) = c" "netPosts (net_node c) = []" "netQueue (net_node c) = []"
  "netWire (net_node c) = []" "free128 (mem (net_node c)) = 20" "\<not> c \<Longrightarrow> net_start (net_node c)"
proof -
  have f: "netConnected w = nc \<and> netPosts w = np \<and> netQueue w = nq \<and> SApp.more w = z"
    if "STrans.more w = SApp_ext a cs dt tr ai mb tv pcc uic ec rb sr tc pj nc np nq z"
    for w :: SAppNet and a cs dt tr ai mb tv pcc uic ec rb sr tc pj nc np nq z
    using that by (cases w) simp
  have g: "netRx w = x \<and> netWire w = y \<and> netNotes w = ns \<and> netPhase w = p \<and> netSockets w = so \<and> netListening w = li"
    if "SApp.more w = SAppNet.fields x y ns p so li" for w :: SAppNet and x y ns p so li
    using that by (cases w) (simp add: SAppNet.fields_def)
  note p = f [OF l3_boot_start(18)]
  show q: "netConnected (net_node c) = c" "netPosts (net_node c) = []" "netQueue (net_node c) = []" by (simp_all add: net_node_def p)
  have m: "SApp.more (net_node c) = SAppNet.fields (replicate 512 0) [] [] (if c then LServe else LStart) (if c then 2 else 0) (if c then 1 else 0)"
    by (simp only: net_node_def p)
  note h = g [OF m]
  show "netWire (net_node c) = []" using h by blast
  have "owned [] (net_node c)" unfolding owned_def net_node_def by (intro exI) (rule l3_boot_start(1))
  then show o: "netowned [] (net_node c)" by (simp add: netowned_def q(3))
  have "used_blocks (mem (net_node c)) = {(P272, 0)}" unfolding net_node_def by (rule l3_boot_start(12))
  then show "free128 (mem (net_node c)) = 20" by (rule free128_start)
  show "\<not> c \<Longrightarrow> net_start (net_node c)" using o q h by (simp add: net_start_def)
qed

lemma net_reach_step: "net_do x w = Some w' \<Longrightarrow> port_rule x w \<Longrightarrow> net_reach w w'"
  by (blast intro: net_reach.intros)


lemma Net_lost_link_is_final_witness:
  "\<exists>(w :: SAppNet) w1 w2. netPhase w = LAccept \<and> net_do (Listen fpu0 SetupDown AcceptDown (SelectTimeout, None)) w = Some w1
    \<and> net_do (Listen fpu0 NoBind AcceptOk (SelectTimeout, None)) w1 = Some w2 \<and> \<not> netConnected w2 \<and> netPhase w2 = LStart \<and> netSockets w2 = 2"
proof -
  let ?a = "Listen fpu0 SetupOk AcceptOk (SelectTimeout, None)" and ?b = "Listen fpu0 SetupDown AcceptDown (SelectTimeout, None)"
    and ?c = "Listen fpu0 NoBind AcceptOk (SelectTimeout, None)"
  let ?wx = "net_node False"
  let ?w = "tcp_server_setup SetupOk ?wx"
  let ?wy = "tcp_server_accept AcceptDown ?w" and ?wz = "tcp_server_setup NoBind (tcp_server_accept AcceptDown ?w)"
  have s: "net_start ?wx" by (rule net_node(7)) simp
  then have p: "netPhase ?wx = LStart" "netListening ?wx = 0" "netSockets ?wx = 0" by (simp_all add: net_start_def)
  have d: "net_do ?a ?wx = Some ?w" "port_rule ?a ?wx" "netPhase ?w = LAccept" "net_do ?b ?w = Some ?wy" "net_do ?c ?wy = Some ?wz"
    "port_rule ?c ?wy" using p by simp_all
  have f: "\<not> netConnected ?wz \<and> netPhase ?wz = LStart \<and> netSockets ?w \<le> netSockets ?wz"
    by (rule Net_lost_link_is_final [OF s net_reach_step [OF d(1,2)] d(3,4) net_reach_step [OF d(5,6)]])
  moreover have "netSockets ?wz = 2" using p by simp
  ultimately show ?thesis using d(3-5) by (intro exI [of _ ?w] exI [of _ ?wy] exI [of _ ?wz] conjI) (assumption | blast)+
qed

end
