(* ===== verification/TcpHeaders.thy ===== *)
theory TcpHeaders
  imports TcpLink
begin

text \<open>
  The stream of tag headers over TCP, from the command of the client to the bytes on the wire: the rounds of the sender of
  \<^verbatim>\<open>network/tcp_server.c\<close> drive \<open>Clb_NetTcpServerSentData\<close> of \<^verbatim>\<open>app.c\<close>, which posts the next header.
\<close>

section \<open>One round\<close>

text \<open>A message the socket takes.\<close>

lemma sender_takes:
  assumes "netQueue w = (b, d) # q" "netConnected w" "d \<noteq> []" "wait_event sl False True = Event_Writeable" "int (length d) \<le> n"
  shows "tcp_server_sender sl n w = Option.bind (Clb_NetTcpServerSentData (w\<lparr>netQueue := q, netWire := netWire w @ [d]\<rparr>))
     (\<lambda>w. Some (w\<lparr>mem := OSA_FixedMemFree b (mem w)\<rparr>))"
  using assms by (simp add: tcp_server_sender_def tcp_server_send_blocking_def min_def)

lemma free128_free: "mem_ok ms \<Longrightarrow> b \<in> used_blocks ms \<Longrightarrow> free128 ms \<le> free128 (OSA_FixedMemFree b ms)"
  using Free_ok [of ms b] unfolding free128_def by (intro card_mono) auto

section \<open>Any number of rounds\<close>

fun senders :: "(sel \<times> int) list \<Rightarrow> 'a SAppNet_scheme \<Rightarrow> 'a SAppNet_scheme option" where
  "senders [] w = Some w"
| "senders ((sl, n) # os) w = Option.bind (tcp_server_sender sl n w) (senders os)"

definition takes_all :: "(sel \<times> int) list \<Rightarrow> bool" where
  "takes_all os \<longleftrightarrow> (\<forall>(sl, n) \<in> set os. wait_event sl False True = Event_Writeable \<and> 512 \<le> n)"

definition msg_sizes :: "u8 list list \<Rightarrow> bool" where
  "msg_sizes ms \<longleftrightarrow> (\<forall>d \<in> set ms. d \<noteq> [] \<and> length d \<le> 512)"

abbreviation pending :: "'a SApp_scheme \<Rightarrow> bool" where "pending w \<equiv> eCtrlCode w AND CTRL_SEND_HEADER \<noteq> 0"

lemma sender_header:
  assumes o: "netowned [] w" and q: "netQueue w = (b, d) # q" and c: "netConnected w" "netPosts w = []" "pending w" "unat (pcCounter w) < SYSTEM_NUM_TAG"
    and f: "2 < free128 (mem w)" and s: "d \<noteq> []" "length d \<le> 512" "wait_event sl False True = Event_Writeable" "512 \<le> n"
  shows "\<exists>w'. tcp_server_sender sl n w = Some w' \<and> netowned [] w' \<and> netConnected w' \<and> netPosts w' = [] \<and> pending w' \<and> pcCounter w' = pcCounter w + 1
    \<and> sCfg w' = sCfg w \<and> poolJunk w' = poolJunk w \<and> map snd (netQueue w') = map snd q @ [header_msg w (unat (pcCounter w))]
    \<and> netWire w' = netWire w @ [d] \<and> free128 (mem w) \<le> Suc (free128 (mem w'))"
proof -
  let ?u = "w\<lparr>netQueue := q, netWire := netWire w @ [d]\<rparr>"
  have u: "netowned [b] ?u" using net_pop [OF o q] by simp
  then have ou: "owned (b # map fst q) ?u" by (simp add: netowned_def)
  obtain v where v: "Clb_NetTcpServerSentData ?u = Some v" "net_keeps [b] ?u v" using sent_keeps_net [OF u] by blast
  obtain v' where v': "Clb_NetTcpServerSentData ?u = Some v'" "sCfg v' = sCfg w" "poolJunk v' = poolJunk w" "pending v'" "netConnected v'" "netPosts v' = []"
    "pcCounter v' = pcCounter w + 1" "Suc (free128 (mem v')) = free128 (mem w)"
    "map snd (netQueue v') = map snd q @ [header_msg w (unat (pcCounter w))]"
    using net_header_step [OF ou] c f by auto
  have e: "v' = v" using v(1) v'(1) by simp
  have nv: "netowned [b] v" using v(2) by (simp add: net_keeps_def)
  then have ov: "owned (b # map fst (netQueue v)) v" by (simp add: netowned_def)
  have "free128 (mem v) \<le> free128 (OSA_FixedMemFree b (mem v))" using owned_mem [OF ov] owned_mem(2) [OF ov] by (simp add: free128_free)
  then have "free128 (mem w) \<le> Suc (free128 (OSA_FixedMemFree b (mem v)))" using v'(8) e by simp
  moreover have "tcp_server_sender sl n w = Some (v\<lparr>mem := OSA_FixedMemFree b (mem v)\<rparr>)"
    using sender_takes [OF q c(1) s(1,3), of n] s(2,4) v(1) by simp
  moreover have "netWire v = netWire w @ [d]" using net_keeps_link [OF v(2)] by simp
  ultimately show ?thesis using net_free [OF nv] v'(2-7,9) unfolding e by (intro exI [of _ "v\<lparr>mem := OSA_FixedMemFree b (mem v)\<rparr>"]) simp
qed

text \<open>While the headers last, each round sends one message and queues one header.\<close>

lemma senders_headers:
  assumes "netowned [] w" "netQueue w \<noteq> []" "netConnected w" "netPosts w = []" "pending w" "unat (pcCounter w) + length os = SYSTEM_NUM_TAG"
    and "length os + 2 \<le> free128 (mem w)" "msg_sizes (map snd (netQueue w))" "takes_all os"
  shows "\<exists>w'. senders os w = Some w' \<and> netowned [] w' \<and> netConnected w' \<and> pending w' \<and> unat (pcCounter w') = SYSTEM_NUM_TAG
    \<and> msg_sizes (map snd (netQueue w')) \<and> length (netQueue w') = length (netQueue w)
    \<and> netWire w' @ map snd (netQueue w') = netWire w @ map snd (netQueue w) @ map (header_msg w) [unat (pcCounter w)..<SYSTEM_NUM_TAG]"
  using assms
proof (induction os arbitrary: w)
  case Nil
  then show ?case by simp
next
  case (Cons o' os)
  obtain sl n where on: "o' = (sl, n)" by (cases o')
  obtain b d q where q: "netQueue w = (b, d) # q" using Cons.prems(2) by (cases "netQueue w") auto
  have s: "d \<noteq> []" "length d \<le> 512" "wait_event sl False True = Event_Writeable" "512 \<le> n" "takes_all os" "msg_sizes (map snd q)"
    using Cons.prems(8,9) by (auto simp: q on msg_sizes_def takes_all_def)
  have k: "unat (pcCounter w) < SYSTEM_NUM_TAG" "2 < free128 (mem w)" using Cons.prems(6,7) by simp_all
  obtain w1 where w1: "tcp_server_sender sl n w = Some w1" "netowned [] w1" "netConnected w1" "netPosts w1 = []" "pending w1" "pcCounter w1 = pcCounter w + 1"
    "sCfg w1 = sCfg w" "poolJunk w1 = poolJunk w" "map snd (netQueue w1) = map snd q @ [header_msg w (unat (pcCounter w))]"
    "netWire w1 = netWire w @ [d]" "free128 (mem w) \<le> Suc (free128 (mem w1))"
    using sender_header [OF Cons.prems(1) q Cons.prems(3-5) k s(1-4)] by blast
  have c: "unat (pcCounter w1) = Suc (unat (pcCounter w))" using next_counter [OF k(1)] w1(6) by simp
  have h: "header_msg w1 = header_msg w" using w1(7,8) by auto
  have ne: "netQueue w1 \<noteq> []" using w1(9) by auto
  have sz: "msg_sizes (map snd (netQueue w1))" using s(6) unfolding w1(9) by (auto simp: msg_sizes_def STagHeader_size_def)
  have l: "length (netQueue w1) = length (netQueue w)" using arg_cong [OF w1(9), of length] q by simp
  from Cons.IH [OF w1(2) ne w1(3-5) _ _ sz s(5)] c w1(11) Cons.prems(6,7) obtain w' where
    "senders os w1 = Some w'" "netowned [] w'" "netConnected w'" "pending w'" "unat (pcCounter w') = SYSTEM_NUM_TAG"
    "msg_sizes (map snd (netQueue w'))" "length (netQueue w') = length (netQueue w1)"
    "netWire w' @ map snd (netQueue w') = netWire w1 @ map snd (netQueue w1) @ map (header_msg w1) [Suc (unat (pcCounter w))..<SYSTEM_NUM_TAG]" by auto
  then show ?case using w1(1,9,10) h k(1) on q l by (intro exI [of _ w']) (simp add: upt_conv_Cons)
qed

text \<open>Once they are all queued, the rounds empty the queue and the first ends the stream.\<close>

lemma senders_rest:
  assumes "netowned [] w" "netConnected w" "SYSTEM_NUM_TAG \<le> unat (pcCounter w) \<or> \<not> pending w" "length os = length (netQueue w)"
    and "msg_sizes (map snd (netQueue w))" "takes_all os"
  shows "\<exists>w'. senders os w = Some w' \<and> netowned [] w' \<and> netQueue w' = [] \<and> netWire w' = netWire w @ map snd (netQueue w)
    \<and> (os \<noteq> [] \<or> \<not> pending w \<longrightarrow> \<not> pending w')"
  using assms
proof (induction os arbitrary: w)
  case Nil
  then show ?case by simp
next
  case (Cons o' os)
  obtain sl n where on: "o' = (sl, n)" by (cases o')
  obtain b d q where q: "netQueue w = (b, d) # q" using Cons.prems(4) by (cases "netQueue w") auto
  have s: "d \<noteq> []" "length d \<le> 512" "wait_event sl False True = Event_Writeable" "512 \<le> n" "takes_all os" "msg_sizes (map snd q)"
    using Cons.prems(5,6) by (auto simp: q on msg_sizes_def takes_all_def)
  let ?u = "w\<lparr>netQueue := q, netWire := netWire w @ [d]\<rparr>"
  let ?v = "if pending w then ?u\<lparr>eCtrlCode := eCtrlCode w AND NOT CTRL_SEND_HEADER, pcCounter := 0\<rparr> else ?u"
  have v: "Clb_NetTcpServerSentData ?u = Some ?v"
    using Cons.prems(3) by (auto simp: Clb_NetTcpServerSentData_def stream_header_def)
  have o: "netowned [b] ?v" using net_pop [OF Cons.prems(1) q] by simp
  let ?w1 = "?v\<lparr>mem := OSA_FixedMemFree b (mem ?v)\<rparr>"
  have w1: "tcp_server_sender sl n w = Some ?w1" using sender_takes [OF q Cons.prems(2) s(1,3), of n] s(2,4) v by simp
  have f: "netConnected ?w1" "\<not> pending ?w1" "netQueue ?w1 = q" "netWire ?w1 = netWire w @ [d]" using Cons.prems(2) by simp_all
  from Cons.IH [OF net_free [OF o] f(1)] f Cons.prems(4) s(5,6) q obtain w' where
    "senders os ?w1 = Some w'" "netowned [] w'" "netQueue w' = []" "netWire w' = netWire w @ d # map snd q" "\<not> pending w'" by auto
  then show ?case using w1 on q by auto
qed

lemma senders_append: "senders (os @ os') w = Option.bind (senders os w) (senders os')"
proof (induction os arbitrary: w)
  case (Cons x os)
  obtain sl n where x: "x = (sl, n)" by (cases x)
  show ?case using Cons by (cases "tcp_server_sender sl n w") (simp_all add: x)
qed simp

lemma senders_idle: "netQueue w = [] \<Longrightarrow> senders os w = Some w"
  by (induction os) (auto simp: tcp_server_sender_def)

section \<open>The stream\<close>

text \<open>C37: over a connection that takes what it gets, the command for the tag headers makes the sender send what was queued and then
  the header of every tag once, in order, and end the stream with an empty queue; but only if a message was queued: with an
  empty queue nothing is ever sent, because the stream is driven by messages sent.\<close>

theorem Net_headers_end_to_end:
  assumes "netowned [] w" "netConnected w" "netPosts w = []" "14 \<le> free128 (mem w)" "msg_sizes (map snd (netQueue w))"
    and "takes_all os" "length os = length (netQueue w) + SYSTEM_NUM_TAG"
  shows "\<exists>w'. Option.bind (App_NetRecvHandle fl (0x30 # r) w) (senders os) = Some w' \<and> netowned [] w'
    \<and> (if netQueue w = [] then netWire w' = netWire w \<and> pending w'
        else netQueue w' = [] \<and> \<not> pending w' \<and> netWire w' = netWire w @ map snd (netQueue w) @ map (header_msg w) [0..<SYSTEM_NUM_TAG])"
proof -
  let ?w = "w\<lparr>pcCounter := 0, eCtrlCode := eCtrlCode w OR CTRL_SEND_HEADER\<rparr>"
  have a: "App_NetRecvHandle fl (0x30 # r) w = Some ?w" by (simp add: GetHeader_arms)
  have p: "pending ?w" "netowned [] ?w" using CTRL_SEND_HEADER_set assms(1) by simp_all
  show ?thesis
  proof (cases "netQueue w = []")
    case True
    then show ?thesis using a p senders_idle [of ?w os] by simp
  next
    case False
    let ?os = "take SYSTEM_NUM_TAG os" and ?os' = "drop SYSTEM_NUM_TAG os"
    have l: "length ?os = SYSTEM_NUM_TAG" "length ?os' = length (netQueue w)" using assms(7) by simp_all
    have t: "takes_all ?os" "takes_all ?os'" using assms(6) by (auto simp: takes_all_def dest: in_set_takeD in_set_dropD)
    obtain w1 where w1: "senders ?os ?w = Some w1" "netowned [] w1" "netConnected w1" "unat (pcCounter w1) = SYSTEM_NUM_TAG"
      "msg_sizes (map snd (netQueue w1))" "length (netQueue w1) = length (netQueue w)"
      "netWire w1 @ map snd (netQueue w1) = netWire w @ map snd (netQueue w) @ map (header_msg w) [0..<SYSTEM_NUM_TAG]"
      using senders_headers [of ?w ?os] p False assms(2-5) t(1) l(1) by (auto simp: SYSTEM_NUM_TAG_def)
    obtain w2 where w2: "senders ?os' w1 = Some w2" "netowned [] w2" "netQueue w2 = []" "netWire w2 = netWire w1 @ map snd (netQueue w1)" "\<not> pending w2"
      using senders_rest [OF w1(2,3) _ _ w1(5) t(2)] w1(4,6) l(2) False by auto
    have "senders os ?w = Some w2" using senders_append [of ?os ?os' ?w] w1(1) w2(1) by simp
    then show ?thesis using a w2 w1(7) False by simp
  qed
qed

lemma Net_headers_end_to_end_witness:
  "\<exists>w w'. map snd (netQueue w) = [replicate 60 7] \<and> Option.bind (App_NetRecvHandle fpu0 [0x30] w) (senders (replicate 13 (SelectSets False False True, 512))) = Some w'
    \<and> netQueue w' = [] \<and> length (netWire (w' :: SAppNet)) = 13"
proof -
  let ?w = "snd (tcp_server_send_nonblocking (replicate 60 7) (net_node True))"
  have o: "owned [] (net_node True)" using net_node(1) [of True] by (simp add: netowned_def net_node(4) [of True])
  have l: "56 < length (replicate 60 7 :: u8 list)" "length (replicate 60 7 :: u8 list) \<le> 120" by simp_all
  from tcp_send_eq [OF o l] obtain r m ps q where e: "tcp_server_send_nonblocking (replicate 60 7) (net_node True) =
      (r, (net_node True)\<lparr>mem := m, netPosts := ps, netQueue := q\<rparr>)"
    and i: "netConnected (net_node True) \<and> netPosts (net_node True) = [] \<and> 0 < free128 (mem (net_node True)) \<longrightarrow>
         ps = [] \<and> map snd q = map snd (netQueue (net_node True)) @ [replicate 60 7] \<and> Suc (free128 m) = free128 (mem (net_node True))" by blast
  have w: "ps = []" "map snd q = [replicate 60 7]" "Suc (free128 m) = 20" using mp [OF i] by (simp_all add: net_node)
  have q: "q \<noteq> []" "length q = 1" using arg_cong [OF w(2), of length] by auto
  have k: "netConnected ?w" "netPosts ?w = []" "14 \<le> free128 (mem ?w)" "msg_sizes (map snd (netQueue ?w))" "netWire ?w = []" "netQueue ?w = q"
    using w net_node(2,5) [of True] by (simp_all add: msg_sizes_def e)
  have t: "takes_all (replicate 13 (SelectSets False False True, 512))" "length (replicate 13 (SelectSets False False True, 512 :: int)) = length (netQueue ?w) + SYSTEM_NUM_TAG"
    using q k(6) by (simp_all add: takes_all_def event_defs SYSTEM_NUM_TAG_def)
  let ?os = "replicate 13 (SelectSets False False True, 512) :: (sel \<times> int) list"
  have ne: "netQueue ?w \<noteq> []" using k(6) q(1) by simp
  from Net_headers_end_to_end [OF tcp_send_netowned(1) [OF net_node(1) [of True]] k(1-4) t, of fpu0 "[]"] obtain w' where
    w': "Option.bind (App_NetRecvHandle fpu0 [0x30] ?w) (senders ?os) = Some w'" "netQueue w' = []"
      "netWire w' = netWire ?w @ map snd (netQueue ?w) @ map (header_msg ?w) [0..<SYSTEM_NUM_TAG]"
    unfolding if_not_P [OF ne] by blast
  have "length (netWire w') = length q + SYSTEM_NUM_TAG" unfolding w'(3) using k(5,6) by simp
  then have "length (netWire w') = 13" using q(2) by (simp add: SYSTEM_NUM_TAG_def)
  moreover have "map snd (netQueue ?w) = [replicate 60 7]" using w(2) k(6) by simp
  ultimately show ?thesis using w'(1,2) by (intro exI [of _ ?w] exI [of _ w'] conjI)
qed

end
