(* ===== verification/TcpClient.thy ===== *)
theory TcpClient
  imports TcpLink FtpClient
begin

text \<open>
  The TCP client (\<^verbatim>\<open>network/tcp_client.c\<close>): the connection to the control server, kept up by one thread, and the messages that
  another thread takes from its queue.  The outcomes of lwIP are arguments; the callbacks of \<^verbatim>\<open>app.c\<close> only print, so the state
  records their calls.
\<close>

section \<open>State (tcp\_client.h)\<close>

text \<open>\<open>tcQueue\<close> is the queue of the sending thread, \<open>tcPosts\<close> the outcomes of the next posts to it (then success), \<open>tcSockets\<close>
  the number of sockets held of lwIP; \<open>tcNotes\<close>, \<open>tcGot\<close> and \<open>tcDone\<close> are the calls of \<open>notify\<close>, of \<open>recv_handler\<close>, and of
  \<open>send_handler\<close> (true) or \<open>error_handler\<close>.\<close>

record TcpClient =
  fd :: int
  tcConnected :: bool
  tcRxBuff :: "u8 list"
  tcMem :: mem_state
  tcPosts :: "bool list"
  tcQueue :: "(blk \<times> u8 list) list"
  tcSockets :: nat
  tcWire :: "u8 list list"
  tcNotes :: "bool list"
  tcGot :: "u8 list list"
  tcDone :: "(bool \<times> u8 list) list"

definition INVALIDSOCK :: int where "INVALIDSOCK = - 1"

text \<open>\<open>memset\<close> leaves the descriptor 0.\<close>

definition tcp_client_configuration :: "u8 list \<Rightarrow> TcpClient \<Rightarrow> TcpClient" where
  "tcp_client_configuration buf s = s\<lparr>fd := 0, tcRxBuff := buf, tcConnected := False\<rparr>"

section \<open>The connection\<close>

definition tcp_client_close_connection :: "TcpClient \<Rightarrow> TcpClient" where
  "tcp_client_close_connection s = s\<lparr>tcSockets := tcSockets s - 1, fd := INVALIDSOCK\<rparr>"

text \<open>\<open>k\<close> is the descriptor of the new socket; the outcomes of \<open>connect\<close> and \<open>select\<close> are judged as in the FTP client.\<close>

definition tcp_client_open_connection :: "int \<Rightarrow> conn \<Rightarrow> TcpClient \<Rightarrow> int \<times> TcpClient" where
  "tcp_client_open_connection k c s =
     (let err = conn_err c in
      if c = LinkDown then (err, s)
      else if c = FtpClient.NoSocket then (err, s\<lparr>fd := INVALIDSOCK\<rparr>)
      else
        (let s = s\<lparr>fd := k, tcSockets := tcSockets s + 1\<rparr>
         in (err, if err \<noteq> 0 then tcp_client_close_connection s else s)))"

text \<open>One round of the listener: an attempt to connect, or a wait for data.\<close>

definition tcp_client_connect :: "int \<Rightarrow> conn \<Rightarrow> TcpClient \<Rightarrow> TcpClient" where
  "tcp_client_connect k c s =
     (let (err, s) = tcp_client_open_connection k c s in
      if err \<noteq> 0 then s else s\<lparr>tcConnected := True, tcNotes := tcNotes s @ [True]\<rparr>)"

definition tcp_client_lost :: "TcpClient \<Rightarrow> TcpClient" where
  "tcp_client_lost s = (let s = tcp_client_close_connection s in s\<lparr>tcConnected := False, tcNotes := tcNotes s @ [False]\<rparr>)"

definition tcp_client_receive :: "sel \<Rightarrow> u8 list option \<Rightarrow> TcpClient \<Rightarrow> TcpClient" where
  "tcp_client_receive sl rcv s =
     (let event = wait_event sl True False in
      if event = Event_Readable then
        (case rcv of
           None \<Rightarrow> tcp_client_lost s
         | Some bs \<Rightarrow>
             (let bs = take 512 bs in
              if bs = [] then tcp_client_lost s
              else (let s = s\<lparr>tcRxBuff := bs @ drop (length bs) (tcRxBuff s)\<rparr>
                    in s\<lparr>tcGot := tcGot s @ [take (length bs) (tcRxBuff s)]\<rparr>)))
      else if event = Event_Error then tcp_client_lost s
      else s)"

definition tcp_client_listener :: "int \<Rightarrow> conn \<Rightarrow> sel \<Rightarrow> u8 list option \<Rightarrow> TcpClient \<Rightarrow> TcpClient" where
  "tcp_client_listener k c sl rcv s = (if tcConnected s then tcp_client_receive sl rcv s else tcp_client_connect k c s)"

section \<open>Messages\<close>

definition tcp_client_send_blocking :: "sel \<Rightarrow> int \<Rightarrow> u8 list \<Rightarrow> TcpClient \<Rightarrow> int \<times> TcpClient" where
  "tcp_client_send_blocking sl n d s =
     (if \<not> tcConnected s then (- 1, s)
      else if d = [] then (- 2, s)
      else if wait_event sl False True = Event_Writeable
      then (let n = min n (int (length d)) in (n, s\<lparr>tcWire := tcWire s @ [take (nat n) d]\<rparr>))
      else (- 3, s))"

text \<open>A message is a block with a header of eight bytes.  When the queue is full the block is lost.\<close>

definition tcp_client_send_nonblocking :: "u8 list \<Rightarrow> TcpClient \<Rightarrow> int \<times> TcpClient" where
  "tcp_client_send_nonblocking d s =
     (if tcConnected s then
        (let (r, ms) = OSA_FixedMemMalloc (8 + of_nat (length d)) (tcMem s);
             s = s\<lparr>tcMem := ms\<rparr>
         in (case r of
               None \<Rightarrow> (- 1, s)
             | Some b \<Rightarrow>
                 (case tcPosts s of
                    False # ps \<Rightarrow> (- 2, s\<lparr>tcPosts := ps\<rparr>)
                  | True # ps \<Rightarrow> (0, s\<lparr>tcPosts := ps, tcQueue := tcQueue s @ [(b, d)]\<rparr>)
                  | [] \<Rightarrow> (0, s\<lparr>tcQueue := tcQueue s @ [(b, d)]\<rparr>))))
      else (- 3, s))"

text \<open>One round of the sender; without a message it waits on.\<close>

definition tcp_client_sender :: "sel \<Rightarrow> int \<Rightarrow> TcpClient \<Rightarrow> TcpClient" where
  "tcp_client_sender sl n s =
     (case tcQueue s of
        [] \<Rightarrow> s
      | (b, d) # q \<Rightarrow>
          (let (ret, s) = tcp_client_send_blocking sl n d (s\<lparr>tcQueue := q\<rparr>);
               s = s\<lparr>tcDone := tcDone s @ [(0 < ret, d)]\<rparr>
           in s\<lparr>tcMem := OSA_FixedMemFree b (tcMem s)\<rparr>))"

section \<open>Runs\<close>

text \<open>What the threads do: any of them posts, the sender and the listener make a round.\<close>

inductive tc_step :: "TcpClient \<Rightarrow> TcpClient \<Rightarrow> bool" where
  tc_post: "tc_step s (snd (tcp_client_send_nonblocking d s))"
| tc_send: "tc_step s (tcp_client_sender sl n s)"
| tc_listen: "tc_step s (tcp_client_listener k c sl rcv s)"

inductive_cases tc_stepE: "tc_step s s'"

inductive tc_reach :: "TcpClient \<Rightarrow> TcpClient \<Rightarrow> bool" for s0 where
  tc_refl: "tc_reach s0 s0"
| tc_next: "tc_reach s0 s \<Longrightarrow> tc_step s s' \<Longrightarrow> tc_reach s0 s'"

definition tc_start :: "TcpClient \<Rightarrow> bool" where
  "tc_start s \<longleftrightarrow> mem_ok (tcMem s) \<and> tcQueue s = [] \<and> \<not> tcConnected s \<and> tcSockets s = 0 \<and> tcNotes s = [] \<and> length (tcRxBuff s) = 512"

text \<open>The invariant, over the blocks \<open>B\<close> of the other users of the pool.\<close>

definition tc_inv :: "blk set \<Rightarrow> TcpClient \<Rightarrow> bool" where
  "tc_inv B s \<longleftrightarrow> mem_ok (tcMem s) \<and> distinct (map fst (tcQueue s)) \<and> B \<inter> set (map fst (tcQueue s)) = {}
     \<and> B \<union> set (map fst (tcQueue s)) \<subseteq> used_blocks (tcMem s)
     \<and> tcSockets s = (if tcConnected s then 1 else 0) \<and> length (tcRxBuff s) = 512
     \<and> tcNotes s = map even [0..<length (tcNotes s)] \<and> (odd (length (tcNotes s)) \<longleftrightarrow> tcConnected s)"

lemma post_inv:
  assumes "tc_inv B s"
  shows "tc_inv B (snd (tcp_client_send_nonblocking d s))"
proof -
  obtain r ms where m: "OSA_FixedMemMalloc (8 + of_nat (length d)) (tcMem s) = (r, ms)" by fastforce
  have ok: "mem_ok (tcMem s)" using assms by (simp add: tc_inv_def)
  show ?thesis
  proof (cases r)
    case None
    then show ?thesis using assms m fm.alloc_none [OF ok m [unfolded None]] by (simp add: tcp_client_send_nonblocking_def)
  next
    case (Some b)
    then have u: "mem_ok ms" "b \<notin> used_blocks (tcMem s)" "used_blocks ms = insert b (used_blocks (tcMem s))"
      using fm.alloc_some [OF ok] m by auto
    then have "tc_inv B (s\<lparr>tcMem := ms, tcPosts := ps\<rparr>)" "tc_inv B (s\<lparr>tcMem := ms, tcQueue := tcQueue s @ [(b, d)]\<rparr>)"
      "tc_inv B (s\<lparr>tcMem := ms, tcPosts := ps, tcQueue := tcQueue s @ [(b, d)]\<rparr>)" for ps
      using assms by (auto simp: tc_inv_def)
    then show ?thesis using assms m Some
      by (cases "tcPosts s" rule: list.exhaust; cases "hd (tcPosts s)") (auto simp: tcp_client_send_nonblocking_def)
  qed
qed

lemma send_blocking_fields [simp]:
  "tcMem (snd (tcp_client_send_blocking sl n d s)) = tcMem s" "tcQueue (snd (tcp_client_send_blocking sl n d s)) = tcQueue s"
  "tcConnected (snd (tcp_client_send_blocking sl n d s)) = tcConnected s" "tcSockets (snd (tcp_client_send_blocking sl n d s)) = tcSockets s"
  "tcNotes (snd (tcp_client_send_blocking sl n d s)) = tcNotes s" "tcRxBuff (snd (tcp_client_send_blocking sl n d s)) = tcRxBuff s"
  "tcDone (snd (tcp_client_send_blocking sl n d s)) = tcDone s" "tcPosts (snd (tcp_client_send_blocking sl n d s)) = tcPosts s"
  by (simp_all add: tcp_client_send_blocking_def Let_def)

lemma sender_fields:
  assumes "tcQueue s = (b, d) # q"
  shows "tcQueue (tcp_client_sender sl n s) = q" "map snd (tcDone (tcp_client_sender sl n s)) = map snd (tcDone s) @ [d]"
    "tcMem (tcp_client_sender sl n s) = OSA_FixedMemFree b (tcMem s)" "tcConnected (tcp_client_sender sl n s) = tcConnected s"
    "tcSockets (tcp_client_sender sl n s) = tcSockets s" "tcNotes (tcp_client_sender sl n s) = tcNotes s"
    "tcRxBuff (tcp_client_sender sl n s) = tcRxBuff s"
  using assms by (simp_all add: tcp_client_sender_def split_def Let_def)

lemma sender_inv:
  assumes "tc_inv B s"
  shows "tc_inv B (tcp_client_sender sl n s)"
proof (cases "tcQueue s")
  case Nil
  then show ?thesis using assms by (simp add: tcp_client_sender_def)
next
  case (Cons m q)
  obtain b d where m: "m = (b, d)" by (cases m)
  have "mem_ok (OSA_FixedMemFree b (tcMem s)) \<and> used_blocks (OSA_FixedMemFree b (tcMem s)) = used_blocks (tcMem s) - {b}"
    by (rule fm.dealloc_used) (use assms Cons m in \<open>auto simp: tc_inv_def\<close>)
  then show ?thesis using assms Cons m by (auto simp: sender_fields [OF Cons [unfolded m]] tc_inv_def)
qed

lemma lost_inv: "tc_inv B s \<Longrightarrow> tcConnected s \<Longrightarrow> tc_inv B (tcp_client_lost s)"
  by (auto simp: tc_inv_def tcp_client_lost_def tcp_client_close_connection_def intro: notes_flip)

lemma connect_inv: "tc_inv B s \<Longrightarrow> \<not> tcConnected s \<Longrightarrow> tc_inv B (tcp_client_connect k c s)"
  by (auto simp: tc_inv_def tcp_client_connect_def tcp_client_open_connection_def tcp_client_close_connection_def Let_def intro: notes_flip)

lemma receive_inv:
  assumes "tc_inv B s" "tcConnected s"
  shows "tc_inv B (tcp_client_receive sl rcv s)"
proof -
  have "tc_inv B (s\<lparr>tcRxBuff := bs, tcGot := g\<rparr>)" if "length bs = 512" for bs g
    using assms(1) that by (auto simp: tc_inv_def)
  moreover have "length (tcRxBuff s) = 512" using assms(1) by (simp add: tc_inv_def)
  ultimately show ?thesis using assms lost_inv [OF assms] by (auto simp: tcp_client_receive_def Let_def split: option.splits)
qed

lemma step_inv: "tc_step s s' \<Longrightarrow> tc_inv B s \<Longrightarrow> tc_inv B s'"
  by (elim tc_stepE) (simp_all add: post_inv sender_inv tcp_client_listener_def receive_inv connect_inv)

lemma reach_inv: "tc_reach s0 s \<Longrightarrow> tc_inv B s0 \<Longrightarrow> tc_inv B s"
  by (induction rule: tc_reach.induct) (blast intro: step_inv)+

lemma start_inv: "tc_start s \<Longrightarrow> tc_inv (used_blocks (tcMem s)) s"
  by (simp add: tc_start_def tc_inv_def)

section \<open>Properties\<close>

text \<open>C38: from its start on, whatever lwIP, the allocator and the queue answer, the client holds one socket while it is connected and
  none otherwise, tells the application of each change of the connection once and in order, and each message of its queue owns
  a block of its own, apart from the blocks of the other users of the pool, which it never frees.\<close>

theorem Tcp_client_safe:
  assumes "tc_start s0" "tc_reach s0 s"
  shows "tcSockets s = (if tcConnected s then 1 else 0)
    \<and> tcNotes s = map even [0..<length (tcNotes s)] \<and> (tcConnected s \<longleftrightarrow> odd (length (tcNotes s)))
    \<and> mem_ok (tcMem s) \<and> distinct (map fst (tcQueue s)) \<and> used_blocks (tcMem s0) \<inter> set (map fst (tcQueue s)) = {}
    \<and> used_blocks (tcMem s0) \<union> set (map fst (tcQueue s)) \<subseteq> used_blocks (tcMem s)"
  using reach_inv [OF assms(2) start_inv [OF assms(1)]] by (simp add: tc_inv_def)

text \<open>The log of messages: what has been reported and what waits, in order.\<close>

definition tc_log :: "TcpClient \<Rightarrow> u8 list list" where
  "tc_log s = map snd (tcDone s) @ map snd (tcQueue s)"

lemma listener_log [simp]: "tc_log (tcp_client_listener k c sl rcv s) = tc_log s"
  by (auto simp: tc_log_def tcp_client_listener_def tcp_client_receive_def tcp_client_lost_def tcp_client_close_connection_def
      tcp_client_connect_def tcp_client_open_connection_def Let_def split: option.splits)

lemma sender_log [simp]: "tc_log (tcp_client_sender sl n s) = tc_log s"
proof (cases "tcQueue s")
  case Nil
  then show ?thesis by (simp add: tcp_client_sender_def)
next
  case (Cons m q)
  obtain b d where m: "m = (b, d)" by (cases m)
  show ?thesis using Cons m sender_fields(1,2) [OF Cons [unfolded m]] by (simp add: tc_log_def)
qed

lemma post_log: "tc_log (snd (tcp_client_send_nonblocking d s)) = tc_log s @ (if fst (tcp_client_send_nonblocking d s) = 0 then [d] else [])"
  by (auto simp: tc_log_def tcp_client_send_nonblocking_def Let_def split: prod.splits option.splits list.splits bool.splits)

text \<open>A history of operations, and the messages whose post reported success.\<close>

datatype tc_op = TcPost "u8 list" | TcSend sel int | TcListen int conn sel "u8 list option"

fun tc_do :: "tc_op \<Rightarrow> TcpClient \<Rightarrow> TcpClient" where
  "tc_do (TcPost d) s = snd (tcp_client_send_nonblocking d s)"
| "tc_do (TcSend sl n) s = tcp_client_sender sl n s"
| "tc_do (TcListen k c sl rcv) s = tcp_client_listener k c sl rcv s"

fun accepted :: "tc_op list \<Rightarrow> TcpClient \<Rightarrow> u8 list list" where
  "accepted [] s = []"
| "accepted (TcPost d # xs) s = (if fst (tcp_client_send_nonblocking d s) = 0 then [d] else []) @ accepted xs (tc_do (TcPost d) s)"
| "accepted (x # xs) s = accepted xs (tc_do x s)"

text \<open>Every message whose post reports success is reported once, sent or failed, in the order of the posts, or still waits;
  no other message is ever reported.\<close>

theorem Tcp_client_reports_in_order:
  "tc_log (fold tc_do ops s) = tc_log s @ accepted ops s"
proof (induction ops arbitrary: s)
  case (Cons x ops)
  then show ?case by (cases x) (simp_all add: post_log)
qed simp

section \<open>Witnesses\<close>

definition tc0 :: TcpClient where
  "tc0 = tcp_client_configuration (replicate 512 0) \<lparr>fd = 0, tcConnected = False, tcRxBuff = [], tcMem = OSA_FixedMemInit mem_bss, tcPosts = [],
     tcQueue = [], tcSockets = 0, tcWire = [], tcNotes = [], tcGot = [], tcDone = []\<rparr>"

lemma tc0_start: "tc_start tc0"
  by (simp add: tc_start_def tc0_def tcp_client_configuration_def OSA_FixedMemInit_ok)

lemma Tcp_client_safe_witness:
  "tcSockets (tcp_client_listener 3 ConnOk SelectTimeout None tc0) = 1 \<and> tcNotes (tcp_client_listener 3 ConnOk SelectTimeout None tc0) = [True]"
proof -
  let ?s = "tcp_client_listener 3 ConnOk SelectTimeout None tc0"
  have "tc_reach tc0 ?s" by (blast intro: tc_reach.intros tc_step.intros)
  note c = Tcp_client_safe [OF tc0_start this]
  have "tcConnected ?s" "length (tcNotes ?s) = 1"
    by (simp_all add: tcp_client_listener_def tcp_client_connect_def tcp_client_open_connection_def tc0_def tcp_client_configuration_def)
  then show ?thesis using c by simp
qed

end
