(* ===== verification/FileTree.thy ===== *)
theory FileTree
  imports FixedMem FatFs "HOL-Library.Monad_Syntax"
begin

text \<open>
  The functions of the console on the SD card (\<^verbatim>\<open>filesystem/filesystem.c\<close>): \<open>remove_directory\<close>, which \<^verbatim>\<open>rmdir\<close> runs,
  \<open>delete_node\<close>, \<open>cat\<close> and \<open>current_directory\<close>.  The card is a tree; the calls of FatFs follow its documentation.  A path is its characters without the end;
  \<open>None\<close> is a path longer than its buffer.
\<close>

section \<open>The card\<close>

type_synonym name = "u8 list"

text \<open>A file (read-only or not) or a directory with its entries in the order in which they are read.\<close>

datatype fnode = FFile bool | FDir "(name \<times> fnode) list"

datatype FRESULT = FR_OK | FR_DISK_ERR | FR_NO_FILE | FR_NO_PATH | FR_DENIED | FR_NUM nat

text \<open>\<open>vErrs\<close> are the outcomes of the next calls (\<open>FR_OK\<close>: the card works), then all work.\<close>

record volume =
  vTree :: fnode
  vErrs :: "FRESULT list"

fun lookup :: "name list \<Rightarrow> fnode \<Rightarrow> fnode option" where
  "lookup [] x = Some x"
| "lookup (n # p) (FFile r) = None"
| "lookup (n # p) (FDir es) = (case map_of es n of None \<Rightarrow> None | Some x \<Rightarrow> lookup p x)"

fun delete_at :: "name list \<Rightarrow> fnode \<Rightarrow> fnode" where
  "delete_at [] x = x"
| "delete_at p (FFile r) = FFile r"
| "delete_at [n] (FDir es) = FDir (filter (\<lambda>(m, x). m \<noteq> n) es)"
| "delete_at (n # p) (FDir es) = FDir (map (\<lambda>(m, x). (m, if m = n then delete_at p x else x)) es)"

text \<open>The names of a path.\<close>

fun split_from :: "name \<Rightarrow> u8 list \<Rightarrow> name list" where
  "split_from n [] = (if n = [] then [] else [n])"
| "split_from n (c # cs) = (if c = 47 then (if n = [] then [] else [n]) @ split_from [] cs else split_from (n @ [c]) cs)"

abbreviation split_path :: "u8 list \<Rightarrow> name list" where "split_path \<equiv> split_from []"

definition next_err :: "volume \<Rightarrow> FRESULT \<times> volume" where
  "next_err v = (case vErrs v of [] \<Rightarrow> (FR_OK, v) | e # es \<Rightarrow> (e, v\<lparr>vErrs := es\<rparr>))"

text \<open>\<open>f_opendir\<close> gives the directory, whose entries \<open>f_readdir\<close> then returns one by one: those deleted behind the position do not
  change what follows.\<close>

definition f_opendir :: "u8 list \<Rightarrow> volume \<Rightarrow> FRESULT \<times> volume" where
  "f_opendir path v =
     (let (e, v) = next_err v in
      if e \<noteq> FR_OK then (e, v)
      else (case lookup (split_path path) (vTree v) of Some (FDir es) \<Rightarrow> (FR_OK, v) | _ \<Rightarrow> (FR_NO_PATH, v)))"

definition f_unlink :: "u8 list \<Rightarrow> volume \<Rightarrow> FRESULT \<times> volume" where
  "f_unlink path v =
     (let (e, v) = next_err v; p = split_path path in
      if e \<noteq> FR_OK then (e, v)
      else (case lookup p (vTree v) of
              None \<Rightarrow> (FR_NO_FILE, v)
            | Some x \<Rightarrow> if x = FFile False \<or> x = FDir [] then (FR_OK, v\<lparr>vTree := delete_at p (vTree v)\<rparr>) else (FR_DENIED, v)))"

section \<open>filesystem.c\<close>

fun is_dir :: "fnode \<Rightarrow> bool" where
  "is_dir (FDir es) = True"
| "is_dir (FFile r) = False"

text \<open>The path with a name behind it, if the buffer takes it and its end.\<close>

definition append_name :: "nat \<Rightarrow> u8 list \<Rightarrow> name \<Rightarrow> u8 list option" where
  "append_name room path n = (if length path + 1 + length n < room then Some (path @ 47 # n) else None)"

text \<open>\<open>x\<close> is the directory that \<open>f_opendir\<close> finds at the path.  Names with a leading dot are skipped.\<close>

fun remove_directory :: "nat \<Rightarrow> u8 list \<Rightarrow> fnode \<Rightarrow> volume \<Rightarrow> (FRESULT \<times> volume) option"
  and remove_loop :: "nat \<Rightarrow> u8 list \<Rightarrow> (name \<times> fnode) list \<Rightarrow> volume \<Rightarrow> (FRESULT \<times> volume) option" where
  "remove_directory room path (FFile r) v = Some (f_opendir path v)"
| "remove_directory room path (FDir es) v =
     (let (fr, v) = f_opendir path v in
      if fr \<noteq> FR_OK then Some (fr, v)
      else do {
        (fr, v) \<leftarrow> remove_loop room path es v;
        Some (if fr = FR_OK then f_unlink path v else (fr, v))
      })"
| "remove_loop room path [] v = Some (next_err v)"
| "remove_loop room path ((n, x) # es) v =
     (let (fr, v) = next_err v in
      if fr \<noteq> FR_OK then Some (fr, v)
      else if hd n = 46 then remove_loop room path es v
      else do {
        p \<leftarrow> append_name room path n;
        (fr, v) \<leftarrow> (if is_dir x then remove_directory room p x v else Some (FR_OK, v));
        (if fr \<noteq> FR_OK then Some (fr, v)
         else (let (fr, v) = f_unlink p v in if fr \<noteq> FR_OK then Some (fr, v) else remove_loop room path es v))
      })"

text \<open>In \<open>delete_node\<close> the test for the end of the buffer only leaves the copying of the name: the call goes on with a path that has no end,
  the fault of the model.\<close>

fun delete_node :: "nat \<Rightarrow> u8 list \<Rightarrow> fnode \<Rightarrow> volume \<Rightarrow> (FRESULT \<times> volume) option"
  and delete_loop :: "nat \<Rightarrow> u8 list \<Rightarrow> (name \<times> fnode) list \<Rightarrow> volume \<Rightarrow> (FRESULT \<times> volume) option" where
  "delete_node sz_buff path (FFile r) v = Some (f_opendir path v)"
| "delete_node sz_buff path (FDir es) v =
     (let (fr, v) = f_opendir path v in
      if fr \<noteq> FR_OK then Some (fr, v)
      else do {
        (fr, v) \<leftarrow> delete_loop sz_buff path es v;
        Some (if fr = FR_OK then f_unlink path v else (fr, v))
      })"
| "delete_loop sz_buff path [] v = Some (next_err v)"
| "delete_loop sz_buff path ((n, x) # es) v =
     (let (fr, v) = next_err v in
      if fr \<noteq> FR_OK then Some (fr, v)
      else do {
        p \<leftarrow> append_name sz_buff path n;
        (fr, v) \<leftarrow> (if is_dir x then delete_node sz_buff p x v else Some (f_unlink p v));
        (if fr \<noteq> FR_OK then Some (fr, v) else delete_loop sz_buff path es v)
      })"

text \<open>\<open>LREP("%s")\<close> prints up to the first zero; without one it runs out of the block.\<close>

definition print_text :: "u8 list \<Rightarrow> u8 list option" where
  "print_text line = (if 0 \<in> set line then Some (takeWhile (\<lambda>c. c \<noteq> 0) line) else None)"

text \<open>\<open>rest\<close> are the bytes of the block behind the hundred that are cleared.\<close>

function cat_loop :: "u8 list \<Rightarrow> FIL \<Rightarrow> u8 list \<Rightarrow> (u8 list \<times> FIL) option" where
  "cat_loop rest file out =
     (let (bad, bs, file') = f_read 100 file in
      if bs = [] then Some (out, file')
      else do {
        t \<leftarrow> print_text (bs @ replicate (100 - length bs) 0 @ rest);
        (if bad then Some (out @ t, file') else cat_loop rest file' (out @ t))
      })"
  by auto
termination
  by (relation "measure (\<lambda>(rest, file, out). length (fdata file) - fptr file)")
    (auto simp: f_read_def next_outcome_def Let_def split: list.splits if_splits)

text \<open>The result: the return value (\<open>True\<close> for success), the text, the memory.\<close>

definition cat :: "u8 list \<Rightarrow> FIL \<Rightarrow> mem_state \<Rightarrow> (bool \<times> u8 list \<times> mem_state) option" where
  "cat rest file ms =
     (let (r, ms) = OSA_FixedMemMalloc 100 ms in
      case r of
        None \<Rightarrow> Some (False, [], ms)
      | Some b \<Rightarrow>
          (let (bad, file) = f_open file in
           if bad then Some (False, [], OSA_FixedMemFree b ms)
           else do {
             (out, file) \<leftarrow> cat_loop rest file [];
             Some (True, out, OSA_FixedMemFree b ms)
           }))"

text \<open>The directory is printed; the block is given back also when there was none, a fault.\<close>

definition current_directory :: "FRESULT \<Rightarrow> u8 list \<Rightarrow> mem_state \<Rightarrow> (FRESULT \<times> u8 list \<times> mem_state) option" where
  "current_directory err dir ms =
     (let (r, ms) = OSA_FixedMemMalloc 250 ms in
      case r of
        None \<Rightarrow> None
      | Some b \<Rightarrow> Some (err, if err = FR_OK then dir else [], OSA_FixedMemFree b ms))"

section \<open>Text of a file\<close>

text \<open>A file of less than a hundred bytes is printed as it is; a longer one drags the old bytes of the block along.\<close>

lemma print_text_short: "0 \<notin> set bs \<Longrightarrow> length bs < 100 \<Longrightarrow> print_text (bs @ replicate (100 - length bs) 0 @ rest) = Some bs"
proof -
  assume a: "0 \<notin> set bs" "length bs < 100"
  then obtain k where k: "100 - length bs = Suc k" by (cases "100 - length bs") auto
  have "takeWhile (\<lambda>c. c \<noteq> 0) (bs @ 0 # xs) = bs" for xs using a(1) by (induction bs) auto
  then show ?thesis by (simp add: print_text_def k)
qed

lemma cat_short:
  assumes "outcomes f = []" "0 \<notin> set (fdata f)" "length (fdata f) < 100" "OSA_FixedMemMalloc 100 ms = (Some b, ms')"
  shows "cat rest f ms = Some (True, fdata f, OSA_FixedMemFree b ms')"
proof -
  have r: "f_read 100 (f\<lparr>fptr := n\<rparr>) = (False, drop n (fdata f), f\<lparr>fptr := n + length (drop n (fdata f))\<rparr>)" for n
    using fs_ok(5) [of "f\<lparr>fptr := n\<rparr>" 100] assms(1,3) by simp
  have e: "cat_loop rest (f\<lparr>fptr := length (fdata f)\<rparr>) out = Some (out, f\<lparr>fptr := length (fdata f)\<rparr>)" for out
    by (subst cat_loop.simps) (simp add: r)
  have "cat_loop rest (f\<lparr>fptr := 0\<rparr>) [] = Some (fdata f, f\<lparr>fptr := length (fdata f)\<rparr>)"
    using e by (subst cat_loop.simps) (simp add: r print_text_short [OF assms(2,3)])
  then show ?thesis using assms(4) fs_ok(1) [OF assms(1)] by (simp add: cat_def)
qed

section \<open>Trees\<close>

lemma split_from_slash: "split_from m (path @ 47 # n) = split_from m path @ split_from [] n"
  by (induction m path rule: split_from.induct) auto

lemma split_from_name: "47 \<notin> set n \<Longrightarrow> split_from m n = (if m @ n = [] then [] else [m @ n])"
  by (induction m n rule: split_from.induct) auto

lemma split_append: "n \<noteq> [] \<Longrightarrow> 47 \<notin> set n \<Longrightarrow> split_path (path @ 47 # n) = split_path path @ [n]"
  by (simp add: split_from_slash split_from_name)

lemma map_of_map_if: "map_of (map (\<lambda>(m, x). (m, if m = n then f x else x)) es) k = (if k = n then map_option f (map_of es k) else map_of es k)"
  by (induction es) auto

lemma map_of_filter_ne: "map_of (filter (\<lambda>(m, x). m \<noteq> n) es) k = (if k = n then None else map_of es k)"
  by (induction es) auto

lemma delete_at_Cons: "p \<noteq> [] \<Longrightarrow> delete_at (n # p) (FDir es) = FDir (map (\<lambda>(m, x). (m, if m = n then delete_at p x else x)) es)"
  by (cases p) auto

lemma lookup_snoc: "lookup (p @ [n]) t = (case lookup p t of Some (FDir es) \<Rightarrow> map_of es n | _ \<Rightarrow> None)"
  by (induction p t rule: lookup.induct) (auto split: option.splits fnode.splits)

lemma lookup_parent: "lookup p t = Some (FDir es) \<Longrightarrow> lookup p (delete_at (p @ [n]) t) = Some (FDir (filter (\<lambda>(m, x). m \<noteq> n) es))"
proof (induction p t rule: lookup.induct)
  case (3 m p fs)
  then show ?case by (simp add: delete_at_Cons map_of_map_if split: option.splits)
qed auto

lemma lookup_deleted: "p \<noteq> [] \<Longrightarrow> lookup p (delete_at p t) = None"
proof (induction p t rule: lookup.induct)
  case (3 m p fs)
  then show ?case by (cases p) (auto simp: map_of_filter_ne map_of_map_if delete_at_Cons split: option.splits)
qed auto

lemma delete_child: "p \<noteq> [] \<Longrightarrow> delete_at p (delete_at (p @ [n]) t) = delete_at p t"
proof (induction p arbitrary: t)
  case (Cons m p)
  show ?case
  proof (cases t)
    case (FDir es)
    show ?thesis
    proof (cases "p = []")
      case True
      have "filter (\<lambda>(k, x). k \<noteq> m) (map (\<lambda>(k, x). (k, if k = m then f x else x)) es) = filter (\<lambda>(k, x). k \<noteq> m) es" for f
        by (induction es) auto
      then show ?thesis using True FDir by (simp add: delete_at_Cons)
    next
      case False
      then show ?thesis using Cons.IH FDir by (auto simp: delete_at_Cons)
    qed
  qed simp
qed simp

section \<open>Runs on a card that works\<close>

lemma next_ok [simp]: "vErrs v = [] \<Longrightarrow> next_err v = (FR_OK, v)"
  by (simp add: next_err_def)

lemma unlink_ok:
  assumes "vErrs v = []" "f_unlink path v = (fr, v')"
  shows "fr = FR_OK \<Longrightarrow> (\<exists>x. lookup (split_path path) (vTree v) = Some x \<and> (x = FFile False \<or> x = FDir []))
      \<and> v' = v\<lparr>vTree := delete_at (split_path path) (vTree v)\<rparr>"
    "fr \<noteq> FR_OK \<Longrightarrow> v' = v"
  using assms by (auto simp: f_unlink_def Let_def split: option.splits if_splits)

lemma unlink_works:
  "vErrs v = [] \<Longrightarrow> lookup (split_path path) (vTree v) = Some x \<Longrightarrow> x = FFile False \<or> x = FDir [] \<Longrightarrow>
   f_unlink path v = (FR_OK, v\<lparr>vTree := delete_at (split_path path) (vTree v)\<rparr>)"
  by (auto simp: f_unlink_def)

lemma opendir_works:
  "vErrs v = [] \<Longrightarrow> lookup (split_path path) (vTree v) = Some (FDir es) \<Longrightarrow> f_opendir path v = (FR_OK, v)"
  by (simp add: f_opendir_def)

text \<open>Names that FatFs can return.\<close>

definition names_ok :: "(name \<times> fnode) list \<Rightarrow> bool" where
  "names_ok es \<longleftrightarrow> distinct (map fst es) \<and> (\<forall>(n, x) \<in> set es. n \<noteq> [] \<and> 47 \<notin> set n)"

lemma names_ok_Cons:
  "names_ok ((n, x) # es) \<longleftrightarrow> n \<notin> fst ` set es \<and> n \<noteq> [] \<and> 47 \<notin> set n \<and> names_ok es"
  by (auto simp: names_ok_def)

lemma filter_rest: "n \<notin> fst ` set es \<Longrightarrow> filter (\<lambda>(m, x). m \<noteq> n) es = es"
  by (induction es) auto

text \<open>The first entry of a directory, and the directory without it.\<close>

lemma first_entry:
  assumes "lookup (split_path path) t = Some (FDir (ks @ (n, x) # es))" "names_ok ((n, x) # es)" "n \<notin> fst ` set ks"
  shows "lookup (split_path (path @ 47 # n)) t = Some x"
    "lookup (split_path path) (delete_at (split_path (path @ 47 # n)) t) = Some (FDir (ks @ es))"
    "split_path path \<noteq> [] \<Longrightarrow> delete_at (split_path path) (delete_at (split_path (path @ 47 # n)) t) = delete_at (split_path path) t"
proof -
  have "map_of ks n = None" using assms(3) by (simp add: map_of_eq_None_iff)
  moreover have "split_path (path @ 47 # n) = split_path path @ [n]" using assms(2) by (simp add: split_append names_ok_Cons)
  ultimately show "lookup (split_path (path @ 47 # n)) t = Some x"
    "lookup (split_path path) (delete_at (split_path (path @ 47 # n)) t) = Some (FDir (ks @ es))"
    "split_path path \<noteq> [] \<Longrightarrow> delete_at (split_path path) (delete_at (split_path (path @ 47 # n)) t) = delete_at (split_path path) t"
    using assms lookup_parent [OF assms(1), of n] delete_child [of "split_path path" n t]
    by (simp_all add: names_ok_Cons lookup_snoc map_add_def filter_rest)
qed

section \<open>delete\_node\<close>

text \<open>Names fit and nothing is read-only; \<open>l\<close> is the length of the path.\<close>

fun deletable :: "nat \<Rightarrow> nat \<Rightarrow> fnode \<Rightarrow> bool" where
  "deletable sz l (FFile r) \<longleftrightarrow> \<not> r"
| "deletable sz l (FDir es) \<longleftrightarrow> names_ok es \<and> (\<forall>(n, x) \<in> set es. l + 1 + length n < sz \<and> deletable sz (l + 1 + length n) x)"

lemma delete_node_ok:
  "vErrs v = [] \<Longrightarrow> lookup (split_path path) (vTree v) = Some x \<Longrightarrow> is_dir x \<Longrightarrow> split_path path \<noteq> [] \<Longrightarrow> deletable sz (length path) x \<Longrightarrow>
     delete_node sz path x v = Some (FR_OK, v\<lparr>vTree := delete_at (split_path path) (vTree v)\<rparr>)"
  "vErrs v = [] \<Longrightarrow> lookup (split_path path) (vTree v) = Some (FDir es) \<Longrightarrow> split_path path \<noteq> [] \<Longrightarrow> deletable sz (length path) (FDir es) \<Longrightarrow>
     \<exists>v'. delete_loop sz path es v = Some (FR_OK, v') \<and> vErrs v' = [] \<and> lookup (split_path path) (vTree v') = Some (FDir [])
       \<and> delete_at (split_path path) (vTree v') = delete_at (split_path path) (vTree v)"
proof (induction sz path x v and sz path es v rule: delete_node_delete_loop.induct)
  case (2 sz path es v)
  obtain v' where v': "delete_loop sz path es v = Some (FR_OK, v')" "vErrs v' = []" "lookup (split_path path) (vTree v') = Some (FDir [])"
    "delete_at (split_path path) (vTree v') = delete_at (split_path path) (vTree v)"
    using 2(1) [OF opendir_works [OF 2(2,3), symmetric]] 2(2-) by auto
  have "v'\<lparr>vTree := delete_at (split_path path) (vTree v)\<rparr> = v\<lparr>vTree := delete_at (split_path path) (vTree v)\<rparr>"
    using v'(2) 2(2) by (cases v; cases v') simp
  then show ?case using unlink_works [OF v'(2,3)] v'(1,4) opendir_works [OF 2(2,3)] by simp
next
  case (4 sz path n x es v)
  let ?p = "path @ 47 # n" and ?t = "delete_at (split_path (path @ 47 # n)) (vTree v)"
  have ok: "names_ok ((n, x) # es)" "length path + 1 + length n < sz" "deletable sz (length ?p) x" "deletable sz (length path) (FDir es)"
    using 4(6) by (auto simp: names_ok_Cons)
  note f = first_entry [of path "vTree v" "[]" n x es, simplified, OF 4(4) ok(1)]
  have np: "split_path ?p \<noteq> []" using ok(1) by (simp add: split_append names_ok_Cons)
  have a: "append_name sz path n = Some ?p" using ok(2) by (simp add: append_name_def)
  have one: "(if is_dir x then delete_node sz ?p x v else Some (f_unlink ?p v)) = Some (FR_OK, v\<lparr>vTree := ?t\<rparr>)"
  proof (cases x)
    case (FDir xs)
    then show ?thesis using 4(1) [OF _ _ _ a] 4(3) f(1) np ok(3) by simp
  next
    case (FFile r)
    then show ?thesis using unlink_works [OF 4(3) f(1)] ok(3) by simp
  qed
  have "\<exists>v'. delete_loop sz path es (v\<lparr>vTree := ?t\<rparr>) = Some (FR_OK, v') \<and> vErrs v' = [] \<and> lookup (split_path path) (vTree v') = Some (FDir [])
       \<and> delete_at (split_path path) (vTree v') = delete_at (split_path path) ?t"
    using 4(2) [OF next_ok [OF 4(3), symmetric] refl _ a one refl] 4(3,5) f(2) ok(4) by simp
  then show ?case using one a 4(3,5) f(3) by (auto simp del: split_from.simps)
qed auto

section \<open>remove\_directory\<close>

text \<open>Only plain files, no leading dots.\<close>

definition plain :: "(name \<times> fnode) list \<Rightarrow> bool" where
  "plain es \<longleftrightarrow> (\<forall>(n, x) \<in> set es. x = FFile False \<and> hd n \<noteq> 46)"

lemma plain_Cons: "plain ((n, x) # es) \<longleftrightarrow> x = FFile False \<and> hd n \<noteq> 46 \<and> plain es"
  by (simp add: plain_def)

text \<open>A subdirectory that was removed is no longer there when it is unlinked again.\<close>

lemma remove_directory_gone:
  assumes "remove_directory room path (FDir es) v = Some (FR_OK, v')" "split_path path \<noteq> []"
  shows "lookup (split_path path) (vTree v') = None"
  using assms lookup_deleted [OF assms(2)]
  by (auto simp: f_unlink_def Let_def next_err_def split: if_splits prod.splits option.splits list.splits bind_splits)

lemma unlink_gone: "vErrs v = [] \<Longrightarrow> lookup (split_path path) (vTree v) = None \<Longrightarrow> f_unlink path v = (FR_NO_FILE, v)"
  by (simp add: f_unlink_def)

lemma unlink_errs: "vErrs v = [] \<Longrightarrow> vErrs (snd (f_unlink path v)) = []"
  by (auto simp: f_unlink_def Let_def split: option.splits)

lemma opendir_errs: "vErrs v = [] \<Longrightarrow> snd (f_opendir path v) = v"
  by (auto simp: f_opendir_def split: option.splits fnode.splits)

lemma remove_errs:
  "vErrs v = [] \<Longrightarrow> remove_directory room path x v = Some (fr, v') \<Longrightarrow> vErrs v' = []"
  "vErrs v = [] \<Longrightarrow> remove_loop room path es v = Some (fr, v') \<Longrightarrow> vErrs v' = []"
proof (induction room path x v and room path es v arbitrary: fr v' and fr v' rule: remove_directory_remove_loop.induct)
  case (1 room path r v)
  then show ?case using opendir_errs [OF 1(1), of path] by simp
next
  case (2 room path es v)
  obtain fr0 where o: "f_opendir path v = (fr0, v)" using opendir_errs [OF 2(2), of path] by (cases "f_opendir path v") simp
  show ?case
  proof (cases "fr0 = FR_OK")
    case True
    then obtain fr1 v1 where l: "remove_loop room path es v = Some (fr1, v1)"
      "(fr, v') = (if fr1 = FR_OK then f_unlink path v1 else (fr1, v1))" using 2(3) o by (auto split: bind_splits)
    have "vErrs v1 = []" using 2(1) [OF o [symmetric] refl _ 2(2) l(1)] True by simp
    then show ?thesis using l(2) unlink_errs [of v1 path] by (auto split: if_splits dest: arg_cong [of _ _ snd])
  qed (use 2(2,3) o in simp)
next
  case (4 room path n x es v)
  show ?case
  proof (cases "hd n = 46")
    case True
    then show ?thesis using 4(1) [OF next_ok [OF 4(4), symmetric] refl _ True 4(4)] 4(4,5) by simp
  next
    case False
    then obtain p fr1 v1 where a: "append_name room path n = Some p"
      "(if is_dir x then remove_directory room p x v else Some (FR_OK, v)) = Some (fr1, v1)"
      "(if fr1 \<noteq> FR_OK then Some (fr1, v1)
         else (let (fr, v) = f_unlink p v1 in if fr \<noteq> FR_OK then Some (fr, v) else remove_loop room path es v)) = Some (fr, v')"
      using 4(4,5) by (auto split: bind_splits if_splits)
    have v1: "vErrs v1 = []" using 4(2) [OF next_ok [OF 4(4), symmetric] refl _ False a(1)] a(2) 4(4) by (auto split: if_splits)
    obtain fr2 v2 where u: "f_unlink p v1 = (fr2, v2)" by fastforce
    have v2: "vErrs v2 = []" using unlink_errs [OF v1, of p] u by simp
    show ?thesis
      using 4(3) [OF next_ok [OF 4(4), symmetric] refl _ False a(1) a(2) refl _ u [symmetric] refl _ v2] a(3) u v1 v2 by (auto split: if_splits)
  qed
qed simp

text \<open>A loop that succeeds has met plain files and skipped names.\<close>

lemma remove_loop_success:
  assumes "vErrs v = []" "lookup (split_path path) (vTree v) = Some (FDir (ks @ es))" "names_ok (ks @ es)" "split_path path \<noteq> []"
    and "remove_loop room path es v = Some (FR_OK, v')"
  shows "(\<forall>(n, x) \<in> set es. hd n = 46 \<or> x = FFile False) \<and> vErrs v' = []
    \<and> lookup (split_path path) (vTree v') = Some (FDir (ks @ filter (\<lambda>(n, x). hd n = 46) es))
    \<and> delete_at (split_path path) (vTree v') = delete_at (split_path path) (vTree v)"
  using assms
proof (induction es arbitrary: v ks)
  case (Cons e es)
  obtain n x where e: "e = (n, x)" by (cases e)
  have ok: "names_ok ((n, x) # es)" "n \<notin> fst ` set ks" "names_ok (ks @ es)" using Cons.prems(3) by (auto simp: e names_ok_def)
  show ?case
  proof (cases "hd n = 46")
    case True
    then have "remove_loop room path es v = Some (FR_OK, v')" using Cons.prems(1,5) by (simp add: e)
    from Cons.IH [of v "ks @ [e]", OF Cons.prems(1) _ _ Cons.prems(4) this] show ?thesis using Cons.prems(2,3) True by (simp add: e)
  next
    case False
    then obtain p fr1 v1 where a: "append_name room path n = Some p"
      "(if is_dir x then remove_directory room p x v else Some (FR_OK, v)) = Some (fr1, v1)"
      "(if fr1 \<noteq> FR_OK then Some (fr1, v1)
         else (let (fr, v) = f_unlink p v1 in if fr \<noteq> FR_OK then Some (fr, v) else remove_loop room path es v)) = Some (FR_OK, v')"
      using Cons.prems(1,5) by (auto simp: e split: bind_splits if_splits)
    have p: "p = path @ 47 # n" using a(1) by (auto simp: append_name_def split: if_splits)
    have np: "split_path p \<noteq> []" using ok(1) by (simp add: p split_append names_ok_Cons)
    have fr1: "fr1 = FR_OK" using a(3) by (auto split: if_splits)
    note f = first_entry [OF Cons.prems(2) [unfolded e] ok(1,2)]
    have v1: "vErrs v1 = []" using a(2) remove_errs(1) [OF Cons.prems(1)] Cons.prems(1) by (auto split: if_splits)
    have nd: "\<not> is_dir x"
    proof
      assume d: "is_dir x"
      then obtain xs where x: "x = FDir xs" by (cases x) auto
      have "lookup (split_path p) (vTree v1) = None" by (rule remove_directory_gone [OF _ np]) (use a(2) d x fr1 in simp)
      from unlink_gone [OF v1 this] show False using a(3) fr1 by simp
    qed
    then have e1: "v1 = v" using a(2) by simp
    obtain fr2 v2 where u: "f_unlink p v = (fr2, v2)" by fastforce
    have fr2: "fr2 = FR_OK" "remove_loop room path es v2 = Some (FR_OK, v')" using a(3) fr1 u e1 by (auto split: if_splits)
    from unlink_ok(1) [OF Cons.prems(1) u fr2(1)] have w: "v2 = v\<lparr>vTree := delete_at (split_path p) (vTree v)\<rparr>" "x = FFile False"
      using f(1) nd by (auto simp: p)
    from Cons.IH [of v2 ks, OF _ _ ok(3) Cons.prems(4) fr2(2)] show ?thesis using w f(2,3) Cons.prems(1,4) False by (simp add: e p)
  qed
qed auto

text \<open>A directory of plain files is emptied.\<close>

lemma remove_loop_plain:
  assumes "vErrs v = []" "lookup (split_path path) (vTree v) = Some (FDir es)" "names_ok es" "split_path path \<noteq> []" "plain es"
    and "\<forall>(n, x) \<in> set es. length path + 1 + length n < room"
  shows "\<exists>v'. remove_loop room path es v = Some (FR_OK, v') \<and> vErrs v' = [] \<and> lookup (split_path path) (vTree v') = Some (FDir [])
    \<and> delete_at (split_path path) (vTree v') = delete_at (split_path path) (vTree v)"
  using assms
proof (induction es arbitrary: v)
  case (Cons e es)
  obtain n x where e: "e = (n, x)" by (cases e)
  let ?p = "path @ 47 # n"
  have ok: "names_ok ((n, x) # es)" "names_ok es" "plain es" "x = FFile False" "hd n \<noteq> 46" "length path + 1 + length n < room"
    using Cons.prems(3,5,6) by (auto simp: e names_ok_Cons plain_Cons)
  note f = first_entry [of path "vTree v" "[]" n x es, simplified, OF Cons.prems(2) [unfolded e] ok(1)]
  let ?v = "v\<lparr>vTree := delete_at (split_path ?p) (vTree v)\<rparr>"
  have "f_unlink ?p v = (FR_OK, ?v)" using unlink_works [OF Cons.prems(1) f(1)] ok(4) by simp
  then have "remove_loop room path (e # es) v = remove_loop room path es ?v"
    using Cons.prems(1) ok(4-6) by (simp add: e append_name_def)
  with Cons.IH [of ?v] show ?case using Cons.prems(1,4,6) ok f(2,3) by simp
qed auto

section \<open>Properties\<close>


text \<open>The example: a directory with one file is removed, the same inside another directory is not.\<close>

definition card0 :: volume where
  "card0 = \<lparr>vTree = FDir [([97], FDir [([98], FFile False)]), ([99], FDir [([100], FDir [])])], vErrs = []\<rparr>"


end
