(* ===== verification/Console.thy ===== *)
theory Console
  imports Shell AppCommands
begin

text \<open>
  The commands of the console (\<^verbatim>\<open>app_shell.c\<close>) that change the state of the application, behind the command table, and
  what a line typed at the console does.
\<close>

section \<open>Numbers (atoi)\<close>

text \<open>Blanks, a sign, digits up to the first other character; a number that does not fit an \<open>int\<close> is undefined in C.\<close>

definition is_blank :: "u8 \<Rightarrow> bool" where
  "is_blank c \<longleftrightarrow> c = 32 \<or> 9 \<le> c \<and> c \<le> 13"

fun digits_val :: "int \<Rightarrow> u8 list \<Rightarrow> int" where
  "digits_val n [] = n"
| "digits_val n (c # cs) = (if 48 \<le> c \<and> c \<le> 57 then digits_val (10 * n + uint c - 48) cs else n)"

definition atoi :: "u8 list \<Rightarrow> int" where
  "atoi s =
     (let s = dropWhile is_blank s in
      case s of
        [] \<Rightarrow> 0
      | c # r \<Rightarrow> if c = 45 then - digits_val 0 r else if c = 43 then digits_val 0 r else digits_val 0 (c # r))"

section \<open>The table\<close>

definition command :: "string \<Rightarrow> 8 word \<Rightarrow> 8 word \<Rightarrow> shell_command" where
  "command n lo hi = \<lparr>cmdName = chars n, min_args = lo, max_args = hi, cmd_ptr = True\<rparr>"

definition cmd_table :: "shell_command list" where
  "cmd_table = [command ''help'' 0 0, command ''clear'' 0 0, command ''send'' 1 1, command ''reset'' 0 0, command ''settime'' 2 2,
     command ''setdate'' 3 3, command ''status'' 1 1, command ''tag'' 1 1, command ''ctrl'' 1 1, command ''ls'' 1 1, command ''mkdir'' 1 1,
     command ''rmdir'' 1 1, command ''create'' 1 1, command ''rm'' 1 1, command ''cat'' 1 1, command ''cd'' 1 1, command ''pwd'' 0 0,
     command ''stat'' 1 1, command ''mb'' 1 1]"

section \<open>The commands\<close>

text \<open>\<open>i2c\<close> is the bus of the clock chip; the result has the bytes sent to it.\<close>

definition settime :: "(u8 list \<Rightarrow> int) \<Rightarrow> u8 list list \<Rightarrow> SDateTime \<Rightarrow> (int \<times> u8 list list) option \<times> SDateTime" where
  "settime i2c argv t =
     (if length argv = 3 then
        (let (r, t) = RTC_SetDateTime i2c (word_of_int (atoi (argv ! 1))) (word_of_int (atoi (argv ! 2)))
                        (word_of_int (tm_mday t)) (word_of_int (tm_mon t)) (word_of_int (tm_year t)) t
         in (Some r, t))
      else (None, t))"

definition setdate :: "(u8 list \<Rightarrow> int) \<Rightarrow> u8 list list \<Rightarrow> SDateTime \<Rightarrow> (int \<times> u8 list list) option \<times> SDateTime" where
  "setdate i2c argv t =
     (if length argv = 4 then
        (let (r, t) = RTC_SetDateTime i2c (word_of_int (tm_min t)) (word_of_int (tm_hour t))
                        (word_of_int (atoi (argv ! 1))) (word_of_int (atoi (argv ! 2))) (word_of_int (atoi (argv ! 3))) t
         in (Some r, t))
      else (None, t))"

text \<open>The name of a tag is at byte 32 of the tag.\<close>

definition save_tag :: "u8 list list \<Rightarrow> 'a SApp_scheme \<Rightarrow> 'a SApp_scheme" where
  "save_tag argv w =
     (let idx = atoi (argv ! 1) in
      if idx < 0 \<or> idx > 11 then w
      else w\<lparr>sCfg := put_bytes (tag_off (nat idx) + 32) (chars ''SET_NAME'' @ [0]) (sCfg w)\<rparr>)"

text \<open>A message to the task that polls the Modbus devices, which never takes it: the block is lost.\<close>

definition send_queue :: "u8 list list \<Rightarrow> 'a SApp_scheme \<Rightarrow> 'a SApp_scheme" where
  "send_queue argv w =
     (if length argv = 2 \<and> argv ! 1 = chars ''modbus'' then w\<lparr>mem := snd (OSA_FixedMemMalloc 264 (mem w))\<rparr> else w)"

text \<open>\<open>ctrl\<close>; \<open>unl\<close> tells whether \<open>f_unlink\<close> removes the file, \<open>data\<close> is what the buffer on the stack holds.  The hundred messages
  to the display, the log file and the endless test are the operations of other theories.\<close>

fun send_many :: "nat \<Rightarrow> u8 list \<Rightarrow> 'a SApp_scheme \<Rightarrow> 'a SApp_scheme option" where
  "send_many 0 data w = Some w"
| "send_many (Suc n) data w = Option.bind (map_option snd (App_SendPC 100 (Some data) 100 False w)) (send_many n data)"

definition control :: "bool \<Rightarrow> u8 list \<Rightarrow> u8 list list \<Rightarrow> 'a SApp_scheme \<Rightarrow> 'a SApp_scheme option" where
  "control unl data argv w =
     (if argv ! 1 = chars ''save'' then Some (w\<lparr>cfgStore := snd (App_SaveConfig (sCfg w) (cfgStore w))\<rparr>)
      else if argv ! 1 = chars ''reset'' then
        Some (if unl then w\<lparr>cfgStore := (cfgStore w)\<lparr>cfgExists := False\<rparr>\<rparr> else w)
      else if argv ! 1 = chars ''pc'' then send_many 100 data w
      else Some w)"

text \<open>The call behind a command; those that print or act on the card leave the application as it is.\<close>

definition console_call :: "(u8 list \<Rightarrow> int) \<Rightarrow> bool \<Rightarrow> u8 list \<Rightarrow> u8 list list \<Rightarrow> 'a SApp_scheme \<Rightarrow> 'a SApp_scheme option" where
  "console_call i2c unl data argv w =
     (if hd argv = chars ''settime'' then Some (w\<lparr>sDateTime := snd (settime i2c argv (sDateTime w))\<rparr>)
      else if hd argv = chars ''setdate'' then Some (w\<lparr>sDateTime := snd (setdate i2c argv (sDateTime w))\<rparr>)
      else if hd argv = chars ''tag'' then Some (save_tag argv w)
      else if hd argv = chars ''send'' then Some (send_queue argv w)
      else if hd argv = chars ''ctrl'' then control unl data argv w
      else Some w)"

section \<open>Lemmas\<close>

lemma chars_simps [simp]: "chars [] = []" "chars (c # cs) = of_nat (of_char c) # chars cs"
  by (simp_all add: chars_def)

lemma cmd_table_bounds: "\<forall>k \<in> set cmd_table. 0 \<le> sint (min_args k) \<and> 0 \<le> sint (max_args k)"
  by (simp add: cmd_table_def command_def)

lemma tag_command: "command_spec cmd_table [chars ''tag'', t] = (SHELL_CMD_ERR_NONE, Some [chars ''tag'', t])"
  by (simp add: command_spec_def cmd_table_def command_def)

lemma tag_name_off: "i \<le> 11 \<Longrightarrow> tag_off i + 41 \<le> SSysCfg_size"
  by (simp add: layout_defs)

lemma save_tag_cfg:
  assumes "length (sCfg w) = SSysCfg_size" "0 \<le> atoi t" "atoi t \<le> 11"
  shows "field (tag_off (nat (atoi t)) + 32) 9 (sCfg (save_tag [c, t] w)) = chars ''SET_NAME'' @ [0]"
    "o' + n \<le> tag_off (nat (atoi t)) + 32 \<or> tag_off (nat (atoi t)) + 41 \<le> o' \<Longrightarrow> field o' n (sCfg (save_tag [c, t] w)) = field o' n (sCfg w)"
proof -
  let ?i = "nat (atoi t)" and ?b = "chars ''SET_NAME'' @ [0] :: u8 list"
  have e: "sCfg (save_tag [c, t] w) = put_bytes (tag_off ?i + 32) ?b (sCfg w)" using assms(2,3) by (simp add: save_tag_def)
  have l: "tag_off ?i + 32 + length ?b \<le> length (sCfg w)" using tag_name_off [of ?i] assms(1,3) by (simp add: nat_le_iff)
  show "field (tag_off ?i + 32) 9 (sCfg (save_tag [c, t] w)) = ?b" unfolding e by (rule field_put_same [OF l]) simp
  show "o' + n \<le> tag_off ?i + 32 \<or> tag_off ?i + 41 \<le> o' \<Longrightarrow> field o' n (sCfg (save_tag [c, t] w)) = field o' n (sCfg w)"
    unfolding e using field_put_other [OF _ l, of o' n] by (simp add: add.commute)
qed

lemma u8_of_int: "0 \<le> x \<Longrightarrow> x < 256 \<Longrightarrow> uint (word_of_int x :: u8) = x"
  by (simp add: uint_word_of_int)

lemma year_of_int: "- 1000000 \<le> x \<Longrightarrow> x < 1000000 \<Longrightarrow> sint (word_of_int x - 1990 :: u32) = x - 1990"
proof -
  assume x: "- 1000000 \<le> x" "x < 1000000"
  have "(word_of_int x - 1990 :: u32) = word_of_int (x - 1990)" by simp
  moreover have "signed_take_bit 31 (x - 1990) = x - 1990" using x by (intro signed_take_bit_int_eq_self) simp_all
  ultimately show ?thesis by (simp only: sint_sbintrunc') simp
qed

lemma RTC_SetDateTime_year:
  "tm_year (snd (RTC_SetDateTime i2c mi ho da mo ye t)) = sint (ye - 1990)"
  "sint (ye - 1990) < 0 \<Longrightarrow> fst (RTC_SetDateTime i2c mi ho da mo ye t) = (- 1, [])"
  by (simp_all add: RTC_SetDateTime_def RTC_GetTimeDate_def RTC_SetTimeDate_def Let_def)

section \<open>Properties\<close>

text \<open>Whatever keys are typed, when the edited line has the words \<open>tag\<close> and a text \<open>t\<close>, the command is found and run, and it writes
  the nine bytes of its fixed name into the tag whose number \<open>t\<close> is, and nothing else; a text that is no number counts as tag 0.\<close>

theorem Console_names_tag:
  assumes "shell_ok s" "shell_line s = []" "shell_cmd_table s = cmd_table" "0x0D \<notin> set ks" "0x0A \<notin> set ks"
    and "words (foldl edit [] ks) = [chars ''tag'', t]" "length (sCfg w) = SSysCfg_size"
  shows "\<exists>s1 s2 argv w'. push_keys (ks @ [0x0D]) s = Some s1 \<and> shell_exec s1 = Some (SHELL_CMD_ERR_NONE, Some argv, s2)
    \<and> console_call i2c unl data argv w = Some w'
    \<and> (if 0 \<le> atoi t \<and> atoi t \<le> 11
        then w' = w\<lparr>sCfg := sCfg w'\<rparr> \<and> field (tag_off (nat (atoi t)) + 32) 9 (sCfg w') = chars ''SET_NAME'' @ [0]
          \<and> (\<forall>o' n. o' + n \<le> tag_off (nat (atoi t)) + 32 \<or> tag_off (nat (atoi t)) + 41 \<le> o' \<longrightarrow> field o' n (sCfg w') = field o' n (sCfg w))
        else w' = w)"
proof -
  let ?ws = "[chars ''tag'', t]"
  obtain s1 s2 where s: "push_keys (ks @ [0x0D]) s = Some s1"
    "shell_exec s1 = Some (fst (command_spec (shell_cmd_table s) ?ws), snd (command_spec (shell_cmd_table s) ?ws), s2)"
    using typed_line_runs [OF assms(1,2,4,5) _ assms(6) [symmetric]] cmd_table_bounds assms(3) by (auto simp: SHELL_ARGS_MAX_def)
  have c: "console_call i2c unl data ?ws w = Some (save_tag ?ws w)" by (simp add: console_call_def)
  have r: "if 0 \<le> atoi t \<and> atoi t \<le> 11
        then save_tag ?ws w = w\<lparr>sCfg := sCfg (save_tag ?ws w)\<rparr> \<and> field (tag_off (nat (atoi t)) + 32) 9 (sCfg (save_tag ?ws w)) = chars ''SET_NAME'' @ [0]
          \<and> (\<forall>o' n. o' + n \<le> tag_off (nat (atoi t)) + 32 \<or> tag_off (nat (atoi t)) + 41 \<le> o' \<longrightarrow> field o' n (sCfg (save_tag ?ws w)) = field o' n (sCfg w))
        else save_tag ?ws w = w"
  proof (cases "0 \<le> atoi t \<and> atoi t \<le> 11")
    case True
    have "save_tag ?ws w = w\<lparr>sCfg := sCfg (save_tag ?ws w)\<rparr>" using True by (simp add: save_tag_def)
    then show ?thesis using True save_tag_cfg [OF assms(7), of t] by simp
  next
    case False
    then show ?thesis by (auto simp: save_tag_def)
  qed
  from s(2) have "shell_exec s1 = Some (SHELL_CMD_ERR_NONE, Some ?ws, s2)" by (simp only: assms(3) tag_command fst_conv snd_conv)
  with s(1) c r show ?thesis by blast
qed

text \<open>C40: the console's \<open>settime\<close> passes the stored year on to a function that takes 1990 from it: from a year the chip can hold after
  1990 it leaves the offset, and the next use makes the year negative, so that the chip refuses the time.\<close>

theorem Console_settime_loses_year:
  assumes "1 \<le> tm_wday t" "tm_wday t \<le> 7" "1 \<le> tm_mday t" "tm_mday t \<le> 31" "1 \<le> tm_mon t" "tm_mon t \<le> 12"
    and "1990 \<le> tm_year t" "tm_year t \<le> 2089" "length argv = 3" "length argv' = 3"
    and "0 \<le> atoi (argv ! 1)" "atoi (argv ! 1) \<le> 59" "0 \<le> atoi (argv ! 2)" "atoi (argv ! 2) \<le> 23"
  shows "\<exists>t1 t2. settime i2c argv t = (Some (i2c (time_regs t1), [time_regs t1]), t1) \<and> tm_min t1 = atoi (argv ! 1) \<and> tm_hour t1 = atoi (argv ! 2)
    \<and> tm_year t1 = tm_year t - 1990 \<and> settime i2c argv' t1 = (Some (- 1, []), t2) \<and> tm_year t2 = tm_year t - 3980"
proof -
  let ?t1 = "snd (settime i2c argv t)"
  have u: "uint (word_of_int (atoi (argv ! 1)) :: u8) = atoi (argv ! 1)" "uint (word_of_int (atoi (argv ! 2)) :: u8) = atoi (argv ! 2)"
    "uint (word_of_int (tm_mday t) :: u8) = tm_mday t" "uint (word_of_int (tm_mon t) :: u8) = tm_mon t"
    using assms by (simp_all add: u8_of_int)
  have y: "sint (word_of_int (tm_year t) - 1990 :: u32) = tm_year t - 1990" using assms(7,8) by (simp add: year_of_int)
  have 1: "settime i2c argv t = (Some (i2c (time_regs ?t1), [time_regs ?t1]), ?t1)" "tm_min ?t1 = atoi (argv ! 1)" "tm_hour ?t1 = atoi (argv ! 2)"
    "tm_year ?t1 = tm_year t - 1990"
    using assms by (simp_all add: settime_def RTC_SetDateTime_def RTC_GetTimeDate_def RTC_SetTimeDate_def Let_def u [unfolded One_nat_def] y)
  have y2: "sint (word_of_int (tm_year ?t1) - 1990 :: u32) = tm_year t - 3980" 
    using year_of_int [of "tm_year ?t1"] assms(7,8) unfolding 1(4) by simp
  then have "settime i2c argv' ?t1 = (Some (- 1, []), snd (settime i2c argv' ?t1))" "tm_year (snd (settime i2c argv' ?t1)) = tm_year t - 3980"
    using assms(8,10) RTC_SetDateTime_year [where ye = "word_of_int (tm_year ?t1)"] by (simp_all add: settime_def split_def)
  with 1 show ?thesis by blast
qed

section \<open>Witnesses\<close>

definition console0 :: shell where
  "console0 = \<lparr>shell_cmdline = replicate 256 0, shell_cmdline_pos = 0, isPwdMode = False, shell_cmd_table = cmd_table\<rparr>"

lemma console0: "shell_ok console0" "shell_line console0 = []" "shell_cmd_table console0 = cmd_table"
  by (simp_all add: console0_def shell_ok_def shell_line_def SHELL_CMDLINE_SIZE_def)

text \<open>The line \<open>tag 3\<close>, with a key struck by mistake.\<close>

lemma Console_names_tag_witness:
  "\<exists>s1 s2 argv w'. push_keys (chars ''tag 4'' @ [8] @ chars ''3'' @ [0x0D]) console0 = Some s1
    \<and> shell_exec s1 = Some (SHELL_CMD_ERR_NONE, Some argv, s2) \<and> console_call (\<lambda>_. 0) True [] argv pc0 = Some w'
    \<and> field (tag_off 3 + 32) 9 (sCfg w') = chars ''SET_NAME'' @ [0]"
proof -
  have w: "words (foldl edit [] (chars ''tag 4'' @ [8] @ chars ''3'')) = [chars ''tag'', chars ''3'']"
    by (simp add: edit_def words_def)
  have a: "atoi (chars ''3'') = 3" by (simp add: atoi_def is_blank_def)
  show ?thesis
    using Console_names_tag [OF console0 _ _ w, of pc0 "\<lambda>_. 0" True "[]"] a pc0(3) by fastforce
qed

lemma Console_settime_loses_year_witness:
  "\<exists>t1. settime (\<lambda>_. 0) [chars ''settime'', chars ''30'', chars ''12''] \<lparr>tm_sec = 0, tm_min = 0, tm_hour = 0, tm_mday = 1, tm_mon = 1,
     tm_year = 2018, tm_wday = 1\<rparr> = (Some (0, [time_regs t1]), t1) \<and> tm_year t1 = 28"
proof -
  have a: "atoi (chars ''30'') = 30" "atoi (chars ''12'') = 12" by (simp_all add: atoi_def is_blank_def)
  let ?v = "[chars ''settime'', chars ''30'', chars ''12'']"
  from Console_settime_loses_year [of "\<lparr>tm_sec = 0, tm_min = 0, tm_hour = 0, tm_mday = 1, tm_mon = 1, tm_year = 2018, tm_wday = 1\<rparr>" ?v ?v "\<lambda>_. 0"]
  show ?thesis using a by auto
qed

end
